(* ===== verification/Auths_Prelude.thy ===== *)
theory Auths_Prelude
  imports Main "HOL-Library.Word" "HOL-Library.Sublist"
begin

text \<open>
  Shared vocabulary of the development: the machine integers and byte strings of the Rust
  sources, the \<open>Result\<close> type, Rust's checked and saturating integer operations, the loops over
  slices that several crates write in the same shape, and the interfaces (locales) that more
  than one component implements.
\<close>

section \<open>Types and results\<close>

type_synonym u8 = "8 word"
type_synonym u16 = "16 word"
type_synonym u32 = "32 word"
type_synonym u64 = "64 word"
type_synonym u128 = "128 word"
type_synonym usize = "64 word"
type_synonym bytes = "u8 list"

text \<open>A Rust \<open>Result<T, E>\<close> is the sum \<open>'e + 'a\<close>: \<open>Err\<close> is the left injection.\<close>

type_synonym ('a, 'e) result = "'e + 'a"

abbreviation Err :: "'e \<Rightarrow> ('a, 'e) result" where "Err \<equiv> Inl"
abbreviation Ok :: "'a \<Rightarrow> ('a, 'e) result" where "Ok \<equiv> Inr"

text \<open>The \<open>?\<close> operator, \<open>Option::ok_or\<close> and \<open>Result::map_err\<close>.\<close>

definition and_then :: "('a, 'e) result \<Rightarrow> ('a \<Rightarrow> ('b, 'e) result) \<Rightarrow> ('b, 'e) result" where
  "and_then r f = (case r of Inl e \<Rightarrow> Inl e | Inr x \<Rightarrow> f x)"

definition ok_or :: "'a option \<Rightarrow> 'e \<Rightarrow> ('a, 'e) result" where
  "ok_or x e = (case x of None \<Rightarrow> Inl e | Some v \<Rightarrow> Inr v)"

named_theorems result_simps \<open>equations that evaluate result combinators\<close>

lemma and_then_simps [simp, result_simps]:
  "and_then (Inl e) f = Inl e" "and_then (Inr x) f = f x"
  by (simp_all add: and_then_def)

lemma and_then_Inr_iff [result_simps]:
  "and_then r f = Inr y \<longleftrightarrow> (\<exists>x. r = Inr x \<and> f x = Inr y)"
  by (cases r) auto

lemma and_then_pair_iff:
  "and_then r (\<lambda>(a, b). f a b) = Inr y \<longleftrightarrow> (\<exists>a b. r = Inr (a, b) \<and> f a b = Inr y)"
  by (cases r) auto

lemma and_then_Inl_iff [result_simps]:
  "and_then r f = Inl e \<longleftrightarrow> r = Inl e \<or> (\<exists>x. r = Inr x \<and> f x = Inl e)"
  by (cases r) auto

lemma ok_or_simps [simp, result_simps]:
  "ok_or None e = Inl e" "ok_or (Some v) e = Inr v"
  by (simp_all add: ok_or_def)

lemma ok_or_Inr_iff [simp, result_simps]: "ok_or x e = Inr v \<longleftrightarrow> x = Some v"
  by (cases x) auto

lemma ok_or_Inl_iff [simp, result_simps]: "ok_or x e = Inl e' \<longleftrightarrow> x = None \<and> e' = e"
  by (cases x) auto

section \<open>Checked and saturating integers\<close>

definition checked_add :: "'a::len word \<Rightarrow> 'a word \<Rightarrow> 'a word option" where
  "checked_add a b = (if uint a + uint b < 2 ^ LENGTH('a) then Some (a + b) else None)"

definition checked_sub :: "'a::len word \<Rightarrow> 'a word \<Rightarrow> 'a word option" where
  "checked_sub a b = (if b \<le> a then Some (a - b) else None)"

definition checked_mul :: "'a::len word \<Rightarrow> 'a word \<Rightarrow> 'a word option" where
  "checked_mul a b = (if uint a * uint b < 2 ^ LENGTH('a) then Some (a * b) else None)"

definition checked_div :: "'a::len word \<Rightarrow> 'a word \<Rightarrow> 'a word option" where
  "checked_div a b = (if b = 0 then None else Some (a div b))"

definition saturating_add :: "'a::len word \<Rightarrow> 'a word \<Rightarrow> 'a word" where
  "saturating_add a b = (if uint a + uint b < 2 ^ LENGTH('a) then a + b else - 1)"

definition saturating_sub :: "'a::len word \<Rightarrow> 'a word \<Rightarrow> 'a word" where
  "saturating_sub a b = (if b \<le> a then a - b else 0)"

lemma uint_fits_iff:
  "uint a + uint b < 2 ^ LENGTH('a) \<longleftrightarrow> unat a + unat b < 2 ^ LENGTH('a)"
  "uint a * uint b < 2 ^ LENGTH('a) \<longleftrightarrow> unat a * unat b < 2 ^ LENGTH('a)"
  for a b :: "'a::len word"
proof -
  have power: "(2 :: int) ^ LENGTH('a) = int (2 ^ LENGTH('a))" by simp
  show "uint a + uint b < 2 ^ LENGTH('a) \<longleftrightarrow> unat a + unat b < 2 ^ LENGTH('a)"
    unfolding uint_nat power of_nat_add [symmetric] of_nat_less_iff ..
  show "uint a * uint b < 2 ^ LENGTH('a) \<longleftrightarrow> unat a * unat b < 2 ^ LENGTH('a)"
    unfolding uint_nat power of_nat_mult [symmetric] of_nat_less_iff ..
qed

named_theorems checked_simps \<open>what the checked operations return, in \<open>nat\<close>\<close>

lemma checked_add_Some_iff [checked_simps]:
  "checked_add a b = Some c \<longleftrightarrow> unat c = unat a + unat b"
proof
  assume "checked_add a b = Some c"
  then show "unat c = unat a + unat b"
    by (auto simp: checked_add_def uint_fits_iff unat_word_ariths split: if_splits)
next
  assume eq: "unat c = unat a + unat b"
  then have "unat a + unat b < 2 ^ LENGTH('a)"
    by (metis unsigned_less)
  moreover from this have "unat (a + b) = unat c"
    using eq by (simp add: unat_word_ariths)
  ultimately show "checked_add a b = Some c"
    by (simp add: checked_add_def uint_fits_iff word_unat_eq_iff)
qed

lemma checked_add_None_iff [checked_simps]:
  "checked_add (a :: 'a::len word) b = None \<longleftrightarrow> 2 ^ LENGTH('a) \<le> unat a + unat b"
  by (auto simp: checked_add_def uint_fits_iff)

lemma checked_sub_Some_iff [checked_simps]:
  "checked_sub a b = Some c \<longleftrightarrow> unat b \<le> unat a \<and> unat c = unat a - unat b"
  by (auto simp: checked_sub_def word_le_nat_alt unat_sub word_unat_eq_iff)

lemma checked_sub_None_iff [checked_simps]: "checked_sub a b = None \<longleftrightarrow> unat a < unat b"
  by (auto simp: checked_sub_def word_le_nat_alt)

lemma checked_mul_Some_iff [checked_simps]:
  "checked_mul a b = Some c \<longleftrightarrow> unat c = unat a * unat b"
proof
  assume "checked_mul a b = Some c"
  then show "unat c = unat a * unat b"
    by (auto simp: checked_mul_def uint_fits_iff unat_word_ariths split: if_splits)
next
  assume eq: "unat c = unat a * unat b"
  then have "unat a * unat b < 2 ^ LENGTH('a)"
    by (metis unsigned_less)
  moreover from this have "unat (a * b) = unat c"
    using eq by (simp add: unat_word_ariths)
  ultimately show "checked_mul a b = Some c"
    by (simp add: checked_mul_def uint_fits_iff word_unat_eq_iff)
qed

lemma checked_mul_None_iff [checked_simps]:
  "checked_mul (a :: 'a::len word) b = None \<longleftrightarrow> 2 ^ LENGTH('a) \<le> unat a * unat b"
  by (auto simp: checked_mul_def uint_fits_iff)

lemma checked_div_Some_iff [checked_simps]:
  "checked_div a b = Some c \<longleftrightarrow> b \<noteq> 0 \<and> unat c = unat a div unat b"
  by (auto simp: checked_div_def unat_div word_unat_eq_iff)

lemma checked_div_None_iff [checked_simps]: "checked_div a b = None \<longleftrightarrow> b = 0"
  by (simp add: checked_div_def)

lemma unat_saturating_add:
  "unat (saturating_add (a :: 'a::len word) b) = min (unat a + unat b) (2 ^ LENGTH('a) - 1)"
  by (auto simp: saturating_add_def uint_fits_iff unat_word_ariths unsigned_minus_1_eq_mask mask_eq_exp_minus_1)

lemma unat_saturating_sub: "unat (saturating_sub a b) = unat a - unat b"
  by (auto simp: saturating_sub_def word_le_nat_alt unat_sub)

text \<open>Widening casts (\<open>as u128\<close>, \<open>usize::from\<close>) keep the value.\<close>

lemma unat_ucast_widen:
  "LENGTH('a) \<le> LENGTH('b) \<Longrightarrow> unat (ucast (w :: 'a::len word) :: 'b::len word) = unat w"
proof -
  assume le: "LENGTH('a) \<le> LENGTH('b)"
  have "unat w < 2 ^ LENGTH('a)" by (rule unsigned_less)
  also have "(2::nat) ^ LENGTH('a) \<le> 2 ^ LENGTH('b)" using le by simp
  finally show ?thesis by (simp add: unsigned_ucast_eq take_bit_nat_eq_self)
qed

section \<open>Slices\<close>

text \<open>
  Byte comparison as the translated kernels write it: an index loop over the common prefix
  after a length test.
\<close>

fun bytes_agree :: "bytes \<Rightarrow> bytes \<Rightarrow> bool" where
  "bytes_agree (x # xs) (y # ys) = (if x \<noteq> y then False else bytes_agree xs ys)"
| "bytes_agree _ _ = True"

lemma bytes_agree_eq: "length xs = length ys \<Longrightarrow> bytes_agree xs ys \<longleftrightarrow> xs = ys"
  by (induction xs ys rule: bytes_agree.induct) auto

text \<open>The bytes of an ASCII literal, and \<open>to_be_bytes\<close> of a 64-bit integer.\<close>

definition ascii :: "string \<Rightarrow> bytes" where
  "ascii = map of_char"

definition be_bytes :: "u64 \<Rightarrow> bytes" where
  "be_bytes w = map (\<lambda>i. ucast (drop_bit (8 * i) w)) [7, 6, 5, 4, 3, 2, 1, 0]"

lemma length_be_bytes [simp]: "length (be_bytes w) = 8"
  by (simp add: be_bytes_def)

lemma be_bytes_inject [simp]: "be_bytes v = be_bytes w \<longleftrightarrow> v = w"
proof
  assume eq: "be_bytes v = be_bytes w"
  have byte: "ucast (drop_bit (8 * i) v) = (ucast (drop_bit (8 * i) w) :: u8)" if "i < 8" for i
  proof -
    have "i \<in> set [7, 6, 5, 4, 3, 2, 1, 0]" using that by (simp, arith)
    with eq show ?thesis unfolding be_bytes_def map_eq_conv by blast
  qed
  show "v = w"
  proof (rule bit_word_eqI)
    fix n assume n: "n < LENGTH(64)"
    then have "n div 8 < 8" by simp
    then have "bit (ucast (drop_bit (8 * (n div 8)) v) :: u8) (n mod 8)
        = bit (ucast (drop_bit (8 * (n div 8)) w) :: u8) (n mod 8)"
      by (simp only: byte)
    then show "bit v n = bit w n" by (simp add: bit_simps)
  qed
qed simp

text \<open>A byte field that is set at most once.\<close>

definition once_set :: "'a list \<Rightarrow> 'a list \<Rightarrow> bool" where
  "once_set old new \<longleftrightarrow> old = [] \<or> new = old"

lemma once_set_refl [simp]: "once_set xs xs"
  by (simp add: once_set_def)

lemma once_set_trans: "once_set xs ys \<Longrightarrow> once_set ys zs \<Longrightarrow> once_set xs zs"
  by (auto simp: once_set_def)

section \<open>Runs of a step relation\<close>

text \<open>A run of a step relation from a state: the list of the states it visits.\<close>

fun chain :: "('s \<Rightarrow> 's \<Rightarrow> bool) \<Rightarrow> 's \<Rightarrow> 's list \<Rightarrow> bool" where
  "chain step s [] = True"
| "chain step s (t # ts) = (step s t \<and> chain step t ts)"

text \<open>
  The interface of a component that only moves forward: an invariant its steps keep and a rank
  they decrease. Every run is then finite and never visits two states of one rank.
\<close>

locale forward_steps =
  fixes step :: "'s \<Rightarrow> 's \<Rightarrow> bool"
    and inv :: "'s \<Rightarrow> bool"
    and rank :: "'s \<Rightarrow> nat"
  assumes inv_step: "inv s \<Longrightarrow> step s t \<Longrightarrow> inv t"
    and rank_step: "inv s \<Longrightarrow> step s t \<Longrightarrow> rank t < rank s"
begin

lemma chain_inv: "inv s \<Longrightarrow> chain step s ts \<Longrightarrow> t \<in> set ts \<Longrightarrow> inv t"
  by (induction ts arbitrary: s) (auto intro: inv_step)

lemma chain_rank_less: "inv s \<Longrightarrow> chain step s ts \<Longrightarrow> t \<in> set ts \<Longrightarrow> rank t < rank s"
  by (induction ts arbitrary: s) (auto intro: inv_step dest: rank_step less_trans)

lemma chain_length: "inv s \<Longrightarrow> chain step s ts \<Longrightarrow> length ts \<le> rank s"
proof (induction ts arbitrary: s)
  case (Cons t ts)
  then have "length ts \<le> rank t" by (auto intro: inv_step)
  moreover have "rank t < rank s" using Cons.prems by (auto intro: rank_step)
  ultimately show ?case by simp
qed simp

lemma chain_ranks_distinct: "inv s \<Longrightarrow> chain step s ts \<Longrightarrow> distinct (map rank (s # ts))"
proof (induction ts arbitrary: s)
  case (Cons t ts)
  then have "distinct (map rank (t # ts))" by (auto intro: inv_step)
  moreover have "\<forall>u \<in> set (t # ts). rank u < rank s"
    using Cons.prems chain_rank_less by blast
  ultimately show ?case by force
qed simp

lemma chain_visits_rank_once:
  assumes "inv s" and "chain step s ts"
  shows "length (filter (\<lambda>u. rank u = n) (s # ts)) \<le> 1"
proof -
  let ?visits = "map rank (filter (\<lambda>u. rank u = n) (s # ts))"
  have "distinct ?visits"
    using chain_ranks_distinct [OF assms] by (rule distinct_map_filter)
  then have "length ?visits = card (set ?visits)" by (simp only: distinct_card)
  also have "\<dots> \<le> card {n}" by (rule card_mono) auto
  finally show ?thesis by simp
qed

end

text \<open>
  The interface of a component that keeps its history: a reflexive and transitive relation that
  every step from a good state establishes, and hence every run.
\<close>

locale kept_history =
  fixes step :: "'s \<Rightarrow> 's \<Rightarrow> bool"
    and keep :: "'s \<Rightarrow> 's \<Rightarrow> bool"
  assumes keep_refl: "keep s s"
    and keep_trans: "keep s t \<Longrightarrow> keep t u \<Longrightarrow> keep s u"
    and keep_step: "step s t \<Longrightarrow> keep s t"
begin

lemma chain_keep: "chain step s ts \<Longrightarrow> t \<in> set ts \<Longrightarrow> keep s t"
  by (induction ts arbitrary: s) (auto intro: keep_step keep_trans)

end

end
