(* ===== verification/Algebra_Kernel.thy ===== *)
theory Algebra_Kernel
  imports Auths_Prelude
begin

text \<open>
  The attenuation and threshold algebra of \<open>core/crates/auths-algebra-kernel\<close>: the three-valued
  truth, the conjunction over the eleven attenuation dimensions, the trust-root linkage, and the
  threshold classifier that plan composition and approval quorums share.
\<close>

section \<open>Truth values and thresholds\<close>

datatype truth = Denied | Indeterminate | Authorized

text \<open>The derived \<open>Ord\<close> follows the declaration order.\<close>

fun truth_rank :: "truth \<Rightarrow> nat" where
  "truth_rank Denied = 0"
| "truth_rank Indeterminate = 1"
| "truth_rank Authorized = 2"

lemma truth_rank_inject: "truth_rank a = truth_rank b \<longleftrightarrow> a = b"
  by (cases a; cases b) auto

instantiation truth :: linorder
begin

definition less_eq_truth :: "truth \<Rightarrow> truth \<Rightarrow> bool" where
  "less_eq_truth a b \<longleftrightarrow> truth_rank a \<le> truth_rank b"

definition less_truth :: "truth \<Rightarrow> truth \<Rightarrow> bool" where
  "less_truth a b \<longleftrightarrow> truth_rank a < truth_rank b"

instance
  by standard (auto simp: less_eq_truth_def less_truth_def truth_rank_inject)

end

definition threshold_counts :: "u16 \<Rightarrow> usize \<Rightarrow> usize \<Rightarrow> truth" where
  "threshold_counts required authorized indeterminate =
     (let required = ucast required :: usize
      in if required \<le> authorized then Authorized
         else if required \<le> saturating_add authorized indeterminate then Indeterminate
         else Denied)"

section \<open>Attenuation\<close>

record attenuation_checks =
  root_preserved_check :: bool
  depth_decreases_check :: bool
  profile_attenuates_check :: bool
  permissions_attenuate_check :: bool
  validity_attenuates_check :: bool
  audiences_attenuate_check :: bool
  action_constraint_attenuates_check :: bool
  budget_attenuates_check :: bool
  status_attenuates_check :: bool
  assurance_attenuates_check :: bool
  extensions_attenuate_check :: bool

text \<open>The projection trait, as the dictionary of its eleven methods.\<close>

record 'p attenuation_projection =
  p_root_preserved :: "'p \<Rightarrow> bool"
  p_depth_decreases :: "'p \<Rightarrow> bool"
  p_profile_attenuates :: "'p \<Rightarrow> bool"
  p_permissions_attenuate :: "'p \<Rightarrow> bool"
  p_validity_attenuates :: "'p \<Rightarrow> bool"
  p_audiences_attenuate :: "'p \<Rightarrow> bool"
  p_action_constraint_attenuates :: "'p \<Rightarrow> bool"
  p_budget_attenuates :: "'p \<Rightarrow> bool"
  p_status_attenuates :: "'p \<Rightarrow> bool"
  p_assurance_attenuates :: "'p \<Rightarrow> bool"
  p_extensions_attenuate :: "'p \<Rightarrow> bool"

definition checks_projection :: "attenuation_checks attenuation_projection" where
  "checks_projection = \<lparr>
     p_root_preserved = root_preserved_check,
     p_depth_decreases = depth_decreases_check,
     p_profile_attenuates = profile_attenuates_check,
     p_permissions_attenuate = permissions_attenuate_check,
     p_validity_attenuates = validity_attenuates_check,
     p_audiences_attenuate = audiences_attenuate_check,
     p_action_constraint_attenuates = action_constraint_attenuates_check,
     p_budget_attenuates = budget_attenuates_check,
     p_status_attenuates = status_attenuates_check,
     p_assurance_attenuates = assurance_attenuates_check,
     p_extensions_attenuate = extensions_attenuate_check \<rparr>"

definition attenuation_accepts :: "'p attenuation_projection \<Rightarrow> 'p \<Rightarrow> bool" where
  "attenuation_accepts impl projection \<longleftrightarrow>
     p_root_preserved impl projection
     \<and> p_depth_decreases impl projection
     \<and> p_profile_attenuates impl projection
     \<and> p_permissions_attenuate impl projection
     \<and> p_validity_attenuates impl projection
     \<and> p_audiences_attenuate impl projection
     \<and> p_action_constraint_attenuates impl projection
     \<and> p_budget_attenuates impl projection
     \<and> p_status_attenuates impl projection
     \<and> p_assurance_attenuates impl projection
     \<and> p_extensions_attenuate impl projection"

definition attenuation_checks_accept :: "attenuation_checks \<Rightarrow> bool" where
  "attenuation_checks_accept checks \<longleftrightarrow>
     root_preserved_check checks
     \<and> depth_decreases_check checks
     \<and> profile_attenuates_check checks
     \<and> permissions_attenuate_check checks
     \<and> validity_attenuates_check checks
     \<and> audiences_attenuate_check checks
     \<and> action_constraint_attenuates_check checks
     \<and> budget_attenuates_check checks
     \<and> status_attenuates_check checks
     \<and> assurance_attenuates_check checks
     \<and> extensions_attenuate_check checks"

text \<open>The chain-linkage facts of one delegation edge, over an abstract identity type.\<close>

record 'i root_linkage =
  parent_root :: 'i
  parent_subject :: 'i
  parent_delegated :: bool
  grant_issuer :: 'i

definition root_preserved :: "'i root_linkage \<Rightarrow> bool" where
  "root_preserved linkage \<longleftrightarrow>
     (parent_delegated linkage \<or> parent_root linkage = parent_subject linkage)
     \<and> grant_issuer linkage = parent_subject linkage"

section \<open>Facts\<close>

lemma ucast_u16_le_usize: "(ucast (k :: u16) :: usize) \<le> a \<longleftrightarrow> unat k \<le> unat a"
  by (simp add: word_le_nat_alt unat_ucast_widen)

lemma unat_u16_bound: "unat (k :: u16) < 65536"
  using unsigned_less [of k] by simp

lemma threshold_counts_cases:
  "threshold_counts k a i =
     (if unat k \<le> unat a then Authorized
      else if unat k \<le> unat a + unat i then Indeterminate else Denied)"
proof -
  have "unat k \<le> min (unat a + unat i) (2 ^ 64 - 1) \<longleftrightarrow> unat k \<le> unat a + unat i"
    using unat_u16_bound [of k] by auto
  then show ?thesis
    by (simp add: threshold_counts_def Let_def ucast_u16_le_usize unat_saturating_add)
qed

lemma attenuation_accepts_checks:
  "attenuation_accepts checks_projection checks = attenuation_checks_accept checks"
  by (simp add: attenuation_accepts_def checks_projection_def attenuation_checks_accept_def)

end
