(* ===== verification/Policy_Kernel.thy ===== *)
theory Policy_Kernel
  imports Auths_Prelude
begin

text \<open>
  The bounded-policy kernel, \<open>product/policy/auths-bounded-policy/src/kernel.rs\<close>, and the exact
  arithmetic of \<open>arithmetic.rs\<close>: the configuration gate, ceilings and window counts, the checks a
  chain of counters passes, and the decider that a delegated policy only narrows its parent's.
  What narrowing means is stated as an interface (\<open>attenuation\<close>): a reflexive and transitive
  relation under which whatever the child admits, the parent admits too.
\<close>

section \<open>The configuration gate\<close>

datatype configuration_match_code =
    CodeMatch | CodeSemanticMismatch | CodeCanonicalizationMismatch | CodeDigestMismatch
  | CodeImplementationMismatch

definition configuration_match_code :: "bool \<Rightarrow> bool \<Rightarrow> bool \<Rightarrow> bool \<Rightarrow> configuration_match_code" where
  "configuration_match_code semantic_equal canonicalization_equal digest_equal
     implementation_equal_or_unpinned =
     (if \<not> semantic_equal then CodeSemanticMismatch
      else if \<not> canonicalization_equal then CodeCanonicalizationMismatch
      else if \<not> digest_equal then CodeDigestMismatch
      else if \<not> implementation_equal_or_unpinned then CodeImplementationMismatch
      else CodeMatch)"

section \<open>Checked amounts\<close>

definition checked_add_u64 :: "u64 \<Rightarrow> u64 \<Rightarrow> u64 option" where
  "checked_add_u64 left right = checked_add left right"

definition checked_sub_u64 :: "u64 \<Rightarrow> u64 \<Rightarrow> u64 option" where
  "checked_sub_u64 left right = checked_sub left right"

definition checked_mul_u64 :: "u64 \<Rightarrow> u64 \<Rightarrow> u64 option" where
  "checked_mul_u64 left right = checked_mul left right"

definition checked_div_u64 :: "u64 \<Rightarrow> u64 \<Rightarrow> u64 option" where
  "checked_div_u64 left right = checked_div left right"

record unit_quantity =
  uq_unit :: bytes
  uq_amount :: u64

datatype arithmetic_error =
  Overflow | Underflow | DivisionByZero | IncompatibleUnit | BasisPointsOutOfRange

definition ensure_same_unit :: "unit_quantity \<Rightarrow> unit_quantity \<Rightarrow> (unit, arithmetic_error) result" where
  "ensure_same_unit q right = (if uq_unit q = uq_unit right then Ok () else Err IncompatibleUnit)"

definition quantity_checked_add ::
  "unit_quantity \<Rightarrow> unit_quantity \<Rightarrow> (unit_quantity, arithmetic_error) result" where
  "quantity_checked_add q right =
     and_then (ensure_same_unit q right) (\<lambda>_.
     and_then (ok_or (checked_add_u64 (uq_amount q) (uq_amount right)) Overflow) (\<lambda>amount.
       Ok \<lparr> uq_unit = uq_unit q, uq_amount = amount \<rparr>))"

definition quantity_checked_sub ::
  "unit_quantity \<Rightarrow> unit_quantity \<Rightarrow> (unit_quantity, arithmetic_error) result" where
  "quantity_checked_sub q right =
     and_then (ensure_same_unit q right) (\<lambda>_.
     and_then (ok_or (checked_sub_u64 (uq_amount q) (uq_amount right)) Underflow) (\<lambda>amount.
       Ok \<lparr> uq_unit = uq_unit q, uq_amount = amount \<rparr>))"

definition quantity_checked_mul :: "unit_quantity \<Rightarrow> u64 \<Rightarrow> (unit_quantity, arithmetic_error) result" where
  "quantity_checked_mul q scalar =
     and_then (ok_or (checked_mul_u64 (uq_amount q) scalar) Overflow) (\<lambda>amount.
       Ok \<lparr> uq_unit = uq_unit q, uq_amount = amount \<rparr>)"

definition quantity_checked_div :: "unit_quantity \<Rightarrow> u64 \<Rightarrow> (unit_quantity, arithmetic_error) result" where
  "quantity_checked_div q scalar =
     and_then (ok_or (checked_div_u64 (uq_amount q) scalar) DivisionByZero) (\<lambda>amount.
       Ok \<lparr> uq_unit = uq_unit q, uq_amount = amount \<rparr>)"

text \<open>\<open>BasisPoints\<close> is its \<open>u16\<close>, which its constructor keeps at most 10\,000.\<close>

definition basis_points_new :: "u16 \<Rightarrow> (u16, arithmetic_error) result" where
  "basis_points_new v = (if v \<le> 10000 then Ok v else Err BasisPointsOutOfRange)"

datatype rounding_direction = RoundDown | RoundUp

definition checked_basis_points ::
  "u64 \<Rightarrow> u16 \<Rightarrow> rounding_direction \<Rightarrow> (u64, arithmetic_error) result" where
  "checked_basis_points denominator basis rounding =
     and_then (ok_or (checked_mul (ucast denominator :: u128) (ucast basis)) Overflow) (\<lambda>numerator.
       let divisor = (10000 :: u128);
           quotient = numerator div divisor;
           remainder = numerator mod divisor
       in and_then
            (case rounding of
               RoundUp \<Rightarrow> if remainder > 0 then ok_or (checked_add quotient 1) Overflow else Ok quotient
             | RoundDown \<Rightarrow> Ok quotient)
            (\<lambda>rounded. if uint rounded < 2 ^ 64 then Ok (ucast rounded) else Err Overflow))"

section \<open>Ceilings, windows and counters\<close>

datatype ceiling_count_code = CeilingEligible | CeilingAboveCeiling | CeilingWindowExhausted

definition ceiling_count_code :: "u64 \<Rightarrow> u64 \<Rightarrow> u64 \<Rightarrow> u64 \<Rightarrow> ceiling_count_code" where
  "ceiling_count_code v ceiling count max_count =
     (if v > ceiling then CeilingAboveCeiling
      else if count \<ge> max_count then CeilingWindowExhausted
      else CeilingEligible)"

definition ceiling_count_tightens :: "u64 \<Rightarrow> u64 \<Rightarrow> u64 \<Rightarrow> u64 \<Rightarrow> u64 \<Rightarrow> u64 \<Rightarrow> bool" where
  "ceiling_count_tightens child_ceiling child_max_count child_window
     parent_ceiling parent_max_count parent_window =
     (if child_window \<noteq> parent_window then False
      else if child_ceiling > parent_ceiling then False
      else child_max_count \<le> parent_max_count)"

definition window_index :: "u64 \<Rightarrow> u64 \<Rightarrow> u64 option" where
  "window_index now window_seconds = checked_div now window_seconds"

fun counts_admit_from :: "u64 list \<Rightarrow> u64 list \<Rightarrow> bool" where
  "counts_admit_from (count # counts) (capacity # capacities) =
     (if count \<ge> capacity then False else counts_admit_from counts capacities)"
| "counts_admit_from _ _ = True"

definition chain_counts_admit :: "u64 list \<Rightarrow> u64 list \<Rightarrow> bool" where
  "chain_counts_admit counts capacities =
     (if length counts \<noteq> length capacities then False else counts_admit_from counts capacities)"

fun sums_admit_from :: "u64 list \<Rightarrow> u64 \<Rightarrow> u64 list \<Rightarrow> bool" where
  "sums_admit_from (used # sums) argument (capacity # capacities) =
     (case checked_add used argument of
        None \<Rightarrow> False
      | Some whole \<Rightarrow> if whole > capacity then False else sums_admit_from sums argument capacities)"
| "sums_admit_from _ _ _ = True"

definition chain_sums_admit :: "u64 list \<Rightarrow> u64 \<Rightarrow> u64 list \<Rightarrow> bool" where
  "chain_sums_admit sums argument capacities =
     (if length sums \<noteq> length capacities then False else sums_admit_from sums argument capacities)"

section \<open>The tightening decider\<close>

record value_list =
  vl_argument :: bytes
  vl_values :: "bytes list"

record sum_bound =
  sb_limit :: u64
  sb_partition :: "value_list option"

record policy_members =
  pm_argument :: bytes
  pm_ceiling :: u64
  pm_window :: u64
  pm_max_count :: u64
  pm_sum :: "sum_bound option"
  pm_scope :: "value_list option"

definition bytes_equal :: "bytes \<Rightarrow> bytes \<Rightarrow> bool" where
  "bytes_equal left right = (if length left \<noteq> length right then False else bytes_agree left right)"

fun values_contain :: "bytes list \<Rightarrow> bytes \<Rightarrow> bool" where
  "values_contain [] v = False"
| "values_contain (x # xs) v = (if bytes_equal x v then True else values_contain xs v)"

fun values_subset :: "bytes list \<Rightarrow> bytes list \<Rightarrow> bool" where
  "values_subset [] parent = True"
| "values_subset (x # child) parent =
     (if \<not> values_contain parent x then False else values_subset child parent)"

definition values_narrow :: "value_list \<Rightarrow> value_list \<Rightarrow> bool" where
  "values_narrow child parent \<longleftrightarrow>
     bytes_equal (vl_argument child) (vl_argument parent)
     \<and> values_subset (vl_values child) (vl_values parent)"

definition partition_narrows :: "value_list option \<Rightarrow> value_list option \<Rightarrow> bool" where
  "partition_narrows child parent =
     (case parent of
        None \<Rightarrow> (case child of None \<Rightarrow> True | Some _ \<Rightarrow> False)
      | Some p \<Rightarrow> (case child of None \<Rightarrow> False | Some c \<Rightarrow> values_narrow c p))"

definition sum_tightens :: "sum_bound option \<Rightarrow> sum_bound option \<Rightarrow> bool" where
  "sum_tightens child parent =
     (case parent of
        None \<Rightarrow> True
      | Some p \<Rightarrow>
          (case child of
             None \<Rightarrow> False
           | Some c \<Rightarrow>
               sb_limit c \<le> sb_limit p \<and> partition_narrows (sb_partition c) (sb_partition p)))"

definition scope_tightens :: "value_list option \<Rightarrow> value_list option \<Rightarrow> bool" where
  "scope_tightens child parent =
     (case parent of
        None \<Rightarrow> True
      | Some p \<Rightarrow> (case child of None \<Rightarrow> False | Some c \<Rightarrow> values_narrow c p))"

definition argument_policy_tightens :: "policy_members \<Rightarrow> policy_members \<Rightarrow> bool" where
  "argument_policy_tightens child parent =
     (if \<not> bytes_equal (pm_argument child) (pm_argument parent) then False
      else if \<not> ceiling_count_tightens (pm_ceiling child) (pm_max_count child) (pm_window child)
                  (pm_ceiling parent) (pm_max_count parent) (pm_window parent) then False
      else if \<not> sum_tightens (pm_sum child) (pm_sum parent) then False
      else scope_tightens (pm_scope child) (pm_scope parent))"

section \<open>What narrowing promises\<close>

text \<open>
  The interface of an attenuation: reflexive, transitive, and sound for the meaning \<open>admits\<close>. Along
  a delegation chain, root first, an action the last link admits is then admitted by every link,
  and the last link narrows each of them.
\<close>

locale attenuation =
  fixes tightens :: "'p \<Rightarrow> 'p \<Rightarrow> bool"
    and admits :: "'p \<Rightarrow> 'a \<Rightarrow> bool"
  assumes tightens_refl: "tightens p p"
    and tightens_trans: "tightens p q \<Longrightarrow> tightens q r \<Longrightarrow> tightens p r"
    and tightens_sound: "tightens child parent \<Longrightarrow> admits child a \<Longrightarrow> admits parent a"
begin

lemma chain_last_tightens:
  "successively (\<lambda>parent child. tightens child parent) ps \<Longrightarrow> p \<in> set ps \<Longrightarrow> tightens (last ps) p"
proof (induction ps arbitrary: p)
  case (Cons q ps)
  show ?case
  proof (cases ps)
    case Nil
    then show ?thesis using Cons.prems by (simp add: tightens_refl)
  next
    case inner: (Cons r rs)
    then have step: "tightens r q" and rest: "successively (\<lambda>parent child. tightens child parent) ps"
      using Cons.prems by simp_all
    have "tightens (last ps) x" if "x \<in> set ps" for x using Cons.IH rest that by simp
    moreover from this have "tightens (last ps) q" using step inner by (metis list.set_intros(1) tightens_trans)
    ultimately show ?thesis using Cons.prems(2) inner by auto
  qed
qed simp

lemma chain_admits:
  "successively (\<lambda>parent child. tightens child parent) ps \<Longrightarrow> ps \<noteq> [] \<Longrightarrow> admits (last ps) a \<Longrightarrow>
     p \<in> set ps \<Longrightarrow> admits p a"
  using chain_last_tightens tightens_sound by blast

end

section \<open>Facts about the kernel\<close>

lemma bytes_equal_iff [simp]: "bytes_equal xs ys \<longleftrightarrow> xs = ys"
  by (auto simp: bytes_equal_def bytes_agree_eq)

lemma values_contain_iff [simp]: "values_contain xs v \<longleftrightarrow> v \<in> set xs"
  by (induction xs) auto

lemma values_subset_iff [simp]: "values_subset xs ys \<longleftrightarrow> set xs \<subseteq> set ys"
  by (induction xs) auto

lemma values_narrow_iff [simp]:
  "values_narrow c p \<longleftrightarrow> vl_argument c = vl_argument p \<and> set (vl_values c) \<subseteq> set (vl_values p)"
  by (simp add: values_narrow_def)

lemma counts_admit_iff:
  "chain_counts_admit counts capacities \<longleftrightarrow> list_all2 (\<lambda>count capacity. count < capacity) counts capacities"
proof -
  have "counts_admit_from counts capacities \<longleftrightarrow> list_all2 (\<lambda>count capacity. count < capacity) counts capacities"
    if "length counts = length capacities"
    using that by (induction counts capacities rule: list_induct2) (auto simp: not_le)
  then show ?thesis by (auto simp: chain_counts_admit_def dest: list_all2_lengthD)
qed

lemma sums_admit_iff:
  "chain_sums_admit sums argument capacities \<longleftrightarrow>
     list_all2 (\<lambda>used capacity. unat used + unat argument \<le> unat capacity) sums capacities"
proof -
  have step: "(case checked_add used argument of None \<Rightarrow> False
       | Some whole \<Rightarrow> if whole > capacity then False else rest)
     \<longleftrightarrow> unat used + unat argument \<le> unat capacity \<and> rest" for used capacity rest
  proof (cases "checked_add used argument")
    case None
    then have "2 ^ 64 \<le> unat used + unat argument" by (simp add: checked_add_None_iff)
    moreover have "unat capacity < 2 ^ 64" using unsigned_less [of capacity, where 'a = nat] by simp
    ultimately show ?thesis using None by simp
  next
    case (Some whole)
    then have "unat whole = unat used + unat argument" by (simp add: checked_add_Some_iff)
    with Some show ?thesis by (auto simp: word_less_nat_alt not_less)
  qed
  have "sums_admit_from sums argument capacities \<longleftrightarrow>
     list_all2 (\<lambda>used capacity. unat used + unat argument \<le> unat capacity) sums capacities"
    if "length sums = length capacities"
    using that by (induction sums capacities rule: list_induct2) (simp_all add: step)
  then show ?thesis by (auto simp: chain_sums_admit_def dest: list_all2_lengthD)
qed

lemma ceiling_count_eligible_iff:
  "ceiling_count_code v ceiling count max_count = CeilingEligible \<longleftrightarrow> v \<le> ceiling \<and> count < max_count"
  by (auto simp: ceiling_count_code_def)

lemma partition_narrows_iff:
  "partition_narrows c p \<longleftrightarrow>
     (c = None \<and> p = None) \<or> (\<exists>x y. c = Some x \<and> p = Some y \<and> values_narrow x y)"
  by (auto simp: partition_narrows_def split: option.splits)

lemma sum_tightens_iff:
  "sum_tightens c p \<longleftrightarrow>
     p = None \<or> (\<exists>x y. c = Some x \<and> p = Some y \<and> sb_limit x \<le> sb_limit y
                   \<and> partition_narrows (sb_partition x) (sb_partition y))"
  by (auto simp: sum_tightens_def split: option.splits)

lemma scope_tightens_iff:
  "scope_tightens c p \<longleftrightarrow> p = None \<or> (\<exists>x y. c = Some x \<and> p = Some y \<and> values_narrow x y)"
  by (auto simp: scope_tightens_def split: option.splits)

lemma argument_policy_tightens_iff:
  "argument_policy_tightens c p \<longleftrightarrow>
     pm_argument c = pm_argument p \<and> pm_window c = pm_window p \<and> pm_ceiling c \<le> pm_ceiling p
     \<and> pm_max_count c \<le> pm_max_count p \<and> sum_tightens (pm_sum c) (pm_sum p)
     \<and> scope_tightens (pm_scope c) (pm_scope p)"
  by (auto simp: argument_policy_tightens_def ceiling_count_tightens_def not_less)

section \<open>What a policy admits\<close>

text \<open>
  The meaning of one policy for one action: the verified arguments by name, and the count and the
  sum that the action's counters already hold in the current window.
\<close>

record policy_action =
  pa_numbers :: "bytes \<Rightarrow> u64 option"
  pa_texts :: "bytes \<Rightarrow> bytes option"
  pa_count :: u64
  pa_sum :: u64

definition lists_value :: "policy_action \<Rightarrow> value_list option \<Rightarrow> bool" where
  "lists_value a vl =
     (case vl of
        None \<Rightarrow> True
      | Some l \<Rightarrow> (case pa_texts a (vl_argument l) of
                    None \<Rightarrow> False | Some v \<Rightarrow> values_contain (vl_values l) v))"

definition members_admit :: "policy_members \<Rightarrow> policy_action \<Rightarrow> bool" where
  "members_admit m a =
     (case pa_numbers a (pm_argument m) of
        None \<Rightarrow> False
      | Some v \<Rightarrow>
          ceiling_count_code v (pm_ceiling m) (pa_count a) (pm_max_count m) = CeilingEligible
          \<and> lists_value a (pm_scope m)
          \<and> (case pm_sum m of
               None \<Rightarrow> True
             | Some b \<Rightarrow> lists_value a (sb_partition b) \<and> chain_sums_admit [pa_sum a] v [sb_limit b]))"

lemma lists_value_narrow: "values_narrow c p \<Longrightarrow> lists_value a (Some c) \<Longrightarrow> lists_value a (Some p)"
  by (auto simp: lists_value_def split: option.splits)

interpretation policy: attenuation argument_policy_tightens members_admit
proof
  show "argument_policy_tightens p p" for p
    by (auto simp: argument_policy_tightens_iff sum_tightens_def scope_tightens_def
        partition_narrows_def split: option.split)
next
  have narrow: "partition_narrows x z" if "partition_narrows x y" "partition_narrows y z" for x y z
    using that by (auto simp: partition_narrows_iff)
  have sums: "sum_tightens x z" if "sum_tightens x y" "sum_tightens y z" for x y z
  proof (cases z)
    case (Some z')
    with that(2) obtain y' where y: "y = Some y'" "sb_limit y' \<le> sb_limit z'"
      "partition_narrows (sb_partition y') (sb_partition z')" by (auto simp: sum_tightens_iff)
    with that(1) obtain x' where "x = Some x'" "sb_limit x' \<le> sb_limit y'"
      "partition_narrows (sb_partition x') (sb_partition y')" by (auto simp: sum_tightens_iff)
    with y Some narrow order_trans [of "sb_limit x'" "sb_limit y'" "sb_limit z'"]
    show ?thesis by (simp add: sum_tightens_def)
  qed (simp add: sum_tightens_def)
  have scopes: "scope_tightens x z" if "scope_tightens x y" "scope_tightens y z" for x y z
    using that by (auto simp: scope_tightens_iff)
  show "argument_policy_tightens p r" if "argument_policy_tightens p q" "argument_policy_tightens q r"
    for p q r
    using that sums scopes by (auto simp: argument_policy_tightens_iff)
next
  fix child parent a
  assume t: "argument_policy_tightens child parent" and c: "members_admit child a"
  then obtain v where v: "pa_numbers a (pm_argument parent) = Some v"
    and bounds: "v \<le> pm_ceiling child" "pa_count a < pm_max_count child"
    and scope: "lists_value a (pm_scope child)"
    and sum_ok: "\<forall>b. pm_sum child = Some b \<longrightarrow>
          lists_value a (sb_partition b) \<and> unat (pa_sum a) + unat v \<le> unat (sb_limit b)"
    by (auto simp: members_admit_def argument_policy_tightens_iff ceiling_count_eligible_iff
        sums_admit_iff split: option.splits)
  have "lists_value a (pm_scope parent)"
    using t scope by (auto simp: argument_policy_tightens_iff scope_tightens_iff lists_value_def
        split: option.splits)
  moreover have "lists_value a (sb_partition b) \<and> unat (pa_sum a) + unat v \<le> unat (sb_limit b)"
    if parent_sum: "pm_sum parent = Some b" for b
  proof -
    obtain x where x: "pm_sum child = Some x" "sb_limit x \<le> sb_limit b"
      and p: "partition_narrows (sb_partition x) (sb_partition b)"
      using t parent_sum by (auto simp: argument_policy_tightens_iff sum_tightens_iff)
    have "lists_value a (sb_partition b)"
      using sum_ok x(1) p by (auto simp: partition_narrows_iff lists_value_def split: option.splits)
    with sum_ok x show ?thesis by (auto simp: word_le_nat_alt intro: order_trans)
  qed
  ultimately show "members_admit parent a"
    using v bounds t
    by (auto simp: members_admit_def argument_policy_tightens_iff ceiling_count_eligible_iff
        sums_admit_iff split: option.split)
qed

section \<open>Properties\<close>

text \<open>
  C15: along a delegation chain in which each policy passes the
  tightening decider against its parent, an action the last policy admits (its ceiling, count,
  scope, partition and sum) is admitted by every policy of the chain, and each of them passes the
  decider against the first: delegation can only take authority away.
\<close>

theorem delegated_policies_only_narrow:
  assumes "successively (\<lambda>parent child. argument_policy_tightens child parent) ps"
    and "ps \<noteq> []" and "members_admit (last ps) a" and "p \<in> set ps"
  shows "members_admit p a \<and> argument_policy_tightens (last ps) p"
  using assms policy.chain_admits policy.chain_last_tightens by blast

definition sample_policy :: "u64 \<Rightarrow> bytes list \<Rightarrow> policy_members" where
  "sample_policy limit vs =
     \<lparr> pm_argument = [97], pm_ceiling = 100, pm_window = 3600, pm_max_count = 5,
       pm_sum = Some \<lparr> sb_limit = limit, sb_partition = None \<rparr>,
       pm_scope = Some \<lparr> vl_argument = [115], vl_values = vs \<rparr> \<rparr>"

definition sample_action :: policy_action where
  "sample_action =
     \<lparr> pa_numbers = (\<lambda>n. if n = [97] then Some 40 else None),
       pa_texts = (\<lambda>n. if n = [115] then Some [120] else None), pa_count = 2, pa_sum = 50 \<rparr>"

theorem delegated_policies_only_narrow_witness:
  "members_admit (sample_policy 500 [[120], [121]]) sample_action
   \<and> argument_policy_tightens (sample_policy 100 [[120]]) (sample_policy 500 [[120], [121]])
   \<and> \<not> argument_policy_tightens (sample_policy 500 [[120], [121]]) (sample_policy 100 [[120]])"
proof -
  let ?ps = "[sample_policy 500 [[120], [121]], sample_policy 100 [[120]]]"
  have "members_admit (sample_policy 500 [[120], [121]]) sample_action
      \<and> argument_policy_tightens (last ?ps) (sample_policy 500 [[120], [121]])"
  proof (rule delegated_policies_only_narrow)
    show "successively (\<lambda>parent child. argument_policy_tightens child parent) ?ps" by code_simp
    show "members_admit (last ?ps) sample_action" by code_simp
  qed simp_all
  moreover have "\<not> argument_policy_tightens (sample_policy 500 [[120], [121]]) (sample_policy 100 [[120]])"
    by code_simp
  ultimately show ?thesis by simp
qed

lemma widened_product:
  assumes "unat (b :: u16) \<le> 10000"
  obtains n :: u128 where "checked_mul (ucast (d :: u64)) (ucast b) = Some n"
    and "unat n = unat d * unat b"
proof -
  have "unat d < 2 ^ 64" using unsigned_less [of d, where 'a = nat] by simp
  then have "unat d * unat b \<le> 2 ^ 64 * 10000" using assms by (intro mult_mono) simp_all
  then have "unat d * unat b < 2 ^ 128" by (rule le_less_trans) simp
  then have "\<not> 2 ^ LENGTH(128) \<le> unat (ucast d :: u128) * unat (ucast b :: u128)"
    by (simp add: unat_ucast_widen)
  then obtain n where "checked_mul (ucast d :: u128) (ucast b) = Some n"
    using checked_mul_None_iff [of "ucast d :: u128" "ucast b"] by auto
  moreover from this have "unat n = unat d * unat b"
    unfolding checked_mul_Some_iff by (simp add: unat_ucast_widen)
  ultimately show thesis by (rule that)
qed

lemma narrow_result:
  assumes "unat (w :: u128) < 2 ^ 64"
  shows "uint w < 2 ^ 64" and "unat (ucast w :: u64) = unat w"
proof -
  have "int (unat w) < int (2 ^ 64)" using assms unfolding of_nat_less_iff .
  then show "uint w < 2 ^ 64" unfolding uint_nat by simp
  have "unat (ucast w :: u64) = take_bit 64 (unat w)" by (simp only: unsigned_ucast_eq, simp)
  also have "\<dots> = unat w" using assms by (rule take_bit_nat_eq_self)
  finally show "unat (ucast w :: u64) = unat w" .
qed

lemma checked_add_one:
  assumes "unat (w :: u128) < 2 ^ 64"
  obtains w' where "checked_add w 1 = Some w'" and "unat w' = unat w + 1"
proof -
  have "\<not> 2 ^ LENGTH(128) \<le> unat w + unat (1 :: u128)" using assms by simp
  then obtain w' where "checked_add w 1 = Some w'"
    using checked_add_None_iff [of w 1] by auto
  moreover from this have "unat w' = unat w + 1" unfolding checked_add_Some_iff by simp
  ultimately show thesis by (rule that)
qed

lemma round_up_div: "(x + 9999) div 10000 = (if x mod 10000 = 0 then x div 10000 else x div 10000 + 1)"
  for x :: nat
proof -
  define q r where "q = x div 10000" and "r = x mod 10000"
  have r: "r < 10000" and x: "x = 10000 * q + r" by (simp_all add: q_def r_def)
  have "(10000 * q + r + 9999) div 10000 = (if r = 0 then q else q + 1)"
    using r by (auto intro!: div_nat_eqI)
  then show ?thesis by (simp only: x [symmetric] q_def [symmetric] r_def [symmetric])
qed

text \<open>
  C26: for a percentage that passed its constructor the computation
  cannot overflow; the result is the exact fraction rounded down, or up to the next unit, and never
  exceeds the amount it is a fraction of.
\<close>

theorem basis_points_round_exactly:
  assumes "basis_points_new v = Ok b"
  shows "\<exists>r. checked_basis_points d b rounding = Ok r
    \<and> unat r = (case rounding of RoundDown \<Rightarrow> unat d * unat b div 10000
                 | RoundUp \<Rightarrow> (unat d * unat b + 9999) div 10000)
    \<and> unat r \<le> unat d"
proof -
  have b: "unat b \<le> 10000"
    using assms by (auto simp: basis_points_new_def word_le_nat_alt split: if_splits)
  obtain n :: u128 where n: "checked_mul (ucast d) (ucast b) = Some n" "unat n = unat d * unat b"
    using widened_product [OF b] .
  have d: "unat d < 2 ^ 64" using unsigned_less [of d, where 'a = nat] by simp
  have product: "unat n \<le> unat d * 10000" using b n(2) by simp
  then have le: "(unat n + 9999) div 10000 \<le> unat d" "unat n div 10000 \<le> unat d" by linarith+
  have quotient: "unat (n div 10000) = unat n div 10000" by (simp add: unat_div)
  have small: "unat (n div 10000) < 2 ^ 64" unfolding quotient using le(2) d by (rule le_less_trans)
  obtain n' where n': "checked_add (n div 10000) 1 = Some n'" "unat n' = unat n div 10000 + 1"
    using checked_add_one [OF small] unfolding quotient .
  have zero: "n mod 10000 = 0 \<longleftrightarrow> unat n mod 10000 = 0" by (simp add: word_unat_eq_iff unat_mod)
  have small': "unat n' < 2 ^ 64" if "unat n mod 10000 \<noteq> 0"
    using n'(2) le(1) d that round_up_div [of "unat n"] by simp
  show ?thesis
    using n(1) n'(1,2) narrow_result [OF small] narrow_result [OF small'] zero le round_up_div [of "unat n"]
    unfolding n(2) [symmetric]
    by (cases rounding) (auto simp: checked_basis_points_def Let_def unat_div word_gt_0)
qed

theorem basis_points_round_exactly_witness:
  "\<exists>r. checked_basis_points 18446744073709551615 3333 RoundUp = Ok r \<and> unat r \<le> 18446744073709551615"
proof -
  have "basis_points_new 3333 = Ok 3333" by code_simp
  from basis_points_round_exactly [OF this, of 18446744073709551615 RoundUp] show ?thesis
    by auto
qed

end
