(* ===== verification/Authority_Model.thy ===== *)
theory Authority_Model
  imports Auths_Prelude
begin

text \<open>
  The validated values that authority decisions compare, \<open>core/crates/auths-model/src/lib.rs\<close>:
  profiles, permissions, audiences, validity windows, body constraints, budget ceilings, status
  policies and critical extensions, with the membership and attenuation relations the production
  kernel uses. Identifiers are their bytes and canonical sets their slices; the lemmas read each
  relation as a set inclusion or an order.
\<close>

section \<open>Identifiers and windows\<close>

type_synonym principal_id = bytes
type_synonym grant_id = bytes
type_synonym digest = bytes

definition byte_slices_equal :: "bytes \<Rightarrow> bytes \<Rightarrow> bool" where
  "byte_slices_equal left right \<longleftrightarrow> left = right"

definition principal_id_equal :: "principal_id \<Rightarrow> principal_id \<Rightarrow> bool" where
  "principal_id_equal left right = byte_slices_equal left right"

definition assurance_policy_id_equal :: "bytes \<Rightarrow> bytes \<Rightarrow> bool" where
  "assurance_policy_id_equal left right = byte_slices_equal left right"

definition grant_id_equal :: "grant_id \<Rightarrow> grant_id \<Rightarrow> bool" where
  "grant_id_equal left right = byte_slices_equal left right"

fun optional_grant_id_equal :: "grant_id option \<Rightarrow> grant_id option \<Rightarrow> bool" where
  "optional_grant_id_equal None None = True"
| "optional_grant_id_equal (Some left) (Some right) = grant_id_equal left right"
| "optional_grant_id_equal _ _ = False"

record validity_window =
  not_before :: u64
  expires_at :: u64

definition inclusive_window_contains :: "u64 \<Rightarrow> u64 \<Rightarrow> u64 \<Rightarrow> u64 \<Rightarrow> bool" where
  "inclusive_window_contains parent_start parent_end child_start child_end \<longleftrightarrow>
     child_start \<ge> parent_start \<and> child_end \<le> parent_end"

definition validity_window_contains :: "validity_window \<Rightarrow> validity_window \<Rightarrow> bool" where
  "validity_window_contains parent child =
     inclusive_window_contains (not_before parent) (expires_at parent) (not_before child) (expires_at child)"

record profile_ref =
  pr_id :: bytes
  pr_version :: u16

definition profile_ref_equal :: "profile_ref \<Rightarrow> profile_ref \<Rightarrow> bool" where
  "profile_ref_equal left right \<longleftrightarrow>
     pr_version left = pr_version right \<and> byte_slices_equal (pr_id left) (pr_id right)"

fun profile_slice_contains :: "profile_ref list \<Rightarrow> profile_ref \<Rightarrow> bool" where
  "profile_slice_contains [] profile = False"
| "profile_slice_contains (p # ps) profile =
     (if profile_ref_equal p profile then True else profile_slice_contains ps profile)"

section \<open>Permissions, audiences and bodies\<close>

record permission =
  pm_capability :: bytes
  pm_resource :: bytes

definition permissions_equal :: "permission \<Rightarrow> permission \<Rightarrow> bool" where
  "permissions_equal left right \<longleftrightarrow>
     byte_slices_equal (pm_capability left) (pm_capability right)
     \<and> byte_slices_equal (pm_resource left) (pm_resource right)"

fun permission_set_contains :: "permission list \<Rightarrow> permission \<Rightarrow> bool" where
  "permission_set_contains [] permission = False"
| "permission_set_contains (p # ps) permission =
     (if permissions_equal p permission then True else permission_set_contains ps permission)"

fun permission_set_is_subset :: "permission list \<Rightarrow> permission list \<Rightarrow> bool" where
  "permission_set_is_subset [] parent = True"
| "permission_set_is_subset (c # cs) parent =
     (if \<not> permission_set_contains parent c then False else permission_set_is_subset cs parent)"

fun audience_set_contains :: "bytes list \<Rightarrow> bytes \<Rightarrow> bool" where
  "audience_set_contains [] audience = False"
| "audience_set_contains (a # as) audience =
     (if byte_slices_equal a audience then True else audience_set_contains as audience)"

fun audience_set_is_subset :: "bytes list \<Rightarrow> bytes list \<Rightarrow> bool" where
  "audience_set_is_subset [] parent = True"
| "audience_set_is_subset (c # cs) parent =
     (if \<not> audience_set_contains parent c then False else audience_set_is_subset cs parent)"

definition digests_equal :: "digest \<Rightarrow> digest \<Rightarrow> bool" where
  "digests_equal left right = byte_slices_equal left right"

fun body_digest_set_contains :: "digest list \<Rightarrow> digest \<Rightarrow> bool" where
  "body_digest_set_contains [] d = False"
| "body_digest_set_contains (x # xs) d = (if digests_equal x d then True else body_digest_set_contains xs d)"

fun body_digest_set_is_subset :: "digest list \<Rightarrow> digest list \<Rightarrow> bool" where
  "body_digest_set_is_subset [] parent = True"
| "body_digest_set_is_subset (c # cs) parent =
     (if \<not> body_digest_set_contains parent c then False else body_digest_set_is_subset cs parent)"

fun body_digest_set_only_contains :: "digest list \<Rightarrow> digest \<Rightarrow> bool" where
  "body_digest_set_only_contains [] d = True"
| "body_digest_set_only_contains (x # xs) d =
     (if \<not> digests_equal x d then False else body_digest_set_only_contains xs d)"

datatype action_constraint = AnyBody | ExactBodyDigest digest | AllowedBodyDigests "digest list"

fun action_constraint_allows :: "action_constraint \<Rightarrow> digest \<Rightarrow> bool" where
  "action_constraint_allows AnyBody d = True"
| "action_constraint_allows (ExactBodyDigest expected) d = digests_equal expected d"
| "action_constraint_allows (AllowedBodyDigests allowed) d = body_digest_set_contains allowed d"

definition action_constraint_attenuates :: "action_constraint \<Rightarrow> action_constraint \<Rightarrow> bool" where
  "action_constraint_attenuates child parent = (case (child, parent) of
     (_, AnyBody) \<Rightarrow> True
   | (ExactBodyDigest c, ExactBodyDigest p) \<Rightarrow> digests_equal c p
   | (ExactBodyDigest c, AllowedBodyDigests p) \<Rightarrow> body_digest_set_contains p c
   | (AllowedBodyDigests c, ExactBodyDigest p) \<Rightarrow> body_digest_set_only_contains c p
   | (AllowedBodyDigests c, AllowedBodyDigests p) \<Rightarrow> body_digest_set_is_subset c p
   | _ \<Rightarrow> False)"

section \<open>Budgets and status\<close>

record budget_ceiling =
  bc_algebra :: bytes
  bc_value :: u64

definition budget_ceiling_attenuates :: "budget_ceiling \<Rightarrow> budget_ceiling \<Rightarrow> bool" where
  "budget_ceiling_attenuates child parent \<longleftrightarrow>
     byte_slices_equal (bc_algebra child) (bc_algebra parent) \<and> bc_value child \<le> bc_value parent"

fun optional_budget_attenuates :: "budget_ceiling option \<Rightarrow> budget_ceiling option \<Rightarrow> bool" where
  "optional_budget_attenuates _ None = True"
| "optional_budget_attenuates (Some child) (Some parent) = budget_ceiling_attenuates child parent"
| "optional_budget_attenuates None (Some _) = False"

fun optional_budget_covers :: "budget_ceiling option \<Rightarrow> budget_ceiling option \<Rightarrow> bool" where
  "optional_budget_covers None _ = True"
| "optional_budget_covers (Some _) None = False"
| "optional_budget_covers (Some ceiling) (Some requested) = budget_ceiling_attenuates requested ceiling"

datatype profile_budget_expression = Expressible | Inexpressible

definition budget_ceiling_covers_action ::
  "budget_ceiling option \<Rightarrow> budget_ceiling option \<Rightarrow> profile_budget_expression \<Rightarrow> bool" where
  "budget_ceiling_covers_action ceiling requested expression = (case (requested, expression) of
     (None, Inexpressible) \<Rightarrow> True
   | _ \<Rightarrow> optional_budget_covers ceiling requested)"

datatype status_policy = ExpiryOnly | SnapshotRequired bytes u64

fun status_policy_attenuates :: "status_policy \<Rightarrow> status_policy \<Rightarrow> bool" where
  "status_policy_attenuates _ ExpiryOnly = True"
| "status_policy_attenuates (SnapshotRequired child_method child_age) (SnapshotRequired parent_method parent_age) =
     (byte_slices_equal child_method parent_method \<and> child_age \<le> parent_age)"
| "status_policy_attenuates ExpiryOnly (SnapshotRequired _ _) = False"

section \<open>Critical extensions\<close>

record critical_extension =
  ce_id :: bytes
  ce_bytes :: bytes

text \<open>The laws of the registered handlers are a function of identifier, child and parent payload.\<close>

type_synonym extension_laws = "bytes \<Rightarrow> bytes option \<Rightarrow> bytes option \<Rightarrow> bool"

fun critical_extension_find :: "critical_extension list \<Rightarrow> bytes \<Rightarrow> critical_extension option" where
  "critical_extension_find [] i = None"
| "critical_extension_find (e # es) i =
     (if byte_slices_equal (ce_id e) i then Some e else critical_extension_find es i)"

section \<open>The relations as inclusions and orders\<close>

lemmas equality_defs = byte_slices_equal_def principal_id_equal_def assurance_policy_id_equal_def
  grant_id_equal_def digests_equal_def

lemma profile_ref_equal_iff [simp]: "profile_ref_equal a b \<longleftrightarrow> a = b"
  by (cases a; cases b) (auto simp: profile_ref_equal_def equality_defs)

lemma permissions_equal_iff [simp]: "permissions_equal a b \<longleftrightarrow> a = b"
  by (cases a; cases b) (auto simp: permissions_equal_def equality_defs)

lemma optional_grant_id_equal_iff [simp]: "optional_grant_id_equal a b \<longleftrightarrow> a = b"
  by (cases a; cases b) (auto simp: equality_defs)

lemma slice_contains_iff [simp]:
  "profile_slice_contains profiles profile \<longleftrightarrow> profile \<in> set profiles"
  "permission_set_contains permissions permission \<longleftrightarrow> permission \<in> set permissions"
  "audience_set_contains audiences audience \<longleftrightarrow> audience \<in> set audiences"
  "body_digest_set_contains digests d \<longleftrightarrow> d \<in> set digests"
  "body_digest_set_only_contains digests d \<longleftrightarrow> set digests \<subseteq> {d}"
proof -
  show "profile_slice_contains profiles profile \<longleftrightarrow> profile \<in> set profiles" by (induction profiles) auto
  show "permission_set_contains permissions permission \<longleftrightarrow> permission \<in> set permissions" by (induction permissions) auto
  show "audience_set_contains audiences audience \<longleftrightarrow> audience \<in> set audiences"
    by (induction audiences) (auto simp: equality_defs)
  show "body_digest_set_contains digests d \<longleftrightarrow> d \<in> set digests" by (induction digests) (auto simp: equality_defs)
  show "body_digest_set_only_contains digests d \<longleftrightarrow> set digests \<subseteq> {d}" by (induction digests) (auto simp: equality_defs)
qed

lemma slice_subset_iff [simp]:
  "permission_set_is_subset ps qs \<longleftrightarrow> set ps \<subseteq> set qs"
  "audience_set_is_subset as bs \<longleftrightarrow> set as \<subseteq> set bs"
  "body_digest_set_is_subset ds es \<longleftrightarrow> set ds \<subseteq> set es"
proof -
  show "permission_set_is_subset ps qs \<longleftrightarrow> set ps \<subseteq> set qs" by (induction ps) auto
  show "audience_set_is_subset as bs \<longleftrightarrow> set as \<subseteq> set bs" by (induction as) auto
  show "body_digest_set_is_subset ds es \<longleftrightarrow> set ds \<subseteq> set es" by (induction ds) auto
qed

lemma action_constraint_attenuates_refl: "action_constraint_attenuates c c"
  by (cases c) (auto simp: action_constraint_attenuates_def equality_defs)

lemma action_constraint_attenuates_trans:
  "action_constraint_attenuates a b \<Longrightarrow> action_constraint_attenuates b c \<Longrightarrow> action_constraint_attenuates a c"
  by (cases a; cases b; cases c) (auto simp: action_constraint_attenuates_def equality_defs)

lemma action_constraint_attenuates_sound:
  "action_constraint_attenuates child parent \<Longrightarrow> action_constraint_allows child d \<Longrightarrow> action_constraint_allows parent d"
  by (cases child; cases parent) (auto simp: action_constraint_attenuates_def equality_defs)

lemma optional_budget_attenuates_refl: "optional_budget_attenuates b b"
  by (cases b) (auto simp: budget_ceiling_attenuates_def equality_defs)

lemma optional_budget_attenuates_trans:
  "optional_budget_attenuates a b \<Longrightarrow> optional_budget_attenuates b c \<Longrightarrow> optional_budget_attenuates a c"
  by (cases a; cases b; cases c) (auto simp: budget_ceiling_attenuates_def equality_defs)

lemma optional_budget_attenuates_sound:
  "optional_budget_attenuates child parent \<Longrightarrow> budget_ceiling_covers_action child requested expression
     \<Longrightarrow> budget_ceiling_covers_action parent requested expression"
  by (cases child; cases parent; cases requested; cases expression)
     (auto simp: budget_ceiling_covers_action_def budget_ceiling_attenuates_def equality_defs)

lemma status_policy_attenuates_refl: "status_policy_attenuates s s"
  by (cases s) (auto simp: equality_defs)

lemma status_policy_attenuates_trans:
  "status_policy_attenuates a b \<Longrightarrow> status_policy_attenuates b c \<Longrightarrow> status_policy_attenuates a c"
  by (cases a; cases b; cases c) (auto simp: equality_defs)

lemma validity_window_contains_iff:
  "validity_window_contains parent child \<longleftrightarrow>
     not_before parent \<le> not_before child \<and> expires_at child \<le> expires_at parent"
  by (simp add: validity_window_contains_def inclusive_window_contains_def)

end
