(* ===== verification/Authority.thy ===== *)
theory Authority
  imports Algebra_Kernel Policy_Kernel Authority_Model
begin

text \<open>
  Authority attenuation along a grant chain, \<open>core/crates/auths-authority/src/lib.rs\<close>: the state
  accumulated from a trust anchor, the decision on one grant edge, the author-side scope check made
  before a child grant is signed, and the terminal coverage of an action. Accepted edges narrow in
  every dimension, so the chain as a whole is an instance of the attenuation contract.
\<close>

section \<open>Statements and their projections\<close>

text \<open>The verifier's stable reason codes.\<close>

datatype denial_reason =
    MalformedProof | NonCanonicalProof | ResourceLimitExceeded | DigestMismatch | DuplicateObject
  | MissingReference | ReferenceCycle | AmbiguousTerminalGrant | UnusedCriticalEvidence
  | InvalidSignature | PrincipalMethodMismatch | VerificationMethodMismatch | SignatureSuiteMismatch
  | UntrustedRoot | BrokenGrantChain | DelegationExpanded | PermissionNotGranted
  | ActionConstraintMismatch | BudgetCeilingExceeded | AuthorizationPlanInvalid
  | CompositionRequirementNotMet | PlanActionMismatch | ActionBodyMismatch | AudienceMismatch
  | ChallengeMismatch | ActionOutsideValidity | PrincipalRevoked | GrantRevoked
  | StatusSequenceRollback | StatusMethodMismatch | StatusIssuerUntrusted | RegistryManifestMismatch
  | VerifierConfigurationMismatch | ResourceNamespaceMismatch | CriticalExtensionUnknown
  | AttachmentMissing | AttachmentDigestMismatch | AttachmentLengthMismatch | DuplicateAttachment
  | UnusedCriticalAttachment | OpaqueAttachmentNotAllowed | LocalPolicyDenied
  | ObservationConditionFalse | ObserverInAuthorityChain | ObservationRequirementDropped
  | ApprovalThresholdNotMet

record grant_statement =
  gs_version :: u16
  gs_issuer :: principal_id
  gs_subject :: principal_id
  gs_profile :: profile_ref
  gs_permissions :: "permission list"
  gs_validity :: validity_window
  gs_audiences :: "bytes list"
  gs_action_constraint :: action_constraint
  gs_budget_ceiling :: "budget_ceiling option"
  gs_remaining_depth :: u16
  gs_parent :: "grant_id option"
  gs_status_policy :: status_policy
  gs_assurance_floor :: bytes
  gs_extensions :: "critical_extension list"

record grant_view =
  gv_issuer :: principal_id
  gv_subject :: principal_id
  gv_profile :: profile_ref
  gv_permissions :: "permission list"
  gv_validity :: validity_window
  gv_audiences :: "bytes list"
  gv_action_constraint :: action_constraint
  gv_budget_ceiling :: "budget_ceiling option"
  gv_remaining_depth :: u16
  gv_parent :: "grant_id option"
  gv_status_policy :: status_policy
  gv_assurance_floor :: bytes
  gv_extensions :: "critical_extension list"

record scope_view =
  sv_profile :: profile_ref
  sv_permissions :: "permission list"
  sv_validity :: validity_window
  sv_audiences :: "bytes list"
  sv_action_constraint :: action_constraint
  sv_budget_ceiling :: "budget_ceiling option"
  sv_remaining_depth :: u16
  sv_status_policy :: status_policy
  sv_assurance_floor :: bytes
  sv_extensions :: "critical_extension list"

definition scope_authority_view :: "grant_view \<Rightarrow> scope_view" where
  "scope_authority_view grant = \<lparr>
     sv_profile = gv_profile grant, sv_permissions = gv_permissions grant,
     sv_validity = gv_validity grant, sv_audiences = gv_audiences grant,
     sv_action_constraint = gv_action_constraint grant, sv_budget_ceiling = gv_budget_ceiling grant,
     sv_remaining_depth = gv_remaining_depth grant, sv_status_policy = gv_status_policy grant,
     sv_assurance_floor = gv_assurance_floor grant, sv_extensions = gv_extensions grant \<rparr>"

definition grant_authority_view :: "grant_statement \<Rightarrow> grant_view" where
  "grant_authority_view grant = \<lparr>
     gv_issuer = gs_issuer grant, gv_subject = gs_subject grant, gv_profile = gs_profile grant,
     gv_permissions = gs_permissions grant, gv_validity = gs_validity grant,
     gv_audiences = gs_audiences grant, gv_action_constraint = gs_action_constraint grant,
     gv_budget_ceiling = gs_budget_ceiling grant, gv_remaining_depth = gs_remaining_depth grant,
     gv_parent = gs_parent grant, gv_status_policy = gs_status_policy grant,
     gv_assurance_floor = gs_assurance_floor grant, gv_extensions = gs_extensions grant \<rparr>"

text \<open>
  The action envelope; its attachments, which authority does not read, stay at an abstract type.
\<close>

record 'att action_envelope =
  ac_version :: u16
  ac_profile :: profile_ref
  ac_body_media_type :: bytes
  ac_canonical_body_digest :: digest
  ac_permission :: permission
  ac_requested_budget :: "budget_ceiling option"
  ac_audience :: bytes
  ac_challenge :: bytes
  ac_validity :: validity_window
  ac_actor :: principal_id
  ac_terminal_grant :: "grant_id option"
  ac_authorization_plan :: bytes
  ac_channel_binding :: bytes
  ac_proof_ref :: bytes
  ac_attachments :: "'att list"
  ac_extensions :: "critical_extension list"

record action_view =
  av_profile :: profile_ref
  av_canonical_body_digest :: digest
  av_permission :: permission
  av_requested_budget :: "budget_ceiling option"
  av_audience :: bytes
  av_validity :: validity_window
  av_actor :: principal_id
  av_terminal_grant :: "grant_id option"

definition action_authority_view :: "'att action_envelope \<Rightarrow> action_view" where
  "action_authority_view action = \<lparr>
     av_profile = ac_profile action, av_canonical_body_digest = ac_canonical_body_digest action,
     av_permission = ac_permission action, av_requested_budget = ac_requested_budget action,
     av_audience = ac_audience action, av_validity = ac_validity action,
     av_actor = ac_actor action, av_terminal_grant = ac_terminal_grant action \<rparr>"

record trust_anchor =
  ta_id :: bytes
  ta_principal :: principal_id
  ta_accepted_methods :: "bytes list"
  ta_profiles :: "profile_ref list"
  ta_permissions :: "permission list"
  ta_resource_namespaces :: "bytes list"
  ta_audiences :: "bytes list"
  ta_validity :: validity_window
  ta_budget_ceiling :: "budget_ceiling option"
  ta_max_delegation_depth :: u16
  ta_assurance_policy :: bytes
  ta_status_policy :: status_policy

text \<open>
  The registry selection enters through its declared budget-free profiles, a canonical (sorted) set;
  the binary search of the code is membership there.
\<close>

definition resolve_budget_expression :: "profile_ref list \<Rightarrow> profile_ref \<Rightarrow> profile_budget_expression" where
  "resolve_budget_expression budget_free_profiles profile =
     (if profile \<in> set budget_free_profiles then Inexpressible else Expressible)"

section \<open>Accumulated authority\<close>

record effective_authority =
  ea_root :: principal_id
  ea_subject :: principal_id
  ea_allowed_profiles :: "profile_ref list"
  ea_profile :: "profile_ref option"
  ea_permissions :: "permission list"
  ea_validity :: validity_window
  ea_audiences :: "bytes list"
  ea_action_constraint :: action_constraint
  ea_budget_ceiling :: "budget_ceiling option"
  ea_remaining_depth :: u16
  ea_last_grant :: "grant_id option"
  ea_assurance_policy :: bytes
  ea_status_policy :: status_policy
  ea_extensions :: "critical_extension list option"

record accepted_transition =
  at_subject :: principal_id
  at_profile :: profile_ref
  at_permissions :: "permission list"
  at_validity :: validity_window
  at_audiences :: "bytes list"
  at_action_constraint :: action_constraint
  at_budget_ceiling :: "budget_ceiling option"
  at_remaining_depth :: u16
  at_grant_id :: grant_id
  at_status_policy :: status_policy
  at_extensions :: "critical_extension list"

datatype delegation_outcome = DelegationAccepted accepted_transition | DelegationDenied denial_reason

record delegation_evaluation =
  de_checks :: attenuation_checks
  de_outcome :: delegation_outcome

datatype coverage_decision = CoverageAuthorized | CoverageDenied denial_reason

datatype authority_dimension =
    ProfileDimension | PermissionsDimension | ValidityDimension | AudiencesDimension
  | ActionConstraintDimension | BudgetDimension | DelegationDepthDimension | StatusDimension
  | AssuranceDimension | ExtensionsDimension

datatype author_scope_decision = ScopeAccepted | ScopeDenied authority_dimension

record state_view =
  asv_root :: principal_id
  asv_subject :: principal_id
  asv_allowed_profiles :: "profile_ref list"
  asv_profile :: "profile_ref option"
  asv_permissions :: "permission list"
  asv_validity :: validity_window
  asv_audiences :: "bytes list"
  asv_action_constraint :: action_constraint
  asv_budget_ceiling :: "budget_ceiling option"
  asv_remaining_depth :: u16
  asv_last_grant :: "grant_id option"
  asv_assurance_policy :: bytes
  asv_status_policy :: status_policy
  asv_extensions :: "critical_extension list option"

definition authority_state_view :: "effective_authority \<Rightarrow> state_view" where
  "authority_state_view authority = \<lparr>
     asv_root = ea_root authority, asv_subject = ea_subject authority,
     asv_allowed_profiles = ea_allowed_profiles authority, asv_profile = ea_profile authority,
     asv_permissions = ea_permissions authority, asv_validity = ea_validity authority,
     asv_audiences = ea_audiences authority, asv_action_constraint = ea_action_constraint authority,
     asv_budget_ceiling = ea_budget_ceiling authority,
     asv_remaining_depth = ea_remaining_depth authority, asv_last_grant = ea_last_grant authority,
     asv_assurance_policy = ea_assurance_policy authority,
     asv_status_policy = ea_status_policy authority, asv_extensions = ea_extensions authority \<rparr>"

section \<open>Extensions, depth and linkage\<close>

definition parent_extension_retained ::
  "extension_laws \<Rightarrow> critical_extension list \<Rightarrow> critical_extension \<Rightarrow> bool" where
  "parent_extension_retained laws child parent_extension =
     (case critical_extension_find child (ce_id parent_extension) of
        Some child_extension \<Rightarrow>
          laws (ce_id parent_extension) (Some (ce_bytes child_extension)) (Some (ce_bytes parent_extension))
      | None \<Rightarrow> False)"

definition child_extension_admitted ::
  "extension_laws \<Rightarrow> critical_extension \<Rightarrow> critical_extension list \<Rightarrow> bool" where
  "child_extension_admitted laws child_extension parent =
     (case critical_extension_find parent (ce_id child_extension) of
        Some _ \<Rightarrow> True
      | None \<Rightarrow> laws (ce_id child_extension) (Some (ce_bytes child_extension)) None)"

text \<open>The two index loops, over the remaining entries.\<close>

fun parent_extensions_retained ::
  "extension_laws \<Rightarrow> critical_extension list \<Rightarrow> critical_extension list \<Rightarrow> bool" where
  "parent_extensions_retained laws child [] = True"
| "parent_extensions_retained laws child (entry # entries) =
     (if \<not> parent_extension_retained laws child entry then False
      else parent_extensions_retained laws child entries)"

fun child_extensions_admitted ::
  "extension_laws \<Rightarrow> critical_extension list \<Rightarrow> critical_extension list \<Rightarrow> bool" where
  "child_extensions_admitted laws [] parent = True"
| "child_extensions_admitted laws (entry # entries) parent =
     (if \<not> child_extension_admitted laws entry parent then False
      else child_extensions_admitted laws entries parent)"

definition critical_extensions_attenuate ::
  "extension_laws \<Rightarrow> critical_extension list \<Rightarrow> critical_extension list \<Rightarrow> bool" where
  "critical_extensions_attenuate laws child parent =
     (if \<not> parent_extensions_retained laws child parent then False
      else child_extensions_admitted laws child parent)"

definition extensions_attenuate ::
  "extension_laws \<Rightarrow> critical_extension list option \<Rightarrow> critical_extension list \<Rightarrow> bool" where
  "extensions_attenuate laws parent_extensions grant_extensions =
     (case parent_extensions of
        Some parent \<Rightarrow> critical_extensions_attenuate laws grant_extensions parent
      | None \<Rightarrow> True)"

definition depth_decreases :: "u16 \<Rightarrow> u16 \<Rightarrow> bool" where
  "depth_decreases parent_remaining grant_remaining =
     (if parent_remaining = 0 then False else grant_remaining < parent_remaining)"

text \<open>Principals compare by \<open>principal_id_equal\<close>, which is equality of their bytes.\<close>

definition authority_linkage :: "state_view \<Rightarrow> principal_id \<Rightarrow> principal_id root_linkage" where
  "authority_linkage parent issuer = \<lparr>
     parent_root = asv_root parent, parent_subject = asv_subject parent,
     parent_delegated = (asv_last_grant parent \<noteq> None), grant_issuer = issuer \<rparr>"

definition selected_profile_attenuates ::
  "profile_ref option \<Rightarrow> profile_ref list \<Rightarrow> profile_ref \<Rightarrow> bool" where
  "selected_profile_attenuates selected allowed_profiles child =
     (case selected of
        Some parent \<Rightarrow> profile_ref_equal parent child
      | None \<Rightarrow> profile_slice_contains allowed_profiles child)"

section \<open>The decisions\<close>

definition evaluate_author_scope_view ::
  "scope_view \<Rightarrow> scope_view \<Rightarrow> extension_laws \<Rightarrow> author_scope_decision" where
  "evaluate_author_scope_view parent child laws =
     (if \<not> profile_ref_equal (sv_profile child) (sv_profile parent) then ScopeDenied ProfileDimension
      else if \<not> permission_set_is_subset (sv_permissions child) (sv_permissions parent)
        then ScopeDenied PermissionsDimension
      else if \<not> validity_window_contains (sv_validity parent) (sv_validity child)
        then ScopeDenied ValidityDimension
      else if \<not> audience_set_is_subset (sv_audiences child) (sv_audiences parent)
        then ScopeDenied AudiencesDimension
      else if \<not> action_constraint_attenuates (sv_action_constraint child) (sv_action_constraint parent)
        then ScopeDenied ActionConstraintDimension
      else if \<not> optional_budget_attenuates (sv_budget_ceiling child) (sv_budget_ceiling parent)
        then ScopeDenied BudgetDimension
      else if sv_remaining_depth parent = 0 \<or> sv_remaining_depth child \<ge> sv_remaining_depth parent
        then ScopeDenied DelegationDepthDimension
      else if \<not> status_policy_attenuates (sv_status_policy child) (sv_status_policy parent)
        then ScopeDenied StatusDimension
      else if \<not> assurance_policy_id_equal (sv_assurance_floor child) (sv_assurance_floor parent)
        then ScopeDenied AssuranceDimension
      else if \<not> critical_extensions_attenuate laws (sv_extensions child) (sv_extensions parent)
        then ScopeDenied ExtensionsDimension
      else ScopeAccepted)"

definition grant_checks ::
  "state_view \<Rightarrow> grant_view \<Rightarrow> extension_laws \<Rightarrow> attenuation_checks" where
  "grant_checks parent grant laws = \<lparr>
     root_preserved_check = root_preserved (authority_linkage parent (gv_issuer grant)),
     depth_decreases_check = depth_decreases (asv_remaining_depth parent) (gv_remaining_depth grant),
     profile_attenuates_check =
       selected_profile_attenuates (asv_profile parent) (asv_allowed_profiles parent) (gv_profile grant),
     permissions_attenuate_check = permission_set_is_subset (gv_permissions grant) (asv_permissions parent),
     validity_attenuates_check = validity_window_contains (asv_validity parent) (gv_validity grant),
     audiences_attenuate_check = audience_set_is_subset (gv_audiences grant) (asv_audiences parent),
     action_constraint_attenuates_check =
       action_constraint_attenuates (gv_action_constraint grant) (asv_action_constraint parent),
     budget_attenuates_check =
       optional_budget_attenuates (gv_budget_ceiling grant) (asv_budget_ceiling parent),
     status_attenuates_check = status_policy_attenuates (gv_status_policy grant) (asv_status_policy parent),
     assurance_attenuates_check =
       assurance_policy_id_equal (gv_assurance_floor grant) (asv_assurance_policy parent),
     extensions_attenuate_check =
       extensions_attenuate laws (asv_extensions parent) (gv_extensions grant) \<rparr>"

definition evaluate_grant_view ::
  "state_view \<Rightarrow> grant_id \<Rightarrow> grant_view \<Rightarrow> extension_laws \<Rightarrow> delegation_evaluation" where
  "evaluate_grant_view parent grant_id grant laws =
     (let checks = grant_checks parent grant laws in
      if \<not> root_preserved_check checks \<or> \<not> optional_grant_id_equal (gv_parent grant) (asv_last_grant parent)
      then \<lparr> de_checks = checks, de_outcome = DelegationDenied BrokenGrantChain \<rparr>
      else if \<not> attenuation_checks_accept checks
      then \<lparr> de_checks = checks, de_outcome = DelegationDenied DelegationExpanded \<rparr>
      else \<lparr> de_checks = checks, de_outcome = DelegationAccepted \<lparr>
        at_subject = gv_subject grant, at_profile = gv_profile grant,
        at_permissions = gv_permissions grant, at_validity = gv_validity grant,
        at_audiences = gv_audiences grant, at_action_constraint = gv_action_constraint grant,
        at_budget_ceiling = gv_budget_ceiling grant, at_remaining_depth = gv_remaining_depth grant,
        at_grant_id = grant_id, at_status_policy = gv_status_policy grant,
        at_extensions = gv_extensions grant \<rparr> \<rparr>)"

definition evaluate_grant ::
  "effective_authority \<Rightarrow> grant_id \<Rightarrow> grant_statement \<Rightarrow> extension_laws \<Rightarrow> delegation_evaluation" where
  "evaluate_grant parent grant_id grant laws =
     evaluate_grant_view (authority_state_view parent) grant_id (grant_authority_view grant) laws"

definition evaluate_action_coverage_view ::
  "state_view \<Rightarrow> action_view \<Rightarrow> profile_budget_expression \<Rightarrow> coverage_decision" where
  "evaluate_action_coverage_view authority action expression =
     (if \<not> root_preserved (authority_linkage authority (av_actor action))
         \<or> \<not> optional_grant_id_equal (av_terminal_grant action) (asv_last_grant authority)
        then CoverageDenied BrokenGrantChain
      else if \<not> selected_profile_attenuates (asv_profile authority) (asv_allowed_profiles authority)
                 (av_profile action)
        then CoverageDenied BrokenGrantChain
      else if \<not> permission_set_contains (asv_permissions authority) (av_permission action)
        then CoverageDenied PermissionNotGranted
      else if \<not> validity_window_contains (asv_validity authority) (av_validity action)
        then CoverageDenied ActionOutsideValidity
      else if \<not> audience_set_contains (asv_audiences authority) (av_audience action)
        then CoverageDenied AudienceMismatch
      else if \<not> action_constraint_allows (asv_action_constraint authority) (av_canonical_body_digest action)
        then CoverageDenied ActionConstraintMismatch
      else if \<not> budget_ceiling_covers_action (asv_budget_ceiling authority) (av_requested_budget action)
                 expression
        then CoverageDenied BudgetCeilingExceeded
      else CoverageAuthorized)"

definition evaluate_action_coverage ::
  "effective_authority \<Rightarrow> 'att action_envelope \<Rightarrow> profile_budget_expression \<Rightarrow> coverage_decision" where
  "evaluate_action_coverage authority action expression =
     evaluate_action_coverage_view (authority_state_view authority) (action_authority_view action) expression"

section \<open>The chain state\<close>

definition from_anchor :: "trust_anchor \<Rightarrow> effective_authority" where
  "from_anchor anchor = \<lparr>
     ea_root = ta_principal anchor, ea_subject = ta_principal anchor,
     ea_allowed_profiles = ta_profiles anchor, ea_profile = None,
     ea_permissions = ta_permissions anchor, ea_validity = ta_validity anchor,
     ea_audiences = ta_audiences anchor, ea_action_constraint = AnyBody,
     ea_budget_ceiling = ta_budget_ceiling anchor,
     ea_remaining_depth = ta_max_delegation_depth anchor, ea_last_grant = None,
     ea_assurance_policy = ta_assurance_policy anchor,
     ea_status_policy = ta_status_policy anchor, ea_extensions = None \<rparr>"

definition take_transition :: "effective_authority \<Rightarrow> accepted_transition \<Rightarrow> effective_authority" where
  "take_transition authority transition = authority \<lparr>
     ea_subject := at_subject transition,
     ea_profile := Some (at_profile transition),
     ea_permissions := at_permissions transition,
     ea_validity := at_validity transition,
     ea_audiences := at_audiences transition,
     ea_action_constraint := at_action_constraint transition,
     ea_budget_ceiling := at_budget_ceiling transition,
     ea_remaining_depth := at_remaining_depth transition,
     ea_last_grant := Some (at_grant_id transition),
     ea_status_policy := at_status_policy transition,
     ea_extensions := Some (at_extensions transition) \<rparr>"

text \<open>\<open>delegate\<close> returns the updated state; a denied edge leaves the receiver as it was.\<close>

definition delegate ::
  "grant_id \<Rightarrow> grant_statement \<Rightarrow> extension_laws \<Rightarrow> effective_authority
     \<Rightarrow> (effective_authority, denial_reason) result" where
  "delegate grant_id grant laws authority =
     (case de_outcome (evaluate_grant authority grant_id grant laws) of
        DelegationAccepted transition \<Rightarrow> Ok (take_transition authority transition)
      | DelegationDenied reason \<Rightarrow> Err reason)"

definition authorizes ::
  "effective_authority \<Rightarrow> 'att action_envelope \<Rightarrow> profile_ref list \<Rightarrow> (unit, denial_reason) result" where
  "authorizes authority action budget_free_profiles =
     (case evaluate_action_coverage authority action
             (resolve_budget_expression budget_free_profiles (ac_profile action)) of
        CoverageAuthorized \<Rightarrow> Ok ()
      | CoverageDenied reason \<Rightarrow> Err reason)"

text \<open>The calls a chain walk makes: one \<open>delegate\<close> per identified grant, root first.\<close>

fun delegate_all ::
  "extension_laws \<Rightarrow> (grant_id \<times> grant_statement) list \<Rightarrow> effective_authority
     \<Rightarrow> (effective_authority, denial_reason) result" where
  "delegate_all laws [] authority = Ok authority"
| "delegate_all laws ((i, grant) # grants) authority =
     and_then (delegate i grant laws authority) (delegate_all laws grants)"

section \<open>What an accepted edge says\<close>

lemmas authority_views = authority_state_view_def grant_authority_view_def action_authority_view_def
  scope_authority_view_def

lemma parent_extensions_retained_iff:
  "parent_extensions_retained laws child parent \<longleftrightarrow> (\<forall>e \<in> set parent. parent_extension_retained laws child e)"
  by (induction parent) auto

lemma child_extensions_admitted_iff:
  "child_extensions_admitted laws child parent \<longleftrightarrow> (\<forall>e \<in> set child. child_extension_admitted laws e parent)"
  by (induction child) auto

lemma depth_decreases_iff: "depth_decreases parent child \<longleftrightarrow> child < parent"
  by (auto simp: depth_decreases_def)

definition profiles_of :: "effective_authority \<Rightarrow> profile_ref set" where
  "profiles_of authority = (case ea_profile authority of
     Some profile \<Rightarrow> {profile} | None \<Rightarrow> set (ea_allowed_profiles authority))"

lemma selected_profile_iff:
  "selected_profile_attenuates (ea_profile authority) (ea_allowed_profiles authority) profile \<longleftrightarrow>
     profile \<in> profiles_of authority"
  by (auto simp: selected_profile_attenuates_def profiles_of_def split: option.splits)

text \<open>The edge is linked: the issuer holds the authority and names the grant it descends from.\<close>

definition edge_linked :: "effective_authority \<Rightarrow> grant_statement \<Rightarrow> bool" where
  "edge_linked authority grant \<longleftrightarrow>
     (ea_last_grant authority \<noteq> None \<or> ea_root authority = ea_subject authority)
     \<and> gs_issuer grant = ea_subject authority
     \<and> gs_parent grant = ea_last_grant authority"

definition edge_attenuates :: "extension_laws \<Rightarrow> effective_authority \<Rightarrow> grant_statement \<Rightarrow> bool" where
  "edge_attenuates laws authority grant \<longleftrightarrow>
     gs_remaining_depth grant < ea_remaining_depth authority
     \<and> gs_profile grant \<in> profiles_of authority
     \<and> set (gs_permissions grant) \<subseteq> set (ea_permissions authority)
     \<and> validity_window_contains (ea_validity authority) (gs_validity grant)
     \<and> set (gs_audiences grant) \<subseteq> set (ea_audiences authority)
     \<and> action_constraint_attenuates (gs_action_constraint grant) (ea_action_constraint authority)
     \<and> optional_budget_attenuates (gs_budget_ceiling grant) (ea_budget_ceiling authority)
     \<and> status_policy_attenuates (gs_status_policy grant) (ea_status_policy authority)
     \<and> gs_assurance_floor grant = ea_assurance_policy authority
     \<and> extensions_attenuate laws (ea_extensions authority) (gs_extensions grant)"

definition granted :: "effective_authority \<Rightarrow> grant_id \<Rightarrow> grant_statement \<Rightarrow> effective_authority" where
  "granted authority i grant = authority \<lparr>
     ea_subject := gs_subject grant, ea_profile := Some (gs_profile grant),
     ea_permissions := gs_permissions grant, ea_validity := gs_validity grant,
     ea_audiences := gs_audiences grant, ea_action_constraint := gs_action_constraint grant,
     ea_budget_ceiling := gs_budget_ceiling grant, ea_remaining_depth := gs_remaining_depth grant,
     ea_last_grant := Some i, ea_status_policy := gs_status_policy grant,
     ea_extensions := Some (gs_extensions grant) \<rparr>"

lemma granted_simps [simp]:
  "ea_root (granted a i g) = ea_root a"
  "ea_subject (granted a i g) = gs_subject g"
  "ea_allowed_profiles (granted a i g) = ea_allowed_profiles a"
  "ea_profile (granted a i g) = Some (gs_profile g)"
  "ea_permissions (granted a i g) = gs_permissions g"
  "ea_validity (granted a i g) = gs_validity g"
  "ea_audiences (granted a i g) = gs_audiences g"
  "ea_action_constraint (granted a i g) = gs_action_constraint g"
  "ea_budget_ceiling (granted a i g) = gs_budget_ceiling g"
  "ea_remaining_depth (granted a i g) = gs_remaining_depth g"
  "ea_last_grant (granted a i g) = Some i"
  "ea_assurance_policy (granted a i g) = ea_assurance_policy a"
  "ea_status_policy (granted a i g) = gs_status_policy g"
  "ea_extensions (granted a i g) = Some (gs_extensions g)"
  "profiles_of (granted a i g) = {gs_profile g}"
  by (simp_all add: granted_def profiles_of_def)

lemma delegate_cases:
  "delegate i grant laws authority =
     (if \<not> edge_linked authority grant then Err BrokenGrantChain
      else if \<not> edge_attenuates laws authority grant then Err DelegationExpanded
      else Ok (granted authority i grant))"
  by (simp add: delegate_def evaluate_grant_def evaluate_grant_view_def grant_checks_def Let_def
      attenuation_checks_accept_def root_preserved_def authority_linkage_def authority_views
      selected_profile_iff depth_decreases_iff edge_linked_def edge_attenuates_def
      take_transition_def granted_def assurance_policy_id_equal_def byte_slices_equal_def)

lemma delegate_Inr_iff:
  "delegate i grant laws authority = Inr authority' \<longleftrightarrow>
     edge_linked authority grant \<and> edge_attenuates laws authority grant
     \<and> authority' = granted authority i grant"
  by (auto simp: delegate_cases)

section \<open>The attenuation contract\<close>

definition narrows :: "effective_authority \<Rightarrow> effective_authority \<Rightarrow> bool" where
  "narrows child parent \<longleftrightarrow>
     ea_root child = ea_root parent
     \<and> profiles_of child \<subseteq> profiles_of parent
     \<and> set (ea_permissions child) \<subseteq> set (ea_permissions parent)
     \<and> validity_window_contains (ea_validity parent) (ea_validity child)
     \<and> set (ea_audiences child) \<subseteq> set (ea_audiences parent)
     \<and> action_constraint_attenuates (ea_action_constraint child) (ea_action_constraint parent)
     \<and> optional_budget_attenuates (ea_budget_ceiling child) (ea_budget_ceiling parent)
     \<and> ea_remaining_depth child \<le> ea_remaining_depth parent
     \<and> status_policy_attenuates (ea_status_policy child) (ea_status_policy parent)
     \<and> ea_assurance_policy child = ea_assurance_policy parent"

text \<open>What the terminal check asks of an action beyond linkage, with its budget reading.\<close>

definition covers ::
  "effective_authority \<Rightarrow> action_view \<times> profile_budget_expression \<Rightarrow> bool" where
  "covers authority = (\<lambda>(action, expression).
     av_profile action \<in> profiles_of authority
     \<and> av_permission action \<in> set (ea_permissions authority)
     \<and> validity_window_contains (ea_validity authority) (av_validity action)
     \<and> av_audience action \<in> set (ea_audiences authority)
     \<and> action_constraint_allows (ea_action_constraint authority) (av_canonical_body_digest action)
     \<and> budget_ceiling_covers_action (ea_budget_ceiling authority) (av_requested_budget action) expression)"

lemma narrows_refl: "narrows a a"
  by (simp add: narrows_def validity_window_contains_iff action_constraint_attenuates_refl
      optional_budget_attenuates_refl status_policy_attenuates_refl)

lemma narrows_trans:
  assumes "narrows a b" "narrows b c" shows "narrows a c"
  using assms unfolding narrows_def validity_window_contains_iff
  by (intro conjI) (auto intro: action_constraint_attenuates_trans [of _ "ea_action_constraint b"]
      optional_budget_attenuates_trans [of _ "ea_budget_ceiling b"]
      status_policy_attenuates_trans [of _ "ea_status_policy b"])

lemma narrows_covers:
  assumes "narrows child parent" "covers child request" shows "covers parent request"
  using assms unfolding narrows_def covers_def validity_window_contains_iff
  by (auto split: prod.splits dest: action_constraint_attenuates_sound optional_budget_attenuates_sound)

interpretation delegated: attenuation narrows covers
  by unfold_locales (fact narrows_refl, erule (1) narrows_trans, erule (1) narrows_covers)

lemma delegate_narrows: "delegate i grant laws authority = Inr authority' \<Longrightarrow> narrows authority' authority"
  by (auto simp: delegate_Inr_iff edge_attenuates_def narrows_def)

lemma delegate_all_Cons_iff:
  "delegate_all laws ((i, g) # grants) authority = Inr authority' \<longleftrightarrow>
     edge_linked authority g \<and> edge_attenuates laws authority g
     \<and> delegate_all laws grants (granted authority i g) = Inr authority'"
  by (auto simp: result_simps delegate_Inr_iff)

lemma delegate_all_narrows: "delegate_all laws grants authority = Inr authority' \<Longrightarrow> narrows authority' authority"
proof (induction grants arbitrary: authority)
  case Nil
  then show ?case by (simp add: narrows_refl)
next
  case (Cons e grants)
  obtain i g where e: "e = (i, g)" by force
  from Cons.prems obtain mid where "delegate i g laws authority = Inr mid"
    and "delegate_all laws grants mid = Inr authority'" by (auto simp: e result_simps)
  then show ?case using Cons.IH delegate_narrows delegated.tightens_trans by blast
qed

lemma delegate_all_append:
  "delegate_all laws (xs @ ys) authority = and_then (delegate_all laws xs authority) (delegate_all laws ys)"
proof (induction xs arbitrary: authority)
  case (Cons e xs)
  obtain i g where e: "e = (i, g)" by force
  show ?case by (cases "delegate i g laws authority") (simp_all add: e Cons.IH)
qed simp

text \<open>An edge in the middle of an accepted chain: the states before and after it.\<close>

lemma delegate_all_split:
  assumes "delegate_all laws grants authority = Inr authority'" and "(i, g) \<in> set grants"
  obtains before where "edge_linked before g" and "edge_attenuates laws before g"
    and "narrows before authority" and "narrows authority' (granted before i g)"
proof -
  obtain xs ys where grants: "grants = xs @ (i, g) # ys" using assms(2) split_list by metis
  obtain before where before: "delegate_all laws xs authority = Inr before"
    and rest: "delegate_all laws ((i, g) # ys) before = Inr authority'"
    using assms(1) by (auto simp: grants delegate_all_append result_simps)
  then have "edge_linked before g" "edge_attenuates laws before g"
    and "delegate_all laws ys (granted before i g) = Inr authority'"
    by (auto simp: result_simps delegate_Inr_iff)
  then show thesis using that before delegate_all_narrows by blast
qed

section \<open>Chains of grants\<close>

text \<open>Each issuer is the subject of the grant before it, which it names as its parent.\<close>

fun linked :: "principal_id \<Rightarrow> grant_id option \<Rightarrow> (grant_id \<times> grant_statement) list \<Rightarrow> bool" where
  "linked holder previous [] = True"
| "linked holder previous ((i, grant) # grants) =
     (gs_issuer grant = holder \<and> gs_parent grant = previous \<and> linked (gs_subject grant) (Some i) grants)"

text \<open>
  A descendant grant gives no more than its ancestor: it allows no body, budget, audience, time or
  permission the ancestor does not, and drops none of its critical extensions.
\<close>

definition grant_narrows :: "grant_statement \<Rightarrow> grant_statement \<Rightarrow> bool" where
  "grant_narrows child parent \<longleftrightarrow>
     gs_profile child = gs_profile parent
     \<and> set (gs_permissions child) \<subseteq> set (gs_permissions parent)
     \<and> not_before (gs_validity parent) \<le> not_before (gs_validity child)
     \<and> expires_at (gs_validity child) \<le> expires_at (gs_validity parent)
     \<and> set (gs_audiences child) \<subseteq> set (gs_audiences parent)
     \<and> (\<forall>d. action_constraint_allows (gs_action_constraint child) d \<longrightarrow>
            action_constraint_allows (gs_action_constraint parent) d)
     \<and> (\<forall>requested expression.
            budget_ceiling_covers_action (gs_budget_ceiling child) requested expression \<longrightarrow>
            budget_ceiling_covers_action (gs_budget_ceiling parent) requested expression)
     \<and> gs_remaining_depth child < gs_remaining_depth parent
     \<and> status_policy_attenuates (gs_status_policy child) (gs_status_policy parent)
     \<and> gs_assurance_floor child = gs_assurance_floor parent
     \<and> ce_id ` set (gs_extensions parent) \<subseteq> ce_id ` set (gs_extensions child)"

text \<open>
  On one edge the law of each identifier holds between the payloads: of the child's extension and the
  parent's, and of an extension the child adds and its absence in the parent.
\<close>

definition extensions_follow_laws :: "extension_laws \<Rightarrow> grant_statement \<Rightarrow> grant_statement \<Rightarrow> bool" where
  "extensions_follow_laws laws child parent \<longleftrightarrow>
     (\<forall>e \<in> set (gs_extensions parent). parent_extension_retained laws (gs_extensions child) e)
     \<and> (\<forall>e \<in> set (gs_extensions child). child_extension_admitted laws e (gs_extensions parent))"

definition within_anchor :: "trust_anchor \<Rightarrow> grant_statement \<Rightarrow> bool" where
  "within_anchor anchor grant \<longleftrightarrow>
     gs_profile grant \<in> set (ta_profiles anchor)
     \<and> set (gs_permissions grant) \<subseteq> set (ta_permissions anchor)
     \<and> not_before (ta_validity anchor) \<le> not_before (gs_validity grant)
     \<and> expires_at (gs_validity grant) \<le> expires_at (ta_validity anchor)
     \<and> set (gs_audiences grant) \<subseteq> set (ta_audiences anchor)
     \<and> optional_budget_attenuates (gs_budget_ceiling grant) (ta_budget_ceiling anchor)
     \<and> status_policy_attenuates (gs_status_policy grant) (ta_status_policy anchor)
     \<and> gs_assurance_floor grant = ta_assurance_policy anchor"

lemma critical_extension_find_Some:
  "critical_extension_find es i = Some e \<Longrightarrow> e \<in> set es \<and> ce_id e = i"
  by (induction es) (auto simp: byte_slices_equal_def split: if_splits)

lemma retained_id: "parent_extension_retained laws extensions e \<Longrightarrow> ce_id e \<in> ce_id ` set extensions"
  by (auto simp: parent_extension_retained_def dest!: critical_extension_find_Some intro: rev_image_eqI
      split: option.splits)

lemma grant_narrows_trans:
  assumes "grant_narrows a b" "grant_narrows b c" shows "grant_narrows a c"
proof -
  have "ce_id ` set (gs_extensions c) \<subseteq> ce_id ` set (gs_extensions a)"
    using assms unfolding grant_narrows_def by (meson subset_trans)
  then show ?thesis using assms unfolding grant_narrows_def
    by (intro conjI; (assumption | auto intro: status_policy_attenuates_trans [of _ "gs_status_policy b"]))
qed

lemma edge_grant_narrows:
  assumes "edge_attenuates laws (granted before i parent) child"
    and "gs_assurance_floor parent = ea_assurance_policy before"
  shows "grant_narrows child parent \<and> extensions_follow_laws laws child parent"
proof -
  have laws: "extensions_follow_laws laws child parent"
    using assms(1) by (simp add: edge_attenuates_def extensions_follow_laws_def extensions_attenuate_def
      critical_extensions_attenuate_def parent_extensions_retained_iff child_extensions_admitted_iff split: if_splits)
  then have "ce_id ` set (gs_extensions parent) \<subseteq> ce_id ` set (gs_extensions child)"
    using retained_id by (auto simp: extensions_follow_laws_def)
  then show ?thesis using assms laws
      action_constraint_attenuates_sound [of "gs_action_constraint child" "gs_action_constraint parent"]
      optional_budget_attenuates_sound [of "gs_budget_ceiling child" "gs_budget_ceiling parent"]
    by (simp add: edge_attenuates_def grant_narrows_def validity_window_contains_iff)
qed

lemma delegate_all_last:
  assumes run: "delegate_all laws grants authority = Inr authority'"
  shows "ea_subject authority' = (if grants = [] then ea_subject authority else gs_subject (snd (last grants)))
     \<and> ea_last_grant authority' = (if grants = [] then ea_last_grant authority else Some (fst (last grants)))"
proof (cases grants rule: rev_cases)
  case (snoc xs e)
  obtain i g where e: "e = (i, g)" by force
  obtain before where "delegate_all laws [(i, g)] before = Inr authority'"
    using run by (auto simp: snoc e delegate_all_append and_then_Inr_iff simp del: delegate_all.simps(2))
  then show ?thesis by (simp add: snoc e delegate_all_Cons_iff del: delegate_all.simps(2)) (auto)
qed (use run in simp)

text \<open>Along an accepted walk, the grants are linked and each narrows the one before.\<close>

lemma delegate_all_linked:
  "delegate_all laws grants authority = Inr authority'
     \<Longrightarrow> linked (ea_subject authority) (ea_last_grant authority) grants"
proof (induction grants arbitrary: authority)
  case (Cons e grants)
  then show ?case using Cons.IH [of "granted authority (fst e) (snd e)"]
    by (cases e) (auto simp: delegate_all_Cons_iff edge_linked_def simp del: delegate_all.simps(2))
qed simp

lemma delegate_all_depth:
  "delegate_all laws grants authority = Inr authority'
     \<Longrightarrow> length grants + unat (ea_remaining_depth authority') \<le> unat (ea_remaining_depth authority)"
proof (induction grants arbitrary: authority)
  case (Cons e grants)
  then show ?case using Cons.IH [of "granted authority (fst e) (snd e)"]
    by (cases e) (auto simp: delegate_all_Cons_iff edge_attenuates_def word_less_nat_alt
        simp del: delegate_all.simps(2))
qed simp

lemma delegate_all_successive:
  "delegate_all laws grants authority = Inr authority'
     \<Longrightarrow> successively (\<lambda>(_, parent) (_, child). grant_narrows child parent \<and> extensions_follow_laws laws child parent) grants"
proof (induction grants arbitrary: authority)
  case (Cons e grants)
  obtain i g where e: "e = (i, g)" by force
  have edge: "edge_attenuates laws authority g" and rest: "delegate_all laws grants (granted authority i g) = Inr authority'"
    using Cons.prems by (auto simp: e result_simps delegate_Inr_iff)
  show ?case
  proof (cases grants)
    case (Cons e' grants')
    obtain i' g' where e': "e' = (i', g')" by force
    have "edge_attenuates laws (granted authority i g) g'"
      using rest by (auto simp: Cons e' result_simps delegate_Inr_iff)
    then have "grant_narrows g' g \<and> extensions_follow_laws laws g' g"
      using edge by (intro edge_grant_narrows) (auto simp: edge_attenuates_def)
    then show ?thesis using Cons.IH [OF rest] by (simp add: Cons e e')
  qed simp
qed simp

lemma delegate_all_sorted:
  assumes "delegate_all laws grants authority = Inr authority'"
  shows "sorted_wrt (\<lambda>(_, parent) (_, child). grant_narrows child parent) grants"
proof -
  have "transp (\<lambda>(_ :: grant_id, parent) (_ :: grant_id, child). grant_narrows child parent)"
    using grant_narrows_trans by (auto simp: transp_def)
  moreover have "successively (\<lambda>(_, parent) (_, child). grant_narrows child parent) grants"
    using delegate_all_successive [OF assms] by (rule successively_mono) auto
  ultimately show ?thesis using successively_conv_sorted_wrt by blast
qed

lemma delegate_all_within_anchor:
  assumes "delegate_all laws grants (from_anchor anchor) = Inr authority" "(i, g) \<in> set grants"
  shows "within_anchor anchor g"
proof -
  obtain before where edge: "edge_attenuates laws before g" "narrows before (from_anchor anchor)"
    using delegate_all_split [OF assms] by metis
  have "narrows (granted before i g) before" using edge(1) by (auto simp: edge_attenuates_def narrows_def)
  then have "narrows (granted before i g) (from_anchor anchor)" using edge(2) delegated.tightens_trans by blast
  then show ?thesis using edge
    by (auto simp: narrows_def within_anchor_def from_anchor_def validity_window_contains_iff profiles_of_def
        edge_attenuates_def)
qed

section \<open>Properties\<close>

text \<open>A two-edge chain for the examples: a root, an agent and its helper.\<close>

definition sample_anchor :: trust_anchor where
  "sample_anchor = \<lparr> ta_id = [0], ta_principal = [1], ta_accepted_methods = [[7]],
     ta_profiles = [\<lparr> pr_id = [5], pr_version = 1 \<rparr>],
     ta_permissions = [\<lparr> pm_capability = [1], pm_resource = [1] \<rparr>, \<lparr> pm_capability = [2], pm_resource = [1] \<rparr>],
     ta_resource_namespaces = [], ta_audiences = [[8], [9]],
     ta_validity = \<lparr> not_before = 0, expires_at = 100 \<rparr>,
     ta_budget_ceiling = Some \<lparr> bc_algebra = [3], bc_value = 50 \<rparr>, ta_max_delegation_depth = 2,
     ta_assurance_policy = [4], ta_status_policy = ExpiryOnly \<rparr>"

definition sample_grant ::
  "principal_id \<Rightarrow> principal_id \<Rightarrow> permission list \<Rightarrow> u64 \<Rightarrow> u16 \<Rightarrow> grant_id option \<Rightarrow> grant_statement" where
  "sample_grant issuer subject permissions ceiling depth parent = \<lparr> gs_version = 1,
     gs_issuer = issuer, gs_subject = subject, gs_profile = \<lparr> pr_id = [5], pr_version = 1 \<rparr>,
     gs_permissions = permissions, gs_validity = \<lparr> not_before = 10, expires_at = 90 \<rparr>,
     gs_audiences = [[8]], gs_action_constraint = AllowedBodyDigests [[1], [2]],
     gs_budget_ceiling = Some \<lparr> bc_algebra = [3], bc_value = ceiling \<rparr>, gs_remaining_depth = depth,
     gs_parent = parent, gs_status_policy = ExpiryOnly, gs_assurance_floor = [4],
     gs_extensions = [\<lparr> ce_id = [6], ce_bytes = [1] \<rparr>] \<rparr>"

definition sample_grants :: "(grant_id \<times> grant_statement) list" where
  "sample_grants =
     [([11], sample_grant [1] [2] (ta_permissions sample_anchor) 40 1 None),
      ([12], sample_grant [2] [3] [\<lparr> pm_capability = [1], pm_resource = [1] \<rparr>] 30 0 (Some [11]))]"

definition exact_laws :: extension_laws where
  "exact_laws i child parent \<longleftrightarrow> child = parent \<and> child \<noteq> None"

definition sample_envelope :: "u64 \<Rightarrow> unit action_envelope" where
  "sample_envelope amount = \<lparr> ac_version = 1, ac_profile = \<lparr> pr_id = [5], pr_version = 1 \<rparr>,
     ac_body_media_type = [], ac_canonical_body_digest = [2],
     ac_permission = \<lparr> pm_capability = [1], pm_resource = [1] \<rparr>,
     ac_requested_budget = Some \<lparr> bc_algebra = [3], bc_value = amount \<rparr>, ac_audience = [8],
     ac_challenge = [], ac_validity = \<lparr> not_before = 20, expires_at = 30 \<rparr>, ac_actor = [3],
     ac_terminal_grant = Some [12], ac_authorization_plan = [], ac_channel_binding = [],
     ac_proof_ref = [], ac_attachments = [], ac_extensions = [] \<rparr>"

lemmas sample_authority_defs = sample_grants_def sample_grant_def sample_anchor_def exact_laws_def
  sample_envelope_def from_anchor_def

definition sample_delegated :: "(effective_authority, denial_reason) result" where
  "sample_delegated = delegate_all exact_laws sample_grants (from_anchor sample_anchor)"

lemma sample_delegation: "\<not> isl sample_delegated"
  and sample_action_covered: "and_then sample_delegated (\<lambda>authority. authorizes authority (sample_envelope 30) []) = Ok ()"
  by code_simp+

text \<open>
  C2: Whatever grants a chain walk accepts from a trust anchor, the root of the
  accumulated authority is the anchor's principal; each grant is issued by the subject of the one
  before it and names it as its parent; the number of grants and the depth left never exceed the
  anchor's depth; every grant is within the anchor in profile, permissions, validity, audiences,
  budget, status and assurance; every later grant narrows every earlier one and keeps all of its
  critical extensions; and on each edge the law of every extension holds between child and parent.
\<close>

theorem delegation_never_expands:
  assumes "delegate_all laws grants (from_anchor anchor) = Ok authority"
  shows "ea_root authority = ta_principal anchor
    \<and> linked (ta_principal anchor) None grants
    \<and> length grants + unat (ea_remaining_depth authority) \<le> unat (ta_max_delegation_depth anchor)
    \<and> (\<forall>(i, grant) \<in> set grants. within_anchor anchor grant)
    \<and> sorted_wrt (\<lambda>(_, parent) (_, child). grant_narrows child parent) grants
    \<and> successively (\<lambda>(_, parent) (_, child). extensions_follow_laws laws child parent) grants"
  using delegate_all_narrows [OF assms(1)] delegate_all_linked [OF assms(1)]
    delegate_all_depth [OF assms(1)] delegate_all_within_anchor [OF assms(1)]
    delegate_all_sorted [OF assms(1)]
    successively_mono [OF delegate_all_successive [OF assms(1)],
      where Q = "\<lambda>(_, parent) (_, child). extensions_follow_laws laws child parent"]
  by (auto simp: narrows_def from_anchor_def)

theorem delegation_never_expands_witness:
  "length sample_grants = 2 \<and> linked [1] None sample_grants
     \<and> list_all (\<lambda>(i, grant). within_anchor sample_anchor grant) sample_grants"
proof -
  obtain authority where "delegate_all exact_laws sample_grants (from_anchor sample_anchor) = Ok authority"
    using sum.collapse(2) [OF sample_delegation] by (metis sample_delegated_def)
  from delegation_never_expands [OF this] show ?thesis
    by (simp add: list_all_iff) (simp add: sample_grants_def sample_anchor_def)
qed

lemma authorizes_Ok_iff:
  "authorizes authority action budget_free = Ok () \<longleftrightarrow>
     (ea_last_grant authority \<noteq> None \<or> ea_root authority = ea_subject authority)
     \<and> ac_actor action = ea_subject authority
     \<and> ac_terminal_grant action = ea_last_grant authority
     \<and> covers authority (action_authority_view action, resolve_budget_expression budget_free (ac_profile action))"
  by (simp add: authorizes_def evaluate_action_coverage_def evaluate_action_coverage_view_def root_preserved_def
      authority_linkage_def authority_views selected_profile_iff covers_def) blast

text \<open>
  C4: An action the terminal authority authorizes is performed
  by the subject of the last grant, which it names, and lies within every grant of the chain and
  within the anchor: its profile is theirs, its permission and audience are granted, its validity
  window and requested budget are inside theirs, and its body digest is allowed.
\<close>

theorem authorized_action_is_within_every_grant:
  assumes "delegate_all laws grants (from_anchor anchor) = Ok authority"
    and "authorizes authority action budget_free = Ok ()"
    and "expression = resolve_budget_expression budget_free (ac_profile action)"
  shows "ac_actor action = (if grants = [] then ta_principal anchor else gs_subject (snd (last grants)))
    \<and> ac_terminal_grant action = (if grants = [] then None else Some (fst (last grants)))
    \<and> (\<forall>(i, grant) \<in> set grants.
        ac_profile action = gs_profile grant
        \<and> ac_permission action \<in> set (gs_permissions grant)
        \<and> validity_window_contains (gs_validity grant) (ac_validity action)
        \<and> ac_audience action \<in> set (gs_audiences grant)
        \<and> action_constraint_allows (gs_action_constraint grant) (ac_canonical_body_digest action)
        \<and> budget_ceiling_covers_action (gs_budget_ceiling grant) (ac_requested_budget action) expression)
    \<and> covers (from_anchor anchor) (action_authority_view action, expression)"
proof -
  let ?request = "(action_authority_view action, expression)"
  have covered: "covers authority ?request" and actor: "ac_actor action = ea_subject authority"
    and terminal: "ac_terminal_grant action = ea_last_grant authority"
    using assms(2,3) by (auto simp: authorizes_Ok_iff)
  have ends: "ea_subject authority = (if grants = [] then ta_principal anchor else gs_subject (snd (last grants)))
      \<and> ea_last_grant authority = (if grants = [] then None else Some (fst (last grants)))"
    using delegate_all_last [OF assms(1)] by (simp add: from_anchor_def)
  have "covers (granted before i grant) ?request"
    if "narrows authority (granted before i grant)" for before i grant
    using that covered delegated.tightens_sound by blast
  moreover have "covers (from_anchor anchor) ?request"
    using delegate_all_narrows [OF assms(1)] covered delegated.tightens_sound by blast
  ultimately show ?thesis using ends actor terminal
    by (auto simp: covers_def action_authority_view_def elim!: delegate_all_split [OF assms(1)])
qed


theorem authorized_action_is_within_every_grant_witness:
  "and_then sample_delegated (\<lambda>authority. authorizes authority (sample_envelope 30) []) = Ok ()
     \<and> list_all (\<lambda>(i, grant).
          ac_permission (sample_envelope 30) \<in> set (gs_permissions grant)
          \<and> budget_ceiling_covers_action (gs_budget_ceiling grant)
              (ac_requested_budget (sample_envelope 30)) Expressible) sample_grants"
proof -
  obtain authority where run: "sample_delegated = Ok authority"
    using sum.collapse(2) [OF sample_delegation] by metis
  have "authorizes authority (sample_envelope 30) [] = Ok ()"
    using sample_action_covered by (simp only: run and_then_simps)
  note within = authorized_action_is_within_every_grant [OF run [unfolded sample_delegated_def] this refl]
  from within sample_action_covered show ?thesis by (auto simp: resolve_budget_expression_def list_all_iff)
qed

text \<open>
  C34: The check an author makes before signing a child grant
  agrees with the verifier's decision on the signed grant. When the verifier has accepted the parent
  grant and the child is issued by its subject under its identifier, the author-side scope decision
  accepts exactly when the verifier accepts the edge, and otherwise the verifier denies it as an
  expanded delegation.
\<close>

theorem author_scope_agrees_with_the_verifier:
  assumes "delegate i parent laws before = Ok authority"
    and "gs_issuer child = gs_subject parent" and "gs_parent child = Some i"
  shows "delegate j child laws authority =
    (if evaluate_author_scope_view (scope_authority_view (grant_authority_view parent))
          (scope_authority_view (grant_authority_view child)) laws = ScopeAccepted
     then Ok (granted authority j child) else Err DelegationExpanded)"
proof -
  have authority: "authority = granted before i parent"
    and floor: "gs_assurance_floor parent = ea_assurance_policy before"
    using assms(1) by (auto simp: delegate_Inr_iff edge_attenuates_def)
  have linked: "edge_linked authority child" using assms(2,3) by (simp add: authority edge_linked_def)
  have "edge_attenuates laws authority child \<longleftrightarrow>
      evaluate_author_scope_view (scope_authority_view (grant_authority_view parent))
        (scope_authority_view (grant_authority_view child)) laws = ScopeAccepted"
    by (auto simp: authority edge_attenuates_def evaluate_author_scope_view_def authority_views
        extensions_attenuate_def assurance_policy_id_equal_def byte_slices_equal_def floor)
  then show ?thesis using linked by (simp add: delegate_cases)
qed

theorem author_scope_agrees_with_the_verifier_witness:
  "delegate [12] (snd (sample_grants ! 1)) exact_laws
       (granted (from_anchor sample_anchor) [11] (snd (sample_grants ! 0)))
     = Ok (granted (granted (from_anchor sample_anchor) [11] (snd (sample_grants ! 0))) [12]
         (snd (sample_grants ! 1)))"
proof -
  have "evaluate_author_scope_view (scope_authority_view (grant_authority_view (snd (sample_grants ! 0))))
      (scope_authority_view (grant_authority_view (snd (sample_grants ! 1)))) exact_laws = ScopeAccepted"
    by code_simp
  moreover have "delegate [11] (snd (sample_grants ! 0)) exact_laws (from_anchor sample_anchor)
      = Ok (granted (from_anchor sample_anchor) [11] (snd (sample_grants ! 0)))"
    by code_simp
  ultimately show ?thesis
    using author_scope_agrees_with_the_verifier [of "[11]" "snd (sample_grants ! 0)" exact_laws
        "from_anchor sample_anchor" _ "snd (sample_grants ! 1)" "[12]"]
    by (simp add: sample_grants_def sample_grant_def)
qed

end
