(* ===== verification/Composition.thy ===== *)
theory Composition
  imports Authority "HOL-Library.Char_ord" "HOL-Library.List_Lexorder" "HOL-Library.Multiset"
begin

text \<open>
  Authorization plans: the bounded plan tree of \<open>core/crates/auths-model/src/lib.rs\<close> with its
  constructors and validation, the stable reason and requirement codes, and the evaluation engine of
  \<open>core/crates/auths-composition/src/lib.rs\<close>. The branch callback may keep state of its own, so it is
  threaded; the observer's calls are the log. The engine is related to a reference reading in which a
  node's truth is an order statistic of its members' truths.
\<close>

section \<open>Reasons, requirements and their codes\<close>

datatype requirement =
    UnsupportedProtocol | UnsupportedPrincipalMethod | UnsupportedSignatureSuite
  | UnsupportedEvidenceType | UnsupportedStatusMethod | UnsupportedProfile
  | UnsupportedProfilePolicy | UnsupportedResourceMatcher | UnsupportedBudgetAlgebra
  | UnsupportedCriticalExtension | UnsupportedAssuranceClaim | MissingPrincipalEvidence
  | MissingPrincipalStatus | MissingGrantStatus | StaleStatus | HistoricalStateUnavailable
  | AssuranceRequirementNotMet | ExternalFactUnavailable | ObservationMissing
  | ObservationActionFactUnavailable | ApprovalUnavailable

fun denial_code :: "denial_reason \<Rightarrow> string" where
  "denial_code MalformedProof = ''malformed-proof''"
| "denial_code NonCanonicalProof = ''non-canonical-proof''"
| "denial_code ResourceLimitExceeded = ''resource-limit-exceeded''"
| "denial_code DigestMismatch = ''digest-mismatch''"
| "denial_code DuplicateObject = ''duplicate-object''"
| "denial_code MissingReference = ''missing-reference''"
| "denial_code ReferenceCycle = ''reference-cycle''"
| "denial_code AmbiguousTerminalGrant = ''ambiguous-terminal-grant''"
| "denial_code UnusedCriticalEvidence = ''unused-critical-evidence''"
| "denial_code InvalidSignature = ''invalid-signature''"
| "denial_code PrincipalMethodMismatch = ''principal-method-mismatch''"
| "denial_code VerificationMethodMismatch = ''verification-method-mismatch''"
| "denial_code SignatureSuiteMismatch = ''signature-suite-mismatch''"
| "denial_code UntrustedRoot = ''untrusted-root''"
| "denial_code BrokenGrantChain = ''broken-grant-chain''"
| "denial_code DelegationExpanded = ''delegation-expanded''"
| "denial_code PermissionNotGranted = ''permission-not-granted''"
| "denial_code ActionConstraintMismatch = ''action-constraint-mismatch''"
| "denial_code BudgetCeilingExceeded = ''budget-ceiling-exceeded''"
| "denial_code AuthorizationPlanInvalid = ''authorization-plan-invalid''"
| "denial_code CompositionRequirementNotMet = ''composition-requirement-not-met''"
| "denial_code PlanActionMismatch = ''plan-action-mismatch''"
| "denial_code ActionBodyMismatch = ''action-body-mismatch''"
| "denial_code AudienceMismatch = ''audience-mismatch''"
| "denial_code ChallengeMismatch = ''challenge-mismatch''"
| "denial_code ActionOutsideValidity = ''action-outside-validity''"
| "denial_code PrincipalRevoked = ''principal-revoked''"
| "denial_code GrantRevoked = ''grant-revoked''"
| "denial_code StatusSequenceRollback = ''status-sequence-rollback''"
| "denial_code StatusMethodMismatch = ''status-method-mismatch''"
| "denial_code StatusIssuerUntrusted = ''status-issuer-untrusted''"
| "denial_code RegistryManifestMismatch = ''registry-manifest-mismatch''"
| "denial_code VerifierConfigurationMismatch = ''verifier-configuration-mismatch''"
| "denial_code ResourceNamespaceMismatch = ''resource-namespace-mismatch''"
| "denial_code CriticalExtensionUnknown = ''critical-extension-unknown''"
| "denial_code AttachmentMissing = ''attachment-missing''"
| "denial_code AttachmentDigestMismatch = ''attachment-digest-mismatch''"
| "denial_code AttachmentLengthMismatch = ''attachment-length-mismatch''"
| "denial_code DuplicateAttachment = ''duplicate-attachment''"
| "denial_code UnusedCriticalAttachment = ''unused-critical-attachment''"
| "denial_code OpaqueAttachmentNotAllowed = ''opaque-attachment-not-allowed''"
| "denial_code LocalPolicyDenied = ''local-policy-denied''"
| "denial_code ObservationConditionFalse = ''observation-condition-false''"
| "denial_code ObserverInAuthorityChain = ''observer-in-authority-chain''"
| "denial_code ObservationRequirementDropped = ''observation-requirement-dropped''"
| "denial_code ApprovalThresholdNotMet = ''approval-threshold-not-met''"

fun requirement_code :: "requirement \<Rightarrow> string" where
  "requirement_code UnsupportedProtocol = ''unsupported-protocol''"
| "requirement_code UnsupportedPrincipalMethod = ''unsupported-principal-method''"
| "requirement_code UnsupportedSignatureSuite = ''unsupported-signature-suite''"
| "requirement_code UnsupportedEvidenceType = ''unsupported-evidence-type''"
| "requirement_code UnsupportedStatusMethod = ''unsupported-status-method''"
| "requirement_code UnsupportedProfile = ''unsupported-profile''"
| "requirement_code UnsupportedProfilePolicy = ''unsupported-profile-policy''"
| "requirement_code UnsupportedResourceMatcher = ''unsupported-resource-matcher''"
| "requirement_code UnsupportedBudgetAlgebra = ''unsupported-budget-algebra''"
| "requirement_code UnsupportedCriticalExtension = ''unsupported-critical-extension''"
| "requirement_code UnsupportedAssuranceClaim = ''unsupported-assurance-claim''"
| "requirement_code MissingPrincipalEvidence = ''missing-principal-evidence''"
| "requirement_code MissingPrincipalStatus = ''missing-principal-status''"
| "requirement_code MissingGrantStatus = ''missing-grant-status''"
| "requirement_code StaleStatus = ''stale-status''"
| "requirement_code HistoricalStateUnavailable = ''historical-state-unavailable''"
| "requirement_code AssuranceRequirementNotMet = ''assurance-requirement-not-met''"
| "requirement_code ExternalFactUnavailable = ''external-fact-unavailable''"
| "requirement_code ObservationMissing = ''observation-missing''"
| "requirement_code ObservationActionFactUnavailable = ''observation-action-fact-unavailable''"
| "requirement_code ApprovalUnavailable = ''approval-unavailable''"

definition denial_from_code :: "string \<Rightarrow> denial_reason option" where
  "denial_from_code code = find (\<lambda>reason. denial_code reason = code)
     [MalformedProof, NonCanonicalProof, ResourceLimitExceeded, DigestMismatch, DuplicateObject,
      MissingReference, ReferenceCycle, AmbiguousTerminalGrant, UnusedCriticalEvidence,
      InvalidSignature, PrincipalMethodMismatch, VerificationMethodMismatch,
      SignatureSuiteMismatch, UntrustedRoot, BrokenGrantChain, DelegationExpanded,
      PermissionNotGranted, ActionConstraintMismatch, BudgetCeilingExceeded,
      AuthorizationPlanInvalid, CompositionRequirementNotMet, PlanActionMismatch,
      ActionBodyMismatch, AudienceMismatch, ChallengeMismatch, ActionOutsideValidity,
      PrincipalRevoked, GrantRevoked, StatusSequenceRollback, StatusMethodMismatch,
      StatusIssuerUntrusted, RegistryManifestMismatch, VerifierConfigurationMismatch,
      ResourceNamespaceMismatch, CriticalExtensionUnknown, AttachmentMissing,
      AttachmentDigestMismatch, AttachmentLengthMismatch, DuplicateAttachment,
      UnusedCriticalAttachment, OpaqueAttachmentNotAllowed, LocalPolicyDenied,
      ObservationConditionFalse, ObserverInAuthorityChain, ObservationRequirementDropped,
      ApprovalThresholdNotMet]"

definition requirement_from_code :: "string \<Rightarrow> requirement option" where
  "requirement_from_code code = find (\<lambda>requirement. requirement_code requirement = code)
     [UnsupportedProtocol, UnsupportedPrincipalMethod, UnsupportedSignatureSuite,
      UnsupportedEvidenceType, UnsupportedStatusMethod, UnsupportedProfile,
      UnsupportedProfilePolicy, UnsupportedResourceMatcher, UnsupportedBudgetAlgebra,
      UnsupportedCriticalExtension, UnsupportedAssuranceClaim, MissingPrincipalEvidence,
      MissingPrincipalStatus, MissingGrantStatus, StaleStatus, HistoricalStateUnavailable,
      AssuranceRequirementNotMet, ExternalFactUnavailable, ObservationMissing,
      ObservationActionFactUnavailable, ApprovalUnavailable]"

lemma denial_codes_round_trip [simp]: "denial_from_code (denial_code r) = Some r"
  by (cases r; simp add: denial_from_code_def)

lemma requirement_codes_round_trip [simp]: "requirement_from_code (requirement_code r) = Some r"
  by (cases r; simp add: requirement_from_code_def)

lemma denial_code_inject: "denial_code a = denial_code b \<longleftrightarrow> a = b"
  by (metis denial_codes_round_trip option.inject)

lemma requirement_code_inject: "requirement_code a = requirement_code b \<longleftrightarrow> a = b"
  by (metis requirement_codes_round_trip option.inject)

section \<open>Plans\<close>

type_synonym proof_ref = bytes

datatype authorization_plan =
    Proof proof_ref
  | AllOf "authorization_plan list"
  | AnyOf "authorization_plan list"
  | KOfN u16 "authorization_plan list"

datatype plan_error = InvalidPlan | PlanLimitExceeded

text \<open>The limits of the verifier that bound a plan.\<close>

record plan_limits =
  plan_leaves :: usize
  plan_depth :: usize
  plan_branching :: usize

definition hard_plan_limits :: plan_limits where
  "hard_plan_limits = \<lparr> plan_leaves = 128, plan_depth = 16, plan_branching = 128 \<rparr>"

record plan_shape =
  ps_leaves :: "proof_ref list"
  ps_maximum_depth :: nat

text \<open>
  The walk of \<open>validate\<close>: its state is the ordered set of references seen and the depth reached.
\<close>

type_synonym walk_state = "proof_ref list \<times> nat"

fun walk :: "plan_limits \<Rightarrow> nat \<Rightarrow> authorization_plan \<Rightarrow> walk_state \<Rightarrow> (walk_state, plan_error) result"
  and walk_members ::
    "plan_limits \<Rightarrow> nat \<Rightarrow> authorization_plan list \<Rightarrow> walk_state \<Rightarrow> (walk_state, plan_error) result" where
  "walk limits depth (Proof reference) (refs, maximum_depth) =
     (if unat (plan_depth limits) < depth then Err PlanLimitExceeded
      else if reference \<in> set refs \<or> unat (plan_leaves limits) < Suc (length refs)
        then Err PlanLimitExceeded
      else Ok (insort reference refs, max maximum_depth depth))"
| "walk limits depth (AllOf members) (refs, maximum_depth) =
     (if unat (plan_depth limits) < depth then Err PlanLimitExceeded
      else if members = [] then Err InvalidPlan
      else if unat (plan_branching limits) < length members then Err PlanLimitExceeded
      else walk_members limits (Suc depth) members (refs, max maximum_depth depth))"
| "walk limits depth (AnyOf members) (refs, maximum_depth) =
     (if unat (plan_depth limits) < depth then Err PlanLimitExceeded
      else if members = [] then Err InvalidPlan
      else if unat (plan_branching limits) < length members then Err PlanLimitExceeded
      else walk_members limits (Suc depth) members (refs, max maximum_depth depth))"
| "walk limits depth (KOfN k members) (refs, maximum_depth) =
     (if unat (plan_depth limits) < depth then Err PlanLimitExceeded
      else if k = 0 \<or> length members < unat k \<or> members = [] then Err InvalidPlan
      else if unat (plan_branching limits) < length members then Err PlanLimitExceeded
      else walk_members limits (Suc depth) members (refs, max maximum_depth depth))"
| "walk_members limits depth [] state = Ok state"
| "walk_members limits depth (member # members) state =
     and_then (walk limits depth member state) (walk_members limits depth members)"

definition validate :: "authorization_plan \<Rightarrow> plan_limits \<Rightarrow> (plan_shape, plan_error) result" where
  "validate plan limits =
     and_then (walk limits 1 plan ([], 0)) (\<lambda>(refs, maximum_depth).
       Ok \<lparr> ps_leaves = refs, ps_maximum_depth = maximum_depth \<rparr>)"

text \<open>
  The constructors sort the members by the derived order of plans: the variants in the order of
  their declaration, then their fields, lists lexicographically.
\<close>

datatype ordering = OrderLess | OrderEqual | OrderGreater

definition compare :: "'a::linorder \<Rightarrow> 'a \<Rightarrow> ordering" where
  "compare a b = (if a < b then OrderLess else if a = b then OrderEqual else OrderGreater)"

definition then_compare :: "ordering \<Rightarrow> ordering \<Rightarrow> ordering" where
  "then_compare a b = (case a of OrderEqual \<Rightarrow> b | _ \<Rightarrow> a)"

fun plan_variant :: "authorization_plan \<Rightarrow> nat" where
  "plan_variant (Proof _) = 0"
| "plan_variant (AllOf _) = 1"
| "plan_variant (AnyOf _) = 2"
| "plan_variant (KOfN _ _) = 3"

fun plan_compare :: "authorization_plan \<Rightarrow> authorization_plan \<Rightarrow> ordering"
  and plans_compare :: "authorization_plan list \<Rightarrow> authorization_plan list \<Rightarrow> ordering" where
  "plan_compare (Proof a) (Proof b) = compare a b"
| "plan_compare (AllOf as) (AllOf bs) = plans_compare as bs"
| "plan_compare (AnyOf as) (AnyOf bs) = plans_compare as bs"
| "plan_compare (KOfN k as) (KOfN l bs) = then_compare (compare k l) (plans_compare as bs)"
| "plan_compare a b = compare (plan_variant a) (plan_variant b)"
| "plans_compare [] [] = OrderEqual"
| "plans_compare [] (b # bs) = OrderLess"
| "plans_compare (a # as) [] = OrderGreater"
| "plans_compare (a # as) (b # bs) = then_compare (plan_compare a b) (plans_compare as bs)"

fun insert_plan :: "authorization_plan \<Rightarrow> authorization_plan list \<Rightarrow> authorization_plan list" where
  "insert_plan x [] = [x]"
| "insert_plan x (y # ys) = (if plan_compare x y = OrderGreater then y # insert_plan x ys else x # y # ys)"

definition sort_plans :: "authorization_plan list \<Rightarrow> authorization_plan list" where
  "sort_plans members = foldr insert_plan members []"

fun sort_members :: "authorization_plan \<Rightarrow> authorization_plan" where
  "sort_members (Proof reference) = Proof reference"
| "sort_members (AllOf members) = AllOf (sort_plans members)"
| "sort_members (AnyOf members) = AnyOf (sort_plans members)"
| "sort_members (KOfN k members) = KOfN k (sort_plans members)"

definition compound :: "authorization_plan \<Rightarrow> (authorization_plan, plan_error) result" where
  "compound node = (let plan = sort_members node in
     and_then (validate plan hard_plan_limits) (\<lambda>_. Ok plan))"

definition all_of :: "authorization_plan list \<Rightarrow> (authorization_plan, plan_error) result" where
  "all_of members = compound (AllOf members)"

definition any_of :: "authorization_plan list \<Rightarrow> (authorization_plan, plan_error) result" where
  "any_of members = compound (AnyOf members)"

definition k_of_n :: "u16 \<Rightarrow> authorization_plan list \<Rightarrow> (authorization_plan, plan_error) result" where
  "k_of_n k members = compound (KOfN k members)"

section \<open>Evaluation\<close>

datatype branch_outcome =
    BranchAuthorized
  | BranchDenied denial_reason
  | BranchIndeterminate requirement
  | BranchStructurallyInvalid denial_reason

datatype evaluation_event =
    ProofEvent proof_ref branch_outcome
  | AggregateEvent usize u16 usize usize branch_outcome

fun event_outcome :: "evaluation_event \<Rightarrow> branch_outcome" where
  "event_outcome (ProofEvent reference outcome) = outcome"
| "event_outcome (AggregateEvent child_count required authorized indeterminate outcome) = outcome"

definition evaluate_threshold_counts :: "u16 \<Rightarrow> usize \<Rightarrow> usize \<Rightarrow> truth" where
  "evaluate_threshold_counts k authorized indeterminate = threshold_counts k authorized indeterminate"

text \<open>\<open>Iterator::min_by_key\<close>: the first element with the least key.\<close>

fun min_by_key :: "('a \<Rightarrow> 'k::linorder) \<Rightarrow> 'a list \<Rightarrow> 'a option" where
  "min_by_key key [] = None"
| "min_by_key key (x # xs) =
     (case min_by_key key xs of None \<Rightarrow> Some x | Some y \<Rightarrow> if key x \<le> key y then Some x else Some y)"

definition canonical_denial :: "denial_reason list \<Rightarrow> denial_reason option" where
  "canonical_denial reasons = min_by_key denial_code reasons"

definition canonical_requirement :: "requirement list \<Rightarrow> requirement option" where
  "canonical_requirement requirements = min_by_key requirement_code requirements"

text \<open>
  What the member loops accumulate: the count of authorized members, the reasons of the denied ones
  and the requirements of the indeterminate ones.
\<close>

record tally =
  t_authorized :: usize
  t_denied :: "denial_reason list"
  t_indeterminate :: "requirement list"

fun tally_outcome :: "branch_outcome \<Rightarrow> tally \<Rightarrow> tally" where
  "tally_outcome BranchAuthorized t = t \<lparr> t_authorized := t_authorized t + 1 \<rparr>"
| "tally_outcome (BranchDenied reason) t = t \<lparr> t_denied := t_denied t @ [reason] \<rparr>"
| "tally_outcome (BranchStructurallyInvalid reason) t = t \<lparr> t_denied := t_denied t @ [reason] \<rparr>"
| "tally_outcome (BranchIndeterminate requirement) t =
     t \<lparr> t_indeterminate := t_indeterminate t @ [requirement] \<rparr>"

definition empty_tally :: tally where
  "empty_tally = \<lparr> t_authorized = 0, t_denied = [], t_indeterminate = [] \<rparr>"

definition all_of_outcome :: "tally \<Rightarrow> branch_outcome" where
  "all_of_outcome t = (case canonical_denial (t_denied t) of
     None \<Rightarrow> (case canonical_requirement (t_indeterminate t) of
        None \<Rightarrow> BranchAuthorized | Some requirement \<Rightarrow> BranchIndeterminate requirement)
   | Some reason \<Rightarrow> BranchDenied reason)"

definition unwrap_or :: "'a option \<Rightarrow> 'a \<Rightarrow> 'a" where
  "unwrap_or x d = (case x of None \<Rightarrow> d | Some v \<Rightarrow> v)"

definition any_of_outcome :: "tally \<Rightarrow> branch_outcome" where
  "any_of_outcome t =
     (if 0 < t_authorized t then BranchAuthorized
      else case canonical_requirement (t_indeterminate t) of
        Some requirement \<Rightarrow> BranchIndeterminate requirement
      | None \<Rightarrow> BranchDenied (unwrap_or (canonical_denial (t_denied t)) AuthorizationPlanInvalid))"

definition k_of_n_outcome :: "u16 \<Rightarrow> tally \<Rightarrow> branch_outcome" where
  "k_of_n_outcome k t =
     (case evaluate_threshold_counts k (t_authorized t) (of_nat (length (t_indeterminate t))) of
        Authorized \<Rightarrow> BranchAuthorized
      | Indeterminate \<Rightarrow> BranchIndeterminate
          (unwrap_or (canonical_requirement (t_indeterminate t)) ExternalFactUnavailable)
      | Denied \<Rightarrow> BranchDenied (unwrap_or (canonical_denial (t_denied t)) AuthorizationPlanInvalid))"

text \<open>\<open>u16::try_from(child_count).unwrap_or(u16::MAX)\<close>.\<close>

definition saturating_u16 :: "nat \<Rightarrow> u16" where
  "saturating_u16 n = (if n \<le> 65535 then of_nat n else 65535)"

text \<open>The callback takes the reference and its own state; the log holds the observer's calls in order.\<close>

type_synonym 's branch = "proof_ref \<Rightarrow> 's \<Rightarrow> branch_outcome \<times> 's"
type_synonym 's observed = "'s \<times> evaluation_event list"

definition observe_aggregate ::
  "nat \<Rightarrow> u16 \<Rightarrow> tally \<Rightarrow> branch_outcome \<Rightarrow> 's observed \<Rightarrow> branch_outcome \<times> 's observed" where
  "observe_aggregate child_count required t outcome = (\<lambda>(s, log). (outcome, s, log @
     [AggregateEvent (of_nat child_count) required (t_authorized t)
        (of_nat (length (t_indeterminate t))) outcome]))"

fun evaluate_node :: "'s branch \<Rightarrow> authorization_plan \<Rightarrow> 's observed \<Rightarrow> branch_outcome \<times> 's observed"
  and evaluate_members :: "'s branch \<Rightarrow> authorization_plan list \<Rightarrow> tally \<Rightarrow> 's observed \<Rightarrow> tally \<times> 's observed" where
  "evaluate_node branch (Proof reference) (s, log) =
     (case branch reference s of (outcome, s') \<Rightarrow> (outcome, s', log @ [ProofEvent reference outcome]))"
| "evaluate_node branch (AllOf members) obs =
     (case evaluate_members branch members empty_tally obs of (t, obs') \<Rightarrow>
        observe_aggregate (length members) (saturating_u16 (length members)) t (all_of_outcome t) obs')"
| "evaluate_node branch (AnyOf members) obs =
     (case evaluate_members branch members empty_tally obs of (t, obs') \<Rightarrow>
        observe_aggregate (length members) 1 t (any_of_outcome t) obs')"
| "evaluate_node branch (KOfN k members) obs =
     (case evaluate_members branch members empty_tally obs of (t, obs') \<Rightarrow>
        observe_aggregate (length members) k t (k_of_n_outcome k t) obs')"
| "evaluate_members branch [] t obs = (t, obs)"
| "evaluate_members branch (member # members) t obs =
     (case evaluate_node branch member obs of (outcome, obs') \<Rightarrow>
        evaluate_members branch members (tally_outcome outcome t) obs')"

definition evaluate_observed ::
  "authorization_plan \<Rightarrow> plan_limits \<Rightarrow> 's branch \<Rightarrow> 's
     \<Rightarrow> (branch_outcome \<times> 's observed, denial_reason) result" where
  "evaluate_observed plan limits branch s = (case validate plan limits of
     Inl _ \<Rightarrow> Err AuthorizationPlanInvalid
   | Inr _ \<Rightarrow> Ok (evaluate_node branch plan (s, [])))"

definition evaluate :: "authorization_plan \<Rightarrow> plan_limits \<Rightarrow> 's branch \<Rightarrow> 's
     \<Rightarrow> (branch_outcome \<times> 's, denial_reason) result" where
  "evaluate plan limits branch s =
     and_then (evaluate_observed plan limits branch s) (\<lambda>(outcome, s', _). Ok (outcome, s'))"

section \<open>The reference reading\<close>

text \<open>
  A node is as true as the \<open>n\<close>-th best of its members, where \<open>n\<close> is the number it requires: all of
  them, one of them, or \<open>k\<close> of them.
\<close>

definition nth_best :: "nat \<Rightarrow> 'a::linorder list \<Rightarrow> 'a" where
  "nth_best n xs = sort xs ! (length xs - n)"

fun plan_truth :: "(proof_ref \<Rightarrow> truth) \<Rightarrow> authorization_plan \<Rightarrow> truth" where
  "plan_truth v (Proof reference) = v reference"
| "plan_truth v (AllOf members) = nth_best (length members) (map (plan_truth v) members)"
| "plan_truth v (AnyOf members) = nth_best 1 (map (plan_truth v) members)"
| "plan_truth v (KOfN k members) = nth_best (unat k) (map (plan_truth v) members)"

fun truth_of :: "branch_outcome \<Rightarrow> truth" where
  "truth_of BranchAuthorized = Authorized"
| "truth_of (BranchDenied _) = Denied"
| "truth_of (BranchIndeterminate _) = Indeterminate"
| "truth_of (BranchStructurallyInvalid _) = Denied"

fun plan_refs :: "authorization_plan \<Rightarrow> proof_ref list" where
  "plan_refs (Proof reference) = [reference]"
| "plan_refs (AllOf members) = concat (map plan_refs members)"
| "plan_refs (AnyOf members) = concat (map plan_refs members)"
| "plan_refs (KOfN k members) = concat (map plan_refs members)"

fun plan_height :: "authorization_plan \<Rightarrow> nat" where
  "plan_height (Proof reference) = 1"
| "plan_height (AllOf members) = Suc (foldr (max \<circ> plan_height) members 0)"
| "plan_height (AnyOf members) = Suc (foldr (max \<circ> plan_height) members 0)"
| "plan_height (KOfN k members) = Suc (foldr (max \<circ> plan_height) members 0)"

text \<open>Every operator has a member, and a threshold that its members can reach.\<close>

fun plan_wf :: "nat \<Rightarrow> authorization_plan \<Rightarrow> bool" where
  "plan_wf branching (Proof reference) = True"
| "plan_wf branching (AllOf members) =
     (members \<noteq> [] \<and> length members \<le> branching \<and> list_all (plan_wf branching) members)"
| "plan_wf branching (AnyOf members) =
     (members \<noteq> [] \<and> length members \<le> branching \<and> list_all (plan_wf branching) members)"
| "plan_wf branching (KOfN k members) =
     (0 < unat k \<and> unat k \<le> length members \<and> length members \<le> branching \<and> list_all (plan_wf branching) members)"

lemma sorted_nth_ge_iff:
  assumes "sorted xs" "i < length xs"
  shows "t \<le> xs ! i \<longleftrightarrow> length xs - i \<le> length (filter (\<lambda>x. t \<le> x) xs)"
  using assms
proof (induction xs arbitrary: i)
  case (Cons x xs)
  show ?case
  proof (cases "t \<le> x")
    case True
    then have "filter (\<lambda>y. t \<le> y) (x # xs) = x # xs" using Cons.prems(1) by (fastforce intro: filter_True)
    moreover have "t \<le> (x # xs) ! i" using True Cons.prems by (cases i) (auto intro: order_trans)
    ultimately show ?thesis by simp
  next
    case False
    then show ?thesis
    proof (cases i)
      case 0
      have "\<not> Suc (length xs) \<le> length (filter ((\<le>) t) xs)" using length_filter_le [of "(\<le>) t" xs] by linarith
      then show ?thesis using False 0 by simp
    next
      case (Suc j)
      then show ?thesis using False Cons by simp
    qed
  qed
qed simp

lemma nth_best_ge_iff:
  assumes "0 < n" "n \<le> length xs"
  shows "t \<le> nth_best n xs \<longleftrightarrow> n \<le> length (filter (\<lambda>x. t \<le> x) xs)"
proof -
  have "length (filter (\<lambda>x. t \<le> x) (sort xs)) = length (filter (\<lambda>x. t \<le> x) xs)"
    by (simp add: filter_sort)
  then show ?thesis using sorted_nth_ge_iff [of "sort xs" "length xs - n" t] assms by (simp add: nth_best_def)
qed

lemma truth_eqI:
  assumes "(Authorized \<le> a) = (Authorized \<le> b)" "(Indeterminate \<le> a) = (Indeterminate \<le> b)"
  shows "a = b"
  using assms by (cases a; cases b) (auto simp: less_eq_truth_def)

lemma truth_ge_simps [simp]:
  "Authorized \<le> a \<longleftrightarrow> a = Authorized" "Indeterminate \<le> a \<longleftrightarrow> a \<noteq> Denied" "Denied \<le> a"
  by (cases a; simp add: less_eq_truth_def)+

section \<open>What the loops count\<close>

fun reasons_of :: "branch_outcome \<Rightarrow> denial_reason list" where
  "reasons_of (BranchDenied r) = [r]"
| "reasons_of (BranchStructurallyInvalid r) = [r]"
| "reasons_of _ = []"

fun requirements_of :: "branch_outcome \<Rightarrow> requirement list" where
  "requirements_of (BranchIndeterminate r) = [r]"
| "requirements_of _ = []"

definition tally_of :: "branch_outcome list \<Rightarrow> tally" where
  "tally_of outcomes = fold tally_outcome outcomes empty_tally"

lemma fold_tally:
  "fold tally_outcome os t = \<lparr>
     t_authorized = t_authorized t + of_nat (length (filter (\<lambda>x. x = BranchAuthorized) os)),
     t_denied = t_denied t @ concat (map reasons_of os),
     t_indeterminate = t_indeterminate t @ concat (map requirements_of os) \<rparr>"
proof (induction os arbitrary: t)
  case (Cons x os)
  show ?case by (cases x) (simp_all add: Cons.IH)
qed simp

lemma tally_of_simps [simp]:
  "t_authorized (tally_of os) = of_nat (length (filter (\<lambda>x. x = BranchAuthorized) os))"
  "t_denied (tally_of os) = concat (map reasons_of os)"
  "t_indeterminate (tally_of os) = concat (map requirements_of os)"
  by (simp_all add: tally_of_def fold_tally empty_tally_def)

lemma min_by_key_None_iff [simp]: "min_by_key key xs = None \<longleftrightarrow> xs = []"
  by (cases xs) (auto split: option.splits)

lemma min_by_key_in: "min_by_key key xs = Some x \<Longrightarrow> x \<in> set xs"
  by (induction xs arbitrary: x) (auto split: option.splits if_splits)

lemma min_by_key_least: "min_by_key key xs = Some x \<Longrightarrow> y \<in> set xs \<Longrightarrow> key x \<le> key y"
proof (induction xs arbitrary: x)
  case (Cons z xs)
  then show ?case by (cases "min_by_key key xs") (fastforce split: if_splits intro: order_trans)+
qed simp

lemma concat_requirements_length:
  "length (concat (map requirements_of os)) = length (filter (\<lambda>x. truth_of x = Indeterminate) os)"
proof (induction os)
  case (Cons x os)
  then show ?case by (cases x) simp_all
qed simp


lemma no_reasons_iff: "concat (map reasons_of os) = [] \<longleftrightarrow> (\<forall>x \<in> set os. truth_of x \<noteq> Denied)"
proof (induction os)
  case (Cons x os)
  then show ?case by (cases x) simp_all
qed simp

lemma no_requirements_iff:
  "concat (map requirements_of os) = [] \<longleftrightarrow> (\<forall>x \<in> set os. truth_of x \<noteq> Indeterminate)"
proof (induction os)
  case (Cons x os)
  then show ?case by (cases x) simp_all
qed simp

lemma truth_of_authorized_iff: "truth_of x = Authorized \<longleftrightarrow> x = BranchAuthorized"
  by (cases x) simp_all

lemma authorized_iff_other: "t = Authorized \<longleftrightarrow> t \<noteq> Denied \<and> t \<noteq> Indeterminate"
  by (cases t) simp_all

lemma truth_of_undenied_iff: "truth_of x \<noteq> Denied \<longleftrightarrow> x = BranchAuthorized \<or> truth_of x = Indeterminate"
  by (cases x) simp_all

lemma length_filter_all_iff: "length xs \<le> length (filter P xs) \<longleftrightarrow> (\<forall>x \<in> set xs. P x)"
proof (induction xs)
  case (Cons x xs)
  have "\<not> Suc (length xs) \<le> length (filter P xs)" using length_filter_le [of P xs] by linarith
  then show ?case using Cons by auto
qed simp

lemma truth_of_all_of: "truth_of (all_of_outcome (tally_of os)) =
   (if \<exists>x \<in> set os. truth_of x = Denied then Denied
    else if \<exists>x \<in> set os. truth_of x = Indeterminate then Indeterminate else Authorized)"
  using no_reasons_iff [of os] no_requirements_iff [of os]
  by (auto simp: all_of_outcome_def canonical_denial_def canonical_requirement_def
      simp del: concat_eq_Nil_conv split: option.splits)

lemma all_of_is_nth_best:
  assumes "os \<noteq> []"
  shows "truth_of (all_of_outcome (tally_of os)) = nth_best (length os) (map truth_of os)"
proof (rule truth_eqI)
  have least: "t \<le> nth_best (length os) (map truth_of os) \<longleftrightarrow> (\<forall>x \<in> set os. t \<le> truth_of x)" for t
  proof -
    have "length os \<le> length (filter (\<lambda>x. t \<le> x) (map truth_of os)) \<longleftrightarrow> (\<forall>x \<in> set os. t \<le> truth_of x)"
      using length_filter_all_iff [of "map truth_of os" "\<lambda>x. t \<le> x"] by simp
    then show ?thesis using nth_best_ge_iff [of "length os" "map truth_of os" t] assms by simp
  qed
  show "(Authorized \<le> truth_of (all_of_outcome (tally_of os))) = (Authorized \<le> nth_best (length os) (map truth_of os))"
    unfolding least truth_of_all_of by (simp add: authorized_iff_other) blast
  show "(Indeterminate \<le> truth_of (all_of_outcome (tally_of os))) = (Indeterminate \<le> nth_best (length os) (map truth_of os))"
    unfolding least truth_of_all_of by auto
qed

text \<open>The counts stay below the width of \<open>usize\<close>, so a threshold over them is exact.\<close>

lemma unat_of_nat_small: "n < 2 ^ 64 \<Longrightarrow> unat (of_nat n :: usize) = n"
  by (simp add: unat_of_nat take_bit_nat_eq_self)

lemma k_of_n_is_nth_best:
  assumes k: "0 < unat k" "unat k \<le> length os" and small: "length os < 2 ^ 64"
  shows "truth_of (k_of_n_outcome k (tally_of os)) = nth_best (unat k) (map truth_of os)"
proof (rule truth_eqI)
  let ?a = "length (filter (\<lambda>x. x = BranchAuthorized) os)"
  let ?i = "length (filter (\<lambda>x. truth_of x = Indeterminate) os)"
  have bounds: "?a < 2 ^ 64" "?i < 2 ^ 64" using small by (meson le_less_trans length_filter_le)+
  have best: "t \<le> nth_best (unat k) (map truth_of os) \<longleftrightarrow> unat k \<le> length (filter (\<lambda>x. t \<le> truth_of x) os)" for t
    using nth_best_ge_iff [of "unat k" "map truth_of os" t] k by (simp add: filter_map o_def)
  have ge: "length (filter (\<lambda>x. truth_of x \<noteq> Denied) os) = ?a + ?i"
  proof (induction os)
    case (Cons x os)
    then show ?case by (cases x) simp_all
  qed simp
  have verdict: "truth_of (k_of_n_outcome k (tally_of os)) =
      (if unat k \<le> ?a then Authorized else if unat k \<le> ?a + ?i then Indeterminate else Denied)"
    using bounds by (simp add: k_of_n_outcome_def evaluate_threshold_counts_def threshold_counts_cases
        concat_requirements_length unat_of_nat_small del: length_concat)
  show "(Authorized \<le> truth_of (k_of_n_outcome k (tally_of os))) = (Authorized \<le> nth_best (unat k) (map truth_of os))"
    unfolding best verdict by (simp add: truth_of_authorized_iff)
  show "(Indeterminate \<le> truth_of (k_of_n_outcome k (tally_of os))) = (Indeterminate \<le> nth_best (unat k) (map truth_of os))"
    unfolding best verdict by (simp add: ge)
qed

lemma any_of_is_nth_best:
  assumes "os \<noteq> []" and small: "length os < 2 ^ 64"
  shows "truth_of (any_of_outcome (tally_of os)) = nth_best 1 (map truth_of os)"
proof (rule truth_eqI)
  have best: "t \<le> nth_best 1 (map truth_of os) \<longleftrightarrow> (\<exists>x \<in> set os. t \<le> truth_of x)" for t
    using nth_best_ge_iff [of 1 "map truth_of os" t] assms(1)
    by (auto simp: Suc_le_eq filter_empty_conv Suc_leI)
  have "length (filter (\<lambda>x. x = BranchAuthorized) os) < 2 ^ 64" using small by (meson le_less_trans length_filter_le)
  then have some: "0 < t_authorized (tally_of os) \<longleftrightarrow> BranchAuthorized \<in> set os"
    by (auto simp: word_less_nat_alt unat_of_nat_small filter_empty_conv)
  have verdict: "truth_of (any_of_outcome (tally_of os)) = (if BranchAuthorized \<in> set os then Authorized
      else if \<exists>x \<in> set os. truth_of x = Indeterminate then Indeterminate else Denied)"
    using no_requirements_iff [of os] unfolding any_of_outcome_def some
    by (auto simp: canonical_requirement_def simp del: concat_eq_Nil_conv split: option.splits)
  show "(Authorized \<le> truth_of (any_of_outcome (tally_of os))) = (Authorized \<le> nth_best 1 (map truth_of os))"
    unfolding best verdict by (auto simp: truth_of_authorized_iff)
  show "(Indeterminate \<le> truth_of (any_of_outcome (tally_of os))) = (Indeterminate \<le> nth_best 1 (map truth_of os))"
    unfolding best verdict by (auto simp: truth_of_undenied_iff)
qed


text \<open>Diagnostics are inherited: a verdict's reason or requirement is one of the members'.\<close>

definition inherits :: "branch_outcome \<Rightarrow> branch_outcome list \<Rightarrow> bool" where
  "inherits outcome outcomes \<longleftrightarrow>
     set (reasons_of outcome) \<subseteq> set (concat (map reasons_of outcomes))
     \<and> set (requirements_of outcome) \<subseteq> set (concat (map requirements_of outcomes))"

lemma inherits_trans:
  "inherits outcome middle \<Longrightarrow> \<forall>x \<in> set middle. inherits x leaves \<Longrightarrow> inherits outcome leaves"
  unfolding inherits_def by fastforce

lemma unwrap_or_in: "xs \<noteq> [] \<Longrightarrow> unwrap_or (min_by_key key xs) d \<in> set xs"
  by (cases "min_by_key key xs") (auto simp: unwrap_or_def min_by_key_in)

lemma all_of_inherits: "inherits (all_of_outcome (tally_of os)) os"
  unfolding inherits_def all_of_outcome_def canonical_denial_def canonical_requirement_def tally_of_simps
  by (auto simp del: set_concat dest!: min_by_key_in split: option.splits)

lemma any_of_inherits:
  assumes "os \<noteq> []" and small: "length os < 2 ^ 64"
  shows "inherits (any_of_outcome (tally_of os)) os"
proof -
  have "concat (map reasons_of os) \<noteq> []"
    if "\<not> 0 < t_authorized (tally_of os)" "concat (map requirements_of os) = []"
  proof -
    have "truth_of (any_of_outcome (tally_of os)) = Denied"
      using that by (simp add: any_of_outcome_def canonical_requirement_def del: concat_eq_Nil_conv)
    then have "\<not> Indeterminate \<le> nth_best 1 (map truth_of os)" using any_of_is_nth_best [OF assms] by simp
    then have "\<forall>x \<in> set os. truth_of x = Denied"
      using nth_best_ge_iff [of 1 "map truth_of os" Indeterminate] assms(1)
      by (auto simp: Suc_le_eq filter_empty_conv Suc_leI)
    then show ?thesis using assms(1) no_reasons_iff [of os] by (cases os) auto
  qed
  then show ?thesis
    unfolding inherits_def any_of_outcome_def canonical_denial_def canonical_requirement_def
    by (auto simp del: set_concat concat_eq_Nil_conv dest: min_by_key_in unwrap_or_in split: option.splits)
qed

lemma k_of_n_inherits:
  assumes k: "0 < unat k" "unat k \<le> length os" and small: "length os < 2 ^ 64"
  shows "inherits (k_of_n_outcome k (tally_of os)) os"
proof -
  have best: "t \<le> truth_of (k_of_n_outcome k (tally_of os)) \<longleftrightarrow>
      unat k \<le> length (filter (\<lambda>x. t \<le> truth_of x) os)" for t
    using nth_best_ge_iff [of "unat k" "map truth_of os" t] k k_of_n_is_nth_best [OF assms]
    by (simp add: filter_map o_def)
  have denied: "concat (map reasons_of os) \<noteq> []" if "truth_of (k_of_n_outcome k (tally_of os)) = Denied"
  proof
    assume "concat (map reasons_of os) = []"
    then have "filter (\<lambda>x. Indeterminate \<le> truth_of x) os = os" by (simp add: no_reasons_iff del: concat_eq_Nil_conv)
    then show False using best [of Indeterminate] that k by simp
  qed
  have indeterminate: "concat (map requirements_of os) \<noteq> []"
    if "truth_of (k_of_n_outcome k (tally_of os)) = Indeterminate"
  proof
    assume "concat (map requirements_of os) = []"
    then have "filter (\<lambda>x. Indeterminate \<le> truth_of x) os = filter (\<lambda>x. Authorized \<le> truth_of x) os"
      by (intro filter_cong) (auto simp: no_requirements_iff authorized_iff_other simp del: concat_eq_Nil_conv)
    then show False using best [of Indeterminate] best [of Authorized] that by simp
  qed
  show ?thesis using denied indeterminate
    unfolding inherits_def k_of_n_outcome_def canonical_denial_def canonical_requirement_def
    by (auto simp del: set_concat concat_eq_Nil_conv dest: unwrap_or_in split: truth.splits)
qed

section \<open>The engine computes the reference reading\<close>

text \<open>The leaf calls recorded in a log, and the truths they establish.\<close>

fun leaf_events :: "evaluation_event list \<Rightarrow> (proof_ref \<times> branch_outcome) list" where
  "leaf_events [] = []"
| "leaf_events (ProofEvent reference outcome # log) = (reference, outcome) # leaf_events log"
| "leaf_events (AggregateEvent _ _ _ _ _ # log) = leaf_events log"

lemma leaf_events_append [simp]: "leaf_events (xs @ ys) = leaf_events xs @ leaf_events ys"
  by (induction xs rule: leaf_events.induct) simp_all

definition agrees :: "(proof_ref \<Rightarrow> truth) \<Rightarrow> evaluation_event list \<Rightarrow> bool" where
  "agrees v log \<longleftrightarrow> (\<forall>(reference, outcome) \<in> set (leaf_events log). truth_of outcome = v reference)"

lemma agrees_append [simp]: "agrees v (xs @ ys) \<longleftrightarrow> agrees v xs \<and> agrees v ys"
  by (auto simp: agrees_def)

text \<open>
  One evaluation extends the log by a segment that calls every leaf in order, and the truth of its
  outcome is the reference truth under any valuation that agrees with the segment.
\<close>

definition node_run :: "'s branch \<Rightarrow> authorization_plan \<Rightarrow> bool" where
  "node_run branch plan \<longleftrightarrow> (\<forall>s log. \<exists>outcome s' seg.
     evaluate_node branch plan (s, log) = (outcome, s', log @ seg)
     \<and> map fst (leaf_events seg) = plan_refs plan
     \<and> seg \<noteq> [] \<and> event_outcome (last seg) = outcome
     \<and> inherits outcome (map snd (leaf_events seg))
     \<and> (\<forall>v. agrees v seg \<longrightarrow> truth_of outcome = plan_truth v plan))"

lemma members_run:
  assumes "\<forall>m \<in> set members. node_run branch m"
  shows "\<exists>outcomes s' seg. evaluate_members branch members t (s, log) = (fold tally_outcome outcomes t, s', log @ seg)
    \<and> length outcomes = length members
    \<and> map fst (leaf_events seg) = concat (map plan_refs members)
    \<and> (\<forall>outcome \<in> set outcomes. inherits outcome (map snd (leaf_events seg)))
    \<and> (\<forall>v. agrees v seg \<longrightarrow> map truth_of outcomes = map (plan_truth v) members)"
  using assms
proof (induction members arbitrary: t s log)
  case Nil
  show ?case by (rule exI [of _ "[]"]) simp
next
  case (Cons m members)
  obtain outcome s1 seg1 where one: "evaluate_node branch m (s, log) = (outcome, s1, log @ seg1)"
      "map fst (leaf_events seg1) = plan_refs m" "inherits outcome (map snd (leaf_events seg1))"
      "\<forall>v. agrees v seg1 \<longrightarrow> truth_of outcome = plan_truth v m"
    using Cons.prems [THEN bspec, OF list.set_intros(1), unfolded node_run_def, THEN spec, of s, THEN spec, of log]
    by (elim exE conjE) (rule that)
  obtain outcomes s2 seg2 where rest:
      "evaluate_members branch members (tally_outcome outcome t) (s1, log @ seg1)
         = (fold tally_outcome outcomes (tally_outcome outcome t), s2, (log @ seg1) @ seg2)"
      "length outcomes = length members" "map fst (leaf_events seg2) = concat (map plan_refs members)"
      "\<forall>outcome \<in> set outcomes. inherits outcome (map snd (leaf_events seg2))"
      "\<forall>v. agrees v seg2 \<longrightarrow> map truth_of outcomes = map (plan_truth v) members"
    using Cons.IH [of "tally_outcome outcome t" s1 "log @ seg1"] Cons.prems by auto
  show ?case
    by (rule exI [of _ "outcome # outcomes"], rule exI [of _ s2], rule exI [of _ "seg1 @ seg2"])
       (use one rest in \<open>auto simp: inherits_def\<close>)
qed

text \<open>An operator: its members run, then one aggregate event carries the outcome of the tally.\<close>

lemma operator_run:
  assumes members: "\<forall>m \<in> set members. node_run branch m"
    and node: "\<And>s log. evaluate_node branch plan (s, log) =
        (case evaluate_members branch members empty_tally (s, log) of (t, obs) \<Rightarrow>
           observe_aggregate (length members) required t (verdict t) obs)"
    and refs: "plan_refs plan = concat (map plan_refs members)"
    and verdict: "\<And>v outcomes. length outcomes = length members \<Longrightarrow>
        map truth_of outcomes = map (plan_truth v) members \<Longrightarrow>
        truth_of (verdict (tally_of outcomes)) = plan_truth v plan"
    and diagnostics: "\<And>outcomes. length outcomes = length members \<Longrightarrow> inherits (verdict (tally_of outcomes)) outcomes"
  shows "node_run branch plan"
  unfolding node_run_def
proof (intro allI)
  fix s log
  obtain outcomes s' seg where run:
      "evaluate_members branch members empty_tally (s, log) = (tally_of outcomes, s', log @ seg)"
      "length outcomes = length members" "map fst (leaf_events seg) = concat (map plan_refs members)"
      "\<forall>outcome \<in> set outcomes. inherits outcome (map snd (leaf_events seg))"
      "\<forall>v. agrees v seg \<longrightarrow> map truth_of outcomes = map (plan_truth v) members"
    using members_run [OF members, of empty_tally s log, folded tally_of_def] by (elim exE conjE) (rule that)
  define aggregate where "aggregate = AggregateEvent (of_nat (length members)) required
    (t_authorized (tally_of outcomes)) (of_nat (length (t_indeterminate (tally_of outcomes)))) (verdict (tally_of outcomes))"
  have "evaluate_node branch plan (s, log) = (verdict (tally_of outcomes), s', log @ seg @ [aggregate])"
    by (simp add: node run(1) observe_aggregate_def aggregate_def)
  moreover have "leaf_events [aggregate] = []" and "event_outcome aggregate = verdict (tally_of outcomes)"
    by (simp_all add: aggregate_def)
  moreover have "inherits (verdict (tally_of outcomes)) (map snd (leaf_events seg))"
    using diagnostics [OF run(2)] run(4) by (rule inherits_trans)
  ultimately show "\<exists>outcome s' seg. evaluate_node branch plan (s, log) = (outcome, s', log @ seg)
      \<and> map fst (leaf_events seg) = plan_refs plan \<and> seg \<noteq> [] \<and> event_outcome (last seg) = outcome
      \<and> inherits outcome (map snd (leaf_events seg))
      \<and> (\<forall>v. agrees v seg \<longrightarrow> truth_of outcome = plan_truth v plan)"
    using run refs verdict by (intro exI [of _ "verdict (tally_of outcomes)"] exI [of _ s']
        exI [of _ "seg @ [aggregate]"]) auto
qed

lemma plan_run: "plan_wf b plan \<Longrightarrow> b < 2 ^ 64 \<Longrightarrow> node_run branch plan"
proof (induction plan)
  case (Proof r)
  show ?case unfolding node_run_def
    by (auto simp: agrees_def inherits_def split: prod.splits)
next
  case (AllOf ms)
  have members: "\<forall>m \<in> set ms. node_run branch m" using AllOf by (auto simp: list_all_iff)
  show ?case
  proof (rule operator_run [where verdict = all_of_outcome and required = "saturating_u16 (length ms)", OF members])
    fix v outcomes
    assume "length outcomes = length ms" "map truth_of outcomes = map (plan_truth v) ms"
    then show "truth_of (all_of_outcome (tally_of outcomes)) = plan_truth v (AllOf ms)"
      using all_of_is_nth_best [of outcomes] AllOf.prems(1) by (cases outcomes) auto
  next
    fix outcomes :: "branch_outcome list"
    assume "length outcomes = length ms"
    then show "inherits (all_of_outcome (tally_of outcomes)) outcomes" using all_of_inherits by blast
  qed simp_all
next
  case (AnyOf ms)
  have members: "\<forall>m \<in> set ms. node_run branch m" using AnyOf by (auto simp: list_all_iff)
  show ?case
  proof (rule operator_run [where verdict = any_of_outcome and required = 1, OF members])
    fix v outcomes
    assume same: "length outcomes = length ms" "map truth_of outcomes = map (plan_truth v) ms"
    then have "outcomes \<noteq> []" "length outcomes < 2 ^ 64" using AnyOf.prems by auto
    then show "truth_of (any_of_outcome (tally_of outcomes)) = plan_truth v (AnyOf ms)"
      using any_of_is_nth_best [of outcomes] same(2) by simp
  next
    fix outcomes :: "branch_outcome list"
    assume "length outcomes = length ms"
    then show "inherits (any_of_outcome (tally_of outcomes)) outcomes" using any_of_inherits [of outcomes] AnyOf.prems by (cases outcomes) auto
  qed simp_all
next
  case (KOfN k ms)
  have members: "\<forall>m \<in> set ms. node_run branch m" using KOfN by (auto simp: list_all_iff)
  show ?case
  proof (rule operator_run [where verdict = "k_of_n_outcome k" and required = k, OF members])
    fix v outcomes
    assume same: "length outcomes = length ms" "map truth_of outcomes = map (plan_truth v) ms"
    then have "length outcomes < 2 ^ 64" using KOfN.prems by auto
    then show "truth_of (k_of_n_outcome k (tally_of outcomes)) = plan_truth v (KOfN k ms)"
      using k_of_n_is_nth_best [of k outcomes] same KOfN.prems(1) by simp
  next
    fix outcomes :: "branch_outcome list"
    assume "length outcomes = length ms"
    then show "inherits (k_of_n_outcome k (tally_of outcomes)) outcomes" using k_of_n_inherits [of k outcomes] KOfN.prems by auto
  qed simp_all
qed

section \<open>Validation\<close>

text \<open>Inserting the references of a plan one at a time keeps the set ordered and free of repetition.\<close>

definition insort_all :: "proof_ref list \<Rightarrow> proof_ref list \<Rightarrow> proof_ref list" where
  "insort_all new refs = fold insort new refs"

lemma insort_all_props:
  "set (insort_all new refs) = set new \<union> set refs"
  "length (insort_all new refs) = length new + length refs"
  "sorted refs \<Longrightarrow> sorted (insort_all new refs)"
  by (induction new arbitrary: refs) (auto simp: insort_all_def set_insort_key sorted_insort)

lemma insort_all_append: "insort_all (xs @ ys) refs = insort_all ys (insort_all xs refs)"
  by (simp add: insort_all_def)

definition fresh_refs :: "plan_limits \<Rightarrow> proof_ref list \<Rightarrow> proof_ref list \<Rightarrow> bool" where
  "fresh_refs limits new refs \<longleftrightarrow> distinct new \<and> set new \<inter> set refs = {}
     \<and> (new \<noteq> [] \<longrightarrow> length new + length refs \<le> unat (plan_leaves limits))"

lemma fresh_refs_append:
  "fresh_refs limits (xs @ ys) refs \<longleftrightarrow> fresh_refs limits xs refs \<and> fresh_refs limits ys (insort_all xs refs)"
  by (auto simp: fresh_refs_def insort_all_props)

definition members_height :: "authorization_plan list \<Rightarrow> nat" where
  "members_height members = foldr (max \<circ> plan_height) members 0"

lemma members_height_simps [simp]:
  "members_height [] = 0" "members_height (m # ms) = max (plan_height m) (members_height ms)"
  by (simp_all add: members_height_def)

lemma plan_height_pos: "0 < plan_height plan"
  by (cases plan) simp_all

text \<open>
  The walk accepts exactly the well-formed plans of admissible height whose references are fresh,
  and returns the references in order and the greatest depth reached.
\<close>

definition walk_exact :: "plan_limits \<Rightarrow> authorization_plan \<Rightarrow> bool" where
  "walk_exact limits plan \<longleftrightarrow> (\<forall>depth refs deepest result.
     walk limits depth plan (refs, deepest) = Inr result \<longleftrightarrow>
       plan_wf (unat (plan_branching limits)) plan
       \<and> depth + plan_height plan \<le> Suc (unat (plan_depth limits))
       \<and> fresh_refs limits (plan_refs plan) refs
       \<and> result = (insort_all (plan_refs plan) refs, max deepest (depth + plan_height plan - 1)))"

lemma walk_members_iff:
  assumes "\<forall>m \<in> set members. walk_exact limits m"
  shows "walk_members limits depth members (refs, deepest) = Inr result \<longleftrightarrow>
     list_all (plan_wf (unat (plan_branching limits))) members
     \<and> (members \<noteq> [] \<longrightarrow> depth + members_height members \<le> Suc (unat (plan_depth limits)))
     \<and> fresh_refs limits (concat (map plan_refs members)) refs
     \<and> result = (insort_all (concat (map plan_refs members)) refs,
          if members = [] then deepest else max deepest (depth + members_height members - 1))"
  using assms
proof (induction members arbitrary: refs deepest)
  case Nil
  then show ?case by (auto simp: fresh_refs_def insort_all_def)
next
  case (Cons m ms)
  let ?mid = "(insort_all (plan_refs m) refs, max deepest (depth + plan_height m - 1))"
  have "walk limits depth m (refs, deepest) = Inr mid \<longleftrightarrow>
      plan_wf (unat (plan_branching limits)) m \<and> depth + plan_height m \<le> Suc (unat (plan_depth limits))
      \<and> fresh_refs limits (plan_refs m) refs \<and> mid = ?mid" for mid
    using Cons.prems(1) [THEN bspec, OF list.set_intros(1)] unfolding walk_exact_def by blast
  then have first: "walk_members limits depth (m # ms) (refs, deepest) = Inr result \<longleftrightarrow>
      (plan_wf (unat (plan_branching limits)) m \<and> depth + plan_height m \<le> Suc (unat (plan_depth limits))
       \<and> fresh_refs limits (plan_refs m) refs) \<and> walk_members limits depth ms ?mid = Inr result"
    by (auto simp: and_then_Inr_iff)
  have rest: "walk_members limits depth ms ?mid = Inr result \<longleftrightarrow>
     list_all (plan_wf (unat (plan_branching limits))) ms
     \<and> (ms \<noteq> [] \<longrightarrow> depth + members_height ms \<le> Suc (unat (plan_depth limits)))
     \<and> fresh_refs limits (concat (map plan_refs ms)) (insort_all (plan_refs m) refs)
     \<and> result = (insort_all (concat (map plan_refs ms)) (insort_all (plan_refs m) refs),
          if ms = [] then max deepest (depth + plan_height m - 1)
          else max (max deepest (depth + plan_height m - 1)) (depth + members_height ms - 1))"
    using Cons by simp
  have deepest: "max (max deepest (depth + plan_height m - 1)) (depth + members_height ms - 1)
      = max deepest (depth + max (plan_height m) (members_height ms) - 1)"
    by (auto simp: max_def)
  have bound: "depth + max (plan_height m) (members_height ms) \<le> n \<longleftrightarrow>
      depth + plan_height m \<le> n \<and> depth + members_height ms \<le> n" for n
    by auto
  show ?case
  proof (cases "ms = []")
    case True
    then show ?thesis unfolding first rest by (simp add: fresh_refs_def insort_all_def conj_ac)
  next
    case False
    then show ?thesis unfolding first rest
      by (simp add: deepest [simplified] bound fresh_refs_append insort_all_append conj_ac)
  qed
qed

lemma walk_operator:
  assumes members: "\<forall>m \<in> set ms. walk_exact limits m"
    and walk: "\<And>depth refs deepest. walk limits depth plan (refs, deepest) =
       (if unat (plan_depth limits) < depth then Err PlanLimitExceeded
        else if bad then Err InvalidPlan
        else if unat (plan_branching limits) < length ms then Err PlanLimitExceeded
        else walk_members limits (Suc depth) ms (refs, max deepest depth))"
    and wf: "plan_wf (unat (plan_branching limits)) plan \<longleftrightarrow> \<not> bad
       \<and> length ms \<le> unat (plan_branching limits) \<and> list_all (plan_wf (unat (plan_branching limits))) ms"
    and shape: "\<not> bad \<Longrightarrow> ms \<noteq> []" "plan_refs plan = concat (map plan_refs ms)"
      "plan_height plan = Suc (members_height ms)"
  shows "walk_exact limits plan"
  unfolding walk_exact_def walk wf shape(2,3)
  using walk_members_iff [OF members] shape(1) by (auto simp: max_def)

lemma walk_exact: "walk_exact limits plan"
proof (induction plan)
  case (Proof r)
  show ?case by (auto simp: walk_exact_def fresh_refs_def insort_all_def)
next
  case (AllOf ms)
  show ?case by (rule walk_operator [where bad = "ms = []" and ms = ms])
      (use AllOf in \<open>auto simp: members_height_def\<close>)
next
  case (AnyOf ms)
  show ?case by (rule walk_operator [where bad = "ms = []" and ms = ms])
      (use AnyOf in \<open>auto simp: members_height_def\<close>)
next
  case (KOfN k ms)
  show ?case by (rule walk_operator [where bad = "k = 0 \<or> length ms < unat k \<or> ms = []" and ms = ms])
      (use KOfN in \<open>auto simp: members_height_def unsigned_eq_0_iff unat_gt_0\<close>)
qed

lemma insort_all_sort: "insort_all xs [] = sort xs"
  by (simp add: insort_all_def sort_conv_fold)

lemma validate_iff:
  "validate plan limits = Ok shape \<longleftrightarrow>
     plan_wf (unat (plan_branching limits)) plan \<and> plan_height plan \<le> unat (plan_depth limits)
     \<and> distinct (plan_refs plan) \<and> length (plan_refs plan) \<le> unat (plan_leaves limits)
     \<and> shape = \<lparr> ps_leaves = sort (plan_refs plan), ps_maximum_depth = plan_height plan \<rparr>"
proof -
  have "validate plan limits = Ok shape \<longleftrightarrow>
      (\<exists>refs deepest. walk limits 1 plan ([], 0) = Inr (refs, deepest)
         \<and> shape = \<lparr> ps_leaves = refs, ps_maximum_depth = deepest \<rparr>)"
    by (auto simp: validate_def and_then_pair_iff)
  moreover have "plan_wf b plan \<Longrightarrow> plan_refs plan \<noteq> []" for b
  proof (induction plan)
    case (AllOf ms) then show ?case by (cases ms) auto
  next
    case (AnyOf ms) then show ?case by (cases ms) auto
  next
    case (KOfN k ms) then show ?case by (cases ms) auto
  qed simp
  ultimately show ?thesis using walk_exact [of limits plan]
    by (auto simp: walk_exact_def fresh_refs_def insort_all_sort)
qed


lemma validated_members_small: "validate plan limits = Ok shape \<Longrightarrow> unat (plan_branching limits) < 2 ^ 64"
  using unsigned_less [of "plan_branching limits"] by simp

section \<open>Construction\<close>

lemma mset_insert_plan [simp]: "mset (insert_plan x xs) = add_mset x (mset xs)"
  by (induction xs) auto

lemma mset_sort_plans [simp]: "mset (sort_plans xs) = mset xs"
  by (induction xs) (simp_all add: sort_plans_def)

lemma sort_plans_facts [simp]:
  "length (sort_plans xs) = length xs" "set (sort_plans xs) = set xs" "sort_plans xs = [] \<longleftrightarrow> xs = []"
  using mset_sort_plans [of xs] by (metis size_mset, metis set_mset_mset, metis mset_zero_iff)

lemma nth_best_mset: "mset xs = mset ys \<Longrightarrow> nth_best n xs = nth_best n ys"
  by (metis nth_best_def mset_eq_length mset_sort properties_for_sort sorted_sort)

lemma members_height_le_iff: "members_height ms \<le> n \<longleftrightarrow> (\<forall>m \<in> set ms. plan_height m \<le> n)"
  by (induction ms) auto

lemma members_height_sort: "members_height (sort_plans ms) = members_height ms"
  by (rule antisym) (use members_height_le_iff [of ms "members_height ms"]
      members_height_le_iff [of "sort_plans ms" "members_height (sort_plans ms)"] in \<open>simp_all add: members_height_le_iff\<close>)

lemma refs_mset: "mset xs = mset ys \<Longrightarrow> mset (concat (map f xs)) = mset (concat (map f ys))"
proof -
  have "mset (concat (map f zs)) = sum_mset (image_mset (\<lambda>z. mset (f z)) (mset zs))" for zs
    by (induction zs) simp_all
  then show "mset xs = mset ys \<Longrightarrow> ?thesis" by simp
qed

text \<open>Sorting the members changes neither the meaning of a plan nor whether it is admissible.\<close>

lemma sort_members_keeps:
  "plan_truth v (sort_members plan) = plan_truth v plan"
  "plan_wf b (sort_members plan) = plan_wf b plan"
  "plan_height (sort_members plan) = plan_height plan"
  "mset (plan_refs (sort_members plan)) = mset (plan_refs plan)"
proof -
  have height: "foldr (max \<circ> plan_height) (sort_plans ms) 0 = foldr (max \<circ> plan_height) ms 0" for ms
    using members_height_sort by (simp flip: members_height_def)
  have refs: "mset (concat (map plan_refs (sort_plans ms))) = mset (concat (map plan_refs ms))" for ms
    by (rule refs_mset) simp
  have best: "nth_best n (map (plan_truth v) (sort_plans ms)) = nth_best n (map (plan_truth v) ms)" for n ms
    by (rule nth_best_mset) simp
  show "plan_truth v (sort_members plan) = plan_truth v plan" by (cases plan) (simp_all add: best)
  show "plan_wf b (sort_members plan) = plan_wf b plan" by (cases plan) (simp_all add: list_all_iff)
  show "plan_height (sort_members plan) = plan_height plan" by (cases plan) (simp_all add: height)
  show "mset (plan_refs (sort_members plan)) = mset (plan_refs plan)" by (cases plan) (simp_all add: refs)
qed

lemma compound_iff:
  "compound node = Ok plan \<longleftrightarrow> plan = sort_members node \<and> plan_wf 128 node \<and> plan_height node \<le> 16
     \<and> distinct (plan_refs node) \<and> length (plan_refs node) \<le> 128"
proof -
  have refs: "distinct (plan_refs (sort_members node)) = distinct (plan_refs node)"
      "length (plan_refs (sort_members node)) = length (plan_refs node)"
    using sort_members_keeps(4) by (metis mset_eq_imp_distinct_iff, metis size_mset)
  have "(\<exists>shape. validate (sort_members node) hard_plan_limits = Ok shape) \<longleftrightarrow> plan_wf 128 node
      \<and> plan_height node \<le> 16 \<and> distinct (plan_refs node) \<and> length (plan_refs node) \<le> 128"
    unfolding validate_iff by (simp add: hard_plan_limits_def sort_members_keeps(2,3) refs)
  then show ?thesis by (auto simp: compound_def Let_def and_then_Inr_iff)
qed

section \<open>Recorded truths\<close>

definition recorded_truth :: "evaluation_event list \<Rightarrow> proof_ref \<Rightarrow> truth" where
  "recorded_truth log reference = (case map_of (leaf_events log) reference of
     None \<Rightarrow> Denied | Some outcome \<Rightarrow> truth_of outcome)"

lemma recorded_truth_agrees: "distinct (map fst (leaf_events log)) \<Longrightarrow> agrees (recorded_truth log) log"
  by (auto simp: agrees_def recorded_truth_def map_of_is_SomeI split: option.splits)

section \<open>Properties\<close>

definition sample_authorization_plan :: authorization_plan where
  "sample_authorization_plan = KOfN 2 [Proof [1], AnyOf [Proof [2], Proof [3]], Proof [4]]"

definition sample_branch :: "nat branch" where
  "sample_branch reference n = (if reference = [1] then BranchIndeterminate StaleStatus
     else if reference = [3] then BranchAuthorized else BranchDenied GrantRevoked, Suc n)"

text \<open>
  C5: The engine evaluates every plan that validates; it calls
  the branch on each leaf exactly once, in the order of the plan; the last event it reports carries
  the outcome it returns; the reason or requirement of that outcome is one a leaf returned, so the
  engine's fallback diagnostics are never used; and the truth of the outcome is the reference reading of the plan under the
  outcomes the leaves returned: a node is as true as the best truth that as many members as it
  requires reach, for any branch, stateful or not.
\<close>

theorem plan_evaluation_is_the_order_statistic:
  assumes "validate plan limits = Ok shape"
  shows "\<exists>outcome s' log. evaluate_observed plan limits branch s = Ok (outcome, s', log)
    \<and> map fst (leaf_events log) = plan_refs plan \<and> distinct (plan_refs plan)
    \<and> event_outcome (last log) = outcome
    \<and> inherits outcome (map snd (leaf_events log))
    \<and> truth_of outcome = plan_truth (recorded_truth log) plan"
proof -
  have "node_run branch plan" and distinct: "distinct (plan_refs plan)"
    using assms plan_run [of "unat (plan_branching limits)" plan branch] validated_members_small [OF assms]
    by (auto simp: validate_iff)
  then obtain outcome s' log where "evaluate_node branch plan (s, []) = (outcome, s', log)"
      "map fst (leaf_events log) = plan_refs plan" "event_outcome (last log) = outcome"
      "inherits outcome (map snd (leaf_events log))" "\<forall>v. agrees v log \<longrightarrow> truth_of outcome = plan_truth v plan"
    unfolding node_run_def by (metis append_Nil)
  then show ?thesis using assms distinct recorded_truth_agrees
    by (auto simp: evaluate_observed_def)
qed

theorem plan_evaluation_is_the_order_statistic_witness:
  "\<exists>outcome log. evaluate_observed sample_authorization_plan hard_plan_limits sample_branch 0 = Ok (outcome, 4, log)
     \<and> outcome = BranchIndeterminate StaleStatus
     \<and> truth_of outcome = plan_truth (recorded_truth log) sample_authorization_plan"
proof -
  have "validate sample_authorization_plan hard_plan_limits =
      Ok \<lparr> ps_leaves = [[1], [2], [3], [4]], ps_maximum_depth = 3 \<rparr>" by code_simp
  from plan_evaluation_is_the_order_statistic [OF this, of sample_branch 0]
  obtain outcome s' log where run: "evaluate_observed sample_authorization_plan hard_plan_limits sample_branch 0 = Ok (outcome, s', log)"
    and "truth_of outcome = plan_truth (recorded_truth log) sample_authorization_plan" by blast
  moreover have "map_sum id (\<lambda>(outcome, s', log). (outcome, s')) (evaluate_observed sample_authorization_plan hard_plan_limits sample_branch 0)
      = Ok (BranchIndeterminate StaleStatus, 4)" by code_simp
  ultimately show ?thesis by auto
qed

text \<open>
  C35: A threshold plan is constructed exactly when its threshold is
  between one and the number of members, which is at most 128, every member is well-formed, no
  reference occurs twice among at most 128 leaves and the height is at most 16. The result validates
  under the hard limits, with the ordered references as its leaves, and sorting the members has
  changed neither its meaning nor its members.
\<close>

theorem constructed_plans_are_validated:
  "k_of_n k members = Ok plan \<longleftrightarrow>
     plan = KOfN k (sort_plans members)
     \<and> plan_wf 128 (KOfN k members) \<and> plan_height (KOfN k members) \<le> 16
     \<and> distinct (plan_refs (KOfN k members)) \<and> length (plan_refs (KOfN k members)) \<le> 128
     \<and> validate plan hard_plan_limits =
         Ok \<lparr> ps_leaves = sort (plan_refs (KOfN k members)), ps_maximum_depth = plan_height (KOfN k members) \<rparr>
     \<and> (\<forall>v. plan_truth v plan = plan_truth v (KOfN k members))
     \<and> mset (sort_plans members) = mset members"
proof -
  let ?node = "KOfN k members"
  have "sort (plan_refs (sort_members ?node)) = sort (plan_refs ?node)"
    using sort_members_keeps(4) [of ?node] by (metis mset_sort properties_for_sort sorted_sort)
  then have "validate (sort_members ?node) hard_plan_limits =
      Ok \<lparr> ps_leaves = sort (plan_refs ?node), ps_maximum_depth = plan_height ?node \<rparr>"
    if "compound ?node = Ok (sort_members ?node)"
    using that sort_members_keeps(3) [of ?node]
    by (auto simp: compound_def Let_def and_then_Inr_iff validate_iff simp del: plan_refs.simps plan_height.simps sort_members.simps)
  then show ?thesis using compound_iff [of ?node plan] sort_members_keeps(1) [of _ ?node]
    by (auto simp: k_of_n_def)
qed

end
