(* ===== verification/Observation_Model.thy ===== *)
theory Observation_Model
  imports Policy_Kernel Authority_Model "HOL-Library.List_Lexorder"
begin

text \<open>
  Evidence-conditioned authority, \<open>core/crates/auths-model/src/observation.rs\<close>: typed facts, the closed
  condition atoms, requirements and their bounded constructors, the freshness and verdict predicates,
  and the narrowing of requirement lists. The abstract meaning of a requirement is the set of
  observations that satisfy it; narrowing is an instance of the attenuation contract for it.
\<close>

section \<open>Facts and statements\<close>

text \<open>Bounded strings are their UTF-8 bytes; the model's errors carry the source's names.\<close>

datatype model_error =
    InvalidObservation | InvalidObservationRequirement | InvalidApprovalRequirement
  | InvalidApproverAnchor | InvalidObserverAnchor | InvalidApproval | InvalidBoundedPolicy
  | CollectionLimitExceeded

type_synonym fact_name = bytes
type_synonym resource_id = bytes

definition MAX_OBSERVATION_FACTS :: nat where "MAX_OBSERVATION_FACTS = 16"
definition MAX_FACT_VALUE_BYTES :: nat where "MAX_FACT_VALUE_BYTES = 64"
definition MAX_FACT_VALUE_TEXT_BYTES :: nat where "MAX_FACT_VALUE_TEXT_BYTES = 256"
definition MAX_OBSERVATION_CONDITIONS :: nat where "MAX_OBSERVATION_CONDITIONS = 16"
definition MAX_MEMBER_VALUES :: nat where "MAX_MEMBER_VALUES = 16"
definition MAX_OBSERVATION_REQUIREMENTS_PER_GRANT :: nat where "MAX_OBSERVATION_REQUIREMENTS_PER_GRANT = 8"
definition MAX_OBSERVATION_AGE_SECONDS :: u32 where "MAX_OBSERVATION_AGE_SECONDS = 86400"
definition HARD_MAX_REGISTRY_ENTRIES :: nat where "HARD_MAX_REGISTRY_ENTRIES = 1024"
definition HARD_MAX_PERMISSIONS :: nat where "HARD_MAX_PERMISSIONS = 1024"

definition fact_name_equal :: "fact_name \<Rightarrow> fact_name \<Rightarrow> bool" where
  "fact_name_equal left right = byte_slices_equal left right"

datatype fact_value = Uint u64 | Bytes bytes | Text bytes

definition fact_bytes_new :: "bytes \<Rightarrow> (fact_value, model_error) result" where
  "fact_bytes_new bs = (if length bs > MAX_FACT_VALUE_BYTES then Err InvalidObservation else Ok (Bytes bs))"

definition fact_text_new :: "bytes \<Rightarrow> (fact_value, model_error) result" where
  "fact_text_new bs = (if length bs > MAX_FACT_VALUE_TEXT_BYTES then Err InvalidObservation else Ok (Text bs))"

record observation_fact_entry =
  of_name :: fact_name
  of_value :: fact_value

text \<open>\<open>windows(2).any\<close> over a sorted list: two neighbours with the same key.\<close>

fun adjacent_equal :: "'k list \<Rightarrow> bool" where
  "adjacent_equal (a # b # rest) = (a = b \<or> adjacent_equal (b # rest))"
| "adjacent_equal _ = False"

definition observation_facts_new ::
  "observation_fact_entry list \<Rightarrow> (observation_fact_entry list, model_error) result" where
  "observation_facts_new facts =
     (if facts = [] \<or> length facts > MAX_OBSERVATION_FACTS then Err InvalidObservation
      else let facts = sort_key of_name facts in
        if adjacent_equal (map of_name facts) then Err InvalidObservation else Ok facts)"

record observation_statement =
  os_version :: u16
  os_observer :: principal_id
  os_schema :: bytes
  os_subject :: resource_id
  os_observed_at :: u64
  os_facts :: "observation_fact_entry list"

section \<open>Conditions and requirements\<close>

datatype observation_subject = SubjectResource resource_id | SubjectActionFact fact_name

record uint_range =
  ur_lo :: u64
  ur_hi :: u64

definition uint_range_new :: "u64 \<Rightarrow> u64 \<Rightarrow> (uint_range, model_error) result" where
  "uint_range_new lo hi =
     (if lo > hi then Err InvalidObservationRequirement else Ok \<lparr> ur_lo = lo, ur_hi = hi \<rparr>)"

text \<open>A value repeated in the prefix before it: the duplicate scan of the list constructors.\<close>

definition repeats :: "'a list \<Rightarrow> bool" where
  "repeats values = list_ex (\<lambda>i. values ! i \<in> set (take i values)) [0..<length values]"

definition member_values_new :: "fact_value list \<Rightarrow> (fact_value list, model_error) result" where
  "member_values_new values =
     (if values = [] \<or> length values > MAX_MEMBER_VALUES \<or> repeats values
      then Err InvalidObservationRequirement else Ok values)"

datatype condition_test =
    EqLiteral fact_value
  | EqAction fact_name
  | InUintRange uint_range
  | Member "fact_value list"

record observation_condition =
  oc_name :: fact_name
  oc_test :: condition_test

definition condition_action_fact :: "observation_condition \<Rightarrow> fact_name option" where
  "condition_action_fact condition = (case oc_test condition of EqAction name \<Rightarrow> Some name | _ \<Rightarrow> None)"

record observation_requirement =
  or_observer_anchor :: bytes
  or_schema :: bytes
  or_subject :: observation_subject
  or_max_age_seconds :: u32
  or_conditions :: "observation_condition list"

definition observation_requirement_new ::
  "bytes \<Rightarrow> bytes \<Rightarrow> observation_subject \<Rightarrow> u32 \<Rightarrow> observation_condition list
     \<Rightarrow> (observation_requirement, model_error) result" where
  "observation_requirement_new observer_anchor schema subject max_age_seconds conditions =
     (if max_age_seconds = 0 \<or> max_age_seconds > MAX_OBSERVATION_AGE_SECONDS
         \<or> conditions = [] \<or> length conditions > MAX_OBSERVATION_CONDITIONS
      then Err InvalidObservationRequirement
      else Ok \<lparr> or_observer_anchor = observer_anchor, or_schema = schema, or_subject = subject,
                or_max_age_seconds = max_age_seconds, or_conditions = conditions \<rparr>)"

definition observation_requirements_new ::
  "observation_requirement list \<Rightarrow> (observation_requirement list, model_error) result" where
  "observation_requirements_new requirements =
     (if requirements = [] then Err InvalidObservationRequirement
      else if length requirements > MAX_OBSERVATION_REQUIREMENTS_PER_GRANT then Err CollectionLimitExceeded
      else if repeats requirements then Err InvalidObservationRequirement
      else Ok requirements)"

record observer_anchor =
  oa_id :: bytes
  oa_principal :: principal_id
  oa_accepted_methods :: "bytes list"
  oa_schemas :: "bytes list"
  oa_subject_namespaces :: "resource_id list"
  oa_validity :: validity_window

text \<open>\<open>sort\<close> followed by \<open>dedup\<close>.\<close>

definition sort_dedup :: "bytes list \<Rightarrow> bytes list" where
  "sort_dedup xs = remdups_adj (sort xs)"

definition observer_anchor_new ::
  "bytes \<Rightarrow> principal_id \<Rightarrow> bytes list \<Rightarrow> bytes list \<Rightarrow> resource_id list \<Rightarrow> validity_window
     \<Rightarrow> (observer_anchor, model_error) result" where
  "observer_anchor_new i trusted accepted_methods schemas subject_namespaces validity =
     (let accepted_methods = sort_dedup accepted_methods; schemas = sort_dedup schemas;
          subject_namespaces = sort_dedup subject_namespaces in
      if accepted_methods = [] \<or> length accepted_methods > HARD_MAX_REGISTRY_ENTRIES
         \<or> schemas = [] \<or> length schemas > HARD_MAX_REGISTRY_ENTRIES
         \<or> subject_namespaces = [] \<or> length subject_namespaces > HARD_MAX_PERMISSIONS
      then Err InvalidObserverAnchor
      else Ok \<lparr> oa_id = i, oa_principal = trusted, oa_accepted_methods = accepted_methods,
                oa_schemas = schemas, oa_subject_namespaces = subject_namespaces,
                oa_validity = validity \<rparr>)"

section \<open>Evaluation predicates\<close>

datatype requirement_verdict = Satisfied | ConditionFalse | Missing

definition observation_fresh :: "u64 \<Rightarrow> u64 \<Rightarrow> u64 \<Rightarrow> u64 \<Rightarrow> u64 \<Rightarrow> bool" where
  "observation_fresh observed_at evaluation_time max_age_seconds anchor_not_before anchor_expires_at =
     (if observed_at > evaluation_time then False
      else if evaluation_time - observed_at > max_age_seconds then False
      else observed_at \<ge> anchor_not_before \<and> observed_at \<le> anchor_expires_at)"

definition observation_subject_equal :: "resource_id \<Rightarrow> resource_id \<Rightarrow> bool" where
  "observation_subject_equal expected observed = byte_slices_equal expected observed"

fun fact_value_equal :: "fact_value \<Rightarrow> fact_value \<Rightarrow> bool" where
  "fact_value_equal (Uint left) (Uint right) = (left = right)"
| "fact_value_equal (Bytes left) (Bytes right) = byte_slices_equal left right"
| "fact_value_equal (Text left) (Text right) = byte_slices_equal left right"
| "fact_value_equal _ _ = False"

definition uint_range_contains :: "u64 \<Rightarrow> u64 \<Rightarrow> u64 \<Rightarrow> bool" where
  "uint_range_contains lo hi value \<longleftrightarrow> value \<ge> lo \<and> value \<le> hi"

fun member_values_contain :: "fact_value list \<Rightarrow> fact_value \<Rightarrow> bool" where
  "member_values_contain [] value = False"
| "member_values_contain (v # values) value =
     (if fact_value_equal v value then True else member_values_contain values value)"

fun observation_fact :: "observation_fact_entry list \<Rightarrow> fact_name \<Rightarrow> fact_value option" where
  "observation_fact [] name = None"
| "observation_fact (f # facts) name =
     (if fact_name_equal (of_name f) name then Some (of_value f) else observation_fact facts name)"

definition condition_value_holds ::
  "condition_test \<Rightarrow> fact_value option \<Rightarrow> fact_value option \<Rightarrow> bool" where
  "condition_value_holds test observed action_value = (case observed of
     None \<Rightarrow> False
   | Some observed \<Rightarrow> (case test of
       EqLiteral literal \<Rightarrow> fact_value_equal observed literal
     | EqAction _ \<Rightarrow> (case action_value of
           Some action_value \<Rightarrow> fact_value_equal observed action_value
         | None \<Rightarrow> False)
     | InUintRange bounds \<Rightarrow> (case observed of
           Uint value \<Rightarrow> uint_range_contains (ur_lo bounds) (ur_hi bounds) value
         | _ \<Rightarrow> False)
     | Member values \<Rightarrow> member_values_contain values observed))"

definition observation_condition_holds ::
  "observation_condition \<Rightarrow> fact_value option \<Rightarrow> observation_fact_entry list \<Rightarrow> bool" where
  "observation_condition_holds condition action_value facts =
     (let observed = observation_fact facts (oc_name condition) in
      condition_value_holds (oc_test condition) observed action_value)"

fun conditions_hold_from ::
  "observation_condition list \<Rightarrow> fact_value option list \<Rightarrow> observation_fact_entry list \<Rightarrow> bool" where
  "conditions_hold_from (c # cs) (v # vs) facts =
     (if \<not> observation_condition_holds c v facts then False else conditions_hold_from cs vs facts)"
| "conditions_hold_from _ _ facts = True"

definition observation_conditions_hold ::
  "observation_condition list \<Rightarrow> fact_value option list \<Rightarrow> observation_fact_entry list \<Rightarrow> bool" where
  "observation_conditions_hold conditions action_values facts =
     (if length conditions \<noteq> length action_values then False
      else conditions_hold_from conditions action_values facts)"

definition requirement_verdict :: "bool \<Rightarrow> bool \<Rightarrow> requirement_verdict" where
  "requirement_verdict any_eligible any_satisfying =
     (if any_satisfying then Satisfied else if any_eligible then ConditionFalse else Missing)"

section \<open>Narrowing\<close>

definition observer_anchor_id_equal :: "bytes \<Rightarrow> bytes \<Rightarrow> bool" where
  "observer_anchor_id_equal left right = byte_slices_equal left right"

definition observation_schema_equal :: "bytes \<Rightarrow> bytes \<Rightarrow> bool" where
  "observation_schema_equal left right = byte_slices_equal left right"

fun requirement_subject_equal :: "observation_subject \<Rightarrow> observation_subject \<Rightarrow> bool" where
  "requirement_subject_equal (SubjectResource left) (SubjectResource right) = observation_subject_equal left right"
| "requirement_subject_equal (SubjectActionFact left) (SubjectActionFact right) = fact_name_equal left right"
| "requirement_subject_equal _ _ = False"

fun member_values_equal_from :: "fact_value list \<Rightarrow> fact_value list \<Rightarrow> bool" where
  "member_values_equal_from (l # ls) (r # rs) =
     (if \<not> fact_value_equal l r then False else member_values_equal_from ls rs)"
| "member_values_equal_from _ _ = True"

definition member_values_equal :: "fact_value list \<Rightarrow> fact_value list \<Rightarrow> bool" where
  "member_values_equal left right =
     (if length left \<noteq> length right then False else member_values_equal_from left right)"

fun condition_test_equal :: "condition_test \<Rightarrow> condition_test \<Rightarrow> bool" where
  "condition_test_equal (EqLiteral left) (EqLiteral right) = fact_value_equal left right"
| "condition_test_equal (EqAction left) (EqAction right) = fact_name_equal left right"
| "condition_test_equal (InUintRange left) (InUintRange right) =
     (ur_lo left = ur_lo right \<and> ur_hi left = ur_hi right)"
| "condition_test_equal (Member left) (Member right) = member_values_equal left right"
| "condition_test_equal _ _ = False"

definition observation_condition_equal :: "observation_condition \<Rightarrow> observation_condition \<Rightarrow> bool" where
  "observation_condition_equal left right =
     (if \<not> fact_name_equal (oc_name left) (oc_name right) then False
      else condition_test_equal (oc_test left) (oc_test right))"

fun observation_conditions_contain :: "observation_condition list \<Rightarrow> observation_condition \<Rightarrow> bool" where
  "observation_conditions_contain [] condition = False"
| "observation_conditions_contain (c # cs) condition =
     (if observation_condition_equal c condition then True else observation_conditions_contain cs condition)"

fun observation_conditions_include ::
  "observation_condition list \<Rightarrow> observation_condition list \<Rightarrow> bool" where
  "observation_conditions_include narrower [] = True"
| "observation_conditions_include narrower (c # wider) =
     (if \<not> observation_conditions_contain narrower c then False
      else observation_conditions_include narrower wider)"

fun conditions_equal_from :: "observation_condition list \<Rightarrow> observation_condition list \<Rightarrow> bool" where
  "conditions_equal_from (l # ls) (r # rs) =
     (if \<not> observation_condition_equal l r then False else conditions_equal_from ls rs)"
| "conditions_equal_from _ _ = True"

definition observation_conditions_equal ::
  "observation_condition list \<Rightarrow> observation_condition list \<Rightarrow> bool" where
  "observation_conditions_equal left right =
     (if length left \<noteq> length right then False else conditions_equal_from left right)"

definition observation_requirement_same_target ::
  "observation_requirement \<Rightarrow> observation_requirement \<Rightarrow> bool" where
  "observation_requirement_same_target child parent =
     (if \<not> observer_anchor_id_equal (or_observer_anchor child) (or_observer_anchor parent) then False
      else if \<not> observation_schema_equal (or_schema child) (or_schema parent) then False
      else requirement_subject_equal (or_subject child) (or_subject parent))"

definition observation_requirement_equal ::
  "observation_requirement \<Rightarrow> observation_requirement \<Rightarrow> bool" where
  "observation_requirement_equal child parent =
     (if \<not> observation_requirement_same_target child parent then False
      else if or_max_age_seconds child \<noteq> or_max_age_seconds parent then False
      else observation_conditions_equal (or_conditions child) (or_conditions parent))"

definition observation_requirement_narrows ::
  "observation_requirement \<Rightarrow> observation_requirement \<Rightarrow> bool" where
  "observation_requirement_narrows child parent =
     (if \<not> observation_requirement_same_target child parent then False
      else if or_max_age_seconds child > or_max_age_seconds parent then False
      else if \<not> observation_conditions_include (or_conditions child) (or_conditions parent) then False
      else if or_max_age_seconds child < or_max_age_seconds parent then True
      else \<not> observation_conditions_include (or_conditions parent) (or_conditions child))"

definition observation_requirement_covers ::
  "observation_requirement \<Rightarrow> observation_requirement \<Rightarrow> bool" where
  "observation_requirement_covers child parent =
     (if observation_requirement_equal child parent then True
      else observation_requirement_narrows child parent)"

fun observation_requirement_retained ::
  "observation_requirement list \<Rightarrow> observation_requirement \<Rightarrow> bool" where
  "observation_requirement_retained [] parent = False"
| "observation_requirement_retained (c # child) parent =
     (if observation_requirement_covers c parent then True else observation_requirement_retained child parent)"

fun observation_requirements_attenuate ::
  "observation_requirement list \<Rightarrow> observation_requirement list \<Rightarrow> bool" where
  "observation_requirements_attenuate child [] = True"
| "observation_requirements_attenuate child (p # parent) =
     (if \<not> observation_requirement_retained child p then False
      else observation_requirements_attenuate child parent)"

section \<open>The comparisons are equality and inclusion\<close>

lemma fact_equalities [simp]:
  "fact_name_equal a b \<longleftrightarrow> a = b" "observation_subject_equal a b \<longleftrightarrow> a = b"
  "observer_anchor_id_equal a b \<longleftrightarrow> a = b" "observation_schema_equal a b \<longleftrightarrow> a = b"
  by (simp_all add: fact_name_equal_def observation_subject_equal_def observer_anchor_id_equal_def
      observation_schema_equal_def byte_slices_equal_def)

lemma fact_value_equal_iff [simp]: "fact_value_equal a b \<longleftrightarrow> a = b"
  by (cases a; cases b) (auto simp: byte_slices_equal_def)

lemma member_values_contain_iff [simp]: "member_values_contain vs v \<longleftrightarrow> v \<in> set vs"
  by (induction vs) auto

lemma member_values_equal_iff [simp]: "member_values_equal a b \<longleftrightarrow> a = b"
proof -
  have "length a = length b \<Longrightarrow> member_values_equal_from a b \<longleftrightarrow> a = b"
    by (induction a b rule: member_values_equal_from.induct) auto
  then show ?thesis by (auto simp: member_values_equal_def)
qed

lemma condition_test_equal_iff [simp]: "condition_test_equal a b \<longleftrightarrow> a = b"
  by (cases a; cases b) auto

lemma observation_condition_equal_iff [simp]: "observation_condition_equal a b \<longleftrightarrow> a = b"
  by (cases a; cases b) (auto simp: observation_condition_equal_def)

lemma observation_conditions_contain_iff [simp]: "observation_conditions_contain cs c \<longleftrightarrow> c \<in> set cs"
  by (induction cs) auto

lemma observation_conditions_include_iff [simp]:
  "observation_conditions_include narrower wider \<longleftrightarrow> set wider \<subseteq> set narrower"
  by (induction wider) auto

lemma observation_conditions_equal_iff [simp]: "observation_conditions_equal a b \<longleftrightarrow> a = b"
proof -
  have "length a = length b \<Longrightarrow> conditions_equal_from a b \<longleftrightarrow> a = b"
    by (induction a b rule: conditions_equal_from.induct) auto
  then show ?thesis by (auto simp: observation_conditions_equal_def)
qed

lemma requirement_subject_equal_iff [simp]: "requirement_subject_equal a b \<longleftrightarrow> a = b"
  by (cases a; cases b) auto

lemma same_target_iff [simp]:
  "observation_requirement_same_target child parent \<longleftrightarrow>
     or_observer_anchor child = or_observer_anchor parent \<and> or_schema child = or_schema parent
     \<and> or_subject child = or_subject parent"
  by (simp add: observation_requirement_same_target_def)

lemma observation_requirement_equal_iff [simp]: "observation_requirement_equal child parent \<longleftrightarrow> child = parent"
  by (cases child; cases parent) (auto simp: observation_requirement_equal_def)

text \<open>Covering: the same target, no older age, and a superset of the condition atoms; equal ages and
  equal atom sets only by byte identity.\<close>

definition at_least_as_narrow :: "observation_requirement \<Rightarrow> observation_requirement \<Rightarrow> bool" where
  "at_least_as_narrow child parent \<longleftrightarrow>
     or_observer_anchor child = or_observer_anchor parent \<and> or_schema child = or_schema parent
     \<and> or_subject child = or_subject parent \<and> or_max_age_seconds child \<le> or_max_age_seconds parent
     \<and> set (or_conditions parent) \<subseteq> set (or_conditions child)"

lemma observation_requirement_covers_iff:
  "observation_requirement_covers child parent \<longleftrightarrow>
     child = parent \<or> at_least_as_narrow child parent \<and> \<not> at_least_as_narrow parent child"
  by (auto simp: observation_requirement_covers_def observation_requirement_narrows_def at_least_as_narrow_def)

lemma at_least_as_narrow_trans: "at_least_as_narrow a b \<Longrightarrow> at_least_as_narrow b c \<Longrightarrow> at_least_as_narrow a c"
  by (auto simp: at_least_as_narrow_def)

lemma observation_requirement_covers_trans:
  "observation_requirement_covers a b \<Longrightarrow> observation_requirement_covers b c \<Longrightarrow> observation_requirement_covers a c"
  unfolding observation_requirement_covers_iff using at_least_as_narrow_trans by blast

lemma observation_requirement_retained_iff [simp]:
  "observation_requirement_retained child p \<longleftrightarrow> (\<exists>c \<in> set child. observation_requirement_covers c p)"
  by (induction child) auto

lemma observation_requirements_attenuate_iff:
  "observation_requirements_attenuate child parent \<longleftrightarrow>
     (\<forall>p \<in> set parent. \<exists>c \<in> set child. observation_requirement_covers c p)"
  by (induction parent) auto

section \<open>What a requirement demands\<close>

text \<open>
  The meaning of a requirement at an evaluation time: a signed statement by the anchor's principal with
  the requirement's schema about the resolved subject, fresh for its age, that fulfils each
  condition. \<open>action_facts\<close> gives the profile-derived facts of the action, \<open>anchors\<close> the trusted
  observers.
\<close>

definition resolved_subject :: "(fact_name \<Rightarrow> fact_value option) \<Rightarrow> observation_subject \<Rightarrow> resource_id option" where
  "resolved_subject action_facts subject = (case subject of
     SubjectResource resource \<Rightarrow> Some resource
   | SubjectActionFact name \<Rightarrow> (case action_facts name of Some (Text value) \<Rightarrow> Some value | _ \<Rightarrow> None))"

definition action_value :: "(fact_name \<Rightarrow> fact_value option) \<Rightarrow> observation_condition \<Rightarrow> fact_value option" where
  "action_value action_facts condition = (case condition_action_fact condition of
     Some name \<Rightarrow> action_facts name | None \<Rightarrow> None)"

definition demanded_of :: "(bytes \<Rightarrow> observer_anchor option) \<Rightarrow> (fact_name \<Rightarrow> fact_value option) \<Rightarrow> u64
     \<Rightarrow> observation_requirement \<Rightarrow> observation_statement \<Rightarrow> bool" where
  "demanded_of anchors action_facts evaluation_time requirement statement \<longleftrightarrow>
     (case anchors (or_observer_anchor requirement) of None \<Rightarrow> False | Some anchor \<Rightarrow>
        os_observer statement = oa_principal anchor
        \<and> os_schema statement = or_schema requirement
        \<and> resolved_subject action_facts (or_subject requirement) = Some (os_subject statement)
        \<and> observation_fresh (os_observed_at statement) evaluation_time
            (ucast (or_max_age_seconds requirement))
            (not_before (oa_validity anchor)) (expires_at (oa_validity anchor))
        \<and> observation_conditions_hold (or_conditions requirement)
            (map (action_value action_facts) (or_conditions requirement)) (os_facts statement))"

lemma observation_conditions_hold_iff:
  "observation_conditions_hold cs (map f cs) facts \<longleftrightarrow> (\<forall>c \<in> set cs. observation_condition_holds c (f c) facts)"
proof -
  have "conditions_hold_from cs (map f cs) facts \<longleftrightarrow> (\<forall>c \<in> set cs. observation_condition_holds c (f c) facts)"
    by (induction cs) auto
  then show ?thesis by (simp add: observation_conditions_hold_def)
qed

lemma ucast_u32_le: "(ucast (a :: u32) :: u64) \<le> ucast b \<longleftrightarrow> a \<le> b"
  by (simp add: word_le_nat_alt unat_ucast_widen)

lemma observation_fresh_mono:
  "observation_fresh seen now age lo hi \<Longrightarrow> age \<le> age' \<Longrightarrow> observation_fresh seen now age' lo hi"
  by (auto simp: observation_fresh_def split: if_splits)

lemma covers_demanded:
  assumes "observation_requirement_covers child parent"
    and "demanded_of anchors action_facts now child statement"
  shows "demanded_of anchors action_facts now parent statement"
proof (cases "child = parent")
  case False
  then have narrow: "at_least_as_narrow child parent" using assms(1) by (simp add: observation_requirement_covers_iff)
  then have "(ucast (or_max_age_seconds child) :: u64) \<le> ucast (or_max_age_seconds parent)"
    by (simp add: at_least_as_narrow_def ucast_u32_le)
  then show ?thesis using assms(2) narrow observation_fresh_mono
    by (auto simp: demanded_of_def at_least_as_narrow_def observation_conditions_hold_iff
        split: option.splits)
qed (use assms(2) in simp)

text \<open>A request fulfils a requirement list when each requirement has a statement it demands.\<close>

definition observations_admit ::
  "observation_requirement list
     \<Rightarrow> (bytes \<Rightarrow> observer_anchor option) \<times> (fact_name \<Rightarrow> fact_value option) \<times> u64 \<times> observation_statement list
     \<Rightarrow> bool" where
  "observations_admit requirements request \<longleftrightarrow> (case request of (anchors, action_facts, now, statements) \<Rightarrow>
     list_all (\<lambda>requirement. list_ex (demanded_of anchors action_facts now requirement) statements) requirements)"

interpretation observed: attenuation observation_requirements_attenuate observations_admit
proof
  show "observation_requirements_attenuate p p" for p
    by (auto simp: observation_requirements_attenuate_iff observation_requirement_covers_iff)
  show "observation_requirements_attenuate p r"
    if "observation_requirements_attenuate p q" "observation_requirements_attenuate q r" for p q r
    using that observation_requirement_covers_trans unfolding observation_requirements_attenuate_iff by blast
  show "observations_admit parent request"
    if narrower: "observation_requirements_attenuate child parent" and admitted: "observations_admit child request"
    for child parent request
  proof -
    obtain anchors facts now statements where request: "request = (anchors, facts, now, statements)"
      using prod_cases4 by blast
    have "\<exists>s \<in> set statements. demanded_of anchors facts now p s" if p: "p \<in> set parent" for p
    proof -
      obtain c where "c \<in> set child" "observation_requirement_covers c p"
        using narrower p unfolding observation_requirements_attenuate_iff by blast
      then show ?thesis using admitted covers_demanded
        by (fastforce simp: observations_admit_def request list_all_iff list_ex_iff)
    qed
    then show ?thesis by (simp add: observations_admit_def request list_all_iff list_ex_iff)
  qed
qed

section \<open>Constructed values\<close>

lemma adjacent_equal_sorted: "sorted ks \<Longrightarrow> adjacent_equal ks \<longleftrightarrow> \<not> distinct ks"
  for ks :: "'k :: linorder list"
  by (induction ks rule: adjacent_equal.induct) force+

lemma repeats_iff: "repeats xs \<longleftrightarrow> \<not> distinct xs"
proof
  assume "repeats xs"
  then obtain i where "i < length xs" "xs ! i \<in> set (take i xs)"
    by (auto simp: repeats_def list_ex_iff)
  then obtain j where "j < i" "xs ! j = xs ! i" by (auto simp: in_set_conv_nth)
  then show "\<not> distinct xs" using \<open>i < length xs\<close> nth_eq_iff_index_eq [of xs j i] by force
next
  assume "\<not> distinct xs"
  then obtain i j where ij: "i < length xs" "j < i" "xs ! j = xs ! i"
    unfolding distinct_conv_nth by (metis linorder_neqE_nat)
  then have "take i xs ! j \<in> set (take i xs)" by (intro nth_mem) simp
  then have "xs ! i \<in> set (take i xs)" using ij by simp
  then show "repeats xs" using ij(1) by (auto simp: repeats_def list_ex_iff)
qed

lemma observation_facts_new_Ok_iff:
  "observation_facts_new facts = Ok canonical \<longleftrightarrow>
     facts \<noteq> [] \<and> length facts \<le> 16 \<and> distinct (map of_name facts) \<and> canonical = sort_key of_name facts"
proof -
  have "distinct (map of_name (sort_key of_name facts)) \<longleftrightarrow> distinct (map of_name facts)"
    by (simp add: distinct_map)
  then show ?thesis
    by (auto simp: observation_facts_new_def Let_def MAX_OBSERVATION_FACTS_def adjacent_equal_sorted)
qed

text \<open>A canonical fact map answers each name with its one fact.\<close>

lemma observation_fact_canonical:
  assumes "observation_facts_new facts = Ok canonical" and "f \<in> set facts"
  shows "observation_fact canonical (of_name f) = Some (of_value f)"
proof -
  have "observation_fact fs (of_name f) = Some (of_value f)" if "distinct (map of_name fs)" "f \<in> set fs" for fs
    using that by (induction fs) force+
  moreover have "distinct (map of_name canonical)" "f \<in> set canonical"
    using assms unfolding observation_facts_new_Ok_iff by (auto simp: distinct_map)
  ultimately show ?thesis by blast
qed

end
