(* ===== verification/Approval_Model.thy ===== *)
theory Approval_Model
  imports Observation_Model Algebra_Kernel
begin

text \<open>
  K-of-N approvals, \<open>core/crates/auths-model/src/approval.rs\<close>: requirements with their bounded
  constructors, what an approver signs, the counting of distinct approvers, and the covering relation
  between requirement lists. Counting depends only on which listed approver has which verdict, and
  covering is an instance of the attenuation contract for the approvals that meet a requirement.
  The bounded-policy link, \<open>core/crates/auths-model/src/bounded_policy.rs\<close>, ends the theory.
\<close>

section \<open>Requirements, anchors and statements\<close>

definition MAX_APPROVERS_PER_REQUIREMENT :: nat where "MAX_APPROVERS_PER_REQUIREMENT = 16"
definition MAX_APPROVAL_REQUIREMENTS_PER_GRANT :: nat where "MAX_APPROVAL_REQUIREMENTS_PER_GRANT = 4"

record approval_requirement =
  ar_approvers :: "principal_id list"
  ar_threshold :: u16

definition approval_requirement_new :: "principal_id list \<Rightarrow> u16 \<Rightarrow> (approval_requirement, model_error) result" where
  "approval_requirement_new approvers threshold =
     (let approvers = sort approvers in
      if approvers = [] \<or> length approvers > MAX_APPROVERS_PER_REQUIREMENT \<or> adjacent_equal approvers
         \<or> threshold = 0 \<or> unat threshold > length approvers
      then Err InvalidApprovalRequirement
      else Ok \<lparr> ar_approvers = approvers, ar_threshold = threshold \<rparr>)"

definition approval_requirements_new ::
  "approval_requirement list \<Rightarrow> (approval_requirement list, model_error) result" where
  "approval_requirements_new requirements =
     (if requirements = [] then Err InvalidApprovalRequirement
      else if length requirements > MAX_APPROVAL_REQUIREMENTS_PER_GRANT then Err CollectionLimitExceeded
      else if repeats requirements then Err InvalidApprovalRequirement
      else Ok requirements)"

record approver_anchor =
  aa_principal :: principal_id
  aa_accepted_methods :: "bytes list"
  aa_validity :: validity_window
  aa_status_policy :: status_policy

definition approver_anchor_new ::
  "principal_id \<Rightarrow> bytes list \<Rightarrow> validity_window \<Rightarrow> status_policy \<Rightarrow> (approver_anchor, model_error) result" where
  "approver_anchor_new trusted accepted_methods validity policy =
     (let accepted_methods = sort_dedup accepted_methods in
      if accepted_methods = [] \<or> length accepted_methods > HARD_MAX_REGISTRY_ENTRIES
      then Err InvalidApproverAnchor
      else Ok \<lparr> aa_principal = trusted, aa_accepted_methods = accepted_methods, aa_validity = validity,
                aa_status_policy = policy \<rparr>)"

record approval_statement =
  as_version :: u16
  as_approver :: principal_id
  as_requirement :: digest
  as_media_type :: bytes
  as_body_digest :: digest
  as_permission :: permission
  as_requested_budget :: "budget_ceiling option"
  as_attributes :: "digest option"
  as_audience :: bytes
  as_challenge :: bytes
  as_validity :: validity_window

record approval_satisfaction =
  sat_requirement :: digest
  sat_approvals :: "digest list"

definition approval_satisfaction_new :: "digest \<Rightarrow> digest list \<Rightarrow> (approval_satisfaction, model_error) result" where
  "approval_satisfaction_new requirement approvals =
     (let approvals = sort approvals in
      if approvals = [] \<or> length approvals > MAX_APPROVERS_PER_REQUIREMENT \<or> adjacent_equal approvals
      then Err InvalidApproval
      else Ok \<lparr> sat_requirement = requirement, sat_approvals = approvals \<rparr>)"

section \<open>Counting distinct approvers\<close>

datatype approval_verdict = Counted | Pending | Ignored

record approval_outcome =
  ao_approver :: principal_id
  ao_verdict :: approval_verdict

record approval_counts =
  ct_counted :: usize
  ct_pending :: usize

text \<open>The scan over the outcomes, carrying the local \<open>pending\<close>.\<close>

fun approver_verdict_from :: "bool \<Rightarrow> approval_outcome list \<Rightarrow> principal_id \<Rightarrow> approval_verdict" where
  "approver_verdict_from pending [] approver = (if pending then Pending else Ignored)"
| "approver_verdict_from pending (x # outcomes) approver =
     (if principal_id_equal (ao_approver x) approver
      then (case ao_verdict x of
              Counted \<Rightarrow> Counted
            | Pending \<Rightarrow> approver_verdict_from True outcomes approver
            | Ignored \<Rightarrow> approver_verdict_from pending outcomes approver)
      else approver_verdict_from pending outcomes approver)"

definition approver_verdict :: "approval_outcome list \<Rightarrow> principal_id \<Rightarrow> approval_verdict" where
  "approver_verdict outcomes approver = approver_verdict_from False outcomes approver"

fun approval_counts_from ::
  "usize \<Rightarrow> usize \<Rightarrow> principal_id list \<Rightarrow> approval_outcome list \<Rightarrow> approval_counts" where
  "approval_counts_from counted pending [] outcomes = \<lparr> ct_counted = counted, ct_pending = pending \<rparr>"
| "approval_counts_from counted pending (a # approvers) outcomes =
     (case approver_verdict outcomes a of
        Counted \<Rightarrow> approval_counts_from (counted + 1) pending approvers outcomes
      | Pending \<Rightarrow> approval_counts_from counted (pending + 1) approvers outcomes
      | Ignored \<Rightarrow> approval_counts_from counted pending approvers outcomes)"

definition approval_counts :: "principal_id list \<Rightarrow> approval_outcome list \<Rightarrow> approval_counts" where
  "approval_counts approvers outcomes = approval_counts_from 0 0 approvers outcomes"

fun principal_ids_contain :: "principal_id list \<Rightarrow> principal_id \<Rightarrow> bool" where
  "principal_ids_contain [] candidate = False"
| "principal_ids_contain (p # principals) candidate =
     (if principal_id_equal p candidate then True else principal_ids_contain principals candidate)"

fun principal_ids_subset :: "principal_id list \<Rightarrow> principal_id list \<Rightarrow> bool" where
  "principal_ids_subset [] wider = True"
| "principal_ids_subset (p # narrower) wider =
     (if \<not> principal_ids_contain wider p then False else principal_ids_subset narrower wider)"

definition approval_requirement_covers :: "approval_requirement \<Rightarrow> approval_requirement \<Rightarrow> bool" where
  "approval_requirement_covers child parent =
     (if \<not> principal_ids_subset (ar_approvers child) (ar_approvers parent) then False
      else ar_threshold child \<ge> ar_threshold parent)"

fun approval_requirement_retained :: "approval_requirement list \<Rightarrow> approval_requirement \<Rightarrow> bool" where
  "approval_requirement_retained [] parent = False"
| "approval_requirement_retained (c # child) parent =
     (if approval_requirement_covers c parent then True else approval_requirement_retained child parent)"

fun approval_requirements_attenuate ::
  "approval_requirement list \<Rightarrow> approval_requirement list \<Rightarrow> bool" where
  "approval_requirements_attenuate child [] = True"
| "approval_requirements_attenuate child (p # parent) =
     (if \<not> approval_requirement_retained child p then False
      else approval_requirements_attenuate child parent)"

section \<open>The bounded-policy link\<close>

definition digest_equal :: "digest \<Rightarrow> digest \<Rightarrow> bool" where
  "digest_equal left right = byte_slices_equal left right"

fun bounded_policy_link_accepts :: "digest option \<Rightarrow> digest option \<Rightarrow> bool" where
  "bounded_policy_link_accepts (Some child_link) (Some parent_digest) = digest_equal child_link parent_digest"
| "bounded_policy_link_accepts (Some _) None = False"
| "bounded_policy_link_accepts None parent_digest = (parent_digest = None)"

section \<open>Counting by verdict\<close>

text \<open>The verdicts of one approver, whatever the order and repetition of the outcomes.\<close>

definition approver_counted :: "approval_outcome list \<Rightarrow> principal_id \<Rightarrow> bool" where
  "approver_counted outcomes approver \<longleftrightarrow>
     (\<exists>x \<in> set outcomes. ao_approver x = approver \<and> ao_verdict x = Counted)"

definition approver_pending :: "approval_outcome list \<Rightarrow> principal_id \<Rightarrow> bool" where
  "approver_pending outcomes approver \<longleftrightarrow> \<not> approver_counted outcomes approver
     \<and> (\<exists>x \<in> set outcomes. ao_approver x = approver \<and> ao_verdict x = Pending)"

lemma approver_counted_simps [simp]:
  "\<not> approver_counted [] a"
  "approver_counted (x # xs) a \<longleftrightarrow> ao_approver x = a \<and> ao_verdict x = Counted \<or> approver_counted xs a"
  by (auto simp: approver_counted_def)

lemma approver_verdict_cases:
  "approver_verdict outcomes approver =
     (if approver_counted outcomes approver then Counted
      else if approver_pending outcomes approver then Pending else Ignored)"
proof -
  let ?waits = "\<lambda>xs. \<exists>x \<in> set xs. ao_approver x = approver \<and> ao_verdict x = Pending"
  have "approver_verdict_from pending outcomes approver =
     (if approver_counted outcomes approver then Counted
      else if pending \<or> ?waits outcomes then Pending else Ignored)" for pending
  proof (induction outcomes arbitrary: pending)
    case (Cons x outcomes)
    show ?case
      by (cases "ao_verdict x"; cases "ao_approver x = approver")
         (simp_all add: Cons.IH principal_id_equal_def byte_slices_equal_def)
  qed simp
  then show ?thesis by (simp add: approver_verdict_def approver_pending_def)
qed

lemma approval_counts_from_eq:
  "approval_counts_from counted pending approvers outcomes = \<lparr>
     ct_counted = counted + of_nat (length (filter (approver_counted outcomes) approvers)),
     ct_pending = pending + of_nat (length (filter (approver_pending outcomes) approvers)) \<rparr>"
  by (induction approvers arbitrary: counted pending)
     (auto simp: approver_verdict_cases approver_pending_def split: if_splits)

lemma approval_counts_eq:
  "approval_counts approvers outcomes = \<lparr>
     ct_counted = of_nat (length (filter (approver_counted outcomes) approvers)),
     ct_pending = of_nat (length (filter (approver_pending outcomes) approvers)) \<rparr>"
  by (simp add: approval_counts_def approval_counts_from_eq)

lemma principal_ids_contain_iff [simp]: "principal_ids_contain ps p \<longleftrightarrow> p \<in> set ps"
  by (induction ps) (auto simp: principal_id_equal_def byte_slices_equal_def)

lemma principal_ids_subset_iff [simp]: "principal_ids_subset ps qs \<longleftrightarrow> set ps \<subseteq> set qs"
  by (induction ps) auto

lemma approval_requirement_covers_iff:
  "approval_requirement_covers child parent \<longleftrightarrow>
     set (ar_approvers child) \<subseteq> set (ar_approvers parent) \<and> ar_threshold parent \<le> ar_threshold child"
  by (simp add: approval_requirement_covers_def)

lemma approval_requirements_attenuate_iff:
  "approval_requirements_attenuate child parent \<longleftrightarrow>
     (\<forall>p \<in> set parent. \<exists>c \<in> set child. approval_requirement_covers c p)"
proof -
  have "approval_requirement_retained child p \<longleftrightarrow> (\<exists>c \<in> set child. approval_requirement_covers c p)" for p
    by (induction child) auto
  then show ?thesis by (induction parent) auto
qed

lemma digest_equal_iff [simp]: "digest_equal a b \<longleftrightarrow> a = b"
  by (simp add: digest_equal_def byte_slices_equal_def)

lemma bounded_policy_link_accepts_iff [simp]: "bounded_policy_link_accepts child parent \<longleftrightarrow> child = parent"
  by (cases child; cases parent) auto

section \<open>Requirements met\<close>

text \<open>
  The number of distinct approvers of a requirement that approved, over the set of principals whose
  approval counts; a requirement is met when that number reaches its threshold.
\<close>

definition approval_met :: "principal_id set \<Rightarrow> approval_requirement \<Rightarrow> bool" where
  "approval_met approving requirement \<longleftrightarrow>
     unat (ar_threshold requirement) \<le> card (set (ar_approvers requirement) \<inter> approving)"

definition approvals_admit :: "approval_requirement list \<Rightarrow> principal_id set \<Rightarrow> bool" where
  "approvals_admit requirements approving \<longleftrightarrow> (\<forall>r \<in> set requirements. approval_met approving r)"

lemma approval_covers_met:
  assumes "approval_requirement_covers child parent" "approval_met approving child"
  shows "approval_met approving parent"
proof -
  have "card (set (ar_approvers child) \<inter> approving) \<le> card (set (ar_approvers parent) \<inter> approving)"
    using assms(1) by (intro card_mono) (auto simp: approval_requirement_covers_iff)
  moreover have "unat (ar_threshold parent) \<le> unat (ar_threshold child)"
    using assms(1) by (simp add: approval_requirement_covers_iff word_le_nat_alt)
  ultimately show ?thesis using assms(2) by (simp add: approval_met_def)
qed

interpretation approved: attenuation approval_requirements_attenuate approvals_admit
proof
  show "approval_requirements_attenuate p p" for p
    by (auto simp: approval_requirements_attenuate_iff approval_requirement_covers_iff)
  show "approval_requirements_attenuate p r"
    if "approval_requirements_attenuate p q" "approval_requirements_attenuate q r" for p q r
    using that unfolding approval_requirements_attenuate_iff approval_requirement_covers_iff
    by (meson order_trans)
  show "approvals_admit parent a" if "approval_requirements_attenuate child parent" "approvals_admit child a"
    for child parent a
    using that approval_covers_met unfolding approval_requirements_attenuate_iff approvals_admit_def by blast
qed

text \<open>
  The threshold decision over the counts of a constructed requirement: authorized exactly when the
  requirement is met, and denied exactly when it could not be met even with every pending approver.
\<close>

lemma approval_requirement_new_Ok_iff:
  "approval_requirement_new approvers threshold = Ok requirement \<longleftrightarrow>
     approvers \<noteq> [] \<and> length approvers \<le> 16 \<and> distinct approvers
     \<and> 0 < threshold \<and> unat threshold \<le> length approvers
     \<and> requirement = \<lparr> ar_approvers = sort approvers, ar_threshold = threshold \<rparr>"
proof -
  have "sort approvers = [] \<longleftrightarrow> approvers = []" by (metis length_0_conv length_sort)
  then show ?thesis
    by (auto simp: approval_requirement_new_def Let_def MAX_APPROVERS_PER_REQUIREMENT_def adjacent_equal_sorted
        word_gt_0)
qed

lemma unat_small_count: "n \<le> 16 \<Longrightarrow> unat (of_nat n :: usize) = n"
  by (simp add: unsigned_of_nat take_bit_nat_eq_self)

lemma approval_decision:
  assumes "approval_requirement_new approvers threshold = Ok requirement"
    and counts: "counts = approval_counts (ar_approvers requirement) outcomes"
  shows "threshold_counts (ar_threshold requirement) (ct_counted counts) (ct_pending counts) =
    (if approval_met {p. approver_counted outcomes p} requirement then Authorized
     else if approval_met {p. approver_counted outcomes p \<or> approver_pending outcomes p} requirement
     then Indeterminate else Denied)"
proof -
  let ?listed = "ar_approvers requirement"
  have listed: "distinct ?listed" "length ?listed \<le> 16"
    using assms(1) by (auto simp: approval_requirement_new_Ok_iff)
  have small: "length (filter P ?listed) \<le> 16" for P using listed(2) length_filter_le [of P ?listed] by linarith
  have card: "length (filter P ?listed) = card (set ?listed \<inter> Collect P)" for P
    using distinct_length_filter [OF listed(1)] by (metis inf_commute)
  have count: "unat (of_nat (length (filter P ?listed)) :: usize) = card (set ?listed \<inter> Collect P)" for P
    using unat_small_count [OF small] card by simp
  have "card (set ?listed \<inter> {p. approver_counted outcomes p \<or> approver_pending outcomes p})
      = card (set ?listed \<inter> Collect (approver_counted outcomes))
        + card (set ?listed \<inter> Collect (approver_pending outcomes))"
    by (subst card_Un_disjoint [symmetric]) (auto simp: approver_pending_def intro!: arg_cong [of _ _ card])
  then show ?thesis
    by (simp add: counts approval_counts_eq threshold_counts_cases count approval_met_def)
qed

end
