(* ===== verification/Verifier_Model.thy ===== *)
theory Verifier_Model
  imports Composition Approval_Model "HOL-Library.Product_Lexorder" "HOL-Library.Option_ord"
begin

text \<open>
  The values the verifier reads, \<open>core/crates/auths-model/src/lib.rs\<close>: signed statements, control
  bindings, status snapshots and their trust rules, attachments, assurance claims and policies, the
  proof bundle and the trusted context; and the stage monad in which the verifier's stages are
  written, a state with a \<open>Result\<close> whose state survives an error, as a Rust \<open>&mut\<close> argument does.

  Content identifiers, signing preimages and wire formats come from the canonical codec
  (\<open>core/crates/auths-codec\<close>), which the verifier calls and this development does not define: they
  are the fields of a record \<open>codec\<close> that every definition using them takes.
\<close>

section \<open>Signed statements\<close>

record signature_descriptor =
  sd_principal_method :: bytes
  sd_verification_method :: bytes
  sd_suite :: bytes

record signature_envelope =
  se_descriptor :: signature_descriptor
  se_signature :: bytes

record evidence_object =
  eo_id :: digest
  eo_evidence_type :: bytes
  eo_media_type :: bytes
  eo_bytes :: bytes

datatype statement_ref =
    GrantRef digest | ActionRef digest | PrincipalStatusRef digest | GrantStatusRef digest

record control_binding =
  cb_statement :: statement_ref
  cb_evidence :: "digest list"

datatype confidentiality = Encrypted | Plain
datatype presence = Required | Optional
datatype opacity = OpaqueAllowed | MustBeInspectable

record attachment_descriptor =
  ad_digest :: digest
  ad_media_type :: bytes
  ad_byte_length :: u64
  ad_disposition :: bytes
  ad_confidentiality :: confidentiality
  ad_presence :: presence
  ad_opacity :: opacity

record detached_attachment =
  da_digest :: digest
  da_bytes :: bytes

type_synonym envelope = "attachment_descriptor action_envelope"

record signed_grant =
  sg_statement :: grant_statement
  sg_signature :: signature_envelope

record signed_action =
  sa_envelope :: envelope
  sa_signature :: signature_envelope

record canonical_action =
  cn_profile :: profile_ref
  cn_media_type :: bytes
  cn_body :: bytes
  cn_permission :: permission
  cn_requested_budget :: "budget_ceiling option"
  cn_detached_attachments :: "detached_attachment list"

record signed_observation =
  so_statement :: observation_statement
  so_signature :: signature_envelope
  so_evidence :: "evidence_object list"

record signed_approval =
  sp_statement :: approval_statement
  sp_signature :: signature_envelope
  sp_evidence :: "evidence_object list"

section \<open>Status\<close>

text \<open>
  Principal and grant status have the same shape and differ in what the subject identifies; one record
  models both statements, and one the two snapshots.
\<close>

datatype subject_state = StateActive | StateRevoked | StateSuperseded

record status_statement =
  ss_method :: bytes
  ss_subject :: bytes
  ss_state :: subject_state
  ss_sequence :: u64
  ss_observed_at :: u64
  ss_valid_until :: u64
  ss_issuer :: principal_id
  ss_extensions :: "critical_extension list"

record signed_status =
  st_statement :: status_statement
  st_signature :: signature_envelope

datatype status_scope = OwnAnchor | Anchors "bytes list" | AnyAnchor

record status_trust_rule =
  tr_method :: bytes
  tr_issuer :: principal_id
  tr_sequence_floor :: u64
  tr_scope :: status_scope

record status_snapshot =
  sn_observed_at :: u64
  sn_valid_until :: u64
  sn_statements :: "signed_status list"
  sn_checkpoints :: "digest list"
  sn_trust :: "status_trust_rule list"

datatype status_view = AnchorView trust_anchor | ApproverView

text \<open>The listed anchors are canonical, so the binary search of the code is membership.\<close>

definition scope_covers :: "status_scope \<Rightarrow> principal_id \<Rightarrow> trust_anchor \<Rightarrow> bool" where
  "scope_covers scope issuer anchor = (case scope of
     OwnAnchor \<Rightarrow> ta_principal anchor = issuer
   | Anchors anchors \<Rightarrow> ta_id anchor \<in> set anchors
   | AnyAnchor \<Rightarrow> True)"

definition status_issuer_in_scope :: "status_trust_rule list \<Rightarrow> principal_id \<Rightarrow> trust_anchor \<Rightarrow> bool" where
  "status_issuer_in_scope trust issuer anchor =
     list_all (\<lambda>rule. scope_covers (tr_scope rule) issuer anchor) (filter (\<lambda>rule. tr_issuer rule = issuer) trust)"

definition status_issuer_visible :: "status_trust_rule list \<Rightarrow> principal_id \<Rightarrow> status_view \<Rightarrow> bool" where
  "status_issuer_visible trust issuer view = (case view of
     AnchorView anchor \<Rightarrow> status_issuer_in_scope trust issuer anchor
   | ApproverView \<Rightarrow> list_all (\<lambda>rule. tr_scope rule = AnyAnchor) (filter (\<lambda>rule. tr_issuer rule = issuer) trust))"

definition window_contains_time :: "validity_window \<Rightarrow> u64 \<Rightarrow> bool" where
  "window_contains_time window time \<longleftrightarrow> time \<ge> not_before window \<and> time \<le> expires_at window"

section \<open>Assurance\<close>

datatype participant_role = RootRole | IntermediateRole | ActorRole | ExternalIssuerRole
datatype assurance_quantifier = AnyParticipant | EveryParticipant

fun role_rank :: "participant_role \<Rightarrow> nat" where
  "role_rank RootRole = 0"
| "role_rank IntermediateRole = 1"
| "role_rank ActorRole = 2"
| "role_rank ExternalIssuerRole = 3"

record assurance_claim =
  cl_kind :: bytes
  cl_parameters :: "(bytes \<times> bytes) list"
  cl_observed_at :: "u64 option"
  cl_source :: bytes

text \<open>The derived order compares the fields in the order of their declaration.\<close>

definition claim_key :: "assurance_claim \<Rightarrow> bytes \<times> (bytes \<times> bytes) list \<times> u64 option \<times> bytes" where
  "claim_key claim = (cl_kind claim, cl_parameters claim, cl_observed_at claim, cl_source claim)"

record participant_assurance =
  pa_principal :: principal_id
  pa_role :: participant_role
  pa_claims :: "assurance_claim list"
  pa_evidence :: "digest list"
  pa_adapter :: bytes
  pa_adapter_version :: u16

definition HARD_MAX_EVIDENCE :: nat where "HARD_MAX_EVIDENCE = 512"

definition participant_assurance_new ::
  "principal_id \<Rightarrow> participant_role \<Rightarrow> assurance_claim list \<Rightarrow> digest list \<Rightarrow> bytes \<Rightarrow> u16
     \<Rightarrow> participant_assurance option" where
  "participant_assurance_new who role claims evidence adapter adapter_version =
     (let claims = remdups_adj (sort_key claim_key claims); evidence = remdups_adj (sort evidence) in
      if length claims > HARD_MAX_EVIDENCE \<or> length evidence > HARD_MAX_EVIDENCE then None
      else Some \<lparr> pa_principal = who, pa_role = role, pa_claims = claims, pa_evidence = evidence,
                  pa_adapter = adapter, pa_adapter_version = adapter_version \<rparr>)"

record assurance_requirement =
  aq_role :: participant_role
  aq_quantifier :: assurance_quantifier
  aq_claim_kind :: bytes
  aq_parameters :: "(bytes \<times> bytes) list"
  aq_source :: "bytes option"
  aq_adapter :: "bytes option"
  aq_adapter_version :: "u16 option"
  aq_maximum_age :: "u64 option"

record assurance_policy =
  ay_id :: bytes
  ay_requirements :: "assurance_requirement list"

record assurance_satisfaction =
  sf_requirement_index :: u16
  sf_principal :: principal_id
  sf_claim :: assurance_claim
  sf_evidence :: "digest list"

record observation_satisfaction =
  sb_requirement :: digest
  sb_observation :: digest

section \<open>Bundle and context\<close>

text \<open>The bundle's header is read by the codec only and is left out.\<close>

record proof_bundle =
  pb_grants :: "signed_grant list"
  pb_actions :: "signed_action list"
  pb_plan :: authorization_plan
  pb_evidence :: "evidence_object list"
  pb_bindings :: "control_binding list"
  pb_principal_status :: "signed_status list"
  pb_grant_status :: "signed_status list"
  pb_attachments :: "attachment_descriptor list"
  pb_canonical_body :: "bytes option"
  pb_approvals :: "signed_approval list"

record accepted_registries =
  rg_manifest_id :: bytes
  rg_principal_methods :: "bytes list"
  rg_signature_suites :: "bytes list"
  rg_evidence_types :: "bytes list"
  rg_principal_status_methods :: "bytes list"
  rg_grant_status_methods :: "bytes list"
  rg_assurance_claims :: "bytes list"
  rg_assurance_implications :: "bytes list"
  rg_resource_matchers :: "bytes list"
  rg_budget_algebras :: "bytes list"
  rg_critical_extensions :: "bytes list"
  rg_profiles :: "profile_ref list"
  rg_profile_policies :: "bytes list"
  rg_budget_free_profiles :: "profile_ref list"

record composition_requirement =
  co_expected_plan :: "digest option"
  co_minimum_authorized_branches :: u16
  co_minimum_distinct_actors :: u16
  co_minimum_distinct_roots :: u16

text \<open>The limits the modelled stages read; the codec reads the others.\<close>

record verifier_limits = plan_limits +
  vl_attachment_bytes :: usize
  vl_work_units :: u64

record trusted_context =
  tc_configuration :: bytes
  tc_composition :: composition_requirement
  tc_trust_anchors :: "trust_anchor list"
  tc_accepted_registries :: accepted_registries
  tc_expected_audience :: bytes
  tc_expected_challenge :: bytes
  tc_evaluation_time :: u64
  tc_assurance_policy :: assurance_policy
  tc_principal_status_snapshot :: status_snapshot
  tc_grant_status_snapshot :: status_snapshot
  tc_resource_matcher :: bytes
  tc_profile_policy :: bytes
  tc_channel_policy :: bytes
  tc_limits :: verifier_limits
  tc_observer_anchors :: "observer_anchor list"
  tc_approver_anchors :: "approver_anchor list"
  tc_approval_requirements :: "approval_requirement list"

text \<open>Approver anchors are ordered by principal; the binary search finds the one of a principal.\<close>

definition approver_anchor_of :: "trusted_context \<Rightarrow> principal_id \<Rightarrow> approver_anchor option" where
  "approver_anchor_of context who = find (\<lambda>anchor. aa_principal anchor = who) (tc_approver_anchors context)"

section \<open>The codec\<close>

datatype codec_error =
    CodecLimitExceeded | CodecUnsupportedProtocol | CodecMalformed | CodecModel
  | CodecNonCanonical | CodecDigestMismatch | CodecDuplicateObject

record bounded_policy_commitment =
  bp_policy :: bytes
  bp_parent :: "digest option"

record codec =
  decode_bundle :: "bytes \<Rightarrow> verifier_limits \<Rightarrow> (proof_bundle, codec_error) result"
  proof_digest_of :: "proof_bundle \<Rightarrow> (digest, codec_error) result"
  plan_id_of :: "authorization_plan \<Rightarrow> (digest, codec_error) result"
  grant_id_of :: "grant_statement \<Rightarrow> (grant_id, codec_error) result"
  action_id_of :: "envelope \<Rightarrow> (digest, codec_error) result"
  principal_status_id_of :: "status_statement \<Rightarrow> (digest, codec_error) result"
  grant_status_id_of :: "status_statement \<Rightarrow> (digest, codec_error) result"
  context_digest_of :: "trusted_context \<Rightarrow> (digest, codec_error) result"
  body_digest :: "bytes \<Rightarrow> digest"
  attachment_digest :: "bytes \<Rightarrow> digest"
  grant_signing_preimage :: "grant_statement \<Rightarrow> signature_descriptor \<Rightarrow> (bytes, codec_error) result"
  action_signing_preimage :: "envelope \<Rightarrow> signature_descriptor \<Rightarrow> (bytes, codec_error) result"
  principal_status_signing_preimage :: "status_statement \<Rightarrow> signature_descriptor \<Rightarrow> (bytes, codec_error) result"
  grant_status_signing_preimage :: "status_statement \<Rightarrow> signature_descriptor \<Rightarrow> (bytes, codec_error) result"
  observation_signing_preimage :: "observation_statement \<Rightarrow> signature_descriptor \<Rightarrow> (bytes, codec_error) result"
  approval_signing_preimage ::
    "approval_statement \<Rightarrow> signature_descriptor \<Rightarrow> profile_ref \<Rightarrow> (bytes, codec_error) result"
  decode_observation_requirements :: "bytes \<Rightarrow> (observation_requirement list, codec_error) result"
  observation_requirement_id :: "observation_requirement \<Rightarrow> (digest, codec_error) result"
  decode_signed_observation :: "bytes \<Rightarrow> verifier_limits \<Rightarrow> (signed_observation, codec_error) result"
  decode_approval_requirements :: "bytes \<Rightarrow> (approval_requirement list, codec_error) result"
  approval_requirement_id :: "approval_requirement \<Rightarrow> (digest, codec_error) result"
  approval_digest :: "signed_approval \<Rightarrow> (digest, codec_error) result"
  sorted_approval_requirements ::
    "approval_requirement list \<Rightarrow> ((digest \<times> approval_requirement) list, codec_error) result"
  decode_bounded_policy_commitment :: "bytes \<Rightarrow> (bounded_policy_commitment, codec_error) result"
  bounded_policy_link :: "bytes \<Rightarrow> (digest, codec_error) result"

section \<open>Failures and stages\<close>

datatype verification_failure = FailDenied denial_reason | FailIndeterminate requirement

fun codec_failure :: "codec_error \<Rightarrow> verification_failure" where
  "codec_failure CodecLimitExceeded = FailDenied ResourceLimitExceeded"
| "codec_failure CodecUnsupportedProtocol = FailIndeterminate UnsupportedProtocol"
| "codec_failure CodecMalformed = FailDenied MalformedProof"
| "codec_failure CodecModel = FailDenied MalformedProof"
| "codec_failure CodecNonCanonical = FailDenied NonCanonicalProof"
| "codec_failure CodecDigestMismatch = FailDenied DigestMismatch"
| "codec_failure CodecDuplicateObject = FailDenied DuplicateObject"

definition limit_or_malformed :: "codec_error \<Rightarrow> verification_failure" where
  "limit_or_malformed error =
     (if error = CodecLimitExceeded then FailDenied ResourceLimitExceeded else FailDenied MalformedProof)"

text \<open>\<open>map_err\<close>, and the loop that pushes each converted element and stops at the first error.\<close>

definition map_failure :: "('e \<Rightarrow> 'f) \<Rightarrow> ('a, 'e) result \<Rightarrow> ('a, 'f) result" where
  "map_failure f r = (case r of Inl e \<Rightarrow> Inl (f e) | Inr x \<Rightarrow> Inr x)"

lemma map_failure_simps [simp]: "map_failure f (Inl e) = Inl (f e)" "map_failure f (Inr x) = Inr x"
  by (simp_all add: map_failure_def)

lemma map_failure_Inr_iff [simp]: "map_failure f r = Inr x \<longleftrightarrow> r = Inr x"
  by (cases r) simp_all

fun collect :: "('a \<Rightarrow> ('b, 'e) result) \<Rightarrow> 'a list \<Rightarrow> ('b list, 'e) result" where
  "collect f [] = Ok []"
| "collect f (x # xs) = and_then (f x) (\<lambda>y. and_then (collect f xs) (\<lambda>ys. Ok (y # ys)))"

lemma collect_Inr_iff: "collect f xs = Inr ys \<longleftrightarrow> list_all2 (\<lambda>x y. f x = Inr y) xs ys"
  by (induction xs arbitrary: ys) (auto simp: result_simps list_all2_Cons1)

type_synonym ('s, 'a) stage = "'s \<Rightarrow> ('a, verification_failure) result \<times> 's"

definition return :: "'a \<Rightarrow> ('s, 'a) stage" where
  "return x s = (Ok x, s)"

definition fail :: "verification_failure \<Rightarrow> ('s, 'a) stage" where
  "fail e s = (Err e, s)"

definition from_result :: "('a, verification_failure) result \<Rightarrow> ('s, 'a) stage" where
  "from_result r s = (r, s)"

definition bind :: "('s, 'a) stage \<Rightarrow> ('a \<Rightarrow> ('s, 'b) stage) \<Rightarrow> ('s, 'b) stage" where
  "bind m f s = (case m s of (Inl e, s') \<Rightarrow> (Inl e, s') | (Inr x, s') \<Rightarrow> f x s')"

definition require :: "bool \<Rightarrow> verification_failure \<Rightarrow> ('s, unit) stage" where
  "require condition failure = (if condition then return () else fail failure)"

fun for_each :: "('a \<Rightarrow> ('s, unit) stage) \<Rightarrow> 'a list \<Rightarrow> ('s, unit) stage" where
  "for_each f [] = return ()"
| "for_each f (x # xs) = bind (f x) (\<lambda>_. for_each f xs)"

fun map_each :: "('a \<Rightarrow> ('s, 'b) stage) \<Rightarrow> 'a list \<Rightarrow> ('s, 'b list) stage" where
  "map_each f [] = return []"
| "map_each f (x # xs) = bind (f x) (\<lambda>y. bind (map_each f xs) (\<lambda>ys. return (y # ys)))"

record work_meter =
  wm_used :: u64
  wm_limit :: u64

definition reserve :: "u64 \<Rightarrow> (work_meter, unit) stage" where
  "reserve maximum meter = (case checked_add (wm_used meter) maximum of
     None \<Rightarrow> (Err (FailDenied ResourceLimitExceeded), meter)
   | Some next \<Rightarrow>
       if next > wm_limit meter then (Err (FailDenied ResourceLimitExceeded), meter)
       else (Ok (), meter \<lparr> wm_used := next \<rparr>))"

named_theorems stage_simps \<open>what a stage that succeeds has done\<close>

lemma return_Inr_iff [stage_simps]: "return x s = (Inr y, s') \<longleftrightarrow> y = x \<and> s' = s"
  by (auto simp: return_def)

lemma fail_Inr_iff [stage_simps]: "fail e s = (Inr y, s') \<longleftrightarrow> False"
  by (simp add: fail_def)

lemma from_result_Inr_iff [stage_simps]: "from_result r s = (Inr y, s') \<longleftrightarrow> r = Inr y \<and> s' = s"
  by (auto simp: from_result_def)

lemma bind_Inr_iff [stage_simps]:
  "bind m f s = (Inr y, s'') \<longleftrightarrow> (\<exists>x s'. m s = (Inr x, s') \<and> f x s' = (Inr y, s''))"
  by (auto simp: bind_def split: prod.splits sum.splits)

lemma require_Inr_iff [stage_simps]: "require c e s = (Inr u, s') \<longleftrightarrow> c \<and> s' = s"
  by (simp add: require_def return_def fail_def) auto

lemma reserve_Inr_iff:
  "reserve maximum meter = (Inr u, meter') \<longleftrightarrow>
     unat (wm_used meter) + unat maximum \<le> unat (wm_limit meter)
     \<and> meter' = meter \<lparr> wm_used := wm_used meter + maximum \<rparr>"
proof (cases "checked_add (wm_used meter) maximum")
  case None
  then have "2 ^ 64 \<le> unat (wm_used meter) + unat maximum" by (simp add: checked_simps)
  moreover have "unat (wm_limit meter) < 2 ^ 64" using unsigned_less [of "wm_limit meter"] by simp
  ultimately show ?thesis using None by (simp add: reserve_def)
next
  case (Some next')
  then have "unat next' = unat (wm_used meter) + unat maximum" by (simp add: checked_simps)
  moreover have "next' = wm_used meter + maximum" using Some by (simp add: checked_add_def split: if_splits)
  ultimately show ?thesis using Some
    by (auto simp: reserve_def word_less_nat_alt)
qed

lemma for_each_Inr_iff:
  "for_each f xs s = (Inr u, s') \<Longrightarrow> x \<in> set xs \<Longrightarrow> \<exists>t t'. f x t = (Inr (), t')"
  by (induction xs arbitrary: s) (auto simp: stage_simps)

lemma map_each_Inr:
  "map_each f xs s = (Inr ys, s') \<Longrightarrow> list_all2 (\<lambda>x y. \<exists>t t'. f x t = (Inr y, t')) xs ys"
  by (induction xs arbitrary: s ys) (auto simp: stage_simps)

section \<open>Stages keep the work limit\<close>

text \<open>
  A stage is metered when it never lowers the work used, never changes the limit and, started within
  the limit, ends within it, whether it succeeds or fails.
\<close>

definition meter_le :: "work_meter \<Rightarrow> work_meter \<Rightarrow> bool" where
  "meter_le m m' \<longleftrightarrow> wm_limit m' = wm_limit m \<and> wm_used m \<le> wm_used m'
     \<and> (wm_used m \<le> wm_limit m \<longrightarrow> wm_used m' \<le> wm_limit m')"

definition metered :: "('s \<Rightarrow> work_meter) \<Rightarrow> ('s, 'a) stage \<Rightarrow> bool" where
  "metered meter_of m \<longleftrightarrow> (\<forall>s. meter_le (meter_of s) (meter_of (snd (m s))))"

named_theorems metered_intros \<open>stages built from metered stages are metered\<close>

lemma meter_le_refl [simp]: "meter_le m m"
  by (simp add: meter_le_def)

lemma meter_le_trans: "meter_le a b \<Longrightarrow> meter_le b c \<Longrightarrow> meter_le a c"
  by (auto simp: meter_le_def)

lemma metered_basic [metered_intros, simp]:
  "metered meter_of (return x)" "metered meter_of (fail e)" "metered meter_of (from_result r)"
  "metered meter_of (require c e)"
  by (simp_all add: metered_def return_def fail_def from_result_def require_def)

lemma metered_reserve [metered_intros, simp]: "metered id (reserve maximum)"
proof -
  have "meter_le m (snd (reserve maximum m))" for m
  proof (cases "checked_add (wm_used m) maximum")
    case (Some next')
    then have "unat next' = unat (wm_used m) + unat maximum" by (simp add: checked_simps)
    then show ?thesis using Some by (auto simp: reserve_def meter_le_def word_le_nat_alt word_less_nat_alt)
  qed (simp add: reserve_def)
  then show ?thesis by (simp add: metered_def)
qed

lemma metered_bind [metered_intros]:
  assumes "metered meter_of m" and "\<And>x. metered meter_of (f x)"
  shows "metered meter_of (bind m f)"
proof -
  have "meter_le (meter_of s) (meter_of (snd (bind m f s)))" for s
  proof -
    obtain r s' where m: "m s = (r, s')" by force
    have "meter_le (meter_of s) (meter_of s')" using assms(1) m unfolding metered_def by (metis snd_conv)
    moreover have "meter_le (meter_of s') (meter_of (snd (f x s')))" for x
      using assms(2) by (simp add: metered_def)
    ultimately show ?thesis using m meter_le_trans by (cases r) (auto simp: bind_def)
  qed
  then show ?thesis by (simp add: metered_def)
qed

lemma metered_if [metered_intros]:
  "metered meter_of a \<Longrightarrow> metered meter_of b \<Longrightarrow> metered meter_of (if c then a else b)"
  by simp

lemma metered_option [metered_intros]:
  "metered meter_of a \<Longrightarrow> (\<And>x. metered meter_of (b x)) \<Longrightarrow> metered meter_of (case c of None \<Rightarrow> a | Some x \<Rightarrow> b x)"
  by (simp split: option.splits)

lemma metered_for_each [metered_intros]:
  assumes "\<And>x. metered meter_of (f x)" shows "metered meter_of (for_each f xs)"
  by (induction xs) (auto intro: metered_intros assms)

lemma metered_map_each [metered_intros]:
  assumes "\<And>x. metered meter_of (f x)" shows "metered meter_of (map_each f xs)"
  by (induction xs) (auto intro: metered_intros assms)

end
