(* ===== verification/Registries.thy ===== *)
theory Registries
  imports Verifier_Model
begin

text \<open>
  The verifier's registries, \<open>core/crates/auths-ports/src/lib.rs\<close> and
  \<open>core/crates/auths-registries/src/lib.rs\<close>: a port trait is the record of its methods, the built-in
  implementations are such records, and an immutable registry selects the implementation of an exact
  identifier the context accepts. The lemmas read the status selection as the latest trusted
  statements, and the extension laws as narrowing of requirements.
\<close>

section \<open>Ports\<close>

datatype registry_operation_error = OperationLimitExceeded | OperationInvalidInput
datatype profile_decision = ProfileAccept | ProfileDeny
datatype status_decision =
    StatusActive | StatusRevoked | StatusMissing | StatusStale | StatusRollback
  | StatusUntrustedIssuer | StatusWrongMethod
datatype control_purpose = CapabilityDelegation | CapabilityInvocation | Assertion
datatype principal_control_error =
    ControlMethodMismatch | ControlVerificationMethodMismatch | ControlInvalidEvidence
  | ControlSuiteMismatch | ControlMissingEvidence | ControlLimitExceeded
  | ControlExternalFactUnavailable | ControlHistoricalStateUnavailable | ControlPrincipalRevoked
datatype signature_error = InvalidKey | InvalidSignatureEncoding | SignatureInvalid

type_synonym 'a operation = "('a, registry_operation_error) result"

record control_evidence =
  cv_verification_key :: bytes
  cv_claims :: "assurance_claim list"
  cv_consumed_evidence :: "digest list"
  cv_adapter :: bytes
  cv_adapter_version :: u16
  cv_work_units :: u64
  cv_signature_message :: "bytes option"

record principal_control_input =
  ci_principal :: principal_id
  ci_verification_method :: bytes
  ci_signature_suite :: bytes
  ci_purpose :: control_purpose
  ci_signing_preimage :: bytes
  ci_signature :: bytes
  ci_asserted_signing_time :: u64
  ci_evidence :: "evidence_object list"
  ci_evaluation_time :: u64

record signature_input =
  si_verification_key :: bytes
  si_signing_preimage :: bytes
  si_signature :: bytes

text \<open>Evaluating control with discarded diagnostics is the method's \<open>verify_control\<close>.\<close>

record principal_method =
  me_id :: bytes
  me_configuration :: digest
  me_maximum_work_units :: u64
  me_verify_control :: "principal_control_input \<Rightarrow> (control_evidence, principal_control_error) result"

record signature_suite =
  su_id :: bytes
  su_configuration :: digest
  su_work_units :: u64
  su_verify :: "signature_input \<Rightarrow> (unit, signature_error) result"

record resource_matcher =
  rm_id :: bytes
  rm_configuration :: digest
  rm_maximum_work_units :: "resource_id \<Rightarrow> resource_id \<Rightarrow> u64"
  rm_matches :: "resource_id \<Rightarrow> resource_id \<Rightarrow> bool operation"

record profile_policy =
  pp_id :: bytes
  pp_configuration :: digest
  pp_maximum_work_units :: "canonical_action \<Rightarrow> u64"
  pp_evaluate :: "canonical_action \<Rightarrow> profile_decision operation"
  pp_action_fact :: "canonical_action \<Rightarrow> fact_name \<Rightarrow> fact_value option operation"

record budget_algebra =
  ba_id :: bytes
  ba_configuration :: digest
  ba_maximum_work_units :: u64
  ba_attenuates :: "budget_ceiling \<Rightarrow> budget_ceiling \<Rightarrow> bool operation"
  ba_covers :: "budget_ceiling \<Rightarrow> budget_ceiling \<Rightarrow> bool operation"

record critical_extension_handler =
  eh_id :: bytes
  eh_configuration :: digest
  eh_maximum_work_units :: "critical_extension \<Rightarrow> u64"
  eh_evaluate :: "critical_extension \<Rightarrow> unit operation"
  eh_attenuates :: "bytes option \<Rightarrow> bytes option \<Rightarrow> bool operation"

record status_method =
  sm_id :: bytes
  sm_configuration :: digest
  sm_maximum_work_units :: "usize \<Rightarrow> u64"
  sm_principal :: "status_policy \<Rightarrow> status_snapshot \<Rightarrow> bytes \<Rightarrow> status_view \<Rightarrow> u64 \<Rightarrow> status_decision operation"
  sm_grant :: "status_policy \<Rightarrow> status_snapshot \<Rightarrow> bytes \<Rightarrow> status_view \<Rightarrow> u64 \<Rightarrow> status_decision operation"

record assurance_claim_rule =
  cr_id :: bytes
  cr_configuration :: digest
  cr_maximum_work_units :: "assurance_claim \<Rightarrow> u64"
  cr_validate :: "assurance_claim \<Rightarrow> unit operation"

record assurance_implication =
  ai_id :: bytes
  ai_configuration :: digest
  ai_source :: bytes
  ai_target :: bytes
  ai_maximum_work_units :: u64
  ai_implies :: "assurance_claim \<Rightarrow> bool operation"

text \<open>
  The commitment to an implementation's configuration: each component is framed by its length.
\<close>

definition framed :: "bytes \<Rightarrow> bytes" where
  "framed component = be_bytes (of_nat (length component)) @ component"

definition configuration_id :: "(bytes \<Rightarrow> digest) \<Rightarrow> bytes \<Rightarrow> bytes list \<Rightarrow> digest" where
  "configuration_id sha256 domain components =
     sha256 (ascii ''auths-proof-adapter-configuration-v1'' @ framed domain @ concat (map framed components))"

section \<open>Built-in implementations\<close>

definition TARGET_V1_REGISTRY_MANIFEST :: bytes where "TARGET_V1_REGISTRY_MANIFEST = replicate 32 0x37"
definition URI_NAMESPACE_V1 :: bytes where "URI_NAMESPACE_V1 = ascii ''uri-namespace-v1''"
definition EXACT_PROFILE_V1 :: bytes where "EXACT_PROFILE_V1 = ascii ''exact-v1''"
definition NUMERIC_CEILING_V1 :: bytes where "NUMERIC_CEILING_V1 = ascii ''numeric-ceiling-v1''"
definition EXACT_MARKER_EXTENSION_V1 :: bytes where "EXACT_MARKER_EXTENSION_V1 = ascii ''exact-marker-v1''"
definition OBSERVATION_REQUIREMENT_EXTENSION_V1 :: bytes where "OBSERVATION_REQUIREMENT_EXTENSION_V1 = ascii ''observation-requirement-v1''"
definition APPROVAL_REQUIREMENT_EXTENSION_V1 :: bytes where "APPROVAL_REQUIREMENT_EXTENSION_V1 = ascii ''approval-requirement-v1''"
definition BOUNDED_POLICY_COMMITMENT_EXTENSION_V1 :: bytes where "BOUNDED_POLICY_COMMITMENT_EXTENSION_V1 = ascii ''bounded-policy-commitment-v1''"
definition BOUNDED_POLICY_ATTENUATION_LAW :: bytes where "BOUNDED_POLICY_ATTENUATION_LAW = ascii ''attenuation-law:bounded-policy-link-v1''"
definition MARKER_ATTENUATION_LAW :: bytes where "MARKER_ATTENUATION_LAW = ascii ''attenuation-law:byte-equality-v1''"
definition OBSERVATION_ATTENUATION_LAW :: bytes where "OBSERVATION_ATTENUATION_LAW = ascii ''attenuation-law:requirement-narrowing-v1''"
definition APPROVAL_ATTENUATION_LAW :: bytes where "APPROVAL_ATTENUATION_LAW = ascii ''attenuation-law:approval-requirement-covering-v1''"

definition CLAIMS :: "bytes list" where
  "CLAIMS = map ascii
     [''self-certifying-identifier'', ''offline-verifiable'', ''controller-state-current-at'',
      ''historical-at'', ''statement-existence-proven-at'', ''rotation-aware'',
      ''revocation-checked-at'', ''witness-threshold-met'', ''pki-chain-validated'',
      ''workload-attested'', ''hardware-attested'', ''user-verified'', ''origin-bound'']"

text \<open>Lengths are 64-bit sizes; \<open>strip_prefix\<close> gives what follows the namespace.\<close>

definition size_of :: "'a list \<Rightarrow> usize" where
  "size_of xs = of_nat (length xs)"

definition uri_matches :: "resource_id \<Rightarrow> resource_id \<Rightarrow> bool operation" where
  "uri_matches namespace resource = Ok (resource = namespace
     \<or> prefix namespace resource
       \<and> (let rest = drop (length namespace) resource in
          namespace \<noteq> [] \<and> last namespace = of_char (CHR ''/'')
          \<or> rest \<noteq> [] \<and> hd rest \<in> {of_char (CHR ''/''), of_char (CHR ''?''), of_char (CHR ''#'')}))"

definition uri_namespace_matcher :: "(bytes \<Rightarrow> digest) \<Rightarrow> resource_matcher" where
  "uri_namespace_matcher sha256 = \<lparr> rm_id = URI_NAMESPACE_V1,
     rm_configuration = configuration_id sha256 URI_NAMESPACE_V1 [],
     rm_maximum_work_units = (\<lambda>namespace resource. saturating_add (size_of namespace) (size_of resource)),
     rm_matches = uri_matches \<rparr>"

definition exact_profile_policy :: "(bytes \<Rightarrow> digest) \<Rightarrow> profile_policy" where
  "exact_profile_policy sha256 = \<lparr> pp_id = EXACT_PROFILE_V1,
     pp_configuration = configuration_id sha256 EXACT_PROFILE_V1 [],
     pp_maximum_work_units = (\<lambda>action. size_of (cn_body action)),
     pp_evaluate = (\<lambda>_. Ok ProfileAccept),
     pp_action_fact = (\<lambda>_ _. Ok None) \<rparr>"

definition numeric_attenuates :: "budget_ceiling \<Rightarrow> budget_ceiling \<Rightarrow> bool operation" where
  "numeric_attenuates child parent =
     (if bc_algebra child \<noteq> NUMERIC_CEILING_V1 \<or> bc_algebra parent \<noteq> NUMERIC_CEILING_V1
      then Err OperationInvalidInput else Ok (bc_value child \<le> bc_value parent))"

definition numeric_budget_algebra :: "(bytes \<Rightarrow> digest) \<Rightarrow> budget_algebra" where
  "numeric_budget_algebra sha256 = \<lparr> ba_id = NUMERIC_CEILING_V1,
     ba_configuration = configuration_id sha256 NUMERIC_CEILING_V1 [],
     ba_maximum_work_units = 1,
     ba_attenuates = numeric_attenuates,
     ba_covers = (\<lambda>ceiling requested. numeric_attenuates requested ceiling) \<rparr>"

definition extension_work :: "critical_extension \<Rightarrow> u64" where
  "extension_work extension = saturating_add (size_of (ce_bytes extension)) 1"

definition marker_attenuates :: "bytes option \<Rightarrow> bytes option \<Rightarrow> bool operation" where
  "marker_attenuates child parent = Ok (case (child, parent) of
     (Some child, Some parent) \<Rightarrow> child = parent
   | _ \<Rightarrow> False)"

definition exact_marker_extension :: "(bytes \<Rightarrow> digest) \<Rightarrow> critical_extension_handler" where
  "exact_marker_extension sha256 = \<lparr> eh_id = EXACT_MARKER_EXTENSION_V1,
     eh_configuration = configuration_id sha256 EXACT_MARKER_EXTENSION_V1 [MARKER_ATTENUATION_LAW],
     eh_maximum_work_units = extension_work,
     eh_evaluate = (\<lambda>extension.
       if ce_id extension = EXACT_MARKER_EXTENSION_V1 \<and> ce_bytes extension = [1] then Ok ()
       else Err OperationInvalidInput),
     eh_attenuates = marker_attenuates \<rparr>"

text \<open>The error mapping shared by the three payload decoders.\<close>

definition decoded_payload :: "('a, codec_error) result \<Rightarrow> 'a operation" where
  "decoded_payload r = map_failure (\<lambda>error. if error = CodecLimitExceeded then OperationLimitExceeded
     else OperationInvalidInput) r"

definition decode_requirements :: "codec \<Rightarrow> bytes \<Rightarrow> observation_requirement list operation" where
  "decode_requirements cdc bs = decoded_payload (decode_observation_requirements cdc bs)"

definition observation_attenuates :: "codec \<Rightarrow> bytes option \<Rightarrow> bytes option \<Rightarrow> bool operation" where
  "observation_attenuates cdc child parent = (case child of
     None \<Rightarrow> Ok False
   | Some child \<Rightarrow> and_then (decode_requirements cdc child) (\<lambda>child. case parent of
       Some parent \<Rightarrow> and_then (decode_requirements cdc parent) (\<lambda>parent.
         Ok (observation_requirements_attenuate child parent))
     | None \<Rightarrow> Ok True))"

definition observation_requirement_extension :: "(bytes \<Rightarrow> digest) \<Rightarrow> codec \<Rightarrow> critical_extension_handler" where
  "observation_requirement_extension sha256 cdc = \<lparr> eh_id = OBSERVATION_REQUIREMENT_EXTENSION_V1,
     eh_configuration =
       configuration_id sha256 OBSERVATION_REQUIREMENT_EXTENSION_V1 [OBSERVATION_ATTENUATION_LAW],
     eh_maximum_work_units = extension_work,
     eh_evaluate = (\<lambda>extension.
       if ce_id extension \<noteq> OBSERVATION_REQUIREMENT_EXTENSION_V1 then Err OperationInvalidInput
       else and_then (decode_requirements cdc (ce_bytes extension)) (\<lambda>_. Ok ())),
     eh_attenuates = observation_attenuates cdc \<rparr>"

definition decode_approvals :: "codec \<Rightarrow> bytes \<Rightarrow> approval_requirement list operation" where
  "decode_approvals cdc bs = decoded_payload (decode_approval_requirements cdc bs)"

definition approval_attenuates :: "codec \<Rightarrow> bytes option \<Rightarrow> bytes option \<Rightarrow> bool operation" where
  "approval_attenuates cdc child parent = (case child of
     None \<Rightarrow> Ok False
   | Some child \<Rightarrow> and_then (decode_approvals cdc child) (\<lambda>child. case parent of
       Some parent \<Rightarrow> and_then (decode_approvals cdc parent) (\<lambda>parent.
         Ok (approval_requirements_attenuate child parent))
     | None \<Rightarrow> Ok True))"

definition approval_requirement_extension :: "(bytes \<Rightarrow> digest) \<Rightarrow> codec \<Rightarrow> critical_extension_handler" where
  "approval_requirement_extension sha256 cdc = \<lparr> eh_id = APPROVAL_REQUIREMENT_EXTENSION_V1,
     eh_configuration = configuration_id sha256 APPROVAL_REQUIREMENT_EXTENSION_V1 [APPROVAL_ATTENUATION_LAW],
     eh_maximum_work_units = extension_work,
     eh_evaluate = (\<lambda>extension.
       if ce_id extension \<noteq> APPROVAL_REQUIREMENT_EXTENSION_V1 then Err OperationInvalidInput
       else and_then (decode_approvals cdc (ce_bytes extension)) (\<lambda>_. Ok ())),
     eh_attenuates = approval_attenuates cdc \<rparr>"

definition decode_bounded_policy :: "codec \<Rightarrow> bytes \<Rightarrow> bounded_policy_commitment operation" where
  "decode_bounded_policy cdc bs = decoded_payload (decode_bounded_policy_commitment cdc bs)"

definition bounded_policy_attenuates :: "codec \<Rightarrow> bytes option \<Rightarrow> bytes option \<Rightarrow> bool operation" where
  "bounded_policy_attenuates cdc child parent = (case child of
     None \<Rightarrow> Ok False
   | Some child \<Rightarrow> and_then (decode_bounded_policy cdc child) (\<lambda>child. and_then
       (case parent of
          Some parent \<Rightarrow> and_then (decode_bounded_policy cdc parent) (\<lambda>_.
            and_then (map_failure (\<lambda>_. OperationLimitExceeded) (bounded_policy_link cdc parent)) (\<lambda>link. Ok (Some link)))
        | None \<Rightarrow> Ok None)
       (\<lambda>parent_digest. Ok (bounded_policy_link_accepts (bp_parent child) parent_digest))))"

definition bounded_policy_commitment_extension :: "(bytes \<Rightarrow> digest) \<Rightarrow> codec \<Rightarrow> critical_extension_handler" where
  "bounded_policy_commitment_extension sha256 cdc = \<lparr> eh_id = BOUNDED_POLICY_COMMITMENT_EXTENSION_V1,
     eh_configuration =
       configuration_id sha256 BOUNDED_POLICY_COMMITMENT_EXTENSION_V1 [BOUNDED_POLICY_ATTENUATION_LAW],
     eh_maximum_work_units = extension_work,
     eh_evaluate = (\<lambda>extension.
       if ce_id extension \<noteq> BOUNDED_POLICY_COMMITMENT_EXTENSION_V1 then Err OperationInvalidInput
       else and_then (decode_bounded_policy cdc (ce_bytes extension)) (\<lambda>_. Ok ())),
     eh_attenuates = bounded_policy_attenuates cdc \<rparr>"

definition exact_claim_rule :: "(bytes \<Rightarrow> digest) \<Rightarrow> bytes \<Rightarrow> assurance_claim_rule" where
  "exact_claim_rule sha256 i = \<lparr> cr_id = i, cr_configuration = configuration_id sha256 i [],
     cr_maximum_work_units = (\<lambda>claim. saturating_add (size_of (cl_parameters claim)) 1),
     cr_validate = (\<lambda>claim. if cl_kind claim = i then Ok () else Err OperationInvalidInput) \<rparr>"

section \<open>Status selection\<close>

definition status_freshness :: "status_policy \<Rightarrow> u64 \<Rightarrow> u64 \<Rightarrow> u64 \<Rightarrow> status_decision" where
  "status_freshness policy observed_at valid_until evaluation_time = (case policy of
     ExpiryOnly \<Rightarrow> StatusActive
   | SnapshotRequired _ max_age \<Rightarrow>
       if observed_at > evaluation_time \<or> valid_until < evaluation_time
          \<or> saturating_sub evaluation_time observed_at > max_age
       then StatusStale else StatusActive)"

text \<open>The loop that keeps the statements of trusted issuers; its early return is the left result.\<close>

fun trusted_statements ::
  "bytes \<Rightarrow> status_trust_rule list \<Rightarrow> status_statement list \<Rightarrow> (status_statement list, status_decision) result" where
  "trusted_statements method trust [] = Ok []"
| "trusted_statements method trust (statement # candidates) =
     (case find (\<lambda>rule. tr_method rule = method \<and> tr_issuer rule = ss_issuer statement) trust of
        None \<Rightarrow> trusted_statements method trust candidates
      | Some rule \<Rightarrow>
          if ss_sequence statement < tr_sequence_floor rule then Err StatusRollback
          else and_then (trusted_statements method trust candidates) (\<lambda>trusted. Ok (statement # trusted)))"

definition maximum_sequence :: "status_statement list \<Rightarrow> u64 option" where
  "maximum_sequence statements = (case map ss_sequence statements of
     [] \<Rightarrow> None | s # sequences \<Rightarrow> Some (fold max sequences s))"

definition select_status ::
  "status_policy \<Rightarrow> status_snapshot \<Rightarrow> status_statement list \<Rightarrow> u64 \<Rightarrow> status_decision operation" where
  "select_status policy snapshot candidates evaluation_time = (case policy of
     ExpiryOnly \<Rightarrow> Ok StatusActive
   | SnapshotRequired method _ \<Rightarrow>
       if candidates = [] then Ok StatusMissing
       else if list_all (\<lambda>statement. ss_method statement \<noteq> method) candidates then Ok StatusWrongMethod
       else case trusted_statements method (sn_trust snapshot)
                   (filter (\<lambda>statement. ss_method statement = method) candidates) of
         Inl decision \<Rightarrow> Ok decision
       | Inr trusted \<Rightarrow>
           if trusted = [] then Ok StatusUntrustedIssuer
           else case maximum_sequence trusted of
             None \<Rightarrow> Err OperationInvalidInput
           | Some maximum \<Rightarrow>
               let latest = filter (\<lambda>statement. ss_sequence statement = maximum) trusted in
               if list_ex (\<lambda>statement. status_freshness policy (ss_observed_at statement)
                    (ss_valid_until statement) evaluation_time = StatusStale) latest
               then Ok StatusStale
               else Ok (if list_ex (\<lambda>statement. ss_state statement \<noteq> StateActive) latest
                        then StatusRevoked else StatusActive))"

definition exact_status ::
  "bytes \<Rightarrow> status_policy \<Rightarrow> status_snapshot \<Rightarrow> bytes \<Rightarrow> status_view \<Rightarrow> u64 \<Rightarrow> status_decision operation" where
  "exact_status i policy snapshot subject view evaluation_time = (case policy of
     ExpiryOnly \<Rightarrow> Ok StatusActive
   | SnapshotRequired method _ \<Rightarrow>
       if method \<noteq> i then Ok StatusWrongMethod
       else if sn_observed_at snapshot > evaluation_time \<or> sn_valid_until snapshot < evaluation_time
         then Ok StatusStale
       else select_status policy snapshot
         (filter (\<lambda>statement. ss_subject statement = subject
             \<and> status_issuer_visible (sn_trust snapshot) (ss_issuer statement) view)
           (map st_statement (sn_statements snapshot)))
         evaluation_time)"

definition exact_status_method :: "(bytes \<Rightarrow> digest) \<Rightarrow> bytes \<Rightarrow> status_method" where
  "exact_status_method sha256 i = \<lparr> sm_id = i, sm_configuration = configuration_id sha256 i [],
     sm_maximum_work_units = (\<lambda>statement_count. saturating_add statement_count 1),
     sm_principal = exact_status i, sm_grant = exact_status i \<rparr>"

section \<open>Registries\<close>

record pure_registry_set =
  pr_resource_matchers :: "resource_matcher list"
  pr_profile_policies :: "profile_policy list"
  pr_budget_algebras :: "budget_algebra list"
  pr_extension_handlers :: "critical_extension_handler list"
  pr_status_methods :: "status_method list"
  pr_assurance_claims :: "assurance_claim_rule list"
  pr_assurance_implications :: "assurance_implication list"

definition empty_pure_set :: pure_registry_set where
  "empty_pure_set = \<lparr> pr_resource_matchers = [], pr_profile_policies = [], pr_budget_algebras = [],
     pr_extension_handlers = [], pr_status_methods = [], pr_assurance_claims = [],
     pr_assurance_implications = [] \<rparr>"

record core_semantics =
  cs_resource :: resource_matcher
  cs_profile :: profile_policy
  cs_budget :: budget_algebra
  cs_extension :: critical_extension_handler
  cs_observation :: critical_extension_handler
  cs_bounded_policy :: critical_extension_handler
  cs_approval :: critical_extension_handler
  cs_status :: "status_method list"
  cs_claims :: "assurance_claim_rule list"

text \<open>The compile-time identifiers parse, so the constructor's error case does not arise.\<close>

definition core_semantics_new :: "(bytes \<Rightarrow> digest) \<Rightarrow> codec \<Rightarrow> core_semantics" where
  "core_semantics_new sha256 cdc = \<lparr> cs_resource = uri_namespace_matcher sha256,
     cs_profile = exact_profile_policy sha256, cs_budget = numeric_budget_algebra sha256,
     cs_extension = exact_marker_extension sha256,
     cs_observation = observation_requirement_extension sha256 cdc,
     cs_bounded_policy = bounded_policy_commitment_extension sha256 cdc,
     cs_approval = approval_requirement_extension sha256 cdc,
     cs_status = map (\<lambda>i. exact_status_method sha256 (ascii i))
       [''auths-principal-status-v1'', ''auths-grant-status-v1''],
     cs_claims = map (exact_claim_rule sha256) CLAIMS \<rparr>"

type_synonym configuration_entry = "u8 \<times> bytes \<times> digest"

definition configuration_entries ::
  "principal_method list \<Rightarrow> signature_suite list \<Rightarrow> pure_registry_set \<Rightarrow> core_semantics \<Rightarrow> configuration_entry list" where
  "configuration_entries methods suites pure core =
     map (\<lambda>x. (0, me_id x, me_configuration x)) methods
     @ map (\<lambda>x. (1, su_id x, su_configuration x)) suites
     @ map (\<lambda>x. (2, rm_id x, rm_configuration x)) (pr_resource_matchers pure @ [cs_resource core])
     @ map (\<lambda>x. (3, pp_id x, pp_configuration x)) (pr_profile_policies pure @ [cs_profile core])
     @ map (\<lambda>x. (4, ba_id x, ba_configuration x)) (pr_budget_algebras pure @ [cs_budget core])
     @ map (\<lambda>x. (5, eh_id x, eh_configuration x)) (pr_extension_handlers pure
         @ [cs_extension core, cs_observation core, cs_bounded_policy core, cs_approval core])
     @ map (\<lambda>x. (6, sm_id x, sm_configuration x)) (pr_status_methods pure @ cs_status core)
     @ map (\<lambda>x. (7, cr_id x, cr_configuration x)) (pr_assurance_claims pure @ cs_claims core)
     @ map (\<lambda>x. (8, ai_id x, ai_configuration x)) (pr_assurance_implications pure)"

definition verifier_configuration_id ::
  "(bytes \<Rightarrow> digest) \<Rightarrow> principal_method list \<Rightarrow> signature_suite list \<Rightarrow> pure_registry_set
     \<Rightarrow> core_semantics \<Rightarrow> digest" where
  "verifier_configuration_id sha256 methods suites pure core =
     (let entries = sort_key (\<lambda>(kind, i, _). (kind, i)) (configuration_entries methods suites pure core) in
      configuration_id sha256 (ascii ''auths-proof-verifier-configuration-v1'')
        (concat (map (\<lambda>(kind, i, configuration). [[kind], i, configuration]) entries)))"

record registries =
  ir_principal_methods :: "principal_method list"
  ir_signature_suites :: "signature_suite list"
  ir_pure :: pure_registry_set
  ir_core :: core_semantics
  ir_configuration :: digest

datatype registry_error = DuplicateImplementation | InvalidBuiltin

definition reject_duplicates :: "bytes list \<Rightarrow> (unit, registry_error) result" where
  "reject_duplicates identifiers =
     (if adjacent_equal (sort identifiers) then Err DuplicateImplementation else Ok ())"

definition with_pure ::
  "(bytes \<Rightarrow> digest) \<Rightarrow> codec \<Rightarrow> principal_method list \<Rightarrow> signature_suite list \<Rightarrow> pure_registry_set
     \<Rightarrow> (registries, registry_error) result" where
  "with_pure sha256 cdc methods suites pure =
     and_then (reject_duplicates (map me_id methods)) (\<lambda>_.
     and_then (reject_duplicates (map su_id suites)) (\<lambda>_.
     and_then (reject_duplicates (map rm_id (pr_resource_matchers pure))) (\<lambda>_.
     and_then (reject_duplicates (map pp_id (pr_profile_policies pure))) (\<lambda>_.
     and_then (reject_duplicates (map ba_id (pr_budget_algebras pure))) (\<lambda>_.
     and_then (reject_duplicates (map eh_id (pr_extension_handlers pure))) (\<lambda>_.
     and_then (reject_duplicates (map sm_id (pr_status_methods pure))) (\<lambda>_.
     and_then (reject_duplicates (map cr_id (pr_assurance_claims pure))) (\<lambda>_.
     and_then (reject_duplicates (map ai_id (pr_assurance_implications pure))) (\<lambda>_.
       let core = core_semantics_new sha256 cdc in
       if list_ex (\<lambda>x. rm_id x = rm_id (cs_resource core)) (pr_resource_matchers pure)
          \<or> list_ex (\<lambda>x. pp_id x = pp_id (cs_profile core)) (pr_profile_policies pure)
          \<or> list_ex (\<lambda>x. ba_id x = ba_id (cs_budget core)) (pr_budget_algebras pure)
          \<or> list_ex (\<lambda>x. eh_id x = eh_id (cs_extension core) \<or> eh_id x = eh_id (cs_observation core)
               \<or> eh_id x = eh_id (cs_bounded_policy core) \<or> eh_id x = eh_id (cs_approval core))
               (pr_extension_handlers pure)
          \<or> list_ex (\<lambda>x. list_ex (\<lambda>b. sm_id x = sm_id b) (cs_status core)) (pr_status_methods pure)
          \<or> list_ex (\<lambda>x. list_ex (\<lambda>b. cr_id x = cr_id b) (cs_claims core)) (pr_assurance_claims pure)
       then Err DuplicateImplementation
       else Ok \<lparr> ir_principal_methods = methods, ir_signature_suites = suites, ir_pure = pure,
         ir_core = core,
         ir_configuration = verifier_configuration_id sha256 methods suites pure core \<rparr>)))))))))"

definition registries_new ::
  "(bytes \<Rightarrow> digest) \<Rightarrow> codec \<Rightarrow> principal_method list \<Rightarrow> signature_suite list \<Rightarrow> (registries, registry_error) result" where
  "registries_new sha256 cdc methods suites = with_pure sha256 cdc methods suites empty_pure_set"

definition principal_method_for :: "registries \<Rightarrow> accepted_registries \<Rightarrow> bytes \<Rightarrow> principal_method option" where
  "principal_method_for regs accepted i =
     (if i \<in> set (rg_principal_methods accepted) then find (\<lambda>x. me_id x = i) (ir_principal_methods regs) else None)"

definition signature_suite_for :: "registries \<Rightarrow> accepted_registries \<Rightarrow> bytes \<Rightarrow> signature_suite option" where
  "signature_suite_for regs accepted i =
     (if i \<in> set (rg_signature_suites accepted) then find (\<lambda>x. su_id x = i) (ir_signature_suites regs) else None)"

definition resource_matcher_for :: "registries \<Rightarrow> accepted_registries \<Rightarrow> bytes \<Rightarrow> resource_matcher option" where
  "resource_matcher_for regs accepted i =
     (if i \<notin> set (rg_resource_matchers accepted) then None
      else if rm_id (cs_resource (ir_core regs)) = i then Some (cs_resource (ir_core regs))
      else find (\<lambda>x. rm_id x = i) (pr_resource_matchers (ir_pure regs)))"

definition profile_policy_for :: "registries \<Rightarrow> accepted_registries \<Rightarrow> bytes \<Rightarrow> profile_policy option" where
  "profile_policy_for regs accepted i =
     (if i \<notin> set (rg_profile_policies accepted) then None
      else if pp_id (cs_profile (ir_core regs)) = i then Some (cs_profile (ir_core regs))
      else find (\<lambda>x. pp_id x = i) (pr_profile_policies (ir_pure regs)))"

definition budget_algebra_for :: "registries \<Rightarrow> accepted_registries \<Rightarrow> bytes \<Rightarrow> budget_algebra option" where
  "budget_algebra_for regs accepted i =
     (if i \<notin> set (rg_budget_algebras accepted) then None
      else if ba_id (cs_budget (ir_core regs)) = i then Some (cs_budget (ir_core regs))
      else find (\<lambda>x. ba_id x = i) (pr_budget_algebras (ir_pure regs)))"

definition extension_handler_for ::
  "registries \<Rightarrow> accepted_registries \<Rightarrow> bytes \<Rightarrow> critical_extension_handler option" where
  "extension_handler_for regs accepted i = (let core = ir_core regs in
     if i \<notin> set (rg_critical_extensions accepted) then None
     else if eh_id (cs_extension core) = i then Some (cs_extension core)
     else if eh_id (cs_observation core) = i then Some (cs_observation core)
     else if eh_id (cs_bounded_policy core) = i then Some (cs_bounded_policy core)
     else if eh_id (cs_approval core) = i then Some (cs_approval core)
     else find (\<lambda>x. eh_id x = i) (pr_extension_handlers (ir_pure regs)))"

definition status_method_for ::
  "registries \<Rightarrow> accepted_registries \<Rightarrow> bytes \<Rightarrow> bool \<Rightarrow> status_method option" where
  "status_method_for regs accepted i for_principal =
     (if i \<notin> set (if for_principal then rg_principal_status_methods accepted else rg_grant_status_methods accepted)
      then None
      else case find (\<lambda>x. sm_id x = i) (cs_status (ir_core regs)) of
        Some implementation \<Rightarrow> Some implementation
      | None \<Rightarrow> find (\<lambda>x. sm_id x = i) (pr_status_methods (ir_pure regs)))"

definition assurance_claim_for :: "registries \<Rightarrow> accepted_registries \<Rightarrow> bytes \<Rightarrow> assurance_claim_rule option" where
  "assurance_claim_for regs accepted i =
     (if i \<notin> set (rg_assurance_claims accepted) then None
      else case find (\<lambda>x. cr_id x = i) (cs_claims (ir_core regs)) of
        Some implementation \<Rightarrow> Some implementation
      | None \<Rightarrow> find (\<lambda>x. cr_id x = i) (pr_assurance_claims (ir_pure regs)))"

definition accepted_implications :: "registries \<Rightarrow> accepted_registries \<Rightarrow> assurance_implication list" where
  "accepted_implications regs accepted =
     sort_key ai_id (filter (\<lambda>x. ai_id x \<in> set (rg_assurance_implications accepted))
       (pr_assurance_implications (ir_pure regs)))"

section \<open>Attenuation laws\<close>

definition succeeds :: "bool operation \<Rightarrow> bool" where
  "succeeds r \<longleftrightarrow> r = Ok True"

definition accepted_laws :: "registries \<Rightarrow> accepted_registries \<Rightarrow> extension_laws" where
  "accepted_laws regs accepted i child parent = (case extension_handler_for regs accepted i of
     None \<Rightarrow> False | Some handler \<Rightarrow> succeeds (eh_attenuates handler child parent))"

definition laws_work :: "registries \<Rightarrow> accepted_registries \<Rightarrow> critical_extension list \<Rightarrow> critical_extension list \<Rightarrow> u64" where
  "laws_work regs accepted child parent =
     fold saturating_add
       (List.map_filter (\<lambda>extension. map_option (\<lambda>handler. eh_maximum_work_units handler extension)
          (extension_handler_for regs accepted (ce_id extension))) (child @ parent)) 0"

definition core_extension_laws :: "codec \<Rightarrow> extension_laws" where
  "core_extension_laws cdc i child parent =
     (if i = EXACT_MARKER_EXTENSION_V1 then succeeds (marker_attenuates child parent)
      else if i = OBSERVATION_REQUIREMENT_EXTENSION_V1 then succeeds (observation_attenuates cdc child parent)
      else if i = BOUNDED_POLICY_COMMITMENT_EXTENSION_V1 then succeeds (bounded_policy_attenuates cdc child parent)
      else if i = APPROVAL_REQUIREMENT_EXTENSION_V1 then succeeds (approval_attenuates cdc child parent)
      else False)"

end
