(* ===== verification/Verifier_Samples.thy ===== *)
theory Verifier_Samples
  imports Registries
begin

text \<open>
  One proof for the examples of the verifier theories: a root that delegates to an agent and the agent
  to its helper, who acts; a principal method and a signature suite that accept a signature equal to
  its preimage; and the codec, registry and context under which the proof verifies.
\<close>

definition sample_method :: principal_method where
  "sample_method = \<lparr> me_id = [7], me_configuration = [], me_maximum_work_units = 2,
     me_verify_control = (\<lambda>input. Ok \<lparr> cv_verification_key = [1], cv_claims = [],
       cv_consumed_evidence = map eo_id (ci_evidence input), cv_adapter = [1], cv_adapter_version = 1,
       cv_work_units = 1, cv_signature_message = None \<rparr>) \<rparr>"

definition sample_suite :: signature_suite where
  "sample_suite = \<lparr> su_id = [8], su_configuration = [], su_work_units = 1,
     su_verify = (\<lambda>input. if si_signature input = si_signing_preimage input then Ok () else Err SignatureInvalid) \<rparr>"

definition sample_signature :: "bytes \<Rightarrow> signature_envelope" where
  "sample_signature message = \<lparr> se_descriptor = \<lparr> sd_principal_method = [7], sd_verification_method = [], sd_suite = [8] \<rparr>,
     se_signature = message \<rparr>"

definition sample_ceiling :: "u64 \<Rightarrow> budget_ceiling" where
  "sample_ceiling amount = \<lparr> bc_algebra = NUMERIC_CEILING_V1, bc_value = amount \<rparr>"

definition proof_anchor :: trust_anchor where
  "proof_anchor = sample_anchor \<lparr> ta_resource_namespaces := [[1]], ta_budget_ceiling := Some (sample_ceiling 50) \<rparr>"

definition proof_grant :: "principal_id \<Rightarrow> principal_id \<Rightarrow> u64 \<Rightarrow> u16 \<Rightarrow> grant_id option \<Rightarrow> signed_grant" where
  "proof_grant issuer subject amount depth parent = \<lparr>
     sg_statement = (sample_grant issuer subject [\<lparr> pm_capability = [1], pm_resource = [1] \<rparr>] amount depth parent)
       \<lparr> gs_budget_ceiling := Some (sample_ceiling amount), gs_extensions := [] \<rparr>,
     sg_signature = sample_signature subject \<rparr>"

definition sample_action :: signed_action where
  "sample_action = \<lparr> sa_envelope = \<lparr> ac_version = 1, ac_profile = \<lparr> pr_id = [5], pr_version = 1 \<rparr>,
       ac_body_media_type = [], ac_canonical_body_digest = [2],
       ac_permission = \<lparr> pm_capability = [1], pm_resource = [1] \<rparr>,
       ac_requested_budget = Some (sample_ceiling 30), ac_audience = [8], ac_challenge = [],
       ac_validity = \<lparr> not_before = 20, expires_at = 30 \<rparr>, ac_actor = [3], ac_terminal_grant = Some [3],
       ac_authorization_plan = [77], ac_channel_binding = [], ac_proof_ref = [50], ac_attachments = [],
       ac_extensions = [] \<rparr>,
     sa_signature = sample_signature [50] \<rparr>"

definition sample_bundle :: proof_bundle where
  "sample_bundle = \<lparr> pb_grants = [proof_grant [1] [2] 40 1 None, proof_grant [2] [3] 30 0 (Some [2])],
     pb_actions = [sample_action], pb_plan = Proof [50],
     pb_evidence = [\<lparr> eo_id = [80], eo_evidence_type = [81], eo_media_type = [], eo_bytes = [] \<rparr>],
     pb_bindings = map (\<lambda>statement. \<lparr> cb_statement = statement, cb_evidence = [[80]] \<rparr>)
       [GrantRef [2], GrantRef [3], ActionRef [50]],
     pb_principal_status = [], pb_grant_status = [], pb_attachments = [], pb_canonical_body = None,
     pb_approvals = [] \<rparr>"

definition sample_canonical :: canonical_action where
  "sample_canonical = \<lparr> cn_profile = \<lparr> pr_id = [5], pr_version = 1 \<rparr>, cn_media_type = [], cn_body = [2],
     cn_permission = \<lparr> pm_capability = [1], pm_resource = [1] \<rparr>,
     cn_requested_budget = Some (sample_ceiling 30), cn_detached_attachments = [] \<rparr>"

text \<open>Identifiers are read off a field, and each payload stands for one requirement list.\<close>

definition sample_requirement :: "u32 \<Rightarrow> observation_requirement" where
  "sample_requirement age = \<lparr> or_observer_anchor = [1], or_schema = [2], or_subject = SubjectResource [3],
     or_max_age_seconds = age, or_conditions = [\<lparr> oc_name = [4], oc_test = EqLiteral (Uint 5) \<rparr>] \<rparr>"

definition sample_codec :: codec where
  "sample_codec = \<lparr> decode_bundle = (\<lambda>bs _. if bs = [1] then Ok sample_bundle else Err CodecMalformed),
     proof_digest_of = (\<lambda>_. Ok [90]),
     plan_id_of = (\<lambda>_. Ok [77]), grant_id_of = (\<lambda>g. Ok (gs_subject g)), action_id_of = (\<lambda>e. Ok (ac_proof_ref e)),
     principal_status_id_of = (\<lambda>s. Ok (ss_subject s)), grant_status_id_of = (\<lambda>s. Ok (ss_subject s)),
     context_digest_of = (\<lambda>_. Ok [91]), body_digest = id, attachment_digest = id,
     grant_signing_preimage = (\<lambda>g _. Ok (gs_subject g)), action_signing_preimage = (\<lambda>e _. Ok (ac_proof_ref e)),
     principal_status_signing_preimage = (\<lambda>s _. Ok (ss_subject s)),
     grant_status_signing_preimage = (\<lambda>s _. Ok (ss_subject s)),
     observation_signing_preimage = (\<lambda>s _. Ok (os_subject s)),
     approval_signing_preimage = (\<lambda>s _ _. Ok (as_approver s)),
     decode_observation_requirements =
       (\<lambda>bs. if bs = [60] then Ok [sample_requirement 60] else if bs = [30] then Ok [sample_requirement 30]
         else Err CodecMalformed),
     observation_requirement_id = (\<lambda>r. Ok (or_schema r)), decode_signed_observation = (\<lambda>_ _. Err CodecMalformed),
     decode_approval_requirements = (\<lambda>_. Err CodecMalformed),
     approval_requirement_id = (\<lambda>r. Ok (concat (ar_approvers r))),
     approval_digest = (\<lambda>a. Ok (as_approver (sp_statement a))),
     sorted_approval_requirements = (\<lambda>rs. Ok (map (\<lambda>r. (concat (ar_approvers r), r)) rs)),
     decode_bounded_policy_commitment = (\<lambda>_. Err CodecMalformed), bounded_policy_link = (\<lambda>bs. Ok bs) \<rparr>"

definition sample_registries :: "(registries, registry_error) result" where
  "sample_registries = with_pure (take 4) sample_codec [sample_method] [sample_suite] empty_pure_set"

definition sample_accepted :: accepted_registries where
  "sample_accepted = \<lparr> rg_manifest_id = TARGET_V1_REGISTRY_MANIFEST, rg_principal_methods = [[7]],
     rg_signature_suites = [[8]], rg_evidence_types = [[81]], rg_principal_status_methods = [],
     rg_grant_status_methods = [], rg_assurance_claims = [], rg_assurance_implications = [],
     rg_resource_matchers = [URI_NAMESPACE_V1], rg_budget_algebras = [NUMERIC_CEILING_V1],
     rg_critical_extensions = [OBSERVATION_REQUIREMENT_EXTENSION_V1],
     rg_profiles = [\<lparr> pr_id = [5], pr_version = 1 \<rparr>], rg_profile_policies = [EXACT_PROFILE_V1],
     rg_budget_free_profiles = [] \<rparr>"

definition empty_snapshot :: status_snapshot where
  "empty_snapshot = \<lparr> sn_observed_at = 0, sn_valid_until = 100, sn_statements = [], sn_checkpoints = [], sn_trust = [] \<rparr>"

definition sample_context :: trusted_context where
  "sample_context = \<lparr> tc_configuration = ascii ''auth'',
     tc_composition = \<lparr> co_expected_plan = None, co_minimum_authorized_branches = 1,
       co_minimum_distinct_actors = 1, co_minimum_distinct_roots = 1 \<rparr>,
     tc_trust_anchors = [proof_anchor], tc_accepted_registries = sample_accepted, tc_expected_audience = [8],
     tc_expected_challenge = [], tc_evaluation_time = 25,
     tc_assurance_policy = \<lparr> ay_id = [4], ay_requirements = [] \<rparr>,
     tc_principal_status_snapshot = empty_snapshot, tc_grant_status_snapshot = empty_snapshot,
     tc_resource_matcher = URI_NAMESPACE_V1, tc_profile_policy = EXACT_PROFILE_V1, tc_channel_policy = [],
     tc_limits = \<lparr> plan_leaves = 4, plan_depth = 4, plan_branching = 4, vl_attachment_bytes = 100, vl_work_units = 1000 \<rparr>,
     tc_observer_anchors = [], tc_approver_anchors = [], tc_approval_requirements = [] \<rparr>"

end
