(* ===== verification/Verifier_Resolve.thy ===== *)
theory Verifier_Resolve
  imports Verifier_Samples
begin

text \<open>
  The first two stages of \<open>core/crates/auths-verifier/src/lib.rs\<close>: decoding, and the resolution of the
  complete digest and reference graph of a proof. Resolution walks the parent references of every
  action with a cycle check; the later walk \<open>branch_chain\<close> has none, and is shown to return on every
  resolved proof, with the chain the references give.
\<close>

section \<open>Decoding and records\<close>

record decoded_proof =
  dp_bundle :: proof_bundle
  dp_proof_digest :: digest

record grant_record =
  gr_id :: grant_id
  gr_index :: nat

record action_record =
  acr_id :: digest
  acr_index :: nat

record resolved_proof =
  rp_decoded :: decoded_proof
  rp_plan_id :: digest
  rp_grants :: "grant_record list"
  rp_actions :: "action_record list"

type_synonym 'a verified = "('a, verification_failure) result"

definition with_codec :: "('a, codec_error) result \<Rightarrow> 'a verified" where
  "with_codec r = map_failure codec_failure r"

definition ensure :: "bool \<Rightarrow> denial_reason \<Rightarrow> unit verified" where
  "ensure condition reason = (if condition then Ok () else Err (FailDenied reason))"

lemma with_codec_Inr_iff [simp]: "with_codec r = Inr x \<longleftrightarrow> r = Inr x"
  by (simp add: with_codec_def)

lemma ensure_Inr_iff [simp]: "ensure c reason = Inr u \<longleftrightarrow> c"
  by (simp add: ensure_def)

definition decode_proof :: "codec \<Rightarrow> bytes \<Rightarrow> trusted_context \<Rightarrow> decoded_proof verified" where
  "decode_proof cdc proof_bytes context =
     and_then (with_codec (decode_bundle cdc proof_bytes (tc_limits context))) (\<lambda>bundle.
     and_then (with_codec (proof_digest_of cdc bundle)) (\<lambda>digest.
       Ok \<lparr> dp_bundle = bundle, dp_proof_digest = digest \<rparr>))"

definition require_expected_plan :: "trusted_context \<Rightarrow> digest \<Rightarrow> unit verified" where
  "require_expected_plan context actual = (case co_expected_plan (tc_composition context) of
     None \<Rightarrow> Ok ()
   | Some expected \<Rightarrow> if expected \<noteq> actual then Err (FailDenied CompositionRequirementNotMet) else Ok ())"

definition grant_records :: "codec \<Rightarrow> proof_bundle \<Rightarrow> grant_record list verified" where
  "grant_records cdc bundle =
     and_then (collect (\<lambda>(index, grant). and_then (with_codec (grant_id_of cdc (sg_statement grant)))
         (\<lambda>i. Ok \<lparr> gr_id = i, gr_index = index \<rparr>)) (enumerate 0 (pb_grants bundle))) (\<lambda>records.
       let records = sort_key gr_id records in
       if adjacent_equal (map gr_id records) then Err (FailDenied DuplicateObject) else Ok records)"

text \<open>The loop over the actions; \<open>proof_refs\<close> is the set of references seen.\<close>

fun action_records_from ::
  "codec \<Rightarrow> digest \<Rightarrow> nat \<Rightarrow> proof_ref list \<Rightarrow> signed_action list \<Rightarrow> action_record list verified" where
  "action_records_from cdc computed index proof_refs [] = Ok []"
| "action_records_from cdc computed index proof_refs (action # actions) =
     (if ac_authorization_plan (sa_envelope action) \<noteq> computed then Err (FailDenied PlanActionMismatch)
      else if ac_proof_ref (sa_envelope action) \<in> set proof_refs then Err (FailDenied DuplicateObject)
      else and_then (with_codec (action_id_of cdc (sa_envelope action))) (\<lambda>i.
        and_then (action_records_from cdc computed (Suc index)
            (ac_proof_ref (sa_envelope action) # proof_refs) actions) (\<lambda>records.
          Ok (\<lparr> acr_id = i, acr_index = index \<rparr> # records))))"

definition action_records :: "codec \<Rightarrow> digest \<Rightarrow> proof_bundle \<Rightarrow> action_record list verified" where
  "action_records cdc computed bundle =
     and_then (action_records_from cdc computed 0 [] (pb_actions bundle)) (\<lambda>records.
       let records = sort_key acr_id records in
       if adjacent_equal (map acr_id records) then Err (FailDenied DuplicateObject) else Ok records)"

definition status_records ::
  "(status_statement \<Rightarrow> (digest, codec_error) result) \<Rightarrow> status_snapshot \<Rightarrow> digest list verified" where
  "status_records identify snapshot =
     and_then (collect (\<lambda>status. with_codec (identify (st_statement status))) (sn_statements snapshot)) (\<lambda>ids.
       let ids = sort ids in
       if adjacent_equal ids then Err (FailDenied DuplicateObject) else Ok ids)"

definition principal_status_records :: "codec \<Rightarrow> trusted_context \<Rightarrow> digest list verified" where
  "principal_status_records cdc context =
     status_records (principal_status_id_of cdc) (tc_principal_status_snapshot context)"

definition grant_status_records :: "codec \<Rightarrow> trusted_context \<Rightarrow> digest list verified" where
  "grant_status_records cdc context =
     status_records (grant_status_id_of cdc) (tc_grant_status_snapshot context)"

section \<open>References\<close>

text \<open>The records are sorted by identifier; the binary searches of the code are searches there.\<close>

definition grant_record_for :: "grant_record list \<Rightarrow> grant_id \<Rightarrow> grant_record option" where
  "grant_record_for grants i = find (\<lambda>record. gr_id record = i) grants"

fun statement_exists ::
  "statement_ref \<Rightarrow> grant_record list \<Rightarrow> action_record list \<Rightarrow> digest list \<Rightarrow> digest list \<Rightarrow> bool" where
  "statement_exists (GrantRef i) grants actions ps gs = (grant_record_for grants i \<noteq> None)"
| "statement_exists (ActionRef i) grants actions ps gs = list_ex (\<lambda>record. acr_id record = i) actions"
| "statement_exists (PrincipalStatusRef i) grants actions ps gs = (i \<in> set ps)"
| "statement_exists (GrantStatusRef i) grants actions ps gs = (i \<in> set gs)"

fun check_bindings ::
  "(statement_ref \<Rightarrow> bool) \<Rightarrow> digest list \<Rightarrow> statement_ref list \<Rightarrow> control_binding list \<Rightarrow> unit verified" where
  "check_bindings exists evidence_ids bound [] = Ok ()"
| "check_bindings exists evidence_ids bound (binding # bindings) =
     (if cb_statement binding \<in> set bound then Err (FailDenied DuplicateObject)
      else if \<not> exists (cb_statement binding) \<or> list_ex (\<lambda>i. i \<notin> set evidence_ids) (cb_evidence binding)
        then Err (FailDenied MissingReference)
      else check_bindings exists evidence_ids (cb_statement binding # bound) bindings)"

definition grant_at :: "proof_bundle \<Rightarrow> grant_record \<Rightarrow> signed_grant" where
  "grant_at bundle record = pb_grants bundle ! gr_index record"

text \<open>
  The walk of \<open>resolve_chain\<close>: the cursor, the identifiers visited on this branch and the set used so
  far. Every step visits a new grant of the bundle, so the walk ends.
\<close>

function resolve_chain_from ::
  "proof_bundle \<Rightarrow> grant_record list \<Rightarrow> grant_id option \<Rightarrow> grant_id list \<Rightarrow> grant_id list \<Rightarrow> grant_id list verified" where
  "resolve_chain_from bundle grants None branch used = Ok used"
| "resolve_chain_from bundle grants (Some i) branch used =
     (if i \<in> set branch then Err (FailDenied ReferenceCycle)
      else case grant_record_for grants i of
        None \<Rightarrow> Err (FailDenied MissingReference)
      | Some record \<Rightarrow>
          resolve_chain_from bundle grants (gs_parent (sg_statement (grant_at bundle record)))
            (i # branch) (List.insert i used))"
  by pat_completeness auto

termination
proof (relation "measure (\<lambda>(bundle, grants, cursor, branch, used). card (gr_id ` set grants - set branch))")
  fix b :: proof_bundle and grants :: "grant_record list" and i branch used entry
  assume fresh: "i \<notin> set branch" and found: "grant_record_for grants i = Some entry"
  have "i \<in> gr_id ` set grants" using found by (auto simp: grant_record_for_def find_Some_iff)
  then have "card (gr_id ` set grants - set (i # branch)) < card (gr_id ` set grants - set branch)"
    using fresh by (intro psubset_card_mono) auto
  then show "((b, grants, gs_parent (sg_statement (grant_at b entry)), i # branch, List.insert i used),
      b, grants, Some i, branch, used)
    \<in> measure (\<lambda>(bundle, grants, cursor, branch, used). card (gr_id ` set grants - set branch))" by simp
qed simp

definition resolve_chain ::
  "proof_bundle \<Rightarrow> grant_record list \<Rightarrow> signed_action \<Rightarrow> grant_id list \<Rightarrow> grant_id list verified" where
  "resolve_chain bundle grants action used =
     resolve_chain_from bundle grants (ac_terminal_grant (sa_envelope action)) [] used"

fun resolve_chains ::
  "proof_bundle \<Rightarrow> grant_record list \<Rightarrow> signed_action list \<Rightarrow> grant_id list \<Rightarrow> grant_id list verified" where
  "resolve_chains bundle grants [] used = Ok used"
| "resolve_chains bundle grants (action # actions) used =
     and_then (resolve_chain bundle grants action used) (resolve_chains bundle grants actions)"

definition reject_duplicate_attachments :: "proof_bundle \<Rightarrow> unit verified" where
  "reject_duplicate_attachments bundle =
     ensure (\<not> adjacent_equal (map ad_digest (pb_attachments bundle))) DuplicateAttachment"

definition superseded :: "status_snapshot \<Rightarrow> signed_status \<Rightarrow> bool" where
  "superseded snapshot carried = list_ex (\<lambda>current.
     ss_subject (st_statement current) = ss_subject (st_statement carried)
     \<and> ss_method (st_statement current) = ss_method (st_statement carried)
     \<and> ss_issuer (st_statement current) = ss_issuer (st_statement carried)
     \<and> ss_sequence (st_statement current) > ss_sequence (st_statement carried)) (sn_statements snapshot)"

definition validate_carried_status :: "proof_bundle \<Rightarrow> trusted_context \<Rightarrow> unit verified" where
  "validate_carried_status bundle context =
     (let principals = tc_principal_status_snapshot context; grants = tc_grant_status_snapshot context in
      if list_ex (superseded principals) (pb_principal_status bundle)
         \<or> list_ex (superseded grants) (pb_grant_status bundle)
      then Err (FailDenied StatusSequenceRollback)
      else if list_ex (\<lambda>carried. carried \<notin> set (sn_statements principals)) (pb_principal_status bundle)
         \<or> list_ex (\<lambda>carried. carried \<notin> set (sn_statements grants)) (pb_grant_status bundle)
      then Err (FailDenied DigestMismatch)
      else Ok ())"

definition check_leaves :: "proof_bundle \<Rightarrow> trusted_context \<Rightarrow> unit verified" where
  "check_leaves bundle context =
     (case validate (pb_plan bundle) (plan_limits.truncate (tc_limits context)) of
        Inl _ \<Rightarrow> Err (FailDenied AuthorizationPlanInvalid)
      | Inr shape \<Rightarrow>
          ensure (\<not> (length (ps_leaves shape) \<noteq> length (pb_actions bundle)
              \<or> list_ex (\<lambda>reference. \<not> list_ex (\<lambda>action. ac_proof_ref (sa_envelope action) = reference)
                  (pb_actions bundle)) (ps_leaves shape))) MissingReference)"

definition resolve_proof :: "codec \<Rightarrow> decoded_proof \<Rightarrow> trusted_context \<Rightarrow> resolved_proof verified" where
  "resolve_proof cdc decoded context = (let bundle = dp_bundle decoded in
     and_then (with_codec (plan_id_of cdc (pb_plan bundle))) (\<lambda>computed.
     and_then (require_expected_plan context computed) (\<lambda>_.
     and_then (grant_records cdc bundle) (\<lambda>grants.
     and_then (action_records cdc computed bundle) (\<lambda>actions.
     and_then (check_leaves bundle context) (\<lambda>_.
     and_then (ensure (distinct (map eo_id (pb_evidence bundle))) DuplicateObject) (\<lambda>_.
     and_then (principal_status_records cdc context) (\<lambda>principal_status.
     and_then (grant_status_records cdc context) (\<lambda>grant_status.
     and_then (check_bindings (\<lambda>statement. statement_exists statement grants actions principal_status grant_status)
         (map eo_id (pb_evidence bundle)) [] (pb_bindings bundle)) (\<lambda>_.
     and_then (resolve_chains bundle grants (pb_actions bundle) []) (\<lambda>used.
     and_then (ensure (length used = length grants) UnusedCriticalEvidence) (\<lambda>_.
     and_then (reject_duplicate_attachments bundle) (\<lambda>_.
     and_then (validate_carried_status bundle context) (\<lambda>_.
       Ok \<lparr> rp_decoded = decoded, rp_plan_id = computed, rp_grants = grants, rp_actions = actions \<rparr>))))))))))))))"

section \<open>The chain of a branch\<close>

text \<open>The loop has no cycle check of its own; \<open>None\<close> is a walk that does not return.\<close>

partial_function (option) branch_chain_from ::
  "resolved_proof \<Rightarrow> grant_id option \<Rightarrow> signed_grant list \<Rightarrow> signed_grant list verified option" where
  "branch_chain_from resolved cursor reversed = (case cursor of
     None \<Rightarrow> Some (Ok (rev reversed))
   | Some i \<Rightarrow> (case grant_record_for (rp_grants resolved) i of
       None \<Rightarrow> Some (Err (FailDenied MissingReference))
     | Some record \<Rightarrow>
         branch_chain_from resolved
           (gs_parent (sg_statement (grant_at (dp_bundle (rp_decoded resolved)) record)))
           (reversed @ [grant_at (dp_bundle (rp_decoded resolved)) record])))"

definition branch_chain :: "resolved_proof \<Rightarrow> signed_action \<Rightarrow> signed_grant list verified option" where
  "branch_chain resolved action = branch_chain_from resolved (ac_terminal_grant (sa_envelope action)) []"

section \<open>What resolution establishes\<close>

text \<open>A chain, terminal grant first: each reference is the identifier of the next grant.\<close>

fun chain_links :: "codec \<Rightarrow> grant_id option \<Rightarrow> signed_grant list \<Rightarrow> bool" where
  "chain_links cdc cursor [] \<longleftrightarrow> cursor = None"
| "chain_links cdc cursor (g # gs) \<longleftrightarrow> (\<exists>i. cursor = Some i \<and> grant_id_of cdc (sg_statement g) = Ok i
     \<and> chain_links cdc (gs_parent (sg_statement g)) gs)"

definition records_agree :: "codec \<Rightarrow> proof_bundle \<Rightarrow> grant_record list \<Rightarrow> bool" where
  "records_agree cdc bundle grants \<longleftrightarrow> distinct (map gr_id grants)
     \<and> mset (map (\<lambda>r. (gr_index r, Inr (gr_id r))) grants)
       = mset (map (\<lambda>(n, g). (n, grant_id_of cdc (sg_statement g))) (enumerate 0 (pb_grants bundle)))"

lemma grant_records_agree:
  assumes "grant_records cdc bundle = Inr grants" shows "records_agree cdc bundle grants"
proof -
  obtain records where collected: "collect (\<lambda>(index, grant). and_then (with_codec (grant_id_of cdc (sg_statement grant)))
      (\<lambda>i. Ok \<lparr> gr_id = i, gr_index = index \<rparr>)) (enumerate 0 (pb_grants bundle)) = Inr records"
    and grants: "grants = sort_key gr_id records" and distinct: "distinct (map gr_id grants)"
    using assms by (auto simp: grant_records_def and_then_Inr_iff Let_def adjacent_equal_sorted split: if_splits)
  have records: "list_all2 (\<lambda>(n, g) r. grant_id_of cdc (sg_statement g) = Inr (gr_id r) \<and> gr_index r = n)
      (enumerate 0 (pb_grants bundle)) records"
    using collected unfolding collect_Inr_iff by (rule list_all2_mono) (auto simp: and_then_Inr_iff)
  have "map (\<lambda>r. (gr_index r, Inr (gr_id r))) records
      = map (\<lambda>(n, g). (n, grant_id_of cdc (sg_statement g))) (enumerate 0 (pb_grants bundle))"
    using records by (auto simp: list_all2_conv_all_nth intro!: nth_equalityI split: prod.splits)
  then have "mset (map (\<lambda>r. (gr_index r, Inr (gr_id r))) grants)
      = mset (map (\<lambda>(n, g). (n, grant_id_of cdc (sg_statement g))) (enumerate 0 (pb_grants bundle)))"
    unfolding grants mset_map mset_sort by (simp only: flip: mset_map)
  then show ?thesis using distinct by (simp only: records_agree_def)
qed

lemma record_agrees:
  assumes "records_agree cdc bundle grants" "grant_record_for grants i = Some record"
  shows "grant_at bundle record \<in> set (pb_grants bundle)
    \<and> grant_id_of cdc (sg_statement (grant_at bundle record)) = Inr i"
proof -
  have "record \<in> set grants" and id: "gr_id record = i" using assms(2) by (auto simp: grant_record_for_def find_Some_iff)
  then have "(gr_index record, Inr (gr_id record)) \<in> set (map (\<lambda>r. (gr_index r, Inr (gr_id r))) grants)" by auto
  also have "set (map (\<lambda>r. (gr_index r, Inr (gr_id r))) grants)
      = set (map (\<lambda>(n, g). (n, grant_id_of cdc (sg_statement g))) (enumerate 0 (pb_grants bundle)))"
    using assms(1) mset_eq_setD unfolding records_agree_def by blast
  finally obtain n g where "(n, g) \<in> set (enumerate 0 (pb_grants bundle))" "gr_index record = n"
    "grant_id_of cdc (sg_statement g) = Inr i" using id by auto
  then show ?thesis by (auto simp: in_set_enumerate_eq grant_at_def)
qed

lemma resolve_chain_walk:
  assumes "records_agree cdc (dp_bundle (rp_decoded resolved)) (rp_grants resolved)"
    and "resolve_chain_from (dp_bundle (rp_decoded resolved)) (rp_grants resolved) cursor branch used = Inr used'"
  shows "\<exists>gs ids. branch_chain_from resolved cursor reversed = Some (Inr (rev (reversed @ gs)))
    \<and> chain_links cdc cursor gs \<and> set gs \<subseteq> set (pb_grants (dp_bundle (rp_decoded resolved)))
    \<and> map (grant_id_of cdc \<circ> sg_statement) gs = map Inr ids \<and> distinct ids \<and> set ids \<inter> set branch = {}
    \<and> set used' = set used \<union> set ids \<and> (distinct used \<longrightarrow> distinct used')"
  using assms(2)
proof (induction "dp_bundle (rp_decoded resolved)" "rp_grants resolved" cursor branch used
    arbitrary: reversed rule: resolve_chain_from.induct)
  case (1 branch used)
  then show ?case by (intro exI [of _ "[]"] exI [of _ "[]"]) (subst branch_chain_from.simps, simp)
next
  case (2 i branch used)
  from "2.prems" obtain entry where fresh: "i \<notin> set branch"
    and found: "grant_record_for (rp_grants resolved) i = Some entry"
    and rest: "resolve_chain_from (dp_bundle (rp_decoded resolved)) (rp_grants resolved)
        (gs_parent (sg_statement (grant_at (dp_bundle (rp_decoded resolved)) entry))) (i # branch) (List.insert i used) = Inr used'"
    by (auto split: if_splits option.splits)
  let ?g = "grant_at (dp_bundle (rp_decoded resolved)) entry"
  obtain gs ids where "branch_chain_from resolved (gs_parent (sg_statement ?g)) (reversed @ [?g])
        = Some (Inr (rev ((reversed @ [?g]) @ gs)))"
    "chain_links cdc (gs_parent (sg_statement ?g)) gs" "set gs \<subseteq> set (pb_grants (dp_bundle (rp_decoded resolved)))"
    "map (grant_id_of cdc \<circ> sg_statement) gs = map Inr ids" "distinct ids" "set ids \<inter> set (i # branch) = {}"
    "set used' = set (List.insert i used) \<union> set ids" "distinct (List.insert i used) \<longrightarrow> distinct used'"
    using "2.hyps" [OF fresh found rest, of "reversed @ [?g]"] by (elim exE conjE) (rule that)
  then show ?case using record_agrees [OF assms(1) found] found fresh
    by (intro exI [of _ "?g # gs"] exI [of _ "i # ids"]) (subst branch_chain_from.simps, auto)
qed

text \<open>The chain of an action, root first, with the distinct identifiers of its grants.\<close>

definition resolved_chain :: "codec \<Rightarrow> resolved_proof \<Rightarrow> signed_action \<Rightarrow> signed_grant list \<Rightarrow> grant_id list \<Rightarrow> bool" where
  "resolved_chain cdc resolved action walked ids \<longleftrightarrow> branch_chain resolved action = Some (Inr walked)
     \<and> chain_links cdc (ac_terminal_grant (sa_envelope action)) (rev walked)
     \<and> set walked \<subseteq> set (pb_grants (dp_bundle (rp_decoded resolved)))
     \<and> map (grant_id_of cdc \<circ> sg_statement) walked = map Inr ids \<and> distinct ids"

lemma resolve_chain_resolved:
  assumes "records_agree cdc (dp_bundle (rp_decoded resolved)) (rp_grants resolved)"
    and "resolve_chain (dp_bundle (rp_decoded resolved)) (rp_grants resolved) action used = Inr used'"
    and "distinct used"
  shows "\<exists>chain ids. resolved_chain cdc resolved action chain ids \<and> set used' = set used \<union> set ids \<and> distinct used'"
proof -
  obtain gs ids where walk: "branch_chain resolved action = Some (Inr (rev gs))"
      "chain_links cdc (ac_terminal_grant (sa_envelope action)) gs"
      "set gs \<subseteq> set (pb_grants (dp_bundle (rp_decoded resolved)))"
      "map (grant_id_of cdc \<circ> sg_statement) gs = map Inr ids" "distinct ids"
      "set used' = set used \<union> set ids" "distinct used'"
    using resolve_chain_walk [OF assms(1) assms(2) [unfolded resolve_chain_def], of "[]"] assms(3)
    by (auto simp: branch_chain_def)
  have "map (grant_id_of cdc \<circ> sg_statement) (rev gs) = map Inr (rev ids)" using walk(4) by (metis rev_map)
  then have "resolved_chain cdc resolved action (rev gs) (rev ids)" using walk by (simp add: resolved_chain_def)
  then show ?thesis using walk by (metis set_rev)
qed

lemma resolve_chains_walk:
  assumes agree: "records_agree cdc (dp_bundle (rp_decoded resolved)) (rp_grants resolved)"
    and "resolve_chains (dp_bundle (rp_decoded resolved)) (rp_grants resolved) actions used = Inr used'"
    and "distinct used"
  shows "distinct used' \<and> (\<forall>action \<in> set actions. \<exists>chain ids. resolved_chain cdc resolved action chain ids)
    \<and> (\<forall>i \<in> set used'. i \<in> set used
        \<or> (\<exists>action \<in> set actions. \<exists>chain ids. resolved_chain cdc resolved action chain ids \<and> i \<in> set ids))"
  using assms(2,3)
proof (induction actions arbitrary: used)
  case (Cons action actions)
  then obtain mid where first: "resolve_chain (dp_bundle (rp_decoded resolved)) (rp_grants resolved) action used = Inr mid"
    and rest: "resolve_chains (dp_bundle (rp_decoded resolved)) (rp_grants resolved) actions mid = Inr used'"
    by (auto simp: and_then_Inr_iff)
  obtain chain ids where "resolved_chain cdc resolved action chain ids" "set mid = set used \<union> set ids" "distinct mid"
    using resolve_chain_resolved [OF agree first Cons.prems(2)] by (elim exE conjE) (rule that)
  then show ?case using Cons.IH [OF rest] by simp blast
qed simp

lemma resolve_proof_parts:
  assumes "resolve_proof cdc decoded context = Inr resolved"
  obtains used where "rp_decoded resolved = decoded"
    "plan_id_of cdc (pb_plan (dp_bundle decoded)) = Inr (rp_plan_id resolved)"
    "require_expected_plan context (rp_plan_id resolved) = Inr ()"
    "grant_records cdc (dp_bundle decoded) = Inr (rp_grants resolved)"
    "action_records cdc (rp_plan_id resolved) (dp_bundle decoded) = Inr (rp_actions resolved)"
    "check_leaves (dp_bundle decoded) context = Inr ()"
    "resolve_chains (dp_bundle decoded) (rp_grants resolved) (pb_actions (dp_bundle decoded)) [] = Inr used"
    "length used = length (rp_grants resolved)"
proof -
  from assms [unfolded resolve_proof_def Let_def and_then_Inr_iff with_codec_Inr_iff ensure_Inr_iff sum.inject]
  obtain computed u1 grants actions u2 used where
    "plan_id_of cdc (pb_plan (dp_bundle decoded)) = Inr computed" "require_expected_plan context computed = Inr u1"
    "grant_records cdc (dp_bundle decoded) = Inr grants" "action_records cdc computed (dp_bundle decoded) = Inr actions"
    "check_leaves (dp_bundle decoded) context = Inr u2"
    "resolve_chains (dp_bundle decoded) grants (pb_actions (dp_bundle decoded)) [] = Inr used"
    "length used = length grants"
    "\<lparr> rp_decoded = decoded, rp_plan_id = computed, rp_grants = grants, rp_actions = actions \<rparr> = resolved"
    by (elim exE conjE) (rule that; assumption)
  then show thesis by (intro that [of used]) auto
qed

lemma records_length: "records_agree cdc bundle grants \<Longrightarrow> length grants = length (pb_grants bundle)"
  by (drule conjunct2 [OF records_agree_def [THEN iffD1]], drule mset_eq_length) simp

lemma record_of_grant:
  assumes "records_agree cdc bundle grants" "g \<in> set (pb_grants bundle)"
  shows "\<exists>r \<in> set grants. grant_id_of cdc (sg_statement g) = Inr (gr_id r)"
proof -
  obtain n where "n < length (pb_grants bundle)" "pb_grants bundle ! n = g" using assms(2) in_set_conv_nth by metis
  then have n: "(n, g) \<in> set (enumerate 0 (pb_grants bundle))" by (simp add: in_set_enumerate_eq)
  have "(n, grant_id_of cdc (sg_statement g)) \<in> set (map (\<lambda>(n, g). (n, grant_id_of cdc (sg_statement g))) (enumerate 0 (pb_grants bundle)))"
    using n by force
  also have "\<dots> = set (map (\<lambda>r. (gr_index r, Inr (gr_id r))) grants)"
    using assms(1) [unfolded records_agree_def, THEN conjunct2, THEN mset_eq_setD] by (rule sym)
  finally show ?thesis by auto
qed

section \<open>Properties\<close>

definition sample_decoded :: decoded_proof where
  "sample_decoded = \<lparr> dp_bundle = sample_bundle, dp_proof_digest = [90] \<rparr>"

text \<open>
  C38: Once a proof resolves, the walk from any of its actions up the
  parent references, which has no cycle check of its own, returns; it gives the chain whose last grant
  is the action's terminal grant, whose first grant has no parent and in which every grant is the
  parent the next one names, with distinct identifiers and so no longer than the number of grants.
  Every grant of the proof is in the chain of some action.
\<close>

theorem resolved_proofs_have_finite_chains:
  assumes "resolve_proof cdc decoded context = Ok resolved"
  shows "(\<forall>action \<in> set (pb_actions (dp_bundle decoded)). \<exists>chain ids.
      resolved_chain cdc resolved action chain ids \<and> length chain \<le> length (pb_grants (dp_bundle decoded)))
    \<and> (\<forall>grant \<in> set (pb_grants (dp_bundle decoded)). \<exists>action \<in> set (pb_actions (dp_bundle decoded)). \<exists>chain ids.
        resolved_chain cdc resolved action chain ids \<and> grant_id_of cdc (sg_statement grant) \<in> Ok ` set ids)"
proof -
  obtain used where decoded: "rp_decoded resolved = decoded"
    and records: "grant_records cdc (dp_bundle decoded) = Inr (rp_grants resolved)"
    and chains: "resolve_chains (dp_bundle decoded) (rp_grants resolved) (pb_actions (dp_bundle decoded)) [] = Inr used"
    and all: "length used = length (rp_grants resolved)"
    using resolve_proof_parts [OF assms] .
  have agree: "records_agree cdc (dp_bundle decoded) (rp_grants resolved)" by (rule grant_records_agree [OF records])
  note walk = resolve_chains_walk [of cdc resolved, unfolded decoded, OF agree chains, simplified]
  have known: "set ids \<subseteq> gr_id ` set (rp_grants resolved)"
    if "resolved_chain cdc resolved action chain ids" for action chain ids
  proof
    fix i assume "i \<in> set ids"
    then have "Inr i \<in> (grant_id_of cdc \<circ> sg_statement) ` set chain"
      using that unfolding resolved_chain_def by (metis image_eqI image_set)
    then obtain g where "g \<in> set chain" "grant_id_of cdc (sg_statement g) = Inr i" by auto
    then have "g \<in> set (pb_grants (dp_bundle decoded))" "grant_id_of cdc (sg_statement g) = Inr i"
      using that by (auto simp: resolved_chain_def decoded)
    then show "i \<in> gr_id ` set (rp_grants resolved)" using record_of_grant [OF agree] by fastforce
  qed
  have "length chain \<le> length (pb_grants (dp_bundle decoded))"
    if c: "resolved_chain cdc resolved action chain ids" for action chain ids
  proof -
    have "length chain = card (set ids)"
      using c unfolding resolved_chain_def by (metis distinct_card length_map)
    also have "\<dots> \<le> card (gr_id ` set (rp_grants resolved))" using known [OF c] by (intro card_mono) auto
    also have "\<dots> \<le> length (rp_grants resolved)" by (metis card_length image_set length_map)
    finally show ?thesis using records_length [OF agree] by simp
  qed
  moreover have "set used = gr_id ` set (rp_grants resolved)"
  proof (rule card_subset_eq)
    show "set used \<subseteq> gr_id ` set (rp_grants resolved)" using walk known by blast
    have "card (gr_id ` set (rp_grants resolved)) = length (rp_grants resolved)"
      using agree unfolding records_agree_def by (metis distinct_card image_set length_map)
    then show "card (set used) = card (gr_id ` set (rp_grants resolved))" using walk all distinct_card by metis
  qed simp
  then have "\<exists>action \<in> set (pb_actions (dp_bundle decoded)). \<exists>chain ids. resolved_chain cdc resolved action chain ids
      \<and> grant_id_of cdc (sg_statement g) \<in> Inr ` set ids" if "g \<in> set (pb_grants (dp_bundle decoded))" for g
    using record_of_grant [OF agree that] walk by fastforce
  ultimately show ?thesis using walk by blast
qed

theorem resolved_proofs_have_finite_chains_witness:
  "\<exists>resolved chain ids. resolve_proof sample_codec sample_decoded sample_context = Ok resolved
     \<and> resolved_chain sample_codec resolved sample_action chain ids \<and> length chain \<le> 2"
proof -
  have "\<not> isl (resolve_proof sample_codec sample_decoded sample_context)" by code_simp
  then obtain resolved where resolved: "resolve_proof sample_codec sample_decoded sample_context = Ok resolved"
    using sum.collapse(2) by metis
  have "sample_action \<in> set (pb_actions (dp_bundle sample_decoded))" "length (pb_grants (dp_bundle sample_decoded)) = 2"
    by (simp_all add: sample_decoded_def sample_bundle_def)
  then show ?thesis using resolved resolved_proofs_have_finite_chains [OF resolved] by metis
qed

end
