(* ===== verification/Verifier_Control.thy ===== *)
theory Verifier_Control
  imports Verifier_Resolve
begin

text \<open>
  Principal control, the third stage of \<open>core/crates/auths-verifier/src/lib.rs\<close>: one signature under its
  registered method and suite, with work reserved before it is spent, and the controls of all signed
  statements of a proof and of the status snapshots. The lemmas say which signature a control stands for.
\<close>

section \<open>One signature\<close>

fun control_failure :: "principal_control_error \<Rightarrow> verification_failure" where
  "control_failure ControlMethodMismatch = FailDenied PrincipalMethodMismatch"
| "control_failure ControlInvalidEvidence = FailDenied PrincipalMethodMismatch"
| "control_failure ControlVerificationMethodMismatch = FailDenied VerificationMethodMismatch"
| "control_failure ControlSuiteMismatch = FailDenied SignatureSuiteMismatch"
| "control_failure ControlMissingEvidence = FailIndeterminate MissingPrincipalEvidence"
| "control_failure ControlLimitExceeded = FailDenied ResourceLimitExceeded"
| "control_failure ControlExternalFactUnavailable = FailIndeterminate ExternalFactUnavailable"
| "control_failure ControlHistoricalStateUnavailable = FailIndeterminate HistoricalStateUnavailable"
| "control_failure ControlPrincipalRevoked = FailDenied PrincipalRevoked"

definition signature_failure :: "signature_error \<Rightarrow> verification_failure" where
  "signature_failure _ = FailDenied InvalidSignature"

definition registry_operation_failure :: "registry_operation_error \<Rightarrow> verification_failure" where
  "registry_operation_failure error = (case error of
     OperationLimitExceeded \<Rightarrow> FailDenied ResourceLimitExceeded
   | OperationInvalidInput \<Rightarrow> FailDenied LocalPolicyDenied)"

definition with_operation :: "'a operation \<Rightarrow> 'a verified" where
  "with_operation r = map_failure registry_operation_failure r"

lemma with_operation_Inr_iff [simp]: "with_operation r = Inr x \<longleftrightarrow> r = Inr x"
  by (simp add: with_operation_def)

definition control_input ::
  "trusted_context \<Rightarrow> principal_id \<Rightarrow> signature_envelope \<Rightarrow> bytes \<Rightarrow> control_purpose \<Rightarrow> u64
     \<Rightarrow> evidence_object list \<Rightarrow> principal_control_input" where
  "control_input context who signature preimage purpose time evidence = \<lparr>
     ci_principal = who,
     ci_verification_method = sd_verification_method (se_descriptor signature),
     ci_signature_suite = sd_suite (se_descriptor signature),
     ci_purpose = purpose, ci_signing_preimage = preimage, ci_signature = se_signature signature,
     ci_asserted_signing_time = time, ci_evidence = evidence,
     ci_evaluation_time = tc_evaluation_time context \<rparr>"

definition suite_input :: "control_evidence \<Rightarrow> signature_envelope \<Rightarrow> bytes \<Rightarrow> signature_input" where
  "suite_input control signature preimage = \<lparr> si_verification_key = cv_verification_key control,
     si_signing_preimage = (case cv_signature_message control of Some message \<Rightarrow> message | None \<Rightarrow> preimage),
     si_signature = se_signature signature \<rparr>"

definition accepts_evidence :: "trusted_context \<Rightarrow> evidence_object list \<Rightarrow> bool" where
  "accepts_evidence context evidence \<longleftrightarrow> \<not> list_ex (\<lambda>obj.
     eo_evidence_type obj \<notin> set (rg_evidence_types (tc_accepted_registries context))) evidence"

definition evaluate_signature ::
  "registries \<Rightarrow> trusted_context \<Rightarrow> principal_id \<Rightarrow> signature_envelope \<Rightarrow> bytes \<Rightarrow> control_purpose \<Rightarrow> u64
     \<Rightarrow> evidence_object list verified \<Rightarrow> (work_meter, control_evidence) stage" where
  "evaluate_signature regs context who signature preimage purpose time evidence =
     (case principal_method_for regs (tc_accepted_registries context)
             (sd_principal_method (se_descriptor signature)) of
        None \<Rightarrow> fail (FailIndeterminate UnsupportedPrincipalMethod)
      | Some method \<Rightarrow>
     (case signature_suite_for regs (tc_accepted_registries context) (sd_suite (se_descriptor signature)) of
        None \<Rightarrow> fail (FailIndeterminate UnsupportedSignatureSuite)
      | Some suite \<Rightarrow>
     bind (from_result evidence) (\<lambda>evidence.
     bind (require (accepts_evidence context evidence) (FailIndeterminate UnsupportedEvidenceType)) (\<lambda>_.
     bind (reserve (me_maximum_work_units method)) (\<lambda>_.
     bind (reserve (su_work_units suite)) (\<lambda>_.
     bind (from_result (map_failure control_failure
         (me_verify_control method (control_input context who signature preimage purpose time evidence)))) (\<lambda>control.
     bind (require (\<not> cv_work_units control > me_maximum_work_units method) (FailDenied ResourceLimitExceeded)) (\<lambda>_.
     bind (from_result (map_failure signature_failure (su_verify suite (suite_input control signature preimage)))) (\<lambda>_.
       return control)))))))))"

definition bound_evidence :: "proof_bundle \<Rightarrow> statement_ref \<Rightarrow> evidence_object list verified" where
  "bound_evidence bundle statement =
     (case find (\<lambda>binding. cb_statement binding = statement) (pb_bindings bundle) of
        None \<Rightarrow> Err (FailIndeterminate MissingPrincipalEvidence)
      | Some binding \<Rightarrow> collect (\<lambda>i. ok_or (find (\<lambda>obj. eo_id obj = i) (pb_evidence bundle))
          (FailDenied MissingReference)) (cb_evidence binding))"

record verified_control =
  vc_statement :: statement_ref
  vc_principal :: principal_id
  vc_result :: "control_evidence verified"

definition verify_signed ::
  "registries \<Rightarrow> trusted_context \<Rightarrow> proof_bundle \<Rightarrow> statement_ref \<Rightarrow> principal_id \<Rightarrow> signature_envelope \<Rightarrow> bytes
     \<Rightarrow> control_purpose \<Rightarrow> u64 \<Rightarrow> (work_meter, verified_control) stage" where
  "verify_signed regs context bundle statement who signature preimage purpose time meter =
     (case evaluate_signature regs context who signature preimage purpose time (bound_evidence bundle statement) meter of
        (result, meter') \<Rightarrow>
          if result = Inl (FailDenied ResourceLimitExceeded) then (Inl (FailDenied ResourceLimitExceeded), meter')
          else (Ok \<lparr> vc_statement = statement, vc_principal = who, vc_result = result \<rparr>, meter'))"

section \<open>The statements of a proof\<close>

record control_verified_proof =
  cp_resolved :: resolved_proof
  cp_controls :: "verified_control list"
  cp_work_units :: u64

definition action_at :: "proof_bundle \<Rightarrow> action_record \<Rightarrow> signed_action" where
  "action_at bundle record = pb_actions bundle ! acr_index record"

definition control_grant ::
  "codec \<Rightarrow> registries \<Rightarrow> trusted_context \<Rightarrow> proof_bundle \<Rightarrow> grant_record \<Rightarrow> (work_meter, verified_control) stage" where
  "control_grant cdc regs context bundle record = (let grant = grant_at bundle record in
     bind (from_result (with_codec (grant_signing_preimage cdc (sg_statement grant) (se_descriptor (sg_signature grant)))))
       (\<lambda>preimage. verify_signed regs context bundle (GrantRef (gr_id record)) (gs_issuer (sg_statement grant))
         (sg_signature grant) preimage CapabilityDelegation (not_before (gs_validity (sg_statement grant)))))"

definition control_action ::
  "codec \<Rightarrow> registries \<Rightarrow> trusted_context \<Rightarrow> proof_bundle \<Rightarrow> action_record \<Rightarrow> (work_meter, verified_control) stage" where
  "control_action cdc regs context bundle record = (let action = action_at bundle record in
     bind (from_result (with_codec (action_signing_preimage cdc (sa_envelope action) (se_descriptor (sa_signature action)))))
       (\<lambda>preimage. verify_signed regs context bundle (ActionRef (acr_id record)) (ac_actor (sa_envelope action))
         (sa_signature action) preimage CapabilityInvocation (not_before (ac_validity (sa_envelope action)))))"

definition control_status ::
  "registries \<Rightarrow> trusted_context \<Rightarrow> proof_bundle \<Rightarrow> (digest \<Rightarrow> statement_ref)
     \<Rightarrow> (status_statement \<Rightarrow> (digest, codec_error) result)
     \<Rightarrow> (status_statement \<Rightarrow> signature_descriptor \<Rightarrow> (bytes, codec_error) result)
     \<Rightarrow> signed_status \<Rightarrow> (work_meter, verified_control) stage" where
  "control_status regs context bundle reference identify preimage_of status =
     bind (from_result (with_codec (identify (st_statement status)))) (\<lambda>i.
     bind (from_result (with_codec (preimage_of (st_statement status) (se_descriptor (st_signature status))))) (\<lambda>preimage.
       verify_signed regs context bundle (reference i) (ss_issuer (st_statement status)) (st_signature status) preimage
         Assertion (ss_observed_at (st_statement status))))"

definition verify_status_controls ::
  "codec \<Rightarrow> registries \<Rightarrow> trusted_context \<Rightarrow> proof_bundle \<Rightarrow> (work_meter, verified_control list) stage" where
  "verify_status_controls cdc regs context bundle =
     bind (map_each (control_status regs context bundle PrincipalStatusRef (principal_status_id_of cdc)
         (principal_status_signing_preimage cdc)) (sn_statements (tc_principal_status_snapshot context))) (\<lambda>principals.
     bind (map_each (control_status regs context bundle GrantStatusRef (grant_status_id_of cdc)
         (grant_status_signing_preimage cdc)) (sn_statements (tc_grant_status_snapshot context))) (\<lambda>grants.
       return (principals @ grants)))"

definition evidence_consumed :: "proof_bundle \<Rightarrow> verified_control \<Rightarrow> bool" where
  "evidence_consumed bundle control = (case vc_result control of
     Inl _ \<Rightarrow> True
   | Inr evidence \<Rightarrow>
       set (case find (\<lambda>binding. cb_statement binding = vc_statement control) (pb_bindings bundle) of
              None \<Rightarrow> [] | Some binding \<Rightarrow> cb_evidence binding)
       = set (cv_consumed_evidence evidence))"

definition all_evidence_used :: "proof_bundle \<Rightarrow> trusted_context \<Rightarrow> bool" where
  "all_evidence_used bundle context \<longleftrightarrow> list_all (\<lambda>evidence.
     eo_id evidence \<in> set (concat (map cb_evidence (pb_bindings bundle))
       @ sn_checkpoints (tc_principal_status_snapshot context) @ sn_checkpoints (tc_grant_status_snapshot context)))
     (pb_evidence bundle)"

definition control_statements ::
  "codec \<Rightarrow> registries \<Rightarrow> resolved_proof \<Rightarrow> trusted_context \<Rightarrow> (work_meter, verified_control list) stage" where
  "control_statements cdc regs resolved context = (let bundle = dp_bundle (rp_decoded resolved) in
     bind (map_each (control_grant cdc regs context bundle) (rp_grants resolved)) (\<lambda>grants.
     bind (map_each (control_action cdc regs context bundle) (rp_actions resolved)) (\<lambda>actions.
     bind (verify_status_controls cdc regs context bundle) (\<lambda>statuses.
     bind (require (list_all (evidence_consumed bundle) (grants @ actions @ statuses))
         (FailDenied UnusedCriticalEvidence)) (\<lambda>_.
     bind (require (all_evidence_used bundle context) (FailDenied UnusedCriticalEvidence)) (\<lambda>_.
       return (grants @ actions @ statuses)))))))"

definition new_meter :: "u64 \<Rightarrow> work_meter" where
  "new_meter limit = \<lparr> wm_used = 0, wm_limit = limit \<rparr>"

definition verify_principal_control ::
  "codec \<Rightarrow> registries \<Rightarrow> resolved_proof \<Rightarrow> trusted_context \<Rightarrow> control_verified_proof verified" where
  "verify_principal_control cdc regs resolved context =
     (if rg_manifest_id (tc_accepted_registries context) \<noteq> TARGET_V1_REGISTRY_MANIFEST
      then Err (FailDenied RegistryManifestMismatch)
      else if tc_configuration context \<noteq> ir_configuration regs
      then Err (FailDenied VerifierConfigurationMismatch)
      else case control_statements cdc regs resolved context (new_meter (vl_work_units (tc_limits context))) of
        (Inl failure, meter) \<Rightarrow> Err failure
      | (Inr controls, meter) \<Rightarrow>
          Ok \<lparr> cp_resolved = resolved, cp_controls = controls, cp_work_units = wm_used meter \<rparr>)"

definition control_for :: "control_verified_proof \<Rightarrow> statement_ref \<Rightarrow> (principal_id \<times> control_evidence) verified" where
  "control_for controlled statement =
     (case find (\<lambda>control. vc_statement control = statement) (cp_controls controlled) of
        None \<Rightarrow> Err (FailIndeterminate MissingPrincipalEvidence)
      | Some control \<Rightarrow> and_then (vc_result control) (\<lambda>evidence. Ok (vc_principal control, evidence)))"

section \<open>What a control stands for\<close>

definition signature_holds ::
  "registries \<Rightarrow> trusted_context \<Rightarrow> principal_id \<Rightarrow> signature_envelope \<Rightarrow> bytes \<Rightarrow> control_purpose \<Rightarrow> u64 \<Rightarrow> bool" where
  "signature_holds regs context who signature preimage purpose time \<longleftrightarrow> (\<exists>method suite evidence control.
     principal_method_for regs (tc_accepted_registries context) (sd_principal_method (se_descriptor signature)) = Some method
     \<and> signature_suite_for regs (tc_accepted_registries context) (sd_suite (se_descriptor signature)) = Some suite
     \<and> accepts_evidence context evidence
     \<and> me_verify_control method (control_input context who signature preimage purpose time evidence) = Ok control
     \<and> su_verify suite (suite_input control signature preimage) = Ok ())"

definition grant_signed :: "codec \<Rightarrow> registries \<Rightarrow> trusted_context \<Rightarrow> signed_grant \<Rightarrow> bool" where
  "grant_signed cdc regs context grant \<longleftrightarrow> (\<exists>preimage.
     grant_signing_preimage cdc (sg_statement grant) (se_descriptor (sg_signature grant)) = Ok preimage
     \<and> signature_holds regs context (gs_issuer (sg_statement grant)) (sg_signature grant) preimage
         CapabilityDelegation (not_before (gs_validity (sg_statement grant))))"

definition action_signed :: "codec \<Rightarrow> registries \<Rightarrow> trusted_context \<Rightarrow> signed_action \<Rightarrow> bool" where
  "action_signed cdc regs context action \<longleftrightarrow> (\<exists>preimage.
     action_signing_preimage cdc (sa_envelope action) (se_descriptor (sa_signature action)) = Ok preimage
     \<and> signature_holds regs context (ac_actor (sa_envelope action)) (sa_signature action) preimage
         CapabilityInvocation (not_before (ac_validity (sa_envelope action))))"

lemma evaluate_signature_holds:
  assumes "evaluate_signature regs context who signature preimage purpose time evidence meter = (Inr control, meter')"
  shows "signature_holds regs context who signature preimage purpose time"
proof -
  obtain meth suite where
    "principal_method_for regs (tc_accepted_registries context) (sd_principal_method (se_descriptor signature)) = Some meth"
    "signature_suite_for regs (tc_accepted_registries context) (sd_suite (se_descriptor signature)) = Some suite"
    using assms by (auto simp: evaluate_signature_def stage_simps split: option.splits)
  then show ?thesis using assms unfolding signature_holds_def
    by (auto simp: evaluate_signature_def stage_simps)
qed

lemma verify_signed_Inr:
  assumes "verify_signed regs context bundle statement who signature preimage purpose time meter = (Inr control, meter')"
  shows "vc_statement control = statement \<and> vc_principal control = who
    \<and> (\<forall>evidence. vc_result control = Inr evidence \<longrightarrow> signature_holds regs context who signature preimage purpose time)"
proof -
  obtain result mid where run: "evaluate_signature regs context who signature preimage purpose time
      (bound_evidence bundle statement) meter = (result, mid)" by force
  then have "control = \<lparr> vc_statement = statement, vc_principal = who, vc_result = result \<rparr>"
    using assms by (auto simp: verify_signed_def split: if_splits)
  then show ?thesis using evaluate_signature_holds run by auto
qed

lemma control_grant_Inr:
  "control_grant cdc regs context bundle entry meter = (Inr control, meter') \<Longrightarrow>
     vc_statement control = GrantRef (gr_id entry) \<and> vc_principal control = gs_issuer (sg_statement (grant_at bundle entry))
     \<and> (\<forall>evidence. vc_result control = Inr evidence \<longrightarrow> grant_signed cdc regs context (grant_at bundle entry))"
  unfolding control_grant_def Let_def grant_signed_def by (auto simp: stage_simps dest!: verify_signed_Inr)

lemma control_action_Inr:
  "control_action cdc regs context bundle entry meter = (Inr control, meter') \<Longrightarrow>
     vc_statement control = ActionRef (acr_id entry) \<and> vc_principal control = ac_actor (sa_envelope (action_at bundle entry))
     \<and> (\<forall>evidence. vc_result control = Inr evidence \<longrightarrow> action_signed cdc regs context (action_at bundle entry))"
  unfolding control_action_def Let_def action_signed_def by (auto simp: stage_simps dest!: verify_signed_Inr)

lemma control_status_Inr:
  "control_status regs context bundle reference identify preimage_of status meter = (Inr control, meter')
     \<Longrightarrow> \<exists>i. vc_statement control = reference i"
  by (auto simp: control_status_def stage_simps dest!: verify_signed_Inr)

lemma map_each_member:
  assumes "map_each f xs s = (Inr ys, s')" "y \<in> set ys" shows "\<exists>x \<in> set xs. \<exists>t t'. f x t = (Inr y, t')"
proof -
  obtain n where "n < length ys" "y = ys ! n" using assms(2) in_set_conv_nth by metis
  moreover have "length xs = length ys" "\<forall>n < length ys. \<exists>t t'. f (xs ! n) t = (Inr (ys ! n), t')"
    using map_each_Inr [OF assms(1)] by (auto simp: list_all2_conv_all_nth)
  ultimately show ?thesis using nth_mem by metis
qed

lemma verify_status_controls_Inr:
  assumes "verify_status_controls cdc regs context bundle meter = (Inr controls, meter')" "control \<in> set controls"
  shows "\<exists>i. vc_statement control = PrincipalStatusRef i \<or> vc_statement control = GrantStatusRef i"
  using assms by (auto simp: verify_status_controls_def stage_simps dest!: map_each_member control_status_Inr)

lemma control_statements_Inr:
  assumes "control_statements cdc regs resolved context meter = (Inr controls, meter')" "control \<in> set controls"
    and "vc_result control = Inr evidence"
  shows "(\<forall>i. vc_statement control = GrantRef i \<longrightarrow> (\<exists>entry \<in> set (rp_grants resolved). gr_id entry = i
        \<and> vc_principal control = gs_issuer (sg_statement (grant_at (dp_bundle (rp_decoded resolved)) entry))
        \<and> grant_signed cdc regs context (grant_at (dp_bundle (rp_decoded resolved)) entry)))
    \<and> (\<forall>i. vc_statement control = ActionRef i \<longrightarrow> (\<exists>entry \<in> set (rp_actions resolved). acr_id entry = i
        \<and> vc_principal control = ac_actor (sa_envelope (action_at (dp_bundle (rp_decoded resolved)) entry))
        \<and> action_signed cdc regs context (action_at (dp_bundle (rp_decoded resolved)) entry)))"
proof -
  let ?proof = "dp_bundle (rp_decoded resolved)"
  obtain gcs acs scs m1 m2 m3 where
    grants: "map_each (control_grant cdc regs context ?proof) (rp_grants resolved) meter = (Inr gcs, m1)" and
    actions: "map_each (control_action cdc regs context ?proof) (rp_actions resolved) m1 = (Inr acs, m2)" and
    statuses: "verify_status_controls cdc regs context ?proof m2 = (Inr scs, m3)" and
    controls: "controls = gcs @ acs @ scs"
    using assms(1) by (auto simp: control_statements_def Let_def stage_simps)
  consider "control \<in> set gcs" | "control \<in> set acs" | "control \<in> set scs" using assms(2) controls by auto
  then show ?thesis
  proof cases
    case 1
    then obtain entry t t' where "entry \<in> set (rp_grants resolved)"
      and "control_grant cdc regs context ?proof entry t = (Inr control, t')"
      using map_each_member [OF grants] by metis
    then show ?thesis using control_grant_Inr assms(3) by fastforce
  next
    case 2
    then obtain entry t t' where "entry \<in> set (rp_actions resolved)"
      and "control_action cdc regs context ?proof entry t = (Inr control, t')"
      using map_each_member [OF actions] by metis
    then show ?thesis using control_action_Inr assms(3) by fastforce
  next
    case 3
    then show ?thesis using verify_status_controls_Inr [OF statuses] by fastforce
  qed
qed

lemma control_for_Inr:
  assumes "verify_principal_control cdc regs resolved context = Inr controlled"
    and "control_for controlled statement = Inr (who, evidence)"
  shows "(\<forall>i. statement = GrantRef i \<longrightarrow> (\<exists>entry \<in> set (rp_grants resolved). gr_id entry = i
        \<and> who = gs_issuer (sg_statement (grant_at (dp_bundle (rp_decoded resolved)) entry))
        \<and> grant_signed cdc regs context (grant_at (dp_bundle (rp_decoded resolved)) entry)))
    \<and> (\<forall>i. statement = ActionRef i \<longrightarrow> (\<exists>entry \<in> set (rp_actions resolved). acr_id entry = i
        \<and> who = ac_actor (sa_envelope (action_at (dp_bundle (rp_decoded resolved)) entry))
        \<and> action_signed cdc regs context (action_at (dp_bundle (rp_decoded resolved)) entry)))"
proof -
  obtain control where found: "control \<in> set (cp_controls controlled)" "vc_statement control = statement"
    "vc_result control = Inr evidence" "vc_principal control = who"
  proof -
    obtain control where "find (\<lambda>control. vc_statement control = statement) (cp_controls controlled) = Some control"
      and "and_then (vc_result control) (\<lambda>evidence. Ok (vc_principal control, evidence)) = Inr (who, evidence)"
      using assms(2) by (auto simp: control_for_def split: option.splits)
    moreover from this(1) obtain i where "i < length (cp_controls controlled)" "cp_controls controlled ! i = control"
      "vc_statement control = statement"
      unfolding find_Some_iff by (elim exE conjE) auto
    moreover from this have "control \<in> set (cp_controls controlled)" using nth_mem by blast
    ultimately show thesis using that [of control] by (simp add: and_then_Inr_iff)
  qed
  obtain meter where "control_statements cdc regs resolved context (new_meter (vl_work_units (tc_limits context)))
      = (Inr (cp_controls controlled), meter)"
    using assms(1) by (auto simp: verify_principal_control_def split: if_splits prod.splits sum.splits)
  from control_statements_Inr [OF this found(1,3)] show ?thesis using found by blast
qed

section \<open>Work\<close>

lemma metered_evaluate_signature [metered_intros]:
  "metered id (evaluate_signature regs context who signature preimage purpose time evidence)"
  unfolding evaluate_signature_def by (intro metered_intros)

lemma metered_verify_signed [metered_intros]:
  "metered id (verify_signed regs context bundle statement who signature preimage purpose time)"
proof -
  have "snd (verify_signed regs context bundle statement who signature preimage purpose time m)
      = snd (evaluate_signature regs context who signature preimage purpose time (bound_evidence bundle statement) m)" for m
    by (simp add: verify_signed_def split: prod.splits)
  then show ?thesis
    using metered_evaluate_signature [where evidence = "bound_evidence bundle statement"]
    by (simp add: metered_def)
qed

lemma metered_control_statements: "metered id (control_statements cdc regs resolved context)"
  unfolding control_statements_def verify_status_controls_def control_grant_def control_action_def control_status_def
    Let_def by (intro metered_intros)

lemma control_work:
  assumes "verify_principal_control cdc regs resolved context = Inr controlled"
  shows "cp_work_units controlled \<le> vl_work_units (tc_limits context)"
proof -
  let ?start = "new_meter (vl_work_units (tc_limits context))"
  obtain controls meter where run: "control_statements cdc regs resolved context ?start = (Inr controls, meter)"
    and "cp_work_units controlled = wm_used meter"
    using assms by (auto simp: verify_principal_control_def split: if_splits prod.splits sum.splits)
  moreover have "meter_le ?start (snd (control_statements cdc regs resolved context ?start))"
    using metered_control_statements unfolding metered_def by (metis id_apply)
  ultimately show ?thesis by (auto simp: meter_le_def new_meter_def)
qed

end
