(* ===== verification/Assurance.thy ===== *)
theory Assurance
  imports Verifier_Model
begin

text \<open>
  Role-indexed assurance policies, \<open>core/crates/auths-assurance/src/lib.rs\<close>: every requirement of a
  policy is checked against the claims of the participants in its role. A policy is satisfied exactly
  when each requirement has a participant in its role and as many of them as it asks for carry a
  matching claim.
\<close>

section \<open>Evaluation\<close>

type_synonym entailment = "assurance_claim \<Rightarrow> bytes \<Rightarrow> bool"

definition absent_or :: "'a option \<Rightarrow> ('a \<Rightarrow> bool) \<Rightarrow> bool" where
  "absent_or x P = (case x of None \<Rightarrow> True | Some v \<Rightarrow> P v)"

definition claim_matches ::
  "entailment \<Rightarrow> u64 \<Rightarrow> assurance_requirement \<Rightarrow> participant_assurance \<Rightarrow> assurance_claim \<Rightarrow> bool" where
  "claim_matches entails evaluation_time requirement report claim \<longleftrightarrow>
     (cl_kind claim = aq_claim_kind requirement \<or> entails claim (aq_claim_kind requirement))
     \<and> list_all (\<lambda>parameter. parameter \<in> set (cl_parameters claim)) (aq_parameters requirement)
     \<and> absent_or (aq_source requirement) (\<lambda>source. cl_source claim = source)
     \<and> absent_or (aq_adapter requirement) (\<lambda>adapter. pa_adapter report = adapter)
     \<and> absent_or (aq_adapter_version requirement) (\<lambda>version. pa_adapter_version report = version)
     \<and> absent_or (aq_maximum_age requirement) (\<lambda>maximum_age. case cl_observed_at claim of
         None \<Rightarrow> False
       | Some observed_at \<Rightarrow>
           observed_at \<le> evaluation_time \<and> saturating_sub evaluation_time observed_at \<le> maximum_age)"

definition matching_claims ::
  "entailment \<Rightarrow> u64 \<Rightarrow> assurance_requirement \<Rightarrow> participant_assurance \<Rightarrow> assurance_claim list" where
  "matching_claims entails evaluation_time requirement report =
     sort_key claim_key (filter (claim_matches entails evaluation_time requirement report) (pa_claims report))"

text \<open>
  The loop over the participants selected for one requirement, with the count of matches and the
  satisfactions pushed; the left result is the early return for an unmatched participant.
\<close>

fun match_reports ::
  "entailment \<Rightarrow> u64 \<Rightarrow> u16 \<Rightarrow> assurance_requirement \<Rightarrow> usize \<Rightarrow> assurance_satisfaction list
     \<Rightarrow> participant_assurance list \<Rightarrow> (usize \<times> assurance_satisfaction list, requirement) result" where
  "match_reports entails evaluation_time index requirement matched satisfactions [] = Ok (matched, satisfactions)"
| "match_reports entails evaluation_time index requirement matched satisfactions (report # reports) =
     (case matching_claims entails evaluation_time requirement report of
        claim # _ \<Rightarrow>
          (let matched = saturating_add matched 1;
               satisfactions = satisfactions @ [\<lparr> sf_requirement_index = index, sf_principal = pa_principal report,
                 sf_claim = claim, sf_evidence = pa_evidence report \<rparr>] in
           if aq_quantifier requirement = AnyParticipant then Ok (matched, satisfactions)
           else match_reports entails evaluation_time index requirement matched satisfactions reports)
      | [] \<Rightarrow>
          if aq_quantifier requirement = EveryParticipant then Err AssuranceRequirementNotMet
          else match_reports entails evaluation_time index requirement matched satisfactions reports)"

definition match_requirement ::
  "entailment \<Rightarrow> participant_assurance list \<Rightarrow> u64 \<Rightarrow> nat \<Rightarrow> assurance_requirement \<Rightarrow> assurance_satisfaction list
     \<Rightarrow> (assurance_satisfaction list, requirement) result" where
  "match_requirement entails reports evaluation_time index requirement satisfactions =
     (let selected = filter (\<lambda>report. pa_role report = aq_role requirement) reports in
      if selected = [] then Err AssuranceRequirementNotMet
      else if index \<ge> 65536 then Err AssuranceRequirementNotMet
      else let required = (case aq_quantifier requirement of
             AnyParticipant \<Rightarrow> 1 :: usize | EveryParticipant \<Rightarrow> of_nat (length selected)) in
        and_then (match_reports entails evaluation_time (of_nat index) requirement 0 satisfactions selected)
          (\<lambda>(matched, satisfactions).
            if matched < required then Err AssuranceRequirementNotMet else Ok satisfactions))"

fun match_policy ::
  "entailment \<Rightarrow> participant_assurance list \<Rightarrow> u64 \<Rightarrow> nat \<Rightarrow> assurance_requirement list \<Rightarrow> assurance_satisfaction list
     \<Rightarrow> (assurance_satisfaction list, requirement) result" where
  "match_policy entails reports evaluation_time index [] satisfactions = Ok satisfactions"
| "match_policy entails reports evaluation_time index (requirement # requirements) satisfactions =
     and_then (match_requirement entails reports evaluation_time index requirement satisfactions)
       (match_policy entails reports evaluation_time (Suc index) requirements)"

definition satisfaction_key where
  "satisfaction_key s = (sf_requirement_index s, sf_principal s, claim_key (sf_claim s), sf_evidence s)"

definition evaluate_with_implications ::
  "assurance_policy \<Rightarrow> participant_assurance list \<Rightarrow> u64 \<Rightarrow> entailment \<Rightarrow> (assurance_satisfaction list, requirement) result" where
  "evaluate_with_implications policy reports evaluation_time entails =
     and_then (match_policy entails reports evaluation_time 0 (ay_requirements policy) []) (\<lambda>satisfactions.
       Ok (remdups_adj (sort_key satisfaction_key satisfactions)))"

definition evaluate_assurance ::
  "assurance_policy \<Rightarrow> participant_assurance list \<Rightarrow> u64 \<Rightarrow> (assurance_satisfaction list, requirement) result" where
  "evaluate_assurance policy reports evaluation_time =
     evaluate_with_implications policy reports evaluation_time (\<lambda>_ _. False)"

definition grant_issuer_role :: "nat \<Rightarrow> participant_role" where
  "grant_issuer_role chain_index = (if chain_index = 0 then RootRole else IntermediateRole)"

section \<open>What a satisfied policy means\<close>

definition participant_meets :: "entailment \<Rightarrow> u64 \<Rightarrow> assurance_requirement \<Rightarrow> participant_assurance \<Rightarrow> bool" where
  "participant_meets entails now requirement report \<longleftrightarrow>
     (\<exists>claim \<in> set (pa_claims report). claim_matches entails now requirement report claim)"

definition requirement_met :: "entailment \<Rightarrow> participant_assurance list \<Rightarrow> u64 \<Rightarrow> assurance_requirement \<Rightarrow> bool" where
  "requirement_met entails reports now requirement \<longleftrightarrow>
     (let selected = {report \<in> set reports. pa_role report = aq_role requirement} in
      selected \<noteq> {} \<and> (case aq_quantifier requirement of
        AnyParticipant \<Rightarrow> \<exists>report \<in> selected. participant_meets entails now requirement report
      | EveryParticipant \<Rightarrow> \<forall>report \<in> selected. participant_meets entails now requirement report))"

lemma matching_claims_Nil_iff:
  "matching_claims entails now requirement report = [] \<longleftrightarrow> \<not> participant_meets entails now requirement report"
  by (auto simp: matching_claims_def participant_meets_def filter_empty_conv
      simp flip: length_0_conv [of "sort_key _ _"])

lemma match_reports_any:
  assumes "aq_quantifier requirement = AnyParticipant" "matched = 0"
  shows "\<exists>m s. match_reports entails now index requirement matched sats reports = Inr (m, s)
    \<and> (m = (if \<exists>r \<in> set reports. participant_meets entails now requirement r then 1 else 0))"
  using assms
proof (induction reports)
  case (Cons r reports)
  show ?case
  proof (cases "matching_claims entails now requirement r")
    case Nil
    then show ?thesis using Cons matching_claims_Nil_iff [of entails now requirement r] by simp
  next
    case (Cons claim claims)
    then show ?thesis using assms matching_claims_Nil_iff [of entails now requirement r]
      by (simp add: saturating_add_def)
  qed
qed simp

lemma match_reports_every:
  assumes "aq_quantifier requirement = EveryParticipant"
    and "unat matched + length reports < 2 ^ 64"
  shows "if \<forall>r \<in> set reports. participant_meets entails now requirement r
    then \<exists>s. match_reports entails now index requirement matched sats reports = Inr (matched + of_nat (length reports), s)
    else match_reports entails now index requirement matched sats reports = Inl AssuranceRequirementNotMet"
  using assms(2)
proof (induction reports arbitrary: matched sats)
  case (Cons r reports)
  have fits: "unat matched + 1 < 2 ^ 64" using Cons.prems by simp
  then have step: "saturating_add matched 1 = matched + 1"
    unfolding saturating_add_def uint_fits_iff unat_1 by simp
  have "unat (matched + 1) = unat matched + 1" using fits by (simp add: unat_word_ariths)
  have IH: "if \<forall>r \<in> set reports. participant_meets entails now requirement r
      then \<exists>s. match_reports entails now index requirement (matched + 1) sats' reports
        = Inr (matched + of_nat (length (r # reports)), s)
      else match_reports entails now index requirement (matched + 1) sats' reports = Inl AssuranceRequirementNotMet" for sats'
  proof -
    have count: "matched + of_nat (length (r # reports)) = matched + 1 + of_nat (length reports)" by (simp add: add.assoc)
    have "unat (matched + 1) + length reports < 2 ^ 64"
      using Cons.prems \<open>unat (matched + 1) = unat matched + 1\<close> by simp
    from Cons.IH [OF this, of sats'] show ?thesis unfolding count .
  qed
  show ?case
  proof (cases "matching_claims entails now requirement r")
    case Nil
    then show ?thesis using matching_claims_Nil_iff [of entails now requirement r] assms(1) by simp
  next
    case (Cons claim claims)
    then have "match_reports entails now index requirement matched sats (r # reports) =
        match_reports entails now index requirement (matched + 1) (sats @ [\<lparr> sf_requirement_index = index,
          sf_principal = pa_principal r, sf_claim = claim, sf_evidence = pa_evidence r \<rparr>]) reports"
      using assms(1) step by (simp add: Let_def)
    moreover have "(\<forall>q \<in> set (r # reports). participant_meets entails now requirement q)
        \<longleftrightarrow> (\<forall>q \<in> set reports. participant_meets entails now requirement q)"
      using Cons matching_claims_Nil_iff [of entails now requirement r] by simp
    ultimately show ?thesis using IH by (simp only:)
  qed
qed simp

lemma match_requirement_iff:
  assumes "index < 65536" "length reports < 2 ^ 64"
  shows "(\<exists>s. match_requirement entails reports now index requirement sats = Inr s)
    \<longleftrightarrow> requirement_met entails reports now requirement"
proof -
  define selected where "selected = filter (\<lambda>report. pa_role report = aq_role requirement) reports"
  have set: "{report \<in> set reports. pa_role report = aq_role requirement} = set selected"
    by (auto simp: selected_def)
  have len: "length selected < 2 ^ 64" using assms(2) length_filter_le [of _ reports] unfolding selected_def
    by (meson order_le_less_trans)
  have unfolded: "match_requirement entails reports now index requirement sats =
      (if selected = [] then Err AssuranceRequirementNotMet
       else and_then (match_reports entails now (of_nat index) requirement 0 sats selected) (\<lambda>(matched, satisfactions).
         if matched < (case aq_quantifier requirement of AnyParticipant \<Rightarrow> 1 | EveryParticipant \<Rightarrow> of_nat (length selected))
         then Err AssuranceRequirementNotMet else Ok satisfactions))"
    using assms(1) unfolding match_requirement_def selected_def [symmetric] Let_def by simp
  show ?thesis
  proof (cases "aq_quantifier requirement")
    case AnyParticipant
    obtain m s where "match_reports entails now (of_nat index) requirement 0 sats selected = Inr (m, s)"
      and "m = (if \<exists>r \<in> set selected. participant_meets entails now requirement r then 1 else 0)"
      using match_reports_any [OF AnyParticipant refl] by blast
    then show ?thesis unfolding unfolded requirement_met_def set Let_def using AnyParticipant
      by (cases "\<exists>r \<in> set selected. participant_meets entails now requirement r") auto
  next
    case EveryParticipant
    note reports = match_reports_every [OF EveryParticipant, of 0 selected entails now "of_nat index" sats]
    show ?thesis
    proof (cases "\<forall>r \<in> set selected. participant_meets entails now requirement r")
      case True
      then obtain s where "match_reports entails now (of_nat index) requirement 0 sats selected
          = Inr (of_nat (length selected), s)"
        using reports len by auto
      then show ?thesis unfolding unfolded requirement_met_def set Let_def using EveryParticipant True by auto
    next
      case False
      then have "match_reports entails now (of_nat index) requirement 0 sats selected = Inl AssuranceRequirementNotMet"
        using reports len by (simp split: if_splits)
      then show ?thesis unfolding unfolded requirement_met_def set Let_def using EveryParticipant False by auto
    qed
  qed
qed

text \<open>
  A policy evaluates exactly when each of its requirements is met, whatever the implications.
\<close>

lemma assurance_policy_met_iff:
  assumes "length (ay_requirements policy) \<le> 65536" "length reports < 2 ^ 64"
  shows "(\<exists>s. evaluate_with_implications policy reports now entails = Ok s) \<longleftrightarrow>
    (\<forall>requirement \<in> set (ay_requirements policy). requirement_met entails reports now requirement)"
proof -
  have "(\<exists>s. match_policy entails reports now index requirements sats = Inr s)
      \<longleftrightarrow> (\<forall>requirement \<in> set requirements. requirement_met entails reports now requirement)"
    if "index + length requirements \<le> 65536" for index requirements sats
    using that
  proof (induction requirements arbitrary: index sats)
    case (Cons r requirements)
    have "(\<exists>s. match_policy entails reports now index (r # requirements) sats = Inr s) \<longleftrightarrow>
        (\<exists>t. match_requirement entails reports now index r sats = Inr t
          \<and> (\<exists>s. match_policy entails reports now (Suc index) requirements t = Inr s))"
      by (auto simp: and_then_Inr_iff)
    also have "\<dots> \<longleftrightarrow> (\<exists>t. match_requirement entails reports now index r sats = Inr t)
        \<and> (\<forall>requirement \<in> set requirements. requirement_met entails reports now requirement)"
      using Cons.IH [of "Suc index"] Cons.prems by simp
    finally show ?case using match_requirement_iff [of index reports entails now r sats] assms(2) Cons.prems by simp
  qed simp
  from this [of 0 "ay_requirements policy" "[]"] show ?thesis
    using assms(1) by (auto simp: evaluate_with_implications_def and_then_Inr_iff)
qed

end
