(* ===== verification/Verifier_Stages.thy ===== *)
theory Verifier_Stages
  imports Verifier_Control Assurance
begin

text \<open>
  The checks of the fourth stage of \<open>core/crates/auths-verifier/src/lib.rs\<close> that read a proof, the
  context and the registries and charge the work meter: extensions, attachments, the binding of every
  action to the request, principal and grant status, resource and budget constraints, and assurance.
  Each is followed by what its success says.
\<close>

section \<open>Extensions and attachments\<close>

definition demand :: "'a option \<Rightarrow> verification_failure \<Rightarrow> ('s, 'a) stage" where
  "demand x failure = (case x of None \<Rightarrow> fail failure | Some v \<Rightarrow> return v)"

lemma demand_Inr_iff [stage_simps]: "demand x e s = (Inr v, s') \<longleftrightarrow> x = Some v \<and> s' = s"
  by (auto simp: demand_def stage_simps split: option.splits)

lemma metered_demand [metered_intros, simp]: "metered meter_of (demand x e)"
  by (simp add: demand_def split: option.splits)

definition evaluate_extensions ::
  "registries \<Rightarrow> trusted_context \<Rightarrow> critical_extension list \<Rightarrow> (work_meter, unit) stage" where
  "evaluate_extensions regs context extensions = for_each (\<lambda>extension.
     bind (require (ce_id extension \<in> set (rg_critical_extensions (tc_accepted_registries context)))
       (FailDenied CriticalExtensionUnknown)) (\<lambda>_.
     bind (demand (extension_handler_for regs (tc_accepted_registries context) (ce_id extension))
       (FailIndeterminate UnsupportedCriticalExtension)) (\<lambda>handler.
     bind (reserve (eh_maximum_work_units handler extension)) (\<lambda>_.
       from_result (with_operation (eh_evaluate handler extension)))))) extensions"

definition OBSERVATION_MEDIA_TYPE :: bytes where "OBSERVATION_MEDIA_TYPE = ascii ''application/vnd.auths.observation.v1+cbor''"
definition MAX_OBSERVATION_ATTACHMENTS :: nat where "MAX_OBSERVATION_ATTACHMENTS = 32"
definition MAX_OBSERVATION_BYTES :: u64 where "MAX_OBSERVATION_BYTES = 4096"

text \<open>The loop with its count; a \<open>u64\<close> length always converts to \<open>usize\<close> at this width.\<close>

fun observation_attachments_from :: "nat \<Rightarrow> attachment_descriptor list \<Rightarrow> unit verified" where
  "observation_attachments_from seen [] = Ok ()"
| "observation_attachments_from seen (descriptor # descriptors) =
     (if ad_media_type descriptor \<noteq> OBSERVATION_MEDIA_TYPE then observation_attachments_from seen descriptors
      else if Suc seen > MAX_OBSERVATION_ATTACHMENTS \<or> ad_byte_length descriptor > MAX_OBSERVATION_BYTES
        then Err (FailDenied ResourceLimitExceeded)
      else observation_attachments_from (Suc seen) descriptors)"

definition validate_observation_attachments :: "signed_action \<Rightarrow> unit verified" where
  "validate_observation_attachments action = observation_attachments_from 0 (ac_attachments (sa_envelope action))"

fun total_bytes :: "usize \<Rightarrow> detached_attachment list \<Rightarrow> usize option" where
  "total_bytes acc [] = Some acc"
| "total_bytes acc (attachment # attachments) =
     (case checked_add acc (size_of (da_bytes attachment)) of
        None \<Rightarrow> None | Some acc' \<Rightarrow> total_bytes acc' attachments)"

definition check_descriptor :: "codec \<Rightarrow> canonical_action \<Rightarrow> attachment_descriptor \<Rightarrow> unit verified" where
  "check_descriptor cdc canonical descriptor =
     (case find (\<lambda>attachment. da_digest attachment = ad_digest descriptor) (cn_detached_attachments canonical) of
        None \<Rightarrow> if ad_presence descriptor = Required then Err (FailDenied AttachmentMissing) else Ok ()
      | Some detached \<Rightarrow>
          if size_of (da_bytes detached) \<noteq> ad_byte_length descriptor
            then Err (FailDenied AttachmentLengthMismatch)
          else if attachment_digest cdc (da_bytes detached) \<noteq> ad_digest descriptor
            then Err (FailDenied AttachmentDigestMismatch)
          else if ad_confidentiality descriptor = Encrypted \<and> ad_opacity descriptor = MustBeInspectable
            then Err (FailDenied OpaqueAttachmentNotAllowed)
          else Ok ())"

fun first_action_attachments :: "signed_action list \<Rightarrow> attachment_descriptor list" where
  "first_action_attachments [] = []"
| "first_action_attachments (action # _) = ac_attachments (sa_envelope action)"

definition validate_attachments :: "codec \<Rightarrow> proof_bundle \<Rightarrow> canonical_action \<Rightarrow> trusted_context \<Rightarrow> unit verified" where
  "validate_attachments cdc bundle canonical context =
     (let descriptors = first_action_attachments (pb_actions bundle);
          detached = cn_detached_attachments canonical in
      and_then (ensure (descriptors = pb_attachments bundle) UnusedCriticalAttachment) (\<lambda>_.
      and_then (ensure (\<not> (adjacent_equal (map ad_digest descriptors) \<or> adjacent_equal (map da_digest detached)))
        DuplicateAttachment) (\<lambda>_.
      and_then (case total_bytes 0 detached of
          None \<Rightarrow> Err (FailDenied ResourceLimitExceeded)
        | Some acc \<Rightarrow> ensure (acc \<le> vl_attachment_bytes (tc_limits context)) ResourceLimitExceeded) (\<lambda>_.
      and_then (collect (check_descriptor cdc canonical) descriptors) (\<lambda>_.
        ensure (\<not> list_ex (\<lambda>attachment. \<not> list_ex (\<lambda>descriptor. ad_digest descriptor = da_digest attachment) descriptors)
          detached) UnusedCriticalAttachment)))))"

definition same_shared_action :: "envelope \<Rightarrow> envelope \<Rightarrow> bool" where
  "same_shared_action left right \<longleftrightarrow>
     ac_profile left = ac_profile right \<and> ac_body_media_type left = ac_body_media_type right
     \<and> ac_canonical_body_digest left = ac_canonical_body_digest right
     \<and> ac_permission left = ac_permission right \<and> ac_requested_budget left = ac_requested_budget right
     \<and> ac_audience left = ac_audience right \<and> ac_challenge left = ac_challenge right
     \<and> ac_validity left = ac_validity right \<and> ac_authorization_plan left = ac_authorization_plan right
     \<and> ac_channel_binding left = ac_channel_binding right \<and> ac_attachments left = ac_attachments right
     \<and> ac_extensions left = ac_extensions right"

section \<open>The binding of the actions to the request\<close>

text \<open>The conditions on one action, in the order of the code, before its extensions are evaluated.\<close>

definition check_action :: "codec \<Rightarrow> canonical_action \<Rightarrow> trusted_context \<Rightarrow> envelope \<Rightarrow> envelope \<Rightarrow> unit verified" where
  "check_action cdc canonical context first action =
     (if ac_profile action \<noteq> cn_profile canonical \<or> ac_body_media_type action \<noteq> cn_media_type canonical
         \<or> ac_canonical_body_digest action \<noteq> body_digest cdc (cn_body canonical)
         \<or> ac_permission action \<noteq> cn_permission canonical
         \<or> ac_requested_budget action \<noteq> cn_requested_budget canonical
        then Err (FailDenied ActionBodyMismatch)
      else if ac_profile action \<notin> set (rg_profiles (tc_accepted_registries context))
        then Err (FailIndeterminate UnsupportedProfile)
      else if ac_audience action \<noteq> tc_expected_audience context then Err (FailDenied AudienceMismatch)
      else if ac_challenge action \<noteq> tc_expected_challenge context then Err (FailDenied ChallengeMismatch)
      else if \<not> window_contains_time (ac_validity action) (tc_evaluation_time context)
        then Err (FailDenied ActionOutsideValidity)
      else if ac_channel_binding action \<noteq> tc_channel_policy context then Err (FailDenied LocalPolicyDenied)
      else if \<not> same_shared_action first action then Err (FailDenied PlanActionMismatch)
      else Ok ())"

definition validate_action_binding ::
  "codec \<Rightarrow> registries \<Rightarrow> trusted_context \<Rightarrow> control_verified_proof \<Rightarrow> canonical_action \<Rightarrow> (work_meter, unit) stage" where
  "validate_action_binding cdc regs context controlled canonical =
     (let bundle = dp_bundle (rp_decoded (cp_resolved controlled)) in
      bind (require (case pb_canonical_body bundle of None \<Rightarrow> True | Some body \<Rightarrow> body = cn_body canonical)
        (FailDenied ActionBodyMismatch)) (\<lambda>_.
      bind (demand (case pb_actions bundle of [] \<Rightarrow> None | entry # _ \<Rightarrow> Some (sa_envelope entry))
        (FailDenied AuthorizationPlanInvalid)) (\<lambda>first.
      bind (for_each (\<lambda>entry.
          bind (from_result (check_action cdc canonical context first (sa_envelope entry))) (\<lambda>_.
          bind (evaluate_extensions regs context (ac_extensions (sa_envelope entry))) (\<lambda>_.
            from_result (validate_observation_attachments entry)))) (pb_actions bundle)) (\<lambda>_.
      bind (from_result (validate_attachments cdc bundle canonical context)) (\<lambda>_.
      bind (demand (profile_policy_for regs (tc_accepted_registries context) (tc_profile_policy context))
        (FailIndeterminate UnsupportedProfilePolicy)) (\<lambda>policy.
      bind (reserve (pp_maximum_work_units policy canonical)) (\<lambda>_.
      bind (from_result (with_operation (pp_evaluate policy canonical))) (\<lambda>decision.
        case decision of
          ProfileAccept \<Rightarrow> return ()
        | ProfileDeny \<Rightarrow> fail (FailDenied LocalPolicyDenied)))))))))"

definition bound_to_request :: "codec \<Rightarrow> canonical_action \<Rightarrow> trusted_context \<Rightarrow> envelope \<Rightarrow> bool" where
  "bound_to_request cdc canonical context action \<longleftrightarrow>
     ac_profile action = cn_profile canonical \<and> ac_body_media_type action = cn_media_type canonical
     \<and> ac_canonical_body_digest action = body_digest cdc (cn_body canonical)
     \<and> ac_permission action = cn_permission canonical \<and> ac_requested_budget action = cn_requested_budget canonical
     \<and> ac_profile action \<in> set (rg_profiles (tc_accepted_registries context))
     \<and> ac_audience action = tc_expected_audience context \<and> ac_challenge action = tc_expected_challenge context
     \<and> window_contains_time (ac_validity action) (tc_evaluation_time context)
     \<and> ac_channel_binding action = tc_channel_policy context"

lemma check_action_Inr_iff:
  "check_action cdc canonical context first action = Inr u \<longleftrightarrow>
     bound_to_request cdc canonical context action \<and> same_shared_action first action"
  by (simp add: check_action_def bound_to_request_def) blast

lemma validate_action_binding_Inr:
  assumes "validate_action_binding cdc regs context controlled canonical meter = (Inr u, meter')"
    and "entry \<in> set (pb_actions (dp_bundle (rp_decoded (cp_resolved controlled))))"
  shows "bound_to_request cdc canonical context (sa_envelope entry)"
proof -
  let ?proof = "dp_bundle (rp_decoded (cp_resolved controlled))"
  obtain first m m' where "for_each (\<lambda>entry.
          bind (from_result (check_action cdc canonical context first (sa_envelope entry))) (\<lambda>_.
          bind (evaluate_extensions regs context (ac_extensions (sa_envelope entry))) (\<lambda>_.
            from_result (validate_observation_attachments entry)))) (pb_actions ?proof) m = (Inr (), m')"
    using assms(1) unfolding validate_action_binding_def Let_def by (auto simp: stage_simps)
  from for_each_Inr_iff [OF this assms(2)] show ?thesis by (auto simp: stage_simps check_action_Inr_iff)
qed

lemma metered_evaluate_extensions [metered_intros]: "metered id (evaluate_extensions regs context extensions)"
  unfolding evaluate_extensions_def by (intro metered_intros)

lemma metered_profile_decision [metered_intros]:
  "metered meter_of a \<Longrightarrow> metered meter_of b \<Longrightarrow>
     metered meter_of (case decision of ProfileAccept \<Rightarrow> a | ProfileDeny \<Rightarrow> b)"
  by (simp split: profile_decision.splits)

lemma metered_validate_action_binding [metered_intros]:
  "metered id (validate_action_binding cdc regs context controlled canonical)"
  unfolding validate_action_binding_def Let_def by (intro metered_intros)

section \<open>Status\<close>

datatype status_listing = ListingRequired | RevocationList

definition check_status_extensions :: "trusted_context \<Rightarrow> critical_extension list \<Rightarrow> unit verified" where
  "check_status_extensions context extensions = (case extensions of
     [] \<Rightarrow> Ok ()
   | extension # _ \<Rightarrow>
       if ce_id extension \<notin> set (rg_critical_extensions (tc_accepted_registries context))
       then Err (FailDenied CriticalExtensionUnknown)
       else Err (FailIndeterminate UnsupportedCriticalExtension))"

text \<open>The loop over the statements about a subject that are in scope, shared by the two checks.\<close>

definition in_scope_statements :: "status_snapshot \<Rightarrow> bytes \<Rightarrow> trust_anchor \<Rightarrow> signed_status list" where
  "in_scope_statements snapshot subject anchor = filter (\<lambda>status. ss_subject (st_statement status) = subject
     \<and> status_issuer_in_scope (sn_trust snapshot) (ss_issuer (st_statement status)) anchor) (sn_statements snapshot)"

definition check_status_statement ::
  "(status_statement \<Rightarrow> (digest, codec_error) result) \<Rightarrow> (digest \<Rightarrow> statement_ref) \<Rightarrow> control_verified_proof
     \<Rightarrow> trusted_context \<Rightarrow> signed_status \<Rightarrow> unit verified" where
  "check_status_statement identify reference controlled context status =
     and_then (with_codec (identify (st_statement status))) (\<lambda>i.
     and_then (control_for controlled (reference i)) (\<lambda>_.
       check_status_extensions context (ss_extensions (st_statement status))))"

definition decide_status :: "status_decision \<Rightarrow> bool \<Rightarrow> unit verified" where
  "decide_status decision for_principal = (case decision of
     StatusActive \<Rightarrow> Ok ()
   | StatusRevoked \<Rightarrow> Err (FailDenied (if for_principal then PrincipalRevoked else GrantRevoked))
   | StatusMissing \<Rightarrow> Err (FailIndeterminate (if for_principal then MissingPrincipalStatus else MissingGrantStatus))
   | StatusStale \<Rightarrow> Err (FailIndeterminate StaleStatus)
   | StatusRollback \<Rightarrow> Err (FailDenied StatusSequenceRollback)
   | StatusUntrustedIssuer \<Rightarrow> Err (FailDenied StatusIssuerUntrusted)
   | StatusWrongMethod \<Rightarrow> Err (FailDenied StatusMethodMismatch))"

definition check_principal_status ::
  "codec \<Rightarrow> registries \<Rightarrow> trusted_context \<Rightarrow> control_verified_proof \<Rightarrow> status_policy \<Rightarrow> principal_id \<Rightarrow> status_listing
     \<Rightarrow> trust_anchor \<Rightarrow> (work_meter, unit) stage" where
  "check_principal_status cdc regs context controlled policy who listing anchor = (case policy of
     ExpiryOnly \<Rightarrow> return ()
   | SnapshotRequired m _ \<Rightarrow> (let snapshot = tc_principal_status_snapshot context in
       bind (demand (status_method_for regs (tc_accepted_registries context) m True)
         (FailIndeterminate UnsupportedStatusMethod)) (\<lambda>implementation.
       bind (for_each (\<lambda>status. from_result
           (check_status_statement (principal_status_id_of cdc) PrincipalStatusRef controlled context status))
         (in_scope_statements snapshot who anchor)) (\<lambda>_.
       bind (reserve (sm_maximum_work_units implementation (size_of (sn_statements snapshot)))) (\<lambda>_.
       bind (from_result (with_operation (sm_principal implementation policy snapshot who (AnchorView anchor)
         (tc_evaluation_time context)))) (\<lambda>decision.
         if listing = RevocationList \<and> decision = StatusMissing then return ()
         else from_result (decide_status decision True)))))))"

definition check_grant_status ::
  "codec \<Rightarrow> registries \<Rightarrow> trusted_context \<Rightarrow> control_verified_proof \<Rightarrow> status_policy \<Rightarrow> grant_id
     \<Rightarrow> trust_anchor \<Rightarrow> (work_meter, unit) stage" where
  "check_grant_status cdc regs context controlled policy i anchor = (case policy of
     ExpiryOnly \<Rightarrow> return ()
   | SnapshotRequired m _ \<Rightarrow> (let snapshot = tc_grant_status_snapshot context in
       bind (demand (status_method_for regs (tc_accepted_registries context) m False)
         (FailIndeterminate UnsupportedStatusMethod)) (\<lambda>implementation.
       bind (for_each (\<lambda>status. from_result
           (check_status_statement (grant_status_id_of cdc) GrantStatusRef controlled context status))
         (in_scope_statements snapshot i anchor)) (\<lambda>_.
       bind (reserve (sm_maximum_work_units implementation (size_of (sn_statements snapshot)))) (\<lambda>_.
       bind (from_result (with_operation (sm_grant implementation policy snapshot i (AnchorView anchor)
         (tc_evaluation_time context)))) (\<lambda>decision.
         from_result (decide_status decision False)))))))"

text \<open>
  What the two checks establish: the demanded status method is registered and answers that the subject
  is active; for a delegate, which the snapshot need not list, an absent statement counts as active.
\<close>

definition principal_in_force ::
  "registries \<Rightarrow> trusted_context \<Rightarrow> status_policy \<Rightarrow> principal_id \<Rightarrow> status_listing \<Rightarrow> trust_anchor \<Rightarrow> bool" where
  "principal_in_force regs context policy who listing anchor = (case policy of
     ExpiryOnly \<Rightarrow> True
   | SnapshotRequired m _ \<Rightarrow> (\<exists>implementation decision.
       status_method_for regs (tc_accepted_registries context) m True = Some implementation
       \<and> sm_principal implementation policy (tc_principal_status_snapshot context) who (AnchorView anchor)
           (tc_evaluation_time context) = Ok decision
       \<and> (decision = StatusActive \<or> listing = RevocationList \<and> decision = StatusMissing)))"

definition grant_in_force ::
  "registries \<Rightarrow> trusted_context \<Rightarrow> status_policy \<Rightarrow> grant_id \<Rightarrow> trust_anchor \<Rightarrow> bool" where
  "grant_in_force regs context policy i anchor = (case policy of
     ExpiryOnly \<Rightarrow> True
   | SnapshotRequired m _ \<Rightarrow> (\<exists>implementation.
       status_method_for regs (tc_accepted_registries context) m False = Some implementation
       \<and> sm_grant implementation policy (tc_grant_status_snapshot context) i (AnchorView anchor)
           (tc_evaluation_time context) = Ok StatusActive))"

lemma decide_status_Inr_iff [simp]: "decide_status decision p = Inr u \<longleftrightarrow> decision = StatusActive"
  by (simp add: decide_status_def split: status_decision.splits)

lemma check_principal_status_Inr:
  "check_principal_status cdc regs context controlled policy who listing anchor meter = (Inr u, meter')
     \<Longrightarrow> principal_in_force regs context policy who listing anchor"
  by (cases policy) (auto simp: check_principal_status_def principal_in_force_def Let_def stage_simps split: if_splits)

lemma check_grant_status_Inr:
  "check_grant_status cdc regs context controlled policy i anchor meter = (Inr u, meter')
     \<Longrightarrow> grant_in_force regs context policy i anchor"
  by (cases policy) (auto simp: check_grant_status_def grant_in_force_def Let_def stage_simps)

lemma metered_status_policy [metered_intros]:
  "metered meter_of a \<Longrightarrow> (\<And>m age. metered meter_of (b m age)) \<Longrightarrow>
     metered meter_of (case policy of ExpiryOnly \<Rightarrow> a | SnapshotRequired m age \<Rightarrow> b m age)"
  by (simp split: status_policy.splits)

lemma metered_check_status [metered_intros]:
  "metered id (check_principal_status cdc regs context controlled policy who listing anchor)"
  "metered id (check_grant_status cdc regs context controlled policy i anchor)"
  unfolding check_principal_status_def check_grant_status_def Let_def by (intro metered_intros)+

section \<open>Resources and budgets\<close>

text \<open>Every namespace is matched and charged, also after one has allowed the resource.\<close>

fun namespaces_allow :: "resource_matcher \<Rightarrow> resource_id \<Rightarrow> bool \<Rightarrow> resource_id list \<Rightarrow> (work_meter, bool) stage" where
  "namespaces_allow matcher resource allowed [] = return allowed"
| "namespaces_allow matcher resource allowed (namespace # namespaces) =
     bind (reserve (rm_maximum_work_units matcher namespace resource)) (\<lambda>_.
     bind (from_result (with_operation (rm_matches matcher namespace resource))) (\<lambda>matched.
       namespaces_allow matcher resource (allowed \<or> matched) namespaces))"

definition validate_resource_constraints ::
  "registries \<Rightarrow> trusted_context \<Rightarrow> trust_anchor \<Rightarrow> signed_grant list \<Rightarrow> signed_action \<Rightarrow> (work_meter, unit) stage" where
  "validate_resource_constraints regs context anchor grants action =
     bind (demand (resource_matcher_for regs (tc_accepted_registries context) (tc_resource_matcher context))
       (FailIndeterminate UnsupportedResourceMatcher)) (\<lambda>matcher.
     for_each (\<lambda>resource.
       bind (namespaces_allow matcher resource False (ta_resource_namespaces anchor)) (\<lambda>allowed.
         require allowed (FailDenied ResourceNamespaceMismatch)))
       (map pm_resource (concat (map (\<lambda>grant. gs_permissions (sg_statement grant)) grants))
         @ [pm_resource (ac_permission (sa_envelope action))]))"

fun budget_ceilings ::
  "registries \<Rightarrow> trusted_context \<Rightarrow> budget_ceiling option \<Rightarrow> signed_grant list
     \<Rightarrow> (work_meter, budget_ceiling option) stage" where
  "budget_ceilings regs context parent [] = return parent"
| "budget_ceilings regs context parent (grant # grants) =
     (let child = gs_budget_ceiling (sg_statement grant) in
      bind (case parent of
          None \<Rightarrow> return ()
        | Some parent_budget \<Rightarrow>
            bind (demand child (FailDenied DelegationExpanded)) (\<lambda>child_budget.
            bind (demand (budget_algebra_for regs (tc_accepted_registries context) (bc_algebra parent_budget))
              (FailIndeterminate UnsupportedBudgetAlgebra)) (\<lambda>algebra.
            bind (reserve (ba_maximum_work_units algebra)) (\<lambda>_.
            bind (from_result (with_operation (ba_attenuates algebra child_budget parent_budget))) (\<lambda>attenuates.
              require attenuates (FailDenied DelegationExpanded))))))
        (\<lambda>_. budget_ceilings regs context child grants))"

definition validate_budget_constraints ::
  "registries \<Rightarrow> trusted_context \<Rightarrow> trust_anchor \<Rightarrow> signed_grant list \<Rightarrow> signed_action \<Rightarrow> (work_meter, unit) stage" where
  "validate_budget_constraints regs context anchor grants action =
     bind (budget_ceilings regs context (ta_budget_ceiling anchor) grants) (\<lambda>parent. case parent of
       None \<Rightarrow> return ()
     | Some ceiling \<Rightarrow> (case ac_requested_budget (sa_envelope action) of
         None \<Rightarrow>
           (case resolve_budget_expression (rg_budget_free_profiles (tc_accepted_registries context))
                   (ac_profile (sa_envelope action)) of
              Inexpressible \<Rightarrow> return ()
            | Expressible \<Rightarrow> fail (FailDenied BudgetCeilingExceeded))
       | Some requested \<Rightarrow>
           bind (demand (budget_algebra_for regs (tc_accepted_registries context) (bc_algebra ceiling))
             (FailIndeterminate UnsupportedBudgetAlgebra)) (\<lambda>algebra.
           bind (reserve (ba_maximum_work_units algebra)) (\<lambda>_.
           bind (from_result (with_operation (ba_covers algebra ceiling requested))) (\<lambda>within.
             require within (FailDenied BudgetCeilingExceeded))))))"

lemma namespaces_allow_Inr:
  "namespaces_allow matcher resource allowed namespaces meter = (Inr True, meter')
     \<Longrightarrow> allowed \<or> (\<exists>namespace \<in> set namespaces. rm_matches matcher namespace resource = Ok True)"
  by (induction matcher resource allowed namespaces arbitrary: meter rule: namespaces_allow.induct)
    (auto simp: stage_simps)

definition resource_allowed :: "registries \<Rightarrow> trusted_context \<Rightarrow> trust_anchor \<Rightarrow> resource_id \<Rightarrow> bool" where
  "resource_allowed regs context anchor resource \<longleftrightarrow> (\<exists>matcher.
     resource_matcher_for regs (tc_accepted_registries context) (tc_resource_matcher context) = Some matcher
     \<and> (\<exists>namespace \<in> set (ta_resource_namespaces anchor). rm_matches matcher namespace resource = Ok True))"

lemma validate_resource_constraints_Inr:
  assumes "validate_resource_constraints regs context anchor grants action meter = (Inr u, meter')"
  shows "resource_allowed regs context anchor (pm_resource (ac_permission (sa_envelope action)))"
    and "grant \<in> set grants \<Longrightarrow> permission \<in> set (gs_permissions (sg_statement grant))
      \<Longrightarrow> resource_allowed regs context anchor (pm_resource permission)"
proof -
  have "resource_allowed regs context anchor resource"
    if "resource \<in> set (map pm_resource (concat (map (\<lambda>grant. gs_permissions (sg_statement grant)) grants))
         @ [pm_resource (ac_permission (sa_envelope action))])" for resource
  proof -
    obtain matcher m where found: "resource_matcher_for regs (tc_accepted_registries context) (tc_resource_matcher context) = Some matcher"
      and run: "for_each (\<lambda>resource. bind (namespaces_allow matcher resource False (ta_resource_namespaces anchor)) (\<lambda>allowed.
         require allowed (FailDenied ResourceNamespaceMismatch)))
       (map pm_resource (concat (map (\<lambda>grant. gs_permissions (sg_statement grant)) grants))
         @ [pm_resource (ac_permission (sa_envelope action))]) meter = (Inr (), m)"
      using assms unfolding validate_resource_constraints_def by (auto simp: stage_simps)
    from for_each_Inr_iff [OF run that] show ?thesis using found
      by (auto simp: stage_simps resource_allowed_def dest!: namespaces_allow_Inr)
  qed
  note allowed = this
  show "resource_allowed regs context anchor (pm_resource (ac_permission (sa_envelope action)))"
    by (rule allowed) simp
  show "resource_allowed regs context anchor (pm_resource permission)"
    if "grant \<in> set grants" "permission \<in> set (gs_permissions (sg_statement grant))"
    by (rule allowed) (use that in auto)
qed

lemma metered_namespaces_allow [metered_intros]: "metered id (namespaces_allow matcher resource allowed namespaces)"
proof (induction namespaces arbitrary: allowed)
  case (Cons namespace namespaces)
  show ?case unfolding namespaces_allow.simps by (intro metered_intros Cons.IH)
qed simp

lemma metered_budget_ceilings [metered_intros]: "metered id (budget_ceilings regs context parent grants)"
proof (induction grants arbitrary: parent)
  case (Cons grant grants)
  show ?case unfolding budget_ceilings.simps Let_def by (intro metered_intros Cons.IH)
qed simp

lemma metered_expression [metered_intros]:
  "metered meter_of a \<Longrightarrow> metered meter_of b \<Longrightarrow>
     metered meter_of (case expression of Inexpressible \<Rightarrow> a | Expressible \<Rightarrow> b)"
  by (simp split: profile_budget_expression.splits)

lemma metered_constraints [metered_intros]:
  "metered id (validate_resource_constraints regs context anchor grants action)"
  "metered id (validate_budget_constraints regs context anchor grants action)"
  unfolding validate_resource_constraints_def validate_budget_constraints_def by (intro metered_intros)+

section \<open>Assurance\<close>

definition participant_report ::
  "principal_id \<Rightarrow> control_evidence \<Rightarrow> participant_role \<Rightarrow> participant_assurance verified" where
  "participant_report who evidence role =
     (case participant_assurance_new who role (cv_claims evidence) (cv_consumed_evidence evidence)
             (cv_adapter evidence) (cv_adapter_version evidence) of
        None \<Rightarrow> Err (FailDenied ResourceLimitExceeded)
      | Some report \<Rightarrow> Ok report)"

definition validate_assurance_claims ::
  "registries \<Rightarrow> trusted_context \<Rightarrow> participant_assurance list \<Rightarrow> (work_meter, unit) stage" where
  "validate_assurance_claims regs context reports = for_each (\<lambda>claim.
     bind (demand (assurance_claim_for regs (tc_accepted_registries context) (cl_kind claim))
       (FailIndeterminate UnsupportedAssuranceClaim)) (\<lambda>rule.
     bind (reserve (cr_maximum_work_units rule claim)) (\<lambda>_.
       from_result (with_operation (cr_validate rule claim))))) (concat (map pa_claims reports))"

definition implied_by :: "assurance_implication list \<Rightarrow> entailment" where
  "implied_by implications claim target = list_ex (\<lambda>implication. ai_source implication = cl_kind claim
     \<and> ai_target implication = target \<and> succeeds (ai_implies implication claim)) implications"

definition evaluate_branch_assurance ::
  "registries \<Rightarrow> trusted_context \<Rightarrow> participant_assurance list \<Rightarrow> (work_meter, assurance_satisfaction list) stage" where
  "evaluate_branch_assurance regs context reports =
     (let implications = accepted_implications regs (tc_accepted_registries context) in
      bind (validate_assurance_claims regs context reports) (\<lambda>_.
      bind (for_each (\<lambda>implication. reserve (ai_maximum_work_units implication)) implications) (\<lambda>_.
        from_result (map_failure FailIndeterminate
          (evaluate_with_implications (tc_assurance_policy context) reports (tc_evaluation_time context)
            (implied_by implications))))))"

lemma participant_report_Inr:
  "participant_report who evidence role = Inr report \<Longrightarrow> pa_principal report = who \<and> pa_role report = role"
  by (auto simp: participant_report_def participant_assurance_new_def Let_def split: option.splits if_splits)

lemma evaluate_branch_assurance_Inr:
  assumes "evaluate_branch_assurance regs context reports meter = (Inr satisfactions, meter')"
    and "length (ay_requirements (tc_assurance_policy context)) \<le> 65536" "length reports < 2 ^ 64"
    and "requirement \<in> set (ay_requirements (tc_assurance_policy context))"
  shows "requirement_met (implied_by (accepted_implications regs (tc_accepted_registries context))) reports
    (tc_evaluation_time context) requirement"
  using assms assurance_policy_met_iff [OF assms(2,3)]
  by (auto simp: evaluate_branch_assurance_def Let_def stage_simps)

lemma metered_evaluate_branch_assurance [metered_intros]: "metered id (evaluate_branch_assurance regs context reports)"
  unfolding evaluate_branch_assurance_def validate_assurance_claims_def Let_def by (intro metered_intros)

end
