(* ===== verification/Verifier_Observation.thy ===== *)
theory Verifier_Observation
  imports Verifier_Stages
begin

text \<open>
  The observation stage, \<open>core/crates/auths-verifier/src/observation.rs\<close>: the requirements a grant chain
  carries, the candidate observations among the attachments, and the evaluation of one requirement and
  of all. Candidates keep whether their signature was found authentic, so each signature is checked at
  most once in a stage; a satisfied requirement has an observation that demands a look at the signature.
\<close>

section \<open>Requirements of a chain\<close>

definition MAX_OBSERVATION_REQUIREMENTS_PER_CHAIN :: nat where "MAX_OBSERVATION_REQUIREMENTS_PER_CHAIN = 32"

definition extension_payloads :: "bytes \<Rightarrow> signed_grant list \<Rightarrow> bytes list" where
  "extension_payloads i grants = map ce_bytes (filter (\<lambda>extension. ce_id extension = i)
     (concat (map (\<lambda>grant. gs_extensions (sg_statement grant)) grants)))"

definition add_new :: "'a list \<Rightarrow> 'a \<Rightarrow> 'a list" where
  "add_new requirements requirement = (if requirement \<in> set requirements then requirements else requirements @ [requirement])"

fun gather_observations :: "codec \<Rightarrow> observation_requirement list \<Rightarrow> bytes list \<Rightarrow> observation_requirement list verified" where
  "gather_observations cdc requirements [] = Ok requirements"
| "gather_observations cdc requirements (payload # payloads) =
     and_then (map_failure limit_or_malformed (decode_observation_requirements cdc payload)) (\<lambda>decoded.
       gather_observations cdc (foldl add_new requirements decoded) payloads)"

definition chain_observations :: "codec \<Rightarrow> signed_grant list \<Rightarrow> observation_requirement list verified" where
  "chain_observations cdc grants =
     and_then (gather_observations cdc [] (extension_payloads OBSERVATION_REQUIREMENT_EXTENSION_V1 grants)) (\<lambda>requirements.
       if length requirements > MAX_OBSERVATION_REQUIREMENTS_PER_CHAIN then Err (FailDenied ResourceLimitExceeded)
       else Ok requirements)"

definition require_parent_requirements :: "codec \<Rightarrow> signed_grant \<Rightarrow> signed_grant \<Rightarrow> unit verified" where
  "require_parent_requirements cdc parent child =
     and_then (chain_observations cdc [parent]) (\<lambda>parent_requirements.
       if parent_requirements = [] then Ok ()
       else let child_requirements = (case chain_observations cdc [child] of Inl _ \<Rightarrow> [] | Inr rs \<Rightarrow> rs) in
         ensure (list_all (\<lambda>p. list_ex (\<lambda>c. observation_schema_equal (or_schema c) (or_schema p)
             \<and> requirement_subject_equal (or_subject c) (or_subject p)) child_requirements) parent_requirements)
           ObservationRequirementDropped)"

section \<open>The stage\<close>

record observation_candidate =
  oc_digest :: digest
  oc_observation :: signed_observation
  oc_authentic :: "bool option"

record observation_stage =
  ob_chain :: "signed_grant list"
  ob_root :: principal_id
  ob_action :: signed_action
  ob_canonical :: canonical_action

definition in_authority_chain :: "observation_stage \<Rightarrow> principal_id \<Rightarrow> bool" where
  "in_authority_chain stage who \<longleftrightarrow> principal_id_equal who (ob_root stage)
     \<or> principal_id_equal who (ac_actor (sa_envelope (ob_action stage)))
     \<or> list_ex (\<lambda>grant. principal_id_equal who (gs_issuer (sg_statement grant))
         \<or> principal_id_equal who (gs_subject (sg_statement grant))) (ob_chain stage)"

fun observer_anchors_for ::
  "trusted_context \<Rightarrow> observation_stage \<Rightarrow> observation_requirement list \<Rightarrow> observer_anchor option list verified" where
  "observer_anchors_for context stage [] = Ok []"
| "observer_anchors_for context stage (requirement # requirements) =
     (let anchor = find (\<lambda>anchor. oa_id anchor = or_observer_anchor requirement) (tc_observer_anchors context) in
      and_then (ensure (case anchor of None \<Rightarrow> True | Some a \<Rightarrow> \<not> in_authority_chain stage (oa_principal a))
        ObserverInAuthorityChain) (\<lambda>_.
      and_then (observer_anchors_for context stage requirements) (\<lambda>anchors. Ok (anchor # anchors))))"

fun candidates_from ::
  "codec \<Rightarrow> trusted_context \<Rightarrow> canonical_action \<Rightarrow> attachment_descriptor list \<Rightarrow> observation_candidate list verified" where
  "candidates_from cdc context canonical [] = Ok []"
| "candidates_from cdc context canonical (descriptor # descriptors) =
     (if ad_media_type descriptor \<noteq> OBSERVATION_MEDIA_TYPE then candidates_from cdc context canonical descriptors
      else case find (\<lambda>attachment. da_digest attachment = ad_digest descriptor) (cn_detached_attachments canonical) of
        None \<Rightarrow> candidates_from cdc context canonical descriptors
      | Some detached \<Rightarrow>
          and_then (map_failure limit_or_malformed (decode_signed_observation cdc (da_bytes detached) (tc_limits context)))
            (\<lambda>observation. and_then (candidates_from cdc context canonical descriptors) (\<lambda>candidates.
              Ok (\<lparr> oc_digest = ad_digest descriptor, oc_observation = observation, oc_authentic = None \<rparr> # candidates))))"

definition observation_candidates ::
  "codec \<Rightarrow> trusted_context \<Rightarrow> observation_stage \<Rightarrow> observation_candidate list verified" where
  "observation_candidates cdc context stage =
     and_then (candidates_from cdc context (ob_canonical stage) (ac_attachments (sa_envelope (ob_action stage))))
       (\<lambda>candidates. Ok (sort_key oc_digest candidates))"

text \<open>
  \<open>ResourceId::parse\<close> on the bytes of a string: the white space and control characters of Unicode in
  their encoding, which in valid UTF-8 starts only at a character boundary.
\<close>

fun has_space_or_control :: "bytes \<Rightarrow> bool" where
  "has_space_or_control [] = False"
| "has_space_or_control (b # bs) =
     (b \<le> 0x20 \<or> b = 0x7F
      \<or> (case bs of
           c # ds \<Rightarrow> b = 0xC2 \<and> 0x80 \<le> c \<and> c \<le> 0xA0
             \<or> (case ds of
                  d # _ \<Rightarrow> b = 0xE1 \<and> c = 0x9A \<and> d = 0x80
                    \<or> b = 0xE2 \<and> c = 0x80 \<and> (0x80 \<le> d \<and> d \<le> 0x8A \<or> d = 0xA8 \<or> d = 0xA9 \<or> d = 0xAF)
                    \<or> b = 0xE2 \<and> c = 0x81 \<and> d = 0x9F
                    \<or> b = 0xE3 \<and> c = 0x80 \<and> d = 0x80
                | [] \<Rightarrow> False)
         | [] \<Rightarrow> False)
      \<or> has_space_or_control bs)"

definition identifier_parse :: "bytes \<Rightarrow> nat \<Rightarrow> bytes option" where
  "identifier_parse text maximum =
     (if text = [] \<or> length text > maximum \<or> has_space_or_control text then None else Some text)"

definition resource_parse :: "bytes \<Rightarrow> resource_id option" where
  "resource_parse text = identifier_parse text 1024"

definition resolve_fact :: "profile_policy \<Rightarrow> canonical_action \<Rightarrow> fact_name \<Rightarrow> (work_meter, fact_value option) stage" where
  "resolve_fact policy canonical name =
     bind (reserve (pp_maximum_work_units policy canonical)) (\<lambda>_.
       from_result (with_operation (pp_action_fact policy canonical name)))"

definition resolve_subject ::
  "profile_policy \<Rightarrow> canonical_action \<Rightarrow> observation_subject \<Rightarrow> (work_meter, resource_id option) stage" where
  "resolve_subject policy canonical subject = (case subject of
     SubjectResource resource \<Rightarrow> return (Some resource)
   | SubjectActionFact name \<Rightarrow> bind (resolve_fact policy canonical name) (\<lambda>found. return (case found of
       Some (Text text) \<Rightarrow> resource_parse text | _ \<Rightarrow> None)))"

fun resolve_values ::
  "profile_policy \<Rightarrow> canonical_action \<Rightarrow> observation_condition list \<Rightarrow> (work_meter, fact_value option list option) stage" where
  "resolve_values policy canonical [] = return (Some [])"
| "resolve_values policy canonical (condition # conditions) = (case condition_action_fact condition of
     None \<Rightarrow> bind (resolve_values policy canonical conditions) (\<lambda>rest. return (map_option ((#) None) rest))
   | Some name \<Rightarrow> bind (resolve_fact policy canonical name) (\<lambda>found. case found of
       None \<Rightarrow> return None
     | Some value \<Rightarrow> bind (resolve_values policy canonical conditions) (\<lambda>rest. return (map_option ((#) (Some value)) rest))))"

definition action_facts ::
  "profile_policy \<Rightarrow> canonical_action \<Rightarrow> observation_requirement \<Rightarrow> (work_meter, (resource_id \<times> fact_value option list) option) stage" where
  "action_facts policy canonical requirement =
     bind (resolve_subject policy canonical (or_subject requirement)) (\<lambda>subject. case subject of
       None \<Rightarrow> return None
     | Some subject \<Rightarrow> bind (resolve_values policy canonical (or_conditions requirement)) (\<lambda>values.
         return (map_option (Pair subject) values)))"

text \<open>The first namespace that contains the subject decides; later ones are not charged.\<close>

fun subject_in_namespaces :: "resource_matcher \<Rightarrow> resource_id \<Rightarrow> resource_id list \<Rightarrow> (work_meter, bool) stage" where
  "subject_in_namespaces matcher subject [] = return False"
| "subject_in_namespaces matcher subject (namespace # namespaces) =
     bind (reserve (rm_maximum_work_units matcher namespace subject)) (\<lambda>_.
     bind (from_result (with_operation (rm_matches matcher namespace subject))) (\<lambda>matched.
       if matched then return True else subject_in_namespaces matcher subject namespaces))"

text \<open>
  The signature of an observation, under the registries of every other statement; any failure other
  than exhausted work makes the observation not authentic.
\<close>

definition observation_authentic ::
  "codec \<Rightarrow> registries \<Rightarrow> trusted_context \<Rightarrow> signed_observation \<Rightarrow> (work_meter, bool) stage" where
  "observation_authentic cdc regs context observation =
     (let descriptor = se_descriptor (so_signature observation); accepted = tc_accepted_registries context;
          statement = so_statement observation in
      case (principal_method_for regs accepted (sd_principal_method descriptor),
            signature_suite_for regs accepted (sd_suite descriptor)) of
        (Some m, Some suite) \<Rightarrow>
          if \<not> accepts_evidence context (so_evidence observation) then return False
          else bind (reserve (me_maximum_work_units m)) (\<lambda>_.
            bind (reserve (su_work_units suite)) (\<lambda>_.
              case observation_signing_preimage cdc statement descriptor of
                Inl _ \<Rightarrow> return False
              | Inr preimage \<Rightarrow>
                  (case me_verify_control m (control_input context (os_observer statement) (so_signature observation)
                      preimage Assertion (os_observed_at statement) (so_evidence observation)) of
                     Inl _ \<Rightarrow> return False
                   | Inr control \<Rightarrow>
                       if cv_work_units control > me_maximum_work_units m then fail (FailDenied ResourceLimitExceeded)
                       else if cv_consumed_evidence control \<noteq> map eo_id (so_evidence observation) then return False
                       else return (su_verify suite (suite_input control (so_signature observation) preimage) = Ok ()))))
      | _ \<Rightarrow> return False)"

text \<open>The checks before the namespaces and the signature; they charge nothing.\<close>

definition observation_matches ::
  "trusted_context \<Rightarrow> observation_requirement \<Rightarrow> observer_anchor \<Rightarrow> resource_id \<Rightarrow> signed_observation \<Rightarrow> bool" where
  "observation_matches context requirement anchor subject observation \<longleftrightarrow>
     (let statement = so_statement observation in
      principal_id_equal (os_observer statement) (oa_principal anchor)
      \<and> os_schema statement = or_schema requirement
      \<and> or_schema requirement \<in> set (oa_schemas anchor)
      \<and> observation_subject_equal subject (os_subject statement)
      \<and> observation_fresh (os_observed_at statement) (tc_evaluation_time context)
          (ucast (or_max_age_seconds requirement)) (not_before (oa_validity anchor)) (expires_at (oa_validity anchor))
      \<and> sd_principal_method (se_descriptor (so_signature observation)) \<in> set (oa_accepted_methods anchor))"

definition observation_eligible ::
  "codec \<Rightarrow> registries \<Rightarrow> trusted_context \<Rightarrow> observation_requirement \<Rightarrow> observer_anchor \<Rightarrow> resource_id
     \<Rightarrow> observation_candidate \<Rightarrow> (work_meter, bool \<times> observation_candidate) stage" where
  "observation_eligible cdc regs context requirement anchor subject candidate =
     (if \<not> observation_matches context requirement anchor subject (oc_observation candidate) then return (False, candidate)
      else bind (demand (resource_matcher_for regs (tc_accepted_registries context) (tc_resource_matcher context))
          (FailIndeterminate UnsupportedResourceMatcher)) (\<lambda>matcher.
        bind (subject_in_namespaces matcher (os_subject (so_statement (oc_observation candidate))) (oa_subject_namespaces anchor))
          (\<lambda>inside.
            if \<not> inside then return (False, candidate)
            else case oc_authentic candidate of
              Some authentic \<Rightarrow> return (authentic, candidate)
            | None \<Rightarrow> bind (observation_authentic cdc regs context (oc_observation candidate)) (\<lambda>authentic.
                return (authentic, candidate \<lparr> oc_authentic := Some authentic \<rparr>)))))"

text \<open>
  The loop over the candidates for one requirement: it returns whether an eligible one was seen, the
  digest of the first that satisfies every condition, and the candidates with what was learned.
\<close>

fun search_candidates ::
  "codec \<Rightarrow> registries \<Rightarrow> trusted_context \<Rightarrow> observation_requirement \<Rightarrow> observer_anchor \<Rightarrow> resource_id
     \<Rightarrow> fact_value option list \<Rightarrow> bool \<Rightarrow> observation_candidate list
     \<Rightarrow> (work_meter, bool \<times> digest option \<times> observation_candidate list) stage" where
  "search_candidates cdc regs context requirement anchor subject values any_eligible [] = return (any_eligible, None, [])"
| "search_candidates cdc regs context requirement anchor subject values any_eligible (candidate # candidates) =
     bind (observation_eligible cdc regs context requirement anchor subject candidate) (\<lambda>(eligible, candidate').
       if eligible \<and> observation_conditions_hold (or_conditions requirement) values
           (os_facts (so_statement (oc_observation candidate')))
       then return (True, Some (oc_digest candidate'), candidate' # candidates)
       else bind (search_candidates cdc regs context requirement anchor subject values (any_eligible \<or> eligible) candidates)
         (\<lambda>(any_eligible, satisfying, candidates'). return (any_eligible, satisfying, candidate' # candidates')))"

definition saturating_mul :: "'a::len word \<Rightarrow> 'a word \<Rightarrow> 'a word" where
  "saturating_mul a b = (if uint a * uint b < 2 ^ LENGTH('a) then a * b else - 1)"

definition observation_requirement_work :: "observation_requirement \<Rightarrow> observation_candidate list \<Rightarrow> u64" where
  "observation_requirement_work requirement candidates =
     saturating_add (saturating_mul (size_of (or_conditions requirement)) (size_of candidates)) 1"

text \<open>The stage's own failure is the outer one; the verdict on the requirement is the inner result.\<close>

definition evaluate_requirement ::
  "codec \<Rightarrow> registries \<Rightarrow> trusted_context \<Rightarrow> canonical_action \<Rightarrow> observation_requirement \<Rightarrow> observer_anchor option
     \<Rightarrow> observation_candidate list
     \<Rightarrow> (work_meter, observation_satisfaction verified \<times> observation_candidate list) stage" where
  "evaluate_requirement cdc regs context canonical requirement anchor candidates = (case anchor of
     None \<Rightarrow> return (Err (FailIndeterminate ObservationMissing), candidates)
   | Some anchor \<Rightarrow>
       bind (demand (profile_policy_for regs (tc_accepted_registries context) (tc_profile_policy context))
         (FailIndeterminate UnsupportedProfilePolicy)) (\<lambda>policy.
       bind (action_facts policy canonical requirement) (\<lambda>facts. case facts of
         None \<Rightarrow> return (Err (FailIndeterminate ObservationActionFactUnavailable), candidates)
       | Some (subject, values) \<Rightarrow>
           bind (reserve (observation_requirement_work requirement candidates)) (\<lambda>_.
           bind (search_candidates cdc regs context requirement anchor subject values False candidates)
             (\<lambda>(any_eligible, satisfying, candidates'). case (requirement_verdict any_eligible (satisfying \<noteq> None), satisfying) of
                (Satisfied, Some digest) \<Rightarrow>
                  bind (from_result (map_failure limit_or_malformed (observation_requirement_id cdc requirement)))
                    (\<lambda>i. return (Ok \<lparr> sb_requirement = i, sb_observation = digest \<rparr>, candidates'))
              | (ConditionFalse, _) \<Rightarrow> return (Err (FailDenied ObservationConditionFalse), candidates')
              | _ \<Rightarrow> return (Err (FailIndeterminate ObservationMissing), candidates'))))))"

fun evaluate_requirements ::
  "codec \<Rightarrow> registries \<Rightarrow> trusted_context \<Rightarrow> canonical_action \<Rightarrow> (observation_requirement \<times> observer_anchor option) list
     \<Rightarrow> verification_failure option \<Rightarrow> observation_satisfaction list \<Rightarrow> observation_candidate list
     \<Rightarrow> (work_meter, observation_satisfaction list) stage" where
  "evaluate_requirements cdc regs context canonical [] unavailable satisfactions candidates = (case unavailable of
     Some failure \<Rightarrow> fail failure | None \<Rightarrow> return satisfactions)"
| "evaluate_requirements cdc regs context canonical ((requirement, anchor) # rest) unavailable satisfactions candidates =
     bind (evaluate_requirement cdc regs context canonical requirement anchor candidates) (\<lambda>(verdict, candidates'). case verdict of
       Inr satisfaction \<Rightarrow>
         evaluate_requirements cdc regs context canonical rest unavailable (satisfactions @ [satisfaction]) candidates'
     | Inl (FailDenied reason) \<Rightarrow> fail (FailDenied reason)
     | Inl (FailIndeterminate requirement) \<Rightarrow>
         evaluate_requirements cdc regs context canonical rest
           (case unavailable of None \<Rightarrow> Some (FailIndeterminate requirement) | Some _ \<Rightarrow> unavailable) satisfactions candidates')"

definition evaluate_observations ::
  "codec \<Rightarrow> registries \<Rightarrow> trusted_context \<Rightarrow> observation_stage \<Rightarrow> (work_meter, observation_satisfaction list) stage" where
  "evaluate_observations cdc regs context stage =
     bind (from_result (chain_observations cdc (ob_chain stage))) (\<lambda>requirements.
       if requirements = [] then return []
       else bind (from_result (observer_anchors_for context stage requirements)) (\<lambda>anchors.
         bind (from_result (observation_candidates cdc context stage)) (\<lambda>candidates.
           evaluate_requirements cdc regs context (ob_canonical stage) (zip requirements anchors) None [] candidates)))"

section \<open>What a satisfied requirement means\<close>

definition observer_anchor_of :: "trusted_context \<Rightarrow> bytes \<Rightarrow> observer_anchor option" where
  "observer_anchor_of context i = find (\<lambda>anchor. oa_id anchor = i) (tc_observer_anchors context)"

definition fact_of :: "profile_policy \<Rightarrow> canonical_action \<Rightarrow> fact_name \<Rightarrow> fact_value option" where
  "fact_of policy canonical name = (case pp_action_fact policy canonical name of Inl _ \<Rightarrow> None | Inr found \<Rightarrow> found)"

definition observation_signed :: "codec \<Rightarrow> registries \<Rightarrow> trusted_context \<Rightarrow> signed_observation \<Rightarrow> bool" where
  "observation_signed cdc regs context observation \<longleftrightarrow> (\<exists>preimage.
     observation_signing_preimage cdc (so_statement observation) (se_descriptor (so_signature observation)) = Ok preimage
     \<and> signature_holds regs context (os_observer (so_statement observation)) (so_signature observation) preimage
         Assertion (os_observed_at (so_statement observation)))"

definition observation_attached ::
  "codec \<Rightarrow> trusted_context \<Rightarrow> observation_stage \<Rightarrow> signed_observation \<Rightarrow> bool" where
  "observation_attached cdc context stage observation \<longleftrightarrow>
     (\<exists>descriptor \<in> set (ac_attachments (sa_envelope (ob_action stage))).
      \<exists>detached \<in> set (cn_detached_attachments (ob_canonical stage)).
        ad_media_type descriptor = OBSERVATION_MEDIA_TYPE \<and> da_digest detached = ad_digest descriptor
        \<and> decode_signed_observation cdc (da_bytes detached) (tc_limits context) = Ok observation)"

text \<open>
  A requirement is met by an observation attached to the action, signed by the observer its anchor
  names, who is no principal of the branch, and demanded by the requirement at the evaluation time.
\<close>

definition observation_met ::
  "codec \<Rightarrow> registries \<Rightarrow> trusted_context \<Rightarrow> observation_stage \<Rightarrow> observation_requirement \<Rightarrow> bool" where
  "observation_met cdc regs context stage requirement \<longleftrightarrow> (\<exists>policy anchor observation.
     profile_policy_for regs (tc_accepted_registries context) (tc_profile_policy context) = Some policy
     \<and> observer_anchor_of context (or_observer_anchor requirement) = Some anchor
     \<and> \<not> in_authority_chain stage (oa_principal anchor)
     \<and> observation_attached cdc context stage observation
     \<and> observation_signed cdc regs context observation
     \<and> demanded_of (observer_anchor_of context) (fact_of policy (ob_canonical stage)) (tc_evaluation_time context)
         requirement (so_statement observation))"

definition anchored ::
  "trusted_context \<Rightarrow> observation_stage \<Rightarrow> observation_requirement \<times> observer_anchor option \<Rightarrow> bool" where
  "anchored context stage entry \<longleftrightarrow> snd entry = observer_anchor_of context (or_observer_anchor (fst entry))
     \<and> (\<forall>a. snd entry = Some a \<longrightarrow> \<not> in_authority_chain stage (oa_principal a))"

definition observation_candidate_ok :: "codec \<Rightarrow> registries \<Rightarrow> trusted_context \<Rightarrow> observation_stage \<Rightarrow> observation_candidate \<Rightarrow> bool" where
  "observation_candidate_ok cdc regs context stage candidate \<longleftrightarrow>
     observation_attached cdc context stage (oc_observation candidate)
     \<and> (oc_authentic candidate = Some True \<longrightarrow> observation_signed cdc regs context (oc_observation candidate))"

lemma candidates_from_ok:
  assumes "candidates_from cdc context (ob_canonical stage) descriptors = Inr candidates"
    and "set descriptors \<subseteq> set (ac_attachments (sa_envelope (ob_action stage)))" and "candidate \<in> set candidates"
  shows "observation_candidate_ok cdc regs context stage candidate"
  using assms
proof (induction descriptors arbitrary: candidates)
  case (Cons descriptor descriptors)
  show ?case
  proof (cases "find (\<lambda>attachment. da_digest attachment = ad_digest descriptor) (cn_detached_attachments (ob_canonical stage))")
    case None
    then show ?thesis using Cons by (simp split: if_splits)
  next
    case (Some detached)
    then have "detached \<in> set (cn_detached_attachments (ob_canonical stage))" "da_digest detached = ad_digest descriptor"
      unfolding find_Some_iff by (elim exE conjE; auto)+
    moreover have "descriptor \<in> set (ac_attachments (sa_envelope (ob_action stage)))" using Cons.prems(2) by simp
    ultimately have attached: "observation_attached cdc context stage observation"
      if "ad_media_type descriptor = OBSERVATION_MEDIA_TYPE"
        "decode_signed_observation cdc (da_bytes detached) (tc_limits context) = Inr observation" for observation
      using that unfolding observation_attached_def by blast
    show ?thesis
    proof (cases "ad_media_type descriptor = OBSERVATION_MEDIA_TYPE")
      case False
      then show ?thesis using Cons by simp
    next
      case True
      then obtain observation rest where "decode_signed_observation cdc (da_bytes detached) (tc_limits context) = Inr observation"
        and tail: "candidates_from cdc context (ob_canonical stage) descriptors = Inr rest"
        and "candidates = \<lparr> oc_digest = ad_digest descriptor, oc_observation = observation, oc_authentic = None \<rparr> # rest"
        using Cons.prems(1) Some by (auto simp: and_then_Inr_iff)
      then show ?thesis using attached [OF True] Cons.prems(2,3) Cons.IH [OF tail]
        by (simp add: observation_candidate_ok_def) (elim disjE; simp)
    qed
  qed
qed simp

lemma observation_authentic_Inr:
  assumes "observation_authentic cdc regs context observation meter = (Inr True, meter')"
  shows "observation_signed cdc regs context observation"
proof -
  obtain m suite where found:
    "principal_method_for regs (tc_accepted_registries context) (sd_principal_method (se_descriptor (so_signature observation))) = Some m"
    "signature_suite_for regs (tc_accepted_registries context) (sd_suite (se_descriptor (so_signature observation))) = Some suite"
    using assms by (auto simp: observation_authentic_def Let_def stage_simps split: option.splits)
  show ?thesis using assms found unfolding observation_signed_def signature_holds_def
    by (auto simp: observation_authentic_def Let_def stage_simps split: if_splits sum.splits)
qed

lemma observation_eligible_Inr:
  assumes "observation_eligible cdc regs context requirement anchor subject candidate meter = (Inr (eligible, candidate'), meter')"
    and "observation_candidate_ok cdc regs context stage candidate"
  shows "observation_candidate_ok cdc regs context stage candidate' \<and> oc_observation candidate' = oc_observation candidate
    \<and> (eligible \<longrightarrow> observation_matches context requirement anchor subject (oc_observation candidate)
        \<and> observation_signed cdc regs context (oc_observation candidate))"
  using assms
  by (auto simp: observation_eligible_def observation_candidate_ok_def stage_simps split: if_splits option.splits
      dest!: observation_authentic_Inr)

lemma search_candidates_Inr:
  assumes "search_candidates cdc regs context requirement anchor subject values any candidates meter
      = (Inr (any', satisfying, candidates'), meter')"
    and "list_all (observation_candidate_ok cdc regs context stage) candidates"
  shows "list_all (observation_candidate_ok cdc regs context stage) candidates'
    \<and> (satisfying \<noteq> None \<longrightarrow> (\<exists>observation. observation_attached cdc context stage observation
        \<and> observation_signed cdc regs context observation
        \<and> observation_matches context requirement anchor subject observation
        \<and> observation_conditions_hold (or_conditions requirement) values (os_facts (so_statement observation))))"
  using assms
proof (induction candidates arbitrary: any any' candidates' satisfying meter)
  case (Cons candidate candidates)
  obtain eligible candidate' m where run:
    "observation_eligible cdc regs context requirement anchor subject candidate meter = (Inr (eligible, candidate'), m)"
    and rest: "(if eligible \<and> observation_conditions_hold (or_conditions requirement) values
           (os_facts (so_statement (oc_observation candidate')))
       then return (True, Some (oc_digest candidate'), candidate' # candidates)
       else bind (search_candidates cdc regs context requirement anchor subject values (any \<or> eligible) candidates)
         (\<lambda>(any_eligible, satisfying, candidates'). return (any_eligible, satisfying, candidate' # candidates'))) m
      = (Inr (any', satisfying, candidates'), meter')"
    using Cons.prems(1) by (auto simp: stage_simps)
  have ok: "observation_candidate_ok cdc regs context stage candidate"
    and oks: "list_all (observation_candidate_ok cdc regs context stage) candidates" using Cons.prems(2) by simp_all
  note eligible = observation_eligible_Inr [OF run ok]
  show ?case
  proof (cases "eligible \<and> observation_conditions_hold (or_conditions requirement) values
           (os_facts (so_statement (oc_observation candidate')))")
    case True
    moreover have "observation_attached cdc context stage (oc_observation candidate)" using ok by (simp add: observation_candidate_ok_def)
    ultimately show ?thesis using rest eligible oks by (simp add: stage_simps) metis
  next
    case False
    then obtain candidates'' where "candidates' = candidate' # candidates''"
      and "search_candidates cdc regs context requirement anchor subject values (any \<or> eligible) candidates m
        = (Inr (any', satisfying, candidates''), meter')"
      using rest by (auto simp: stage_simps split: prod.splits)
    then show ?thesis using Cons.IH oks eligible by simp
  qed
qed (simp add: stage_simps)

lemma resolve_fact_Inr: "resolve_fact policy canonical name meter = (Inr found, meter') \<Longrightarrow> fact_of policy canonical name = found"
  by (auto simp: resolve_fact_def fact_of_def stage_simps)

lemma Some_eq_map_option_iff: "Some v = map_option f x \<longleftrightarrow> (\<exists>y. x = Some y \<and> v = f y)"
  by (cases x) auto

lemma resolve_values_Inr:
  "resolve_values policy canonical conditions meter = (Inr (Some values), meter')
     \<Longrightarrow> values = map (action_value (fact_of policy canonical)) conditions"
  by (induction conditions arbitrary: meter "values")
    (auto simp: stage_simps action_value_def Some_eq_map_option_iff split: option.splits dest!: resolve_fact_Inr)

lemma action_facts_Inr:
  assumes "action_facts policy canonical requirement meter = (Inr (Some (subject, values)), meter')"
  shows "resolved_subject (fact_of policy canonical) (or_subject requirement) = Some subject
    \<and> values = map (action_value (fact_of policy canonical)) (or_conditions requirement)"
proof -
  obtain m where subject: "resolve_subject policy canonical (or_subject requirement) meter = (Inr (Some subject), m)"
    and "resolve_values policy canonical (or_conditions requirement) m = (Inr (Some values), meter')"
    using assms by (auto simp: action_facts_def stage_simps Some_eq_map_option_iff split: option.splits)
  moreover have "resolved_subject (fact_of policy canonical) (or_subject requirement) = Some subject"
  proof (cases "or_subject requirement")
    case (SubjectActionFact name)
    then obtain found where "fact_of policy canonical name = found"
      and "Some subject = (case found of Some (Text text) \<Rightarrow> resource_parse text | _ \<Rightarrow> None)"
      using subject by (auto simp: resolve_subject_def stage_simps dest!: resolve_fact_Inr)
    then show ?thesis using SubjectActionFact
      by (auto simp: resolved_subject_def resource_parse_def identifier_parse_def
          split: option.splits fact_value.splits if_splits)
  qed (use subject in \<open>auto simp: resolve_subject_def resolved_subject_def stage_simps\<close>)
  ultimately show ?thesis using resolve_values_Inr by blast
qed

lemma evaluate_requirement_Inr:
  assumes run: "evaluate_requirement cdc regs context (ob_canonical stage) requirement anchor candidates meter
      = (Inr (verdict, candidates'), meter')"
    and anchored: "anchored context stage (requirement, anchor)"
    and ok: "list_all (observation_candidate_ok cdc regs context stage) candidates"
  shows "list_all (observation_candidate_ok cdc regs context stage) candidates'
    \<and> (\<forall>satisfaction. verdict = Inr satisfaction \<longrightarrow> observation_met cdc regs context stage requirement)"
proof (cases anchor)
  case None
  then show ?thesis using run ok by (auto simp: evaluate_requirement_def stage_simps)
next
  case (Some a)
  obtain policy facts m where policy:
    "profile_policy_for regs (tc_accepted_registries context) (tc_profile_policy context) = Some policy"
    and facts: "action_facts policy (ob_canonical stage) requirement meter = (Inr facts, m)"
    using run Some by (auto simp: evaluate_requirement_def stage_simps)
  show ?thesis
  proof (cases facts)
    case None
    then show ?thesis using run Some policy facts ok by (auto simp: evaluate_requirement_def stage_simps)
  next
    case (Some pair)
    obtain subject vals where pair: "pair = (subject, vals)" by force
    obtain any satisfying candidates'' m' m'' where
      search: "search_candidates cdc regs context requirement a subject vals False candidates m'
        = (Inr (any, satisfying, candidates''), m'')"
      and tail: "(case (requirement_verdict any (satisfying \<noteq> None), satisfying) of
                (Satisfied, Some digest) \<Rightarrow>
                  bind (from_result (map_failure limit_or_malformed (observation_requirement_id cdc requirement)))
                    (\<lambda>i. return (Ok \<lparr> sb_requirement = i, sb_observation = digest \<rparr>, candidates''))
              | (ConditionFalse, _) \<Rightarrow> return (Err (FailDenied ObservationConditionFalse), candidates'')
              | _ \<Rightarrow> return (Err (FailIndeterminate ObservationMissing), candidates'')) m''
        = (Inr (verdict, candidates'), meter')"
      using run \<open>anchor = Some a\<close> policy facts Some pair by (auto simp: evaluate_requirement_def stage_simps)
    have same: "candidates' = candidates''" and satisfied: "verdict = Inr s \<Longrightarrow> satisfying \<noteq> None" for s
      using tail by (auto simp: stage_simps split: option.splits requirement_verdict.splits)
    note found = search_candidates_Inr [OF search ok]
    note resolved = action_facts_Inr [OF facts [unfolded Some pair]]
    have outside: "observer_anchor_of context (or_observer_anchor requirement) = Some a"
      "\<not> in_authority_chain stage (oa_principal a)"
      using anchored \<open>anchor = Some a\<close> by (auto simp: anchored_def)
    have "observation_met cdc regs context stage requirement" if "verdict = Inr s" for s
      using found satisfied [OF that] policy resolved outside
      unfolding observation_met_def observation_matches_def demanded_of_def
      by (auto simp: Let_def principal_id_equal_def observation_subject_equal_def byte_slices_equal_def)
    then show ?thesis using found same by blast
  qed
qed

lemma evaluate_requirements_Inr:
  assumes "evaluate_requirements cdc regs context (ob_canonical stage) rest unavailable satisfactions candidates meter
      = (Inr result, meter')"
    and "list_all (anchored context stage) rest"
    and "list_all (observation_candidate_ok cdc regs context stage) candidates"
  shows "unavailable = None \<and> list_all (\<lambda>entry. observation_met cdc regs context stage (fst entry)) rest"
  using assms
proof (induction rest arbitrary: unavailable satisfactions candidates meter)
  case (Cons entry rest)
  obtain requirement anchor where entry: "entry = (requirement, anchor)" by force
  obtain verdict candidates' m where run: "evaluate_requirement cdc regs context (ob_canonical stage) requirement anchor candidates meter
      = (Inr (verdict, candidates'), m)"
    and tail: "(case verdict of
       Inr satisfaction \<Rightarrow>
         evaluate_requirements cdc regs context (ob_canonical stage) rest unavailable (satisfactions @ [satisfaction]) candidates'
     | Inl (FailDenied reason) \<Rightarrow> fail (FailDenied reason)
     | Inl (FailIndeterminate requirement) \<Rightarrow>
         evaluate_requirements cdc regs context (ob_canonical stage) rest
           (case unavailable of None \<Rightarrow> Some (FailIndeterminate requirement) | Some _ \<Rightarrow> unavailable) satisfactions candidates') m
      = (Inr result, meter')"
    using Cons.prems(1) entry by (auto simp: stage_simps)
  have ok: "list_all (observation_candidate_ok cdc regs context stage) candidates'"
    and met: "verdict = Inr s \<Longrightarrow> observation_met cdc regs context stage requirement" for s
    using evaluate_requirement_Inr [OF run] Cons.prems(2,3) entry by auto
  have rest: "list_all (anchored context stage) rest" using Cons.prems(2) by simp
  show ?case
  proof (cases verdict)
    case (Inr s)
    then show ?thesis using tail Cons.IH [OF _ rest ok] met entry by auto
  next
    case (Inl failure)
    then show ?thesis using tail Cons.IH [OF _ rest ok]
      by (cases failure; cases unavailable) (auto simp: stage_simps)
  qed
qed (simp add: stage_simps split: option.splits)

lemma observer_anchors_for_Inr:
  assumes "observer_anchors_for context stage requirements = Inr anchors"
  shows "length anchors = length requirements \<and> list_all (anchored context stage) (zip requirements anchors)"
  using assms
proof (induction requirements arbitrary: anchors)
  case (Cons requirement requirements)
  let ?anchor = "observer_anchor_of context (or_observer_anchor requirement)"
  obtain rest where "observer_anchors_for context stage requirements = Inr rest" "anchors = ?anchor # rest"
    and "anchored context stage (requirement, ?anchor)"
    using Cons.prems by (auto simp: Let_def and_then_Inr_iff anchored_def observer_anchor_of_def split: option.splits)
  then show ?case using Cons.IH by simp
qed simp

lemma evaluate_observations_met:
  assumes "evaluate_observations cdc regs context stage meter = (Inr satisfactions, meter')"
    and "chain_observations cdc (ob_chain stage) = Inr requirements" and "requirement \<in> set requirements"
  shows "observation_met cdc regs context stage requirement"
proof -
  obtain anchors candidates m where anchors: "observer_anchors_for context stage requirements = Inr anchors"
    and candidates: "observation_candidates cdc context stage = Inr candidates"
    and run: "evaluate_requirements cdc regs context (ob_canonical stage) (zip requirements anchors) None [] candidates m
      = (Inr satisfactions, meter')"
    using assms by (auto simp: evaluate_observations_def stage_simps split: if_splits)
  have "observation_candidate_ok cdc regs context stage c" if "c \<in> set candidates" for c
    using candidates that candidates_from_ok [where descriptors = "ac_attachments (sa_envelope (ob_action stage))"]
    by (auto simp: observation_candidates_def and_then_Inr_iff)
  then have ok: "list_all (observation_candidate_ok cdc regs context stage) candidates" by (simp add: list_all_iff)
  note zipped = observer_anchors_for_Inr [OF anchors]
  obtain n where "n < length requirements" "requirement = requirements ! n" using assms(3) by (metis in_set_conv_nth)
  then have "(requirement, anchors ! n) \<in> set (zip requirements anchors)" using zipped by (auto simp: set_zip)
  moreover have "list_all (\<lambda>entry. observation_met cdc regs context stage (fst entry)) (zip requirements anchors)"
    using evaluate_requirements_Inr [OF run _ ok] zipped by blast
  ultimately show ?thesis unfolding list_all_iff by force
qed

section \<open>Work\<close>

lemma metered_case_prod [metered_intros]:
  "(\<And>a b. metered meter_of (f a b)) \<Longrightarrow> metered meter_of (case p of (a, b) \<Rightarrow> f a b)"
  by (cases p) simp

lemma metered_case_sum [metered_intros]:
  "(\<And>a. metered meter_of (f a)) \<Longrightarrow> (\<And>b. metered meter_of (g b))
     \<Longrightarrow> metered meter_of (case p of Inl a \<Rightarrow> f a | Inr b \<Rightarrow> g b)"
  by (cases p) simp_all

lemma metered_case_failure [metered_intros]:
  "(\<And>a. metered meter_of (f a)) \<Longrightarrow> (\<And>b. metered meter_of (g b))
     \<Longrightarrow> metered meter_of (case p of FailDenied a \<Rightarrow> f a | FailIndeterminate b \<Rightarrow> g b)"
  by (cases p) simp_all

lemma metered_case_subject [metered_intros]:
  "(\<And>a. metered meter_of (f a)) \<Longrightarrow> (\<And>b. metered meter_of (g b))
     \<Longrightarrow> metered meter_of (case p of SubjectResource a \<Rightarrow> f a | SubjectActionFact b \<Rightarrow> g b)"
  by (cases p) simp_all

lemma metered_case_verdict [metered_intros]:
  "metered meter_of a \<Longrightarrow> metered meter_of b \<Longrightarrow> metered meter_of c
     \<Longrightarrow> metered meter_of (case p of Satisfied \<Rightarrow> a | ConditionFalse \<Rightarrow> b | Missing \<Rightarrow> c)"
  by (cases p) simp_all

lemma metered_resolve_values [metered_intros]: "metered id (resolve_values policy canonical conditions)"
proof (induction conditions)
  case (Cons condition conditions)
  show ?case unfolding resolve_values.simps resolve_fact_def by (intro metered_intros Cons.IH)
qed simp

lemma metered_action_facts [metered_intros]: "metered id (action_facts policy canonical requirement)"
  unfolding action_facts_def resolve_subject_def resolve_fact_def by (intro metered_intros)

lemma metered_subject_in_namespaces [metered_intros]: "metered id (subject_in_namespaces matcher subject namespaces)"
proof (induction namespaces)
  case (Cons namespace namespaces)
  show ?case unfolding subject_in_namespaces.simps by (intro metered_intros Cons.IH)
qed simp

lemma metered_observation_eligible [metered_intros]:
  "metered id (observation_eligible cdc regs context requirement anchor subject candidate)"
  unfolding observation_eligible_def observation_authentic_def Let_def by (intro metered_intros)

lemma metered_search_candidates [metered_intros]:
  "metered id (search_candidates cdc regs context requirement anchor subject vals any candidates)"
proof (induction candidates arbitrary: any)
  case (Cons candidate candidates)
  show ?case unfolding search_candidates.simps by (intro metered_intros Cons.IH)
qed simp

lemma metered_evaluate_requirements [metered_intros]:
  "metered id (evaluate_requirements cdc regs context canonical rest unavailable satisfactions candidates)"
proof (induction rest arbitrary: unavailable satisfactions candidates)
  case Nil
  show ?case unfolding evaluate_requirements.simps by (intro metered_intros)
next
  case (Cons entry rest)
  obtain requirement anchor where entry: "entry = (requirement, anchor)" by force
  show ?case unfolding entry evaluate_requirements.simps evaluate_requirement_def by (intro metered_intros Cons.IH)
qed

lemma metered_evaluate_observations [metered_intros]: "metered id (evaluate_observations cdc regs context stage)"
  unfolding evaluate_observations_def by (intro metered_intros)

end
