(* ===== verification/Verifier_Approval.thy ===== *)
theory Verifier_Approval
  imports Verifier_Observation
begin

text \<open>
  The approval steps, \<open>core/crates/auths-verifier/src/approval.rs\<close>: the requirements of a chain and of
  the context, the checks of one approval, and the evaluation of a requirement, which is done once per
  identifier and remembered. An authorized requirement has enough distinct approvers, outside the
  authority of the proof, each with a valid approval of the exact action.
\<close>

section \<open>Requirements\<close>

definition MAX_APPROVAL_REQUIREMENTS_PER_CHAIN :: nat where "MAX_APPROVAL_REQUIREMENTS_PER_CHAIN = 16"
definition MAX_APPROVAL_REQUIREMENTS_PER_VERIFICATION :: nat where "MAX_APPROVAL_REQUIREMENTS_PER_VERIFICATION = 64"

type_synonym identified = "digest \<times> approval_requirement"

fun add_identified :: "codec \<Rightarrow> identified list \<Rightarrow> approval_requirement list \<Rightarrow> identified list verified" where
  "add_identified cdc requirements [] = Ok requirements"
| "add_identified cdc requirements (requirement # rest) =
     and_then (with_codec (approval_requirement_id cdc requirement)) (\<lambda>i.
       add_identified cdc (if list_ex (\<lambda>(known, _). known = i) requirements then requirements
         else requirements @ [(i, requirement)]) rest)"

fun gather_approvals :: "codec \<Rightarrow> identified list \<Rightarrow> bytes list \<Rightarrow> identified list verified" where
  "gather_approvals cdc requirements [] = Ok requirements"
| "gather_approvals cdc requirements (payload # payloads) =
     and_then (map_failure limit_or_malformed (decode_approval_requirements cdc payload)) (\<lambda>decoded.
     and_then (add_identified cdc requirements decoded) (\<lambda>requirements. gather_approvals cdc requirements payloads))"

definition chain_approvals :: "codec \<Rightarrow> signed_grant list \<Rightarrow> identified list verified" where
  "chain_approvals cdc grants =
     and_then (gather_approvals cdc [] (extension_payloads APPROVAL_REQUIREMENT_EXTENSION_V1 grants)) (\<lambda>requirements.
       if length requirements > MAX_APPROVAL_REQUIREMENTS_PER_CHAIN then Err (FailDenied ResourceLimitExceeded)
       else Ok requirements)"

definition context_approvals :: "codec \<Rightarrow> trusted_context \<Rightarrow> identified list verified" where
  "context_approvals cdc context = with_codec (sorted_approval_requirements cdc (tc_approval_requirements context))"

section \<open>One approval\<close>

definition binds_exact ::
  "codec \<Rightarrow> trusted_context \<Rightarrow> canonical_action \<Rightarrow> digest \<Rightarrow> approval_statement \<Rightarrow> bool" where
  "binds_exact cdc context canonical requirement statement \<longleftrightarrow>
     as_requirement statement = requirement \<and> as_media_type statement = cn_media_type canonical
     \<and> as_body_digest statement = body_digest cdc (cn_body canonical)
     \<and> as_permission statement = cn_permission canonical
     \<and> as_requested_budget statement = cn_requested_budget canonical
     \<and> as_attributes statement = None
     \<and> as_audience statement = tc_expected_audience context \<and> as_challenge statement = tc_expected_challenge context"

definition classify :: "verification_failure \<Rightarrow> approval_verdict verified" where
  "classify failure = (case failure of
     FailDenied reason \<Rightarrow> if reason = ResourceLimitExceeded then Err failure else Ok Ignored
   | FailIndeterminate _ \<Rightarrow> Ok Pending)"

text \<open>A stage whose failure is taken as a value, as a Rust \<open>match\<close> on its result.\<close>

definition recover :: "('s, 'a) stage \<Rightarrow> ('s, 'a verified) stage" where
  "recover m s = (case m s of (r, s') \<Rightarrow> (Ok r, s'))"

definition signature_verdict ::
  "codec \<Rightarrow> registries \<Rightarrow> trusted_context \<Rightarrow> canonical_action \<Rightarrow> signed_approval \<Rightarrow> (work_meter, approval_verdict) stage" where
  "signature_verdict cdc regs context canonical approval =
     (let statement = sp_statement approval in
      case approval_signing_preimage cdc statement (se_descriptor (sp_signature approval)) (cn_profile canonical) of
        Inl _ \<Rightarrow> return Ignored
      | Inr preimage \<Rightarrow>
          bind (recover (evaluate_signature regs context (as_approver statement) (sp_signature approval) preimage
            Assertion (not_before (as_validity statement)) (Ok (sp_evidence approval)))) (\<lambda>result. case result of
              Inr control \<Rightarrow> return (if cv_consumed_evidence control = map eo_id (sp_evidence approval) then Counted else Ignored)
            | Inl failure \<Rightarrow> from_result (classify failure)))"

text \<open>The statements about an approver in order; \<open>None\<close> when none of them decides.\<close>

definition status_statement_verdict ::
  "codec \<Rightarrow> trusted_context \<Rightarrow> control_verified_proof \<Rightarrow> signed_status \<Rightarrow> approval_verdict option verified" where
  "status_statement_verdict cdc context controlled status =
     and_then (with_codec (principal_status_id_of cdc (st_statement status))) (\<lambda>i.
       case control_for controlled (PrincipalStatusRef i) of
         Inl failure \<Rightarrow> and_then (classify failure) (\<lambda>verdict. Ok (Some verdict))
       | Inr _ \<Rightarrow> (case check_status_extensions context (ss_extensions (st_statement status)) of
           Inl failure \<Rightarrow> and_then (classify failure) (\<lambda>verdict. Ok (Some verdict))
         | Inr _ \<Rightarrow> Ok None))"

fun first_status_verdict ::
  "codec \<Rightarrow> trusted_context \<Rightarrow> control_verified_proof \<Rightarrow> signed_status list \<Rightarrow> approval_verdict option verified" where
  "first_status_verdict cdc context controlled [] = Ok None"
| "first_status_verdict cdc context controlled (status # statuses) =
     and_then (status_statement_verdict cdc context controlled status) (\<lambda>verdict. case verdict of
       Some v \<Rightarrow> Ok (Some v) | None \<Rightarrow> first_status_verdict cdc context controlled statuses)"

fun decision_verdict :: "status_decision \<Rightarrow> approval_verdict" where
  "decision_verdict StatusActive = Counted"
| "decision_verdict StatusMissing = Pending"
| "decision_verdict StatusStale = Pending"
| "decision_verdict StatusRevoked = Ignored"
| "decision_verdict StatusRollback = Ignored"
| "decision_verdict StatusUntrustedIssuer = Ignored"
| "decision_verdict StatusWrongMethod = Ignored"

definition visible_statements :: "status_snapshot \<Rightarrow> principal_id \<Rightarrow> signed_status list" where
  "visible_statements snapshot who = filter (\<lambda>status. ss_subject (st_statement status) = who
     \<and> status_issuer_visible (sn_trust snapshot) (ss_issuer (st_statement status)) ApproverView) (sn_statements snapshot)"

definition status_verdict ::
  "codec \<Rightarrow> registries \<Rightarrow> trusted_context \<Rightarrow> control_verified_proof \<Rightarrow> approver_anchor \<Rightarrow> (work_meter, approval_verdict) stage" where
  "status_verdict cdc regs context controlled anchor = (case aa_status_policy anchor of
     ExpiryOnly \<Rightarrow> return Counted
   | SnapshotRequired m _ \<Rightarrow>
       (case status_method_for regs (tc_accepted_registries context) m True of
          None \<Rightarrow> return Pending
        | Some implementation \<Rightarrow> (let snapshot = tc_principal_status_snapshot context in
            bind (from_result (first_status_verdict cdc context controlled (visible_statements snapshot (aa_principal anchor))))
              (\<lambda>found. case found of
                 Some verdict \<Rightarrow> return verdict
               | None \<Rightarrow>
                   bind (reserve (sm_maximum_work_units implementation (size_of (sn_statements snapshot)))) (\<lambda>_.
                     case sm_principal implementation (aa_status_policy anchor) snapshot (aa_principal anchor) ApproverView
                         (tc_evaluation_time context) of
                       Inl error \<Rightarrow> from_result (classify (registry_operation_failure error))
                     | Inr decision \<Rightarrow> return (decision_verdict decision))))))"

section \<open>The requirements of a verification\<close>

datatype verdict = VerdictAuthorized approval_satisfaction | VerdictDenied | VerdictIndeterminate

record evaluated_approval =
  ev_verdict :: verdict
  ev_counts :: approval_counts
  ev_threshold :: u16

record approvals =
  ap_candidates :: "(digest \<times> signed_approval) list"
  ap_authority :: "principal_id list"
  ap_evaluated :: "(digest \<times> evaluated_approval) list"

text \<open>What the branches of a plan share: the meter and the approvals.\<close>

record verify_state =
  vs_meter :: work_meter
  vs_approvals :: approvals

definition on_meter :: "(work_meter, 'a) stage \<Rightarrow> (verify_state, 'a) stage" where
  "on_meter m s = (case m (vs_meter s) of (r, meter) \<Rightarrow> (r, s \<lparr> vs_meter := meter \<rparr>))"

fun dedup_by_key :: "('a \<Rightarrow> 'k) \<Rightarrow> 'a list \<Rightarrow> 'a list" where
  "dedup_by_key key (x # y # xs) = (if key x = key y then dedup_by_key key (x # xs) else x # dedup_by_key key (y # xs))"
| "dedup_by_key key xs = xs"

definition authority_principals :: "proof_bundle \<Rightarrow> principal_id list" where
  "authority_principals bundle = remdups_adj (sort
     (concat (map (\<lambda>grant. [gs_issuer (sg_statement grant), gs_subject (sg_statement grant)]) (pb_grants bundle))
      @ map (\<lambda>action. ac_actor (sa_envelope action)) (pb_actions bundle)))"

definition approvals_new :: "codec \<Rightarrow> proof_bundle \<Rightarrow> approvals verified" where
  "approvals_new cdc bundle =
     and_then (collect (\<lambda>approval. and_then (with_codec (approval_digest cdc approval)) (\<lambda>digest. Ok (digest, approval)))
       (pb_approvals bundle)) (\<lambda>candidates.
       Ok \<lparr> ap_candidates = dedup_by_key fst (sort_key fst candidates), ap_authority = authority_principals bundle,
            ap_evaluated = [] \<rparr>)"

definition evaluated_of :: "approvals \<Rightarrow> digest \<Rightarrow> evaluated_approval option" where
  "evaluated_of approvals i = map_option snd (find (\<lambda>(known, _). known = i) (ap_evaluated approvals))"

text \<open>
  The loop over the candidates, with the outcomes and the digests of the counted approvals. The
  authority principals are sorted and the search of the code finds a member.
\<close>

definition skip_approval ::
  "codec \<Rightarrow> trusted_context \<Rightarrow> canonical_action \<Rightarrow> principal_id list \<Rightarrow> digest \<Rightarrow> approval_requirement
     \<Rightarrow> approval_outcome list \<Rightarrow> approval_statement \<Rightarrow> bool" where
  "skip_approval cdc context canonical authority i requirement outcomes statement \<longleftrightarrow>
     \<not> principal_ids_contain (ar_approvers requirement) (as_approver statement)
     \<or> as_approver statement \<in> set authority
     \<or> list_ex (\<lambda>outcome. ao_verdict outcome = Counted \<and> principal_id_equal (ao_approver outcome) (as_approver statement)) outcomes
     \<or> \<not> binds_exact cdc context canonical i statement
     \<or> \<not> window_contains_time (as_validity statement) (tc_evaluation_time context)"

fun count_candidates ::
  "codec \<Rightarrow> registries \<Rightarrow> trusted_context \<Rightarrow> control_verified_proof \<Rightarrow> canonical_action \<Rightarrow> principal_id list \<Rightarrow> digest
     \<Rightarrow> approval_requirement \<Rightarrow> approval_outcome list \<Rightarrow> digest list \<Rightarrow> (digest \<times> signed_approval) list
     \<Rightarrow> (work_meter, approval_outcome list \<times> digest list) stage" where
  "count_candidates cdc regs context controlled canonical authority i requirement outcomes counted [] = return (outcomes, counted)"
| "count_candidates cdc regs context controlled canonical authority i requirement outcomes counted ((digest, approval) # candidates) =
     (let statement = sp_statement approval in
      if skip_approval cdc context canonical authority i requirement outcomes statement
      then count_candidates cdc regs context controlled canonical authority i requirement outcomes counted candidates
      else case approver_anchor_of context (as_approver statement) of
        None \<Rightarrow> count_candidates cdc regs context controlled canonical authority i requirement outcomes counted candidates
      | Some anchor \<Rightarrow>
          if \<not> window_contains_time (aa_validity anchor) (tc_evaluation_time context)
             \<or> sd_principal_method (se_descriptor (sp_signature approval)) \<notin> set (aa_accepted_methods anchor)
          then count_candidates cdc regs context controlled canonical authority i requirement outcomes counted candidates
          else bind (bind (signature_verdict cdc regs context canonical approval) (\<lambda>verdict.
              if verdict = Counted then status_verdict cdc regs context controlled anchor else return verdict)) (\<lambda>verdict.
            if verdict = Ignored then count_candidates cdc regs context controlled canonical authority i requirement outcomes counted candidates
            else count_candidates cdc regs context controlled canonical authority i requirement (outcomes @ [\<lparr> ao_approver = as_approver statement, ao_verdict = verdict \<rparr>])
              (if verdict = Counted then counted @ [digest] else counted) candidates))"

definition approval_verdict_of ::
  "digest \<Rightarrow> approval_requirement \<Rightarrow> approval_outcome list \<Rightarrow> digest list \<Rightarrow> verdict verified" where
  "approval_verdict_of i requirement outcomes counted =
     (let counts = approval_counts (ar_approvers requirement) outcomes in
      case evaluate_threshold_counts (ar_threshold requirement) (ct_counted counts) (ct_pending counts) of
        Authorized \<Rightarrow> (case approval_satisfaction_new i counted of
            Inl _ \<Rightarrow> Err (FailDenied ResourceLimitExceeded) | Inr satisfaction \<Rightarrow> Ok (VerdictAuthorized satisfaction))
      | Indeterminate \<Rightarrow> Ok VerdictIndeterminate
      | Denied \<Rightarrow> Ok VerdictDenied)"

definition remember :: "digest \<Rightarrow> evaluated_approval \<Rightarrow> (verify_state, unit) stage" where
  "remember i evaluated s = (Ok (), s \<lparr> vs_approvals := (vs_approvals s)
     \<lparr> ap_evaluated := ap_evaluated (vs_approvals s) @ [(i, evaluated)] \<rparr> \<rparr>)"

definition evaluate_approval ::
  "codec \<Rightarrow> registries \<Rightarrow> trusted_context \<Rightarrow> control_verified_proof \<Rightarrow> canonical_action \<Rightarrow> identified
     \<Rightarrow> (verify_state, evaluated_approval) stage" where
  "evaluate_approval cdc regs context controlled canonical entry s = (case entry of (i, requirement) \<Rightarrow>
     (case evaluated_of (vs_approvals s) i of
        Some evaluated \<Rightarrow> return evaluated s
      | None \<Rightarrow>
          if length (ap_evaluated (vs_approvals s)) \<ge> MAX_APPROVAL_REQUIREMENTS_PER_VERIFICATION
          then fail (FailDenied ResourceLimitExceeded) s
          else bind (on_meter (count_candidates cdc regs context controlled canonical (ap_authority (vs_approvals s)) i
              requirement [] [] (ap_candidates (vs_approvals s)))) (\<lambda>(outcomes, counted).
            bind (from_result (approval_verdict_of i requirement outcomes counted)) (\<lambda>verdict.
              let evaluated = \<lparr> ev_verdict = verdict, ev_counts = approval_counts (ar_approvers requirement) outcomes,
                    ev_threshold = ar_threshold requirement \<rparr> in
              bind (remember i evaluated) (\<lambda>_. return evaluated))) s))"

fun evaluate_list_from ::
  "codec \<Rightarrow> registries \<Rightarrow> trusted_context \<Rightarrow> control_verified_proof \<Rightarrow> canonical_action \<Rightarrow> bool \<Rightarrow> identified list
     \<Rightarrow> (verify_state, unit) stage" where
  "evaluate_list_from cdc regs context controlled canonical unavailable [] =
     (if unavailable then fail (FailIndeterminate ApprovalUnavailable) else return ())"
| "evaluate_list_from cdc regs context controlled canonical unavailable (entry # entries) =
     bind (evaluate_approval cdc regs context controlled canonical entry) (\<lambda>evaluated. case ev_verdict evaluated of
       VerdictAuthorized _ \<Rightarrow> evaluate_list_from cdc regs context controlled canonical unavailable entries
     | VerdictDenied \<Rightarrow> fail (FailDenied ApprovalThresholdNotMet)
     | VerdictIndeterminate \<Rightarrow> evaluate_list_from cdc regs context controlled canonical True entries)"

definition evaluate_list where
  "evaluate_list cdc regs context controlled canonical entries =
     evaluate_list_from cdc regs context controlled canonical False entries"

definition approval_satisfactions :: "approvals \<Rightarrow> digest list \<Rightarrow> approval_satisfaction list" where
  "approval_satisfactions approvals identifiers =
     remdups_adj (sort_key (\<lambda>s. (sat_requirement s, sat_approvals s)) (List.map_filter (\<lambda>i.
       case evaluated_of approvals i of
         Some evaluated \<Rightarrow> (case ev_verdict evaluated of VerdictAuthorized satisfaction \<Rightarrow> Some satisfaction | _ \<Rightarrow> None)
       | None \<Rightarrow> None) identifiers))"

section \<open>What an authorized requirement means\<close>

definition approval_signed :: "codec \<Rightarrow> registries \<Rightarrow> trusted_context \<Rightarrow> canonical_action \<Rightarrow> signed_approval \<Rightarrow> bool" where
  "approval_signed cdc regs context canonical approval \<longleftrightarrow> (\<exists>preimage.
     approval_signing_preimage cdc (sp_statement approval) (se_descriptor (sp_signature approval)) (cn_profile canonical) = Ok preimage
     \<and> signature_holds regs context (as_approver (sp_statement approval)) (sp_signature approval) preimage
         Assertion (not_before (as_validity (sp_statement approval))))"

definition approver_in_force :: "registries \<Rightarrow> trusted_context \<Rightarrow> approver_anchor \<Rightarrow> bool" where
  "approver_in_force regs context anchor = (case aa_status_policy anchor of
     ExpiryOnly \<Rightarrow> True
   | SnapshotRequired m _ \<Rightarrow> (\<exists>implementation.
       status_method_for regs (tc_accepted_registries context) m True = Some implementation
       \<and> sm_principal implementation (aa_status_policy anchor) (tc_principal_status_snapshot context) (aa_principal anchor)
           ApproverView (tc_evaluation_time context) = Ok StatusActive))"

text \<open>
  A principal approves a requirement: it is no principal of the proof's authority and has signed an
  approval of the exact action and requirement, current, under a current anchor, and is in force.
\<close>

definition approves ::
  "codec \<Rightarrow> registries \<Rightarrow> trusted_context \<Rightarrow> canonical_action \<Rightarrow> principal_id list \<Rightarrow> (digest \<times> signed_approval) list
     \<Rightarrow> digest \<Rightarrow> principal_id \<Rightarrow> bool" where
  "approves cdc regs context canonical authority candidates i who \<longleftrightarrow> who \<notin> set authority
     \<and> (\<exists>approval \<in> snd ` set candidates. \<exists>anchor.
          as_approver (sp_statement approval) = who
          \<and> binds_exact cdc context canonical i (sp_statement approval)
          \<and> window_contains_time (as_validity (sp_statement approval)) (tc_evaluation_time context)
          \<and> approver_anchor_of context who = Some anchor
          \<and> window_contains_time (aa_validity anchor) (tc_evaluation_time context)
          \<and> sd_principal_method (se_descriptor (sp_signature approval)) \<in> set (aa_accepted_methods anchor)
          \<and> approval_signed cdc regs context canonical approval
          \<and> approver_in_force regs context anchor)"

text \<open>Requirements are values of the model's constructor: sorted, distinct and bounded.\<close>

definition constructed :: "approval_requirement \<Rightarrow> bool" where
  "constructed requirement \<longleftrightarrow> approval_requirement_new (ar_approvers requirement) (ar_threshold requirement) = Ok requirement"

definition approved ::
  "codec \<Rightarrow> registries \<Rightarrow> trusted_context \<Rightarrow> canonical_action \<Rightarrow> principal_id list \<Rightarrow> (digest \<times> signed_approval) list
     \<Rightarrow> identified set \<Rightarrow> digest \<Rightarrow> bool" where
  "approved cdc regs context canonical authority candidates known i \<longleftrightarrow> (\<exists>requirement. (i, requirement) \<in> known
     \<and> (constructed requirement \<longrightarrow>
          approval_met {who. approves cdc regs context canonical authority candidates i who} requirement))"

lemma recover_Inr_iff [stage_simps]: "recover m s = (Inr r, s') \<longleftrightarrow> m s = (r, s')"
  by (auto simp: recover_def split: prod.splits)

lemma classify_Inr_iff: "classify failure = Inr verdict \<Longrightarrow> verdict \<noteq> Counted"
  by (auto simp: classify_def split: verification_failure.splits if_splits)

lemma signature_verdict_Counted:
  assumes "signature_verdict cdc regs context canonical approval meter = (Inr Counted, meter')"
  shows "approval_signed cdc regs context canonical approval"
proof -
  obtain preimage where preimage: "approval_signing_preimage cdc (sp_statement approval) (se_descriptor (sp_signature approval))
      (cn_profile canonical) = Inr preimage"
    using assms by (auto simp: signature_verdict_def Let_def stage_simps split: sum.splits)
  obtain result m where run: "evaluate_signature regs context (as_approver (sp_statement approval)) (sp_signature approval)
      preimage Assertion (not_before (as_validity (sp_statement approval))) (Ok (sp_evidence approval)) meter = (result, m)"
    by force
  show ?thesis
  proof (cases result)
    case (Inl failure)
    then show ?thesis using assms preimage run classify_Inr_iff [of failure Counted]
      by (auto simp: signature_verdict_def Let_def stage_simps)
  next
    case (Inr control)
    then show ?thesis using evaluate_signature_holds run preimage by (auto simp: approval_signed_def)
  qed
qed

lemma status_statement_verdict_not_Counted:
  assumes "status_statement_verdict cdc context controlled status = Inr (Some verdict)"
  shows "verdict \<noteq> Counted"
proof -
  obtain i where run: "(case control_for controlled (PrincipalStatusRef i) of
         Inl failure \<Rightarrow> and_then (classify failure) (\<lambda>verdict. Ok (Some verdict))
       | Inr _ \<Rightarrow> (case check_status_extensions context (ss_extensions (st_statement status)) of
           Inl failure \<Rightarrow> and_then (classify failure) (\<lambda>verdict. Ok (Some verdict))
         | Inr _ \<Rightarrow> Ok None)) = Inr (Some verdict)"
    using assms by (auto simp: status_statement_verdict_def and_then_Inr_iff)
  then show ?thesis
    by (cases "control_for controlled (PrincipalStatusRef i)";
        cases "check_status_extensions context (ss_extensions (st_statement status))")
      (auto simp: and_then_Inr_iff dest!: classify_Inr_iff)
qed

lemma first_status_verdict_not_Counted:
  "first_status_verdict cdc context controlled statuses = Inr (Some verdict) \<Longrightarrow> verdict \<noteq> Counted"
proof (induction statuses)
  case (Cons status statuses)
  then obtain found where run: "status_statement_verdict cdc context controlled status = Inr found"
    and "(case found of Some v \<Rightarrow> Ok (Some v) | None \<Rightarrow> first_status_verdict cdc context controlled statuses) = Inr (Some verdict)"
    by (auto simp: and_then_Inr_iff)
  then show ?case using Cons.IH status_statement_verdict_not_Counted by (cases found) auto
qed simp

lemma decision_verdict_Counted [simp]:
  "decision_verdict decision = Counted \<longleftrightarrow> decision = StatusActive"
  "Counted = decision_verdict decision \<longleftrightarrow> decision = StatusActive"
  by (cases decision; simp)+

lemma status_verdict_Counted:
  assumes "status_verdict cdc regs context controlled anchor meter = (Inr Counted, meter')"
  shows "approver_in_force regs context anchor"
proof (cases "aa_status_policy anchor")
  case (SnapshotRequired m age)
  let ?snapshot = "tc_principal_status_snapshot context"
  obtain implementation where found: "status_method_for regs (tc_accepted_registries context) m True = Some implementation"
    using assms SnapshotRequired by (auto simp: status_verdict_def stage_simps split: option.splits)
  obtain first where first: "first_status_verdict cdc context controlled (visible_statements ?snapshot (aa_principal anchor)) = Inr first"
    using assms SnapshotRequired found by (auto simp: status_verdict_def Let_def stage_simps)
  have "first \<noteq> Some Counted" using first_status_verdict_not_Counted first by blast
  then have "first = None" using assms SnapshotRequired found first
    by (cases first) (auto simp: status_verdict_def Let_def stage_simps)
  with first obtain m' where "(case sm_principal implementation (aa_status_policy anchor) ?snapshot (aa_principal anchor) ApproverView
        (tc_evaluation_time context) of
      Inl error \<Rightarrow> from_result (classify (registry_operation_failure error))
    | Inr decision \<Rightarrow> return (decision_verdict decision)) m' = (Inr Counted, meter')"
    using assms SnapshotRequired found by (auto simp: status_verdict_def Let_def stage_simps)
  then show ?thesis using SnapshotRequired found
    by (cases "sm_principal implementation (aa_status_policy anchor) ?snapshot (aa_principal anchor) ApproverView
        (tc_evaluation_time context)")
      (auto simp: approver_in_force_def stage_simps dest!: classify_Inr_iff)
qed (simp add: approver_in_force_def)

lemma count_candidates_Inr:
  assumes "count_candidates cdc regs context controlled canonical authority i requirement outcomes counted candidates meter
      = (Inr (outcomes', counted'), meter')"
    and "set candidates \<subseteq> set all_candidates"
    and "\<forall>x \<in> set outcomes. ao_verdict x = Counted
      \<longrightarrow> approves cdc regs context canonical authority all_candidates i (ao_approver x)"
  shows "\<forall>x \<in> set outcomes'. ao_verdict x = Counted
      \<longrightarrow> approves cdc regs context canonical authority all_candidates i (ao_approver x)"
  using assms
proof (induction candidates arbitrary: outcomes counted meter)
  case (Cons entry candidates)
  obtain digest approval where entry: "entry = (digest, approval)" by force
  let ?statement = "sp_statement approval"
  let ?recurse = "\<lambda>outcomes counted. count_candidates cdc regs context controlled canonical authority i requirement outcomes counted candidates"
  note IH = Cons.IH [OF _ _ Cons.prems(3)]
  have sub: "set candidates \<subseteq> set all_candidates" using Cons.prems(2) by simp
  have member: "approval \<in> snd ` set all_candidates" using Cons.prems(2) entry by force
  show ?case
  proof (cases "skip_approval cdc context canonical authority i requirement outcomes ?statement")
    case True
    then show ?thesis using Cons.prems(1) entry Cons.IH [OF _ sub Cons.prems(3)] by simp
  next
    case False
    show ?thesis
    proof (cases "approver_anchor_of context (as_approver ?statement)")
      case None
      then show ?thesis using False Cons.prems(1) entry Cons.IH [OF _ sub Cons.prems(3)] by simp
    next
      case (Some anchor)
      show ?thesis
      proof (cases "\<not> window_contains_time (aa_validity anchor) (tc_evaluation_time context)
             \<or> sd_principal_method (se_descriptor (sp_signature approval)) \<notin> set (aa_accepted_methods anchor)")
        case True
        then show ?thesis using False Some Cons.prems(1) entry Cons.IH [OF _ sub Cons.prems(3)] by simp
      next
        case current: False
        obtain verdict m where run: "bind (signature_verdict cdc regs context canonical approval) (\<lambda>verdict.
              if verdict = Counted then status_verdict cdc regs context controlled anchor else return verdict) meter = (Inr verdict, m)"
          and tail: "(if verdict = Ignored then ?recurse outcomes counted
            else ?recurse (outcomes @ [\<lparr> ao_approver = as_approver ?statement, ao_verdict = verdict \<rparr>])
              (if verdict = Counted then counted @ [digest] else counted)) m = (Inr (outcomes', counted'), meter')"
          using Cons.prems(1) entry False Some current by (auto simp: bind_Inr_iff)
        have "approves cdc regs context canonical authority all_candidates i (as_approver ?statement)" if "verdict = Counted"
        proof -
          have "approval_signed cdc regs context canonical approval" "approver_in_force regs context anchor"
            using run that by (auto simp: stage_simps split: if_splits
                dest!: signature_verdict_Counted status_verdict_Counted)
          then show ?thesis using False Some current member unfolding approves_def skip_approval_def by blast
        qed
        then show ?thesis
          using tail Cons.IH [OF _ sub Cons.prems(3)] Cons.IH [OF _ sub, where outcomes =
              "outcomes @ [\<lparr> ao_approver = as_approver ?statement, ao_verdict = verdict \<rparr>]"] Cons.prems(3)
          by (cases "verdict = Ignored") auto
      qed
    qed
  qed
qed (simp add: stage_simps)

lemma approval_met_mono: "approval_met A requirement \<Longrightarrow> A \<subseteq> B \<Longrightarrow> approval_met B requirement"
  unfolding approval_met_def by (meson card_mono finite_Int finite_set inf_mono order_refl order_trans)

lemma approval_verdict_of_Authorized:
  assumes "approval_verdict_of i requirement outcomes counted = Inr (VerdictAuthorized satisfaction)" "constructed requirement"
  shows "approval_met {who. approver_counted outcomes who} requirement"
  using assms approval_decision [of "ar_approvers requirement" "ar_threshold requirement" requirement _ outcomes]
  by (auto simp: approval_verdict_of_def constructed_def evaluate_threshold_counts_def Let_def
      split: truth.splits sum.splits if_splits)

text \<open>What every stage that shares the approvals keeps of them, whether it succeeds or fails.\<close>

definition approvals_ok ::
  "codec \<Rightarrow> registries \<Rightarrow> trusted_context \<Rightarrow> canonical_action \<Rightarrow> principal_id list \<Rightarrow> (digest \<times> signed_approval) list
     \<Rightarrow> identified set \<Rightarrow> verify_state \<Rightarrow> bool" where
  "approvals_ok cdc regs context canonical authority candidates known s \<longleftrightarrow>
     ap_authority (vs_approvals s) = authority \<and> ap_candidates (vs_approvals s) = candidates
     \<and> (\<forall>(i, evaluated) \<in> set (ap_evaluated (vs_approvals s)). \<forall>satisfaction.
          ev_verdict evaluated = VerdictAuthorized satisfaction
          \<longrightarrow> approved cdc regs context canonical authority candidates known i)"

lemma evaluated_of_member: "evaluated_of approvals i = Some evaluated \<Longrightarrow> (i, evaluated) \<in> set (ap_evaluated approvals)"
  unfolding evaluated_of_def by (auto simp: find_Some_iff) (metis nth_mem)

lemma on_meter_run: "on_meter m s = (r, s') \<longleftrightarrow> (\<exists>meter. m (vs_meter s) = (r, meter) \<and> s' = s \<lparr> vs_meter := meter \<rparr>)"
  by (auto simp: on_meter_def split: prod.splits)

lemma on_meter_Inr_iff [stage_simps]:
  "on_meter m s = (Inr x, s') \<longleftrightarrow> (\<exists>meter. m (vs_meter s) = (Inr x, meter) \<and> s' = s \<lparr> vs_meter := meter \<rparr>)"
  by (rule on_meter_run)

lemma approvals_ok_meter [simp]:
  "approvals_ok cdc regs context canonical authority candidates known (s \<lparr> vs_meter := m \<rparr>)
     \<longleftrightarrow> approvals_ok cdc regs context canonical authority candidates known s"
  by (simp add: approvals_ok_def)

lemma evaluate_approval_ok:
  assumes run: "evaluate_approval cdc regs context controlled canonical (i, requirement) s = (r, s')"
    and ok: "approvals_ok cdc regs context canonical authority candidates known s"
    and listed: "(i, requirement) \<in> known"
  shows "approvals_ok cdc regs context canonical authority candidates known s'
    \<and> (\<forall>evaluated satisfaction. r = Inr evaluated \<longrightarrow> ev_verdict evaluated = VerdictAuthorized satisfaction
        \<longrightarrow> approved cdc regs context canonical authority candidates known i)"
proof (cases "evaluated_of (vs_approvals s) i")
  case (Some evaluated)
  then have "r = Inr evaluated" "s' = s" using run by (auto simp: evaluate_approval_def return_def)
  then show ?thesis using ok evaluated_of_member [OF Some] by (auto simp: approvals_ok_def)
next
  case None
  show ?thesis
  proof (cases "length (ap_evaluated (vs_approvals s)) \<ge> MAX_APPROVAL_REQUIREMENTS_PER_VERIFICATION")
    case True
    then show ?thesis using run None ok by (auto simp: evaluate_approval_def fail_def)
  next
    case False
    have lists: "ap_authority (vs_approvals s) = authority" "ap_candidates (vs_approvals s) = candidates"
      using ok by (simp_all add: approvals_ok_def)
    obtain result meter where count: "count_candidates cdc regs context controlled canonical authority i requirement [] []
        candidates (vs_meter s) = (result, meter)" by force
    then have lifted: "on_meter (count_candidates cdc regs context controlled canonical authority i requirement [] [] candidates) s
        = (result, s \<lparr> vs_meter := meter \<rparr>)" by (simp add: on_meter_run)
    show ?thesis
    proof (cases result)
      case (Inl failure)
      then show ?thesis using run None False ok lifted lists by (auto simp: evaluate_approval_def bind_def)
    next
      case (Inr pair)
      obtain outcomes counted where pair: "pair = (outcomes, counted)" by force
      have counted_approve: "approves cdc regs context canonical authority candidates i who"
        if "approver_counted outcomes who" for who
        using count_candidates_Inr [of cdc regs _ controlled canonical authority i requirement "[]" "[]" candidates
            "vs_meter s" outcomes counted meter candidates] count Inr pair that
        by (auto simp: approver_counted_def)
      show ?thesis
      proof (cases "approval_verdict_of i requirement outcomes counted")
        case (Inl failure)
        then show ?thesis using run None False ok lifted lists Inr pair
          by (auto simp: evaluate_approval_def bind_def from_result_def)
      next
        case verdict: (Inr verdict)
        have met: "approved cdc regs context canonical authority candidates known i"
          if "verdict = VerdictAuthorized satisfaction" for satisfaction
          unfolding approved_def
          using listed approval_met_mono [OF approval_verdict_of_Authorized [of i requirement outcomes counted satisfaction]]
            verdict that counted_approve by blast
        let ?evaluated = "\<lparr> ev_verdict = verdict, ev_counts = approval_counts (ar_approvers requirement) outcomes,
            ev_threshold = ar_threshold requirement \<rparr>"
        have "r = Inr ?evaluated" and "s' = s \<lparr> vs_meter := meter, vs_approvals := (vs_approvals s)
            \<lparr> ap_evaluated := ap_evaluated (vs_approvals s) @ [(i, ?evaluated)] \<rparr> \<rparr>"
          using run None False lifted lists Inr pair verdict
          by (auto simp: evaluate_approval_def bind_def from_result_def remember_def return_def Let_def)
        then show ?thesis using ok met by (auto simp: approvals_ok_def)
      qed
    qed
  qed
qed

lemma evaluate_list_from_ok:
  assumes "evaluate_list_from cdc regs context controlled canonical unavailable entries s = (r, s')"
    and "approvals_ok cdc regs context canonical authority candidates known s" and "set entries \<subseteq> known"
  shows "approvals_ok cdc regs context canonical authority candidates known s'
    \<and> (r = Inr () \<longrightarrow> list_all (\<lambda>entry. approved cdc regs context canonical authority candidates known (fst entry)) entries)"
  using assms
proof (induction entries arbitrary: unavailable s)
  case Nil
  then show ?case by (auto simp: fail_def return_def split: if_splits)
next
  case (Cons entry entries)
  obtain i requirement where entry: "entry = (i, requirement)" by force
  obtain result t where run: "evaluate_approval cdc regs context controlled canonical entry s = (result, t)" by force
  have ok: "approvals_ok cdc regs context canonical authority candidates known t"
    and met: "\<And>evaluated satisfaction. result = Inr evaluated \<Longrightarrow> ev_verdict evaluated = VerdictAuthorized satisfaction
        \<Longrightarrow> approved cdc regs context canonical authority candidates known i"
    using evaluate_approval_ok [OF run [unfolded entry] Cons.prems(2)] Cons.prems(3) entry by auto
  have sub: "set entries \<subseteq> known" using Cons.prems(3) by simp
  note IH = Cons.IH [OF _ ok sub]
  show ?case
  proof (cases result)
    case (Inl failure)
    then show ?thesis using Cons.prems(1) run ok by (auto simp: bind_def)
  next
    case (Inr evaluated)
    show ?thesis
    proof (cases "ev_verdict evaluated")
      case (VerdictAuthorized satisfaction)
      then show ?thesis using Cons.prems(1) run Inr IH met entry by (auto simp: bind_def)
    next
      case VerdictDenied
      then show ?thesis using Cons.prems(1) run Inr ok by (auto simp: bind_def fail_def)
    next
      case VerdictIndeterminate
      then have tail: "evaluate_list_from cdc regs context controlled canonical True entries t = (r, s')"
        using Cons.prems(1) run Inr by (simp add: bind_def)
      moreover have "evaluate_list_from cdc regs context controlled canonical True es u \<noteq> (Inr (), u')" for es u u'
        by (induction es arbitrary: u) (auto simp: stage_simps split: verdict.splits)
      ultimately show ?thesis using IH by blast
    qed
  qed
qed

section \<open>Work\<close>

lemma metered_recover [metered_intros]: "metered meter_of m \<Longrightarrow> metered meter_of (recover m)"
  by (simp add: metered_def recover_def split: prod.splits) (metis snd_conv)

lemma metered_on_meter [metered_intros]: "metered id m \<Longrightarrow> metered vs_meter (on_meter m)"
  by (simp add: metered_def on_meter_def split: prod.splits) (metis snd_conv)

lemma metered_signature_verdict [metered_intros]: "metered id (signature_verdict cdc regs context canonical approval)"
  unfolding signature_verdict_def Let_def by (intro metered_intros)

lemma metered_status_verdict [metered_intros]: "metered id (status_verdict cdc regs context controlled anchor)"
  unfolding status_verdict_def Let_def by (intro metered_intros)

lemma metered_count_candidates [metered_intros]:
  "metered id (count_candidates cdc regs context controlled canonical authority i requirement outcomes counted candidates)"
proof (induction candidates arbitrary: outcomes counted)
  case (Cons entry candidates)
  obtain digest approval where entry: "entry = (digest, approval)" by force
  show ?case unfolding entry count_candidates.simps Let_def by (intro metered_intros Cons.IH)
qed simp

lemma metered_remember [metered_intros]: "metered vs_meter (remember i evaluated)"
  by (simp add: metered_def remember_def)

lemma metered_evaluate_approval [metered_intros]:
  "metered vs_meter (evaluate_approval cdc regs context controlled canonical entry)"
proof -
  obtain i requirement where entry: "entry = (i, requirement)" by force
  have "metered vs_meter (bind (on_meter (count_candidates cdc regs context controlled canonical authority i
              requirement [] [] candidates)) (\<lambda>(outcomes, counted).
            bind (from_result (approval_verdict_of i requirement outcomes counted)) (\<lambda>verdict.
              let evaluated = \<lparr> ev_verdict = verdict, ev_counts = approval_counts (ar_approvers requirement) outcomes,
                    ev_threshold = ar_threshold requirement \<rparr> in
              bind (remember i evaluated) (\<lambda>_. return evaluated))))" for authority candidates
    unfolding Let_def by (intro metered_intros)
  then show ?thesis
    unfolding metered_def entry by (auto simp: evaluate_approval_def return_def fail_def split: option.splits)
qed

lemma metered_case_approval_verdict [metered_intros]:
  "(\<And>a. metered meter_of (f a)) \<Longrightarrow> metered meter_of b \<Longrightarrow> metered meter_of c
     \<Longrightarrow> metered meter_of (case v of VerdictAuthorized a \<Rightarrow> f a | VerdictDenied \<Rightarrow> b | VerdictIndeterminate \<Rightarrow> c)"
  by (cases v) simp_all

lemma metered_evaluate_list_from [metered_intros]:
  "metered vs_meter (evaluate_list_from cdc regs context controlled canonical unavailable entries)"
proof (induction entries arbitrary: unavailable)
  case Nil
  show ?case unfolding evaluate_list_from.simps by (intro metered_intros)
next
  case (Cons entry entries)
  show ?case unfolding evaluate_list_from.simps by (intro metered_intros Cons.IH)
qed

end
