(* ===== verification/Verifier_Branch.thy ===== *)
theory Verifier_Branch
  imports Verifier_Approval
begin

text \<open>
  One branch of an authorization plan, \<open>verify_branch\<close> of \<open>core/crates/auths-verifier/src/lib.rs\<close>: the
  chain of the branch's action, the walk of the delegation edges from a trust anchor, and all the checks
  of the branch from that anchor; the anchors of the root principal are tried in order.
\<close>

section \<open>The delegation walk\<close>

text \<open>
  The loop carries the index and the previous grant, the accumulated authority and the reports; on each
  grant after the first the parent's requirements are looked for and the work of the laws is reserved.
\<close>

fun delegate_from ::
  "codec \<Rightarrow> registries \<Rightarrow> trusted_context \<Rightarrow> control_verified_proof \<Rightarrow> nat \<Rightarrow> signed_grant option \<Rightarrow> effective_authority
     \<Rightarrow> participant_assurance list \<Rightarrow> signed_grant list
     \<Rightarrow> (work_meter, effective_authority \<times> participant_assurance list) stage" where
  "delegate_from cdc regs context controlled index previous authority reports [] = return (authority, reports)"
| "delegate_from cdc regs context controlled index previous authority reports (grant # grants) =
     bind (case previous of
         None \<Rightarrow> return ()
       | Some parent \<Rightarrow> bind (from_result (require_parent_requirements cdc parent grant)) (\<lambda>_.
           reserve (laws_work regs (tc_accepted_registries context) (gs_extensions (sg_statement grant))
             (gs_extensions (sg_statement parent))))) (\<lambda>_.
     bind (from_result (with_codec (grant_id_of cdc (sg_statement grant)))) (\<lambda>i.
     bind (from_result (map_failure FailDenied
         (delegate i (sg_statement grant) (accepted_laws regs (tc_accepted_registries context)) authority))) (\<lambda>authority'.
     bind (from_result (control_for controlled (GrantRef i))) (\<lambda>control.
     bind (from_result (participant_report (fst control) (snd control) (grant_issuer_role index))) (\<lambda>report.
     bind (evaluate_extensions regs context (gs_extensions (sg_statement grant))) (\<lambda>_.
       delegate_from cdc regs context controlled (Suc index) (Some grant) authority' (reports @ [report]) grants))))))"

record branch_input =
  bi_action :: signed_action
  bi_action_id :: digest
  bi_chain :: "signed_grant list"
  bi_root_control :: "principal_id \<times> control_evidence"

definition delegate_chain ::
  "codec \<Rightarrow> registries \<Rightarrow> trusted_context \<Rightarrow> control_verified_proof \<Rightarrow> branch_input \<Rightarrow> trust_anchor
     \<Rightarrow> participant_assurance list \<Rightarrow> (work_meter, participant_assurance list) stage" where
  "delegate_chain cdc regs context controlled branch anchor reports =
     bind (delegate_from cdc regs context controlled 0 None (from_anchor anchor) reports (bi_chain branch))
       (\<lambda>(authority, reports).
       bind (from_result (map_failure FailDenied (authorizes authority (sa_envelope (bi_action branch))
           (rg_budget_free_profiles (tc_accepted_registries context))))) (\<lambda>_. return reports))"

section \<open>A branch from an anchor\<close>

definition action_or_first_method :: "signed_action \<Rightarrow> signed_grant list \<Rightarrow> bytes" where
  "action_or_first_method action grants = sd_principal_method (se_descriptor (case grants of
     [] \<Rightarrow> sa_signature action | grant # _ \<Rightarrow> sg_signature grant))"

definition check_chain_status ::
  "codec \<Rightarrow> registries \<Rightarrow> trusted_context \<Rightarrow> control_verified_proof \<Rightarrow> trust_anchor \<Rightarrow> signed_grant list
     \<Rightarrow> (work_meter, unit) stage" where
  "check_chain_status cdc regs context controlled anchor grants = for_each (\<lambda>grant.
     bind (from_result (with_codec (grant_id_of cdc (sg_statement grant)))) (\<lambda>i.
     bind (check_grant_status cdc regs context controlled (gs_status_policy (sg_statement grant)) i anchor) (\<lambda>_.
       check_principal_status cdc regs context controlled (ta_status_policy anchor) (gs_subject (sg_statement grant))
         RevocationList anchor))) grants"

record branch_authority =
  br_action_id :: digest
  br_assurance :: "participant_assurance list"
  br_assurance_satisfactions :: "assurance_satisfaction list"
  br_observation_satisfactions :: "observation_satisfaction list"
  br_approval_requirements :: "digest list"

text \<open>The checks that use the meter only, up to the observation stage.\<close>

definition branch_checks ::
  "codec \<Rightarrow> registries \<Rightarrow> trusted_context \<Rightarrow> control_verified_proof \<Rightarrow> canonical_action \<Rightarrow> branch_input \<Rightarrow> trust_anchor
     \<Rightarrow> (work_meter, participant_assurance list \<times> assurance_satisfaction list \<times> observation_satisfaction list) stage" where
  "branch_checks cdc regs context controlled canonical branch anchor =
     (let action = bi_action branch; grants = bi_chain branch in
      bind (require (action_or_first_method action grants \<in> set (ta_accepted_methods anchor)
          \<and> ta_assurance_policy anchor = ay_id (tc_assurance_policy context)) (FailDenied UntrustedRoot)) (\<lambda>_.
      bind (check_principal_status cdc regs context controlled (ta_status_policy anchor) (ta_principal anchor)
          ListingRequired anchor) (\<lambda>_.
      bind (check_chain_status cdc regs context controlled anchor grants) (\<lambda>_.
      bind (validate_resource_constraints regs context anchor grants action) (\<lambda>_.
      bind (validate_budget_constraints regs context anchor grants action) (\<lambda>_.
      bind (if grants = [] then bind (from_result (participant_report (fst (bi_root_control branch))
            (snd (bi_root_control branch)) RootRole)) (\<lambda>report. return [report]) else return []) (\<lambda>reports.
      bind (delegate_chain cdc regs context controlled branch anchor reports) (\<lambda>reports.
      bind (from_result (control_for controlled (ActionRef (bi_action_id branch)))) (\<lambda>control.
      bind (from_result (participant_report (fst control) (snd control) ActorRole)) (\<lambda>report.
      bind (evaluate_branch_assurance regs context (reports @ [report])) (\<lambda>satisfactions.
      bind (evaluate_observations cdc regs context \<lparr> ob_chain = grants, ob_root = ta_principal anchor, ob_action = action,
          ob_canonical = canonical \<rparr>) (\<lambda>observations.
        return (reports @ [report], satisfactions, observations)))))))))))))"

definition verify_branch_from_anchor ::
  "codec \<Rightarrow> registries \<Rightarrow> trusted_context \<Rightarrow> control_verified_proof \<Rightarrow> canonical_action \<Rightarrow> branch_input \<Rightarrow> trust_anchor
     \<Rightarrow> (verify_state, branch_authority) stage" where
  "verify_branch_from_anchor cdc regs context controlled canonical branch anchor =
     bind (on_meter (branch_checks cdc regs context controlled canonical branch anchor))
       (\<lambda>(reports, satisfactions, observations).
     bind (from_result (chain_approvals cdc (bi_chain branch))) (\<lambda>approvals.
     bind (evaluate_list cdc regs context controlled canonical approvals) (\<lambda>_.
       return \<lparr> br_action_id = bi_action_id branch, br_assurance = reports, br_assurance_satisfactions = satisfactions,
         br_observation_satisfactions = observations, br_approval_requirements = map fst approvals \<rparr>)))"

section \<open>A branch\<close>

fun try_anchors ::
  "codec \<Rightarrow> registries \<Rightarrow> trusted_context \<Rightarrow> control_verified_proof \<Rightarrow> canonical_action \<Rightarrow> branch_input
     \<Rightarrow> verification_failure option \<Rightarrow> trust_anchor list \<Rightarrow> (verify_state, branch_authority) stage" where
  "try_anchors cdc regs context controlled canonical branch first_failure [] =
     fail (case first_failure of Some failure \<Rightarrow> failure | None \<Rightarrow> FailDenied UntrustedRoot)"
| "try_anchors cdc regs context controlled canonical branch first_failure (anchor # anchors) =
     bind (recover (verify_branch_from_anchor cdc regs context controlled canonical branch anchor)) (\<lambda>result. case result of
       Inr authority \<Rightarrow> return authority
     | Inl failure \<Rightarrow> try_anchors cdc regs context controlled canonical branch
         (Some (case first_failure of Some first \<Rightarrow> first | None \<Rightarrow> failure)) anchors)"

text \<open>
  A walk that does not return would be the value \<open>None\<close>; resolution excludes it, so the failure given
  for it here is never taken.
\<close>

definition walked_chain :: "resolved_proof \<Rightarrow> signed_action \<Rightarrow> signed_grant list verified" where
  "walked_chain resolved action = (case branch_chain resolved action of
     Some r \<Rightarrow> r | None \<Rightarrow> Err (FailDenied ReferenceCycle))"

definition root_statement :: "codec \<Rightarrow> digest \<Rightarrow> signed_grant list \<Rightarrow> statement_ref verified" where
  "root_statement cdc i grants = (case grants of
     [] \<Rightarrow> Ok (ActionRef i)
   | grant # _ \<Rightarrow> and_then (with_codec (grant_id_of cdc (sg_statement grant))) (\<lambda>g. Ok (GrantRef g)))"

definition root_principal :: "signed_action \<Rightarrow> signed_grant list \<Rightarrow> principal_id" where
  "root_principal action grants = (case grants of
     [] \<Rightarrow> ac_actor (sa_envelope action) | grant # _ \<Rightarrow> gs_issuer (sg_statement grant))"

definition branch_input_for ::
  "codec \<Rightarrow> control_verified_proof \<Rightarrow> proof_ref \<Rightarrow> branch_input verified" where
  "branch_input_for cdc controlled reference =
     and_then (case find (\<lambda>action. ac_proof_ref (sa_envelope action) = reference)
         (pb_actions (dp_bundle (rp_decoded (cp_resolved controlled)))) of
       None \<Rightarrow> Err (FailDenied MissingReference) | Some action \<Rightarrow> Ok action) (\<lambda>action.
     and_then (with_codec (action_id_of cdc (sa_envelope action))) (\<lambda>i.
     and_then (walked_chain (cp_resolved controlled) action) (\<lambda>grants.
     and_then (root_statement cdc i grants) (\<lambda>statement.
     and_then (control_for controlled statement) (\<lambda>control.
       Ok \<lparr> bi_action = action, bi_action_id = i, bi_chain = grants, bi_root_control = control \<rparr>)))))"

definition verify_branch ::
  "codec \<Rightarrow> registries \<Rightarrow> trusted_context \<Rightarrow> control_verified_proof \<Rightarrow> canonical_action \<Rightarrow> proof_ref
     \<Rightarrow> (verify_state, branch_authority) stage" where
  "verify_branch cdc regs context controlled canonical reference =
     bind (from_result (branch_input_for cdc controlled reference)) (\<lambda>branch.
       try_anchors cdc regs context controlled canonical branch None
         (filter (\<lambda>anchor. ta_principal anchor = root_principal (bi_action branch) (bi_chain branch))
           (tc_trust_anchors context)))"

section \<open>The statement behind a control\<close>

text \<open>Records determine statements: the grant or action of a record is the only one with its identifier.\<close>

lemma grant_at_unique:
  assumes agree: "records_agree cdc bundle records" and "entry \<in> set records"
    and "g \<in> set (pb_grants bundle)" "grant_id_of cdc (sg_statement g) = Inr (gr_id entry)"
  shows "grant_at bundle entry = g"
proof -
  obtain n where n: "n < length (pb_grants bundle)" "pb_grants bundle ! n = g" using assms(3) in_set_conv_nth by metis
  then have "(n, g) \<in> set (enumerate 0 (pb_grants bundle))" by (simp add: in_set_enumerate_eq)
  then have "(n, Inr (gr_id entry)) \<in> set (map (\<lambda>(n, g). (n, grant_id_of cdc (sg_statement g))) (enumerate 0 (pb_grants bundle)))"
    using assms(4) by force
  also have "\<dots> = set (map (\<lambda>r. (gr_index r, Inr (gr_id r))) records)"
    using agree [unfolded records_agree_def, THEN conjunct2, THEN mset_eq_setD] by (rule sym)
  finally obtain r where "r \<in> set records" "gr_index r = n" "gr_id r = gr_id entry" by auto
  moreover have "distinct (map gr_id records)" using agree by (simp add: records_agree_def)
  ultimately have "r = entry" using assms(2) by (auto simp: distinct_map inj_on_def)
  then show ?thesis using n \<open>gr_index r = n\<close> by (simp add: grant_at_def)
qed

lemma action_records_from_Inr:
  "action_records_from cdc computed index proof_refs actions = Inr records
     \<Longrightarrow> list_all2 (\<lambda>n r. acr_index r = index + n \<and> action_id_of cdc (sa_envelope (actions ! n)) = Inr (acr_id r))
          [0..<length actions] records"
proof (induction actions arbitrary: index proof_refs records)
  case (Cons action actions)
  obtain i rest where first: "action_id_of cdc (sa_envelope action) = Inr i"
    and tail: "action_records_from cdc computed (Suc index) (ac_proof_ref (sa_envelope action) # proof_refs) actions = Inr rest"
    and "records = \<lparr> acr_id = i, acr_index = index \<rparr> # rest"
    using Cons.prems by (auto simp: and_then_Inr_iff split: if_splits)
  then show ?case using Cons.IH [OF tail]
    by (auto simp: list_all2_conv_all_nth nth_Cons split: nat.splits simp del: upt_Suc)
qed simp

lemma action_at_unique:
  assumes "action_records cdc computed bundle = Inr records" and "entry \<in> set records"
    and "a \<in> set (pb_actions bundle)" "action_id_of cdc (sa_envelope a) = Inr (acr_id entry)"
  shows "action_at bundle entry = a"
proof -
  obtain raw where raw: "action_records_from cdc computed 0 [] (pb_actions bundle) = Inr raw"
    and records: "records = sort_key acr_id raw" and distinct: "distinct (map acr_id records)"
    using assms(1) by (auto simp: action_records_def and_then_Inr_iff Let_def adjacent_equal_sorted split: if_splits)
  obtain n where n: "n < length (pb_actions bundle)" "pb_actions bundle ! n = a" using assms(3) in_set_conv_nth by metis
  note all = action_records_from_Inr [OF raw]
  have "n < length raw" and "acr_index (raw ! n) = n" and "acr_id (raw ! n) = acr_id entry"
    using all n assms(4) by (auto simp: list_all2_conv_all_nth)
  moreover have "raw ! n \<in> set records" using \<open>n < length raw\<close> records by simp
  ultimately have "raw ! n = entry" using assms(2) distinct by (auto simp: distinct_map inj_on_def)
  then show ?thesis using n \<open>acr_index (raw ! n) = n\<close> by (simp add: action_at_def)
qed

lemma control_for_grant:
  assumes resolve: "resolve_proof cdc decoded context = Inr resolved"
    and control: "verify_principal_control cdc regs resolved context = Inr controlled"
    and "g \<in> set (pb_grants (dp_bundle decoded))" "grant_id_of cdc (sg_statement g) = Inr i"
    and "control_for controlled (GrantRef i) = Inr (who, evidence)"
  shows "grant_signed cdc regs context g \<and> who = gs_issuer (sg_statement g)"
proof -
  obtain used where decoded: "rp_decoded resolved = decoded"
    and records: "grant_records cdc (dp_bundle decoded) = Inr (rp_grants resolved)"
    using resolve_proof_parts [OF resolve] .
  obtain entry where "entry \<in> set (rp_grants resolved)" "gr_id entry = i"
    and "grant_signed cdc regs context (grant_at (dp_bundle decoded) entry)"
    and "who = gs_issuer (sg_statement (grant_at (dp_bundle decoded) entry))"
    using control_for_Inr [OF control assms(5)] decoded by auto
  then show ?thesis using grant_at_unique [OF grant_records_agree [OF records]] assms(3,4) by metis
qed

lemma control_for_action:
  assumes resolve: "resolve_proof cdc decoded context = Inr resolved"
    and control: "verify_principal_control cdc regs resolved context = Inr controlled"
    and "a \<in> set (pb_actions (dp_bundle decoded))" "action_id_of cdc (sa_envelope a) = Inr i"
    and "control_for controlled (ActionRef i) = Inr (who, evidence)"
  shows "action_signed cdc regs context a \<and> who = ac_actor (sa_envelope a)"
proof -
  obtain used where decoded: "rp_decoded resolved = decoded"
    and records: "action_records cdc (rp_plan_id resolved) (dp_bundle decoded) = Inr (rp_actions resolved)"
    using resolve_proof_parts [OF resolve] .
  obtain entry where "entry \<in> set (rp_actions resolved)" "acr_id entry = i"
    and "action_signed cdc regs context (action_at (dp_bundle decoded) entry)"
    and "who = ac_actor (sa_envelope (action_at (dp_bundle decoded) entry))"
    using control_for_Inr [OF control assms(5)] decoded by auto
  then show ?thesis using action_at_unique [OF records] assms(3,4) by metis
qed

section \<open>What an authorized branch means\<close>

lemma delegate_from_Inr:
  assumes "delegate_from cdc regs context controlled index previous authority reports grants meter
      = (Inr (authority', reports'), meter')"
    and "map (grant_id_of cdc \<circ> sg_statement) grants = map Inr ids"
  shows "delegate_all (accepted_laws regs (tc_accepted_registries context)) (zip ids (map sg_statement grants)) authority
      = Inr authority'
    \<and> (\<exists>new. reports' = reports @ new \<and> map pa_role new = map grant_issuer_role [index..<index + length grants]
        \<and> list_all2 (\<lambda>i report. \<exists>evidence. control_for controlled (GrantRef i) = Inr (pa_principal report, evidence)) ids new)"
  using assms
proof (induction grants arbitrary: index previous authority reports meter ids)
  case (Cons grant grants)
  obtain i rest where ids: "ids = i # rest" "grant_id_of cdc (sg_statement grant) = Inr i"
    "map (grant_id_of cdc \<circ> sg_statement) grants = map Inr rest"
    using Cons.prems(2) by (cases ids) (auto simp: comp_def)
  obtain authority1 who evidence report m where
    edge: "delegate i (sg_statement grant) (accepted_laws regs (tc_accepted_registries context)) authority = Inr authority1"
    and control: "control_for controlled (GrantRef i) = Inr (who, evidence)"
    and report: "participant_report who evidence (grant_issuer_role index) = Inr report"
    and tail: "delegate_from cdc regs context controlled (Suc index) (Some grant) authority1 (reports @ [report]) grants m
      = (Inr (authority', reports'), meter')"
    using Cons.prems(1) ids(2) by (auto simp: stage_simps)
  obtain new where rest: "delegate_all (accepted_laws regs (tc_accepted_registries context)) (zip rest (map sg_statement grants)) authority1
      = Inr authority'" "reports' = (reports @ [report]) @ new"
    "map pa_role new = map grant_issuer_role [Suc index..<Suc index + length grants]"
    "list_all2 (\<lambda>i report. \<exists>evidence. control_for controlled (GrantRef i) = Inr (pa_principal report, evidence)) rest new"
    using Cons.IH [OF tail ids(3)] by blast
  have "map pa_role (report # new) = map grant_issuer_role [index..<index + length (grant # grants)]"
    using participant_report_Inr [OF report] rest(3) by (simp add: upt_conv_Cons del: upt_Suc)
  moreover have "list_all2 (\<lambda>i report. \<exists>evidence. control_for controlled (GrantRef i) = Inr (pa_principal report, evidence))
      ids (report # new)" using participant_report_Inr [OF report] rest(4) control ids(1) by simp
  moreover have "reports' = reports @ (report # new)" using rest(2) by simp
  ultimately show ?case using edge rest(1) ids(1) by (auto simp: and_then_Inr_iff)
qed (auto simp: stage_simps)

text \<open>
  The participants of a branch with their roles, and the assurance policy met by the reports about them.
  A policy has fewer requirements than the width of a requirement index can number.
\<close>

definition branch_participants :: "signed_action \<Rightarrow> signed_grant list \<Rightarrow> (principal_id \<times> participant_role) list" where
  "branch_participants action grants =
     (if grants = [] then [(ac_actor (sa_envelope action), RootRole)]
      else zip (map (gs_issuer \<circ> sg_statement) grants) (map grant_issuer_role [0..<length grants]))
     @ [(ac_actor (sa_envelope action), ActorRole)]"

definition assured :: "registries \<Rightarrow> trusted_context \<Rightarrow> participant_assurance list \<Rightarrow> bool" where
  "assured regs context reports \<longleftrightarrow>
     (length (ay_requirements (tc_assurance_policy context)) \<le> 65536 \<and> length reports < 2 ^ 64 \<longrightarrow>
       list_all (requirement_met (implied_by (accepted_implications regs (tc_accepted_registries context))) reports
         (tc_evaluation_time context)) (ay_requirements (tc_assurance_policy context)))"

text \<open>
  All that is established of a branch: a resolved chain from the action to a root that the anchor
  trusts; every grant and the action signed by their principals; the accumulated delegation from the
  anchor, covering the action; principals and grants in force; resources within the anchor's
  namespaces; the assurance policy met; and the observations that the chain asks for.
\<close>

definition branch_holds ::
  "codec \<Rightarrow> registries \<Rightarrow> trusted_context \<Rightarrow> canonical_action \<Rightarrow> resolved_proof \<Rightarrow> signed_action \<Rightarrow> trust_anchor
     \<Rightarrow> signed_grant list \<Rightarrow> grant_id list \<Rightarrow> effective_authority \<Rightarrow> participant_assurance list \<Rightarrow> bool" where
  "branch_holds cdc regs context canonical resolved action anchor grants ids effective reports \<longleftrightarrow>
     resolved_chain cdc resolved action grants ids
     \<and> ta_principal anchor = root_principal action grants
     \<and> action_or_first_method action grants \<in> set (ta_accepted_methods anchor)
     \<and> list_all (grant_signed cdc regs context) grants \<and> action_signed cdc regs context action
     \<and> delegate_all (accepted_laws regs (tc_accepted_registries context)) (zip ids (map sg_statement grants))
         (from_anchor anchor) = Ok effective
     \<and> authorizes effective (sa_envelope action) (rg_budget_free_profiles (tc_accepted_registries context)) = Ok ()
     \<and> principal_in_force regs context (ta_status_policy anchor) (ta_principal anchor) ListingRequired anchor
     \<and> list_all2 (\<lambda>i grant. grant_in_force regs context (gs_status_policy (sg_statement grant)) i anchor
          \<and> principal_in_force regs context (ta_status_policy anchor) (gs_subject (sg_statement grant)) RevocationList anchor)
         ids grants
     \<and> resource_allowed regs context anchor (pm_resource (ac_permission (sa_envelope action)))
     \<and> (\<forall>grant \<in> set grants. \<forall>permission \<in> set (gs_permissions (sg_statement grant)).
          resource_allowed regs context anchor (pm_resource permission))
     \<and> map (\<lambda>report. (pa_principal report, pa_role report)) reports = branch_participants action grants
     \<and> ta_assurance_policy anchor = ay_id (tc_assurance_policy context) \<and> assured regs context reports
     \<and> (\<exists>requirements. chain_observations cdc grants = Ok requirements
          \<and> list_all (observation_met cdc regs context \<lparr> ob_chain = grants, ob_root = ta_principal anchor,
              ob_action = action, ob_canonical = canonical \<rparr>) requirements)"

lemma check_chain_status_Inr:
  assumes "check_chain_status cdc regs context controlled anchor grants meter = (Inr u, meter')"
    and "map (grant_id_of cdc \<circ> sg_statement) grants = map Inr ids"
  shows "list_all2 (\<lambda>i grant. grant_in_force regs context (gs_status_policy (sg_statement grant)) i anchor
          \<and> principal_in_force regs context (ta_status_policy anchor) (gs_subject (sg_statement grant)) RevocationList anchor)
         ids grants"
proof -
  have len: "length ids = length grants" using assms(2) by (metis length_map)
  have "grant_in_force regs context (gs_status_policy (sg_statement (grants ! n))) (ids ! n) anchor
      \<and> principal_in_force regs context (ta_status_policy anchor) (gs_subject (sg_statement (grants ! n))) RevocationList anchor"
    if n: "n < length grants" for n
  proof -
    have "grant_id_of cdc (sg_statement (grants ! n)) = Inr (ids ! n)"
      using assms(2) n len by (metis comp_apply nth_map)
    then show ?thesis
      using for_each_Inr_iff [OF assms(1) [unfolded check_chain_status_def], of "grants ! n"] n
      by (auto simp: stage_simps dest!: check_grant_status_Inr check_principal_status_Inr)
  qed
  then show ?thesis using len by (simp add: list_all2_conv_all_nth)
qed

lemma map_pair_zip: "map f xs = as \<Longrightarrow> map g xs = bs \<Longrightarrow> map (\<lambda>x. (f x, g x)) xs = zip as bs"
  by (auto simp: zip_map1 zip_map2 zip_same_conv_map)

lemma branch_checks_Inr:
  assumes resolve: "resolve_proof cdc decoded context = Inr resolved"
    and control: "verify_principal_control cdc regs resolved context = Inr controlled"
    and run: "branch_checks cdc regs context controlled canonical branch anchor meter = (Inr result, meter')"
    and action: "bi_action branch \<in> set (pb_actions (dp_bundle decoded))"
      "action_id_of cdc (sa_envelope (bi_action branch)) = Inr (bi_action_id branch)"
    and walked: "resolved_chain cdc resolved (bi_action branch) (bi_chain branch) ids"
    and root: "ta_principal anchor = root_principal (bi_action branch) (bi_chain branch)"
    and own: "bi_chain branch = [] \<Longrightarrow> control_for controlled (ActionRef (bi_action_id branch)) = Inr (bi_root_control branch)"
  shows "\<exists>effective. branch_holds cdc regs context canonical resolved (bi_action branch) anchor (bi_chain branch) ids effective
    (fst result)"
proof -
  let ?grants = "bi_chain branch"
  have named: "map (grant_id_of cdc \<circ> sg_statement) ?grants = map Inr ids"
    and members: "set ?grants \<subseteq> set (pb_grants (dp_bundle (rp_decoded resolved)))"
    using walked by (simp_all add: resolved_chain_def)
  have decoded: "rp_decoded resolved = decoded" using resolve_proof_parts [OF resolve] .
  obtain m1 m2 m3 m4 m5 m6 m7 m8 m9 reports effective reports' who evidence report satisfactions observations where
    methods: "action_or_first_method (bi_action branch) ?grants \<in> set (ta_accepted_methods anchor)"
      "ta_assurance_policy anchor = ay_id (tc_assurance_policy context)"
    and root_status: "check_principal_status cdc regs context controlled (ta_status_policy anchor) (ta_principal anchor)
      ListingRequired anchor meter = (Inr (), m1)"
    and chain_status: "check_chain_status cdc regs context controlled anchor ?grants m1 = (Inr (), m2)"
    and resources: "validate_resource_constraints regs context anchor ?grants (bi_action branch) m2 = (Inr (), m3)"
    and initial: "(if ?grants = [] then bind (from_result (participant_report (fst (bi_root_control branch))
            (snd (bi_root_control branch)) RootRole)) (\<lambda>report. return [report]) else return []) m9 = (Inr reports, m4)"
    and delegated: "delegate_from cdc regs context controlled 0 None (from_anchor anchor) reports ?grants m4
      = (Inr (effective, reports'), m5)"
    and covered: "authorizes effective (sa_envelope (bi_action branch))
      (rg_budget_free_profiles (tc_accepted_registries context)) = Inr ()"
    and actor: "control_for controlled (ActionRef (bi_action_id branch)) = Inr (who, evidence)"
    and last: "participant_report who evidence ActorRole = Inr report"
    and assurance: "evaluate_branch_assurance regs context (reports' @ [report]) m6 = (Inr satisfactions, m7)"
    and observed: "evaluate_observations cdc regs context \<lparr> ob_chain = ?grants, ob_root = ta_principal anchor,
      ob_action = bi_action branch, ob_canonical = canonical \<rparr> m7 = (Inr observations, m8)"
    and result: "result = (reports' @ [report], satisfactions, observations)"
    using run unfolding branch_checks_def delegate_chain_def Let_def
    by (simp add: stage_simps split_paired_Ex cong: if_weak_cong) (elim exE conjE; rule that; assumption?; simp)
  obtain new where grants: "delegate_all (accepted_laws regs (tc_accepted_registries context)) (zip ids (map sg_statement ?grants))
      (from_anchor anchor) = Inr effective"
    and new: "reports' = reports @ new" "map pa_role new = map grant_issuer_role [0..<length ?grants]"
    and controls: "list_all2 (\<lambda>i report. \<exists>evidence. control_for controlled (GrantRef i) = Inr (pa_principal report, evidence)) ids new"
    using delegate_from_Inr [OF delegated named] by (elim conjE exE) (rule that; simp)
  have issuers: "grant_signed cdc regs context (?grants ! n) \<and> pa_principal (new ! n) = gs_issuer (sg_statement (?grants ! n))"
    if n: "n < length ?grants" for n
  proof -
    have len: "length ids = length ?grants" using arg_cong [OF named, of length] by simp
    have "map (grant_id_of cdc \<circ> sg_statement) ?grants ! n = map Inr ids ! n" by (simp only: named)
    then have id: "grant_id_of cdc (sg_statement (?grants ! n)) = Inr (ids ! n)"
      using n len by (simp only: nth_map comp_apply)
    obtain evidence where "control_for controlled (GrantRef (ids ! n)) = Inr (pa_principal (new ! n), evidence)"
      using list_all2_nthD [OF controls, of n] n len by auto
    moreover have "?grants ! n \<in> set (pb_grants (dp_bundle decoded))" using members decoded n by auto
    ultimately show ?thesis using control_for_grant [OF resolve control _ id] by blast
  qed
  have "length new = length ?grants" using arg_cong [OF new(2), of length] by simp
  then have "map pa_principal new = map (gs_issuer \<circ> sg_statement) ?grants"
    using issuers by (intro nth_equalityI) simp_all
  moreover have "action_signed cdc regs context (bi_action branch)" and who: "who = ac_actor (sa_envelope (bi_action branch))"
    using control_for_action [OF resolve control action actor] by simp_all
  moreover have root_own: "?grants = [] \<Longrightarrow> bi_root_control branch = (who, evidence)" using own actor by simp
  moreover have "map (\<lambda>report. (pa_principal report, pa_role report)) reports
      = (if ?grants = [] then [(ac_actor (sa_envelope (bi_action branch)), RootRole)] else [])"
    using initial root_own who by (auto simp: stage_simps dest!: participant_report_Inr)
  ultimately have participants: "map (\<lambda>report. (pa_principal report, pa_role report)) (reports' @ [report])
      = branch_participants (bi_action branch) ?grants"
    using participant_report_Inr [OF last] new \<open>length new = length ?grants\<close>
    by (simp add: branch_participants_def map_pair_zip [of pa_principal new _ pa_role])
  have assured: "assured regs context (reports' @ [report])"
    using evaluate_branch_assurance_Inr [OF assurance] by (auto simp: assured_def list_all_iff)
  obtain requirements where "chain_observations cdc ?grants = Inr requirements"
    using observed by (auto simp: evaluate_observations_def stage_simps)
  moreover from this have "list_all (observation_met cdc regs context \<lparr> ob_chain = ?grants, ob_root = ta_principal anchor,
      ob_action = bi_action branch, ob_canonical = canonical \<rparr>) requirements"
    using evaluate_observations_met [OF observed] by (simp add: list_all_iff)
  moreover have "list_all (grant_signed cdc regs context) ?grants" using issuers by (simp add: list_all_length)
  ultimately have "branch_holds cdc regs context canonical resolved (bi_action branch) anchor ?grants ids effective (fst result)"
    unfolding branch_holds_def result fst_conv
    using walked root methods grants covered check_principal_status_Inr [OF root_status] participants assured
      \<open>action_signed cdc regs context (bi_action branch)\<close>
      check_chain_status_Inr [OF chain_status named] validate_resource_constraints_Inr [OF resources]
    by (simp add: list_all_iff)
  then show ?thesis by blast
qed

definition known_approvals :: "codec \<Rightarrow> trusted_context \<Rightarrow> identified set" where
  "known_approvals cdc context = {(i, requirement). approval_requirement_id cdc requirement = Ok i
     \<or> (\<exists>entries. context_approvals cdc context = Ok entries \<and> (i, requirement) \<in> set entries)}"

lemma add_identified_known:
  "add_identified cdc entries requirements = Inr entries' \<Longrightarrow> set entries \<subseteq> known_approvals cdc context
     \<Longrightarrow> set entries' \<subseteq> known_approvals cdc context"
proof (induction requirements arbitrary: entries)
  case (Cons requirement requirements)
  then obtain i where id: "approval_requirement_id cdc requirement = Inr i"
    and "add_identified cdc (if list_ex (\<lambda>(known, _). known = i) entries then entries
         else entries @ [(i, requirement)]) requirements = Inr entries'"
    by (auto simp: and_then_Inr_iff)
  then show ?case using Cons.IH Cons.prems(2) by (auto simp: known_approvals_def split: if_splits)
qed simp

lemma chain_approvals_known:
  assumes "chain_approvals cdc grants = Inr entries"
  shows "set entries \<subseteq> known_approvals cdc context"
proof -
  have "set after \<subseteq> known_approvals cdc context"
    if "gather_approvals cdc before payloads = Inr after" "set before \<subseteq> known_approvals cdc context" for before after payloads
    using that
  proof (induction payloads arbitrary: before)
    case (Cons payload payloads)
    then show ?case using add_identified_known by (fastforce simp: and_then_Inr_iff)
  qed simp
  then show ?thesis using assms by (fastforce simp: chain_approvals_def and_then_Inr_iff split: if_splits)
qed

text \<open>An authorized branch, with the approvals its chain asks for.\<close>

definition branch_authorized ::
  "codec \<Rightarrow> registries \<Rightarrow> trusted_context \<Rightarrow> canonical_action \<Rightarrow> resolved_proof \<Rightarrow> approvals \<Rightarrow> proof_ref
     \<Rightarrow> participant_assurance list \<Rightarrow> bool" where
  "branch_authorized cdc regs context canonical resolved approvals reference reports \<longleftrightarrow>
     (\<exists>action \<in> set (pb_actions (dp_bundle (rp_decoded resolved))). \<exists>anchor \<in> set (tc_trust_anchors context).
      \<exists>grants ids effective entries.
        ac_proof_ref (sa_envelope action) = reference
        \<and> branch_holds cdc regs context canonical resolved action anchor grants ids effective reports
        \<and> chain_approvals cdc grants = Ok entries
        \<and> list_all (\<lambda>entry. approved cdc regs context canonical (ap_authority approvals) (ap_candidates approvals)
             (known_approvals cdc context) (fst entry)) entries)"

abbreviation approvals_sound :: "codec \<Rightarrow> registries \<Rightarrow> trusted_context \<Rightarrow> canonical_action \<Rightarrow> approvals \<Rightarrow> verify_state \<Rightarrow> bool" where
  "approvals_sound cdc regs context canonical approvals \<equiv> approvals_ok cdc regs context canonical
     (ap_authority approvals) (ap_candidates approvals) (known_approvals cdc context)"


text \<open>A branch that succeeded from an anchor: the checks passed and the chain's approvals are there.\<close>

definition branch_anchored ::
  "codec \<Rightarrow> registries \<Rightarrow> trusted_context \<Rightarrow> control_verified_proof \<Rightarrow> canonical_action \<Rightarrow> approvals \<Rightarrow> branch_input
     \<Rightarrow> trust_anchor \<Rightarrow> branch_authority \<Rightarrow> bool" where
  "branch_anchored cdc regs context controlled canonical approvals branch anchor b \<longleftrightarrow> (\<exists>result meter meter' entries.
     branch_checks cdc regs context controlled canonical branch anchor meter = (Ok result, meter')
     \<and> br_assurance b = fst result \<and> chain_approvals cdc (bi_chain branch) = Ok entries
     \<and> list_all (\<lambda>entry. approved cdc regs context canonical (ap_authority approvals) (ap_candidates approvals)
          (known_approvals cdc context) (fst entry)) entries)"

lemma verify_branch_from_anchor_sound:
  assumes run: "verify_branch_from_anchor cdc regs context controlled canonical branch anchor s = (r, s')"
    and ok: "approvals_sound cdc regs context canonical approvals s"
  shows "approvals_sound cdc regs context canonical approvals s'
    \<and> (\<forall>b. r = Inr b \<longrightarrow> branch_anchored cdc regs context controlled canonical approvals branch anchor b)"
proof -
  obtain checked meter where checks: "branch_checks cdc regs context controlled canonical branch anchor (vs_meter s) = (checked, meter)"
    by force
  have lifted: "on_meter (branch_checks cdc regs context controlled canonical branch anchor) s = (checked, s \<lparr> vs_meter := meter \<rparr>)"
    using checks by (simp add: on_meter_run)
  show ?thesis
  proof (cases checked)
    case (Inl failure)
    then show ?thesis using run lifted ok by (auto simp: verify_branch_from_anchor_def bind_def)
  next
    case (Inr result)
    obtain x y z where parts: "result = (x, y, z)" by (cases result)
    show ?thesis
    proof (cases "chain_approvals cdc (bi_chain branch)")
      case (Inl failure)
      then show ?thesis using run lifted ok Inr parts
        by (auto simp: verify_branch_from_anchor_def bind_def from_result_def)
    next
      case entries: (Inr entries)
      obtain verdict t where list: "evaluate_list_from cdc regs context controlled canonical False entries (s \<lparr> vs_meter := meter \<rparr>)
          = (verdict, t)" by force
      have after: "approvals_sound cdc regs context canonical approvals t"
        and met: "verdict = Inr () \<Longrightarrow> list_all (\<lambda>entry. approved cdc regs context canonical (ap_authority approvals)
            (ap_candidates approvals) (known_approvals cdc context) (fst entry)) entries"
        using evaluate_list_from_ok [OF list _ chain_approvals_known [OF entries]] ok by simp_all
      have "s' = t" and finished: "\<And>b. r = Inr b \<Longrightarrow> verdict = Inr () \<and> br_assurance b = x"
        using run lifted Inr entries list parts
        by (auto simp: verify_branch_from_anchor_def bind_def from_result_def evaluate_list_def return_def split: sum.splits)
      have "branch_anchored cdc regs context controlled canonical approvals branch anchor b" if "r = Inr b" for b
        unfolding branch_anchored_def
      proof (intro exI conjI)
        show "branch_checks cdc regs context controlled canonical branch anchor (vs_meter s) = (Inr result, meter)"
          using checks Inr by simp
        show "br_assurance b = fst result" using finished [OF that] parts by simp
      qed (use entries met finished [OF that] in simp_all)
      then show ?thesis using after \<open>s' = t\<close> by simp
    qed
  qed
qed

lemma try_anchors_sound:
  assumes "try_anchors cdc regs context controlled canonical branch first_failure anchors s = (r, s')"
    and "approvals_sound cdc regs context canonical approvals s"
  shows "approvals_sound cdc regs context canonical approvals s'
    \<and> (\<forall>b. r = Inr b \<longrightarrow> (\<exists>anchor \<in> set anchors. branch_anchored cdc regs context controlled canonical approvals branch anchor b))"
  using assms
proof (induction anchors arbitrary: first_failure s)
  case Nil
  then show ?case by (auto simp: fail_def)
next
  case (Cons anchor anchors)
  obtain result t where one: "verify_branch_from_anchor cdc regs context controlled canonical branch anchor s = (result, t)"
    by force
  note sound = verify_branch_from_anchor_sound [OF one Cons.prems(2)]
  show ?case
  proof (cases result)
    case (Inl failure)
    then have "try_anchors cdc regs context controlled canonical branch
        (Some (case first_failure of Some first \<Rightarrow> first | None \<Rightarrow> failure)) anchors t = (r, s')"
      using Cons.prems(1) one by (simp add: bind_def recover_def)
    from Cons.IH [OF this sound [THEN conjunct1]] show ?thesis by auto
  next
    case (Inr b)
    then have "r = Inr b" "s' = t" using Cons.prems(1) one by (simp_all add: bind_def recover_def return_def)
    then show ?thesis using sound Inr by simp
  qed
qed

lemma branch_input_for_Inr:
  assumes "resolve_proof cdc decoded context = Inr resolved" and "cp_resolved controlled = resolved"
    and "branch_input_for cdc controlled reference = Inr branch"
  shows "bi_action branch \<in> set (pb_actions (dp_bundle decoded)) \<and> ac_proof_ref (sa_envelope (bi_action branch)) = reference
    \<and> action_id_of cdc (sa_envelope (bi_action branch)) = Inr (bi_action_id branch)
    \<and> (\<exists>ids. resolved_chain cdc resolved (bi_action branch) (bi_chain branch) ids)
    \<and> (bi_chain branch = [] \<longrightarrow> control_for controlled (ActionRef (bi_action_id branch)) = Inr (bi_root_control branch))"
proof -
  obtain used where decoded: "rp_decoded resolved = decoded"
    and records: "grant_records cdc (dp_bundle decoded) = Inr (rp_grants resolved)"
    and chains: "resolve_chains (dp_bundle decoded) (rp_grants resolved) (pb_actions (dp_bundle decoded)) [] = Inr used"
    using resolve_proof_parts [OF assms(1)] .
  obtain action i grants statement control where found: "find (\<lambda>action. ac_proof_ref (sa_envelope action) = reference)
        (pb_actions (dp_bundle decoded)) = Some action"
    and id: "action_id_of cdc (sa_envelope action) = Inr i" and walked: "walked_chain resolved action = Inr grants"
    and control: "root_statement cdc i grants = Inr statement" "control_for controlled statement = Inr control"
    and branch: "branch = \<lparr> bi_action = action, bi_action_id = i, bi_chain = grants, bi_root_control = control \<rparr>"
    using assms(3) unfolding branch_input_for_def assms(2) decoded
    by (auto simp: and_then_Inr_iff split: option.splits)
  have action: "action \<in> set (pb_actions (dp_bundle decoded))" "ac_proof_ref (sa_envelope action) = reference"
    using found by (auto simp: find_Some_iff)
  then obtain walked ids where chain: "resolved_chain cdc resolved action walked ids"
    using resolve_chains_walk [of cdc resolved, unfolded decoded, OF grant_records_agree [OF records] chains] by auto
  then have "walked = grants" using walked by (auto simp: walked_chain_def resolved_chain_def)
  then show ?thesis using action id branch chain control by (auto simp: root_statement_def)
qed

text \<open>What one call of the plan's callback does, whatever its outcome.\<close>

lemma verify_branch_sound:
  assumes resolve: "resolve_proof cdc decoded context = Inr resolved"
    and control: "verify_principal_control cdc regs resolved context = Inr controlled"
    and run: "verify_branch cdc regs context controlled canonical reference s = (r, s')"
    and ok: "approvals_sound cdc regs context canonical approvals s"
  shows "approvals_sound cdc regs context canonical approvals s'
    \<and> (\<forall>b. r = Inr b \<longrightarrow> branch_authorized cdc regs context canonical resolved approvals reference (br_assurance b))"
proof (cases "branch_input_for cdc controlled reference")
  case (Inl failure)
  then show ?thesis using run ok by (auto simp: verify_branch_def bind_def from_result_def)
next
  case (Inr branch)
  have same: "cp_resolved controlled = resolved" using control
    by (auto simp: verify_principal_control_def split: if_splits prod.splits sum.splits)
  have decoded: "rp_decoded resolved = decoded" using resolve_proof_parts [OF resolve] .
  note input = branch_input_for_Inr [OF resolve same Inr]
  have tried: "try_anchors cdc regs context controlled canonical branch None
      (filter (\<lambda>anchor. ta_principal anchor = root_principal (bi_action branch) (bi_chain branch)) (tc_trust_anchors context)) s
      = (r, s')" using run Inr by (simp add: verify_branch_def bind_def from_result_def)
  note sound = try_anchors_sound [OF tried ok]
  have "branch_authorized cdc regs context canonical resolved approvals reference (br_assurance b)" if "r = Inr b" for b
  proof -
    obtain anchor where anchor: "anchor \<in> set (tc_trust_anchors context)"
      "ta_principal anchor = root_principal (bi_action branch) (bi_chain branch)"
      and "branch_anchored cdc regs context controlled canonical approvals branch anchor b"
      using sound \<open>r = Inr b\<close> by auto
    from this(3) obtain result meter meter' entries where
      checks: "branch_checks cdc regs context controlled canonical branch anchor meter = (Inr result, meter')"
      and reports: "br_assurance b = fst result" and entries: "chain_approvals cdc (bi_chain branch) = Inr entries"
        "list_all (\<lambda>entry. approved cdc regs context canonical (ap_authority approvals) (ap_candidates approvals)
             (known_approvals cdc context) (fst entry)) entries"
      unfolding branch_anchored_def by (elim exE conjE) (rule that)
    obtain ids where "resolved_chain cdc resolved (bi_action branch) (bi_chain branch) ids" using input by blast
    from branch_checks_Inr [OF resolve control checks _ _ this anchor(2)] input
    obtain effective where "branch_holds cdc regs context canonical resolved (bi_action branch) anchor (bi_chain branch) ids effective
        (br_assurance b)"
      unfolding reports by blast
    then show ?thesis unfolding branch_authorized_def decoded using input anchor(1) entries by blast
  qed
  then show ?thesis using sound by blast
qed

section \<open>Work\<close>

lemma metered_delegate_from [metered_intros]:
  "metered id (delegate_from cdc regs context controlled index previous authority reports grants)"
proof (induction grants arbitrary: index previous authority reports)
  case (Cons grant grants)
  show ?case unfolding delegate_from.simps by (intro metered_intros Cons.IH)
qed simp

lemma metered_check_chain_status [metered_intros]:
  "metered id (check_chain_status cdc regs context controlled anchor grants)"
  unfolding check_chain_status_def by (intro metered_intros)

lemma metered_delegate_chain [metered_intros]:
  "metered id (delegate_chain cdc regs context controlled branch anchor reports)"
  unfolding delegate_chain_def by (intro metered_intros)

lemma metered_branch_checks [metered_intros]:
  "metered id (branch_checks cdc regs context controlled canonical branch anchor)"
  unfolding branch_checks_def Let_def by (intro metered_intros)

lemma metered_verify_branch_from_anchor [metered_intros]:
  "metered vs_meter (verify_branch_from_anchor cdc regs context controlled canonical branch anchor)"
  unfolding verify_branch_from_anchor_def evaluate_list_def by (intro metered_intros)

lemma metered_try_anchors [metered_intros]:
  "metered vs_meter (try_anchors cdc regs context controlled canonical branch first_failure anchors)"
proof (induction anchors arbitrary: first_failure)
  case (Cons anchor anchors)
  show ?case unfolding try_anchors.simps by (intro metered_intros Cons.IH)
qed simp

lemma metered_verify_branch [metered_intros]:
  "metered vs_meter (verify_branch cdc regs context controlled canonical reference)"
  unfolding verify_branch_def by (intro metered_intros)

end
