(* ===== verification/Verifier.thy ===== *)
theory Verifier
  imports Verifier_Branch Verifier_Samples
begin

text \<open>
  The verifier of \<open>core/crates/auths-verifier/src/lib.rs\<close> as a whole: the plan of a proof evaluated with
  one branch per leaf, the floors of the composition, the context's own approvals, the sealed result,
  and the four stages of \<open>verify\<close>. Traces are not part of the model: \<open>verify\<close> discards them.
\<close>

declare branch_chain_from.simps [code]

section \<open>The plan\<close>

text \<open>What the callback accumulates over the branches that authorize.\<close>

record branch_log =
  lg_branches :: "proof_ref list"
  lg_action_ids :: "digest list"
  lg_assurance :: "participant_assurance list"
  lg_assurance_satisfactions :: "assurance_satisfaction list"
  lg_observation_satisfactions :: "observation_satisfaction list"
  lg_approval_requirements :: "digest list"

definition empty_log :: branch_log where
  "empty_log = \<lparr> lg_branches = [], lg_action_ids = [], lg_assurance = [], lg_assurance_satisfactions = [],
     lg_observation_satisfactions = [], lg_approval_requirements = [] \<rparr>"

definition log_branch :: "proof_ref \<Rightarrow> branch_authority \<Rightarrow> branch_log \<Rightarrow> branch_log" where
  "log_branch reference b log = \<lparr>
     lg_branches = lg_branches log @ [reference], lg_action_ids = lg_action_ids log @ [br_action_id b],
     lg_assurance = lg_assurance log @ br_assurance b,
     lg_assurance_satisfactions = lg_assurance_satisfactions log @ br_assurance_satisfactions b,
     lg_observation_satisfactions = lg_observation_satisfactions log @ br_observation_satisfactions b,
     lg_approval_requirements = lg_approval_requirements log @ br_approval_requirements b \<rparr>"

definition plan_branch ::
  "codec \<Rightarrow> registries \<Rightarrow> trusted_context \<Rightarrow> control_verified_proof \<Rightarrow> canonical_action
     \<Rightarrow> (verify_state \<times> branch_log) branch" where
  "plan_branch cdc regs context controlled canonical reference = (\<lambda>(s, log).
     case verify_branch cdc regs context controlled canonical reference s of
       (Inr b, s') \<Rightarrow> (BranchAuthorized, s', log_branch reference b log)
     | (Inl (FailDenied reason), s') \<Rightarrow> (BranchDenied reason, s', log)
     | (Inl (FailIndeterminate requirement), s') \<Rightarrow> (BranchIndeterminate requirement, s', log))"

fun outcome_verified :: "branch_outcome \<Rightarrow> unit verified" where
  "outcome_verified BranchAuthorized = Ok ()"
| "outcome_verified (BranchDenied reason) = Err (FailDenied reason)"
| "outcome_verified (BranchIndeterminate requirement) = Err (FailIndeterminate requirement)"
| "outcome_verified (BranchStructurallyInvalid reason) = Err (FailDenied reason)"

definition run_plan ::
  "codec \<Rightarrow> registries \<Rightarrow> trusted_context \<Rightarrow> control_verified_proof \<Rightarrow> canonical_action \<Rightarrow> (verify_state, branch_log) stage" where
  "run_plan cdc regs context controlled canonical s =
     (case evaluate_observed (pb_plan (dp_bundle (rp_decoded (cp_resolved controlled))))
             (plan_limits.truncate (tc_limits context)) (plan_branch cdc regs context controlled canonical) (s, empty_log) of
        Inl reason \<Rightarrow> (Err (FailDenied reason), s)
      | Inr (outcome, (s', log), _) \<Rightarrow> (and_then (outcome_verified outcome) (\<lambda>_. Ok log), s'))"

section \<open>The floors of the composition\<close>

definition distinct_principals :: "participant_role \<Rightarrow> participant_assurance list \<Rightarrow> nat" where
  "distinct_principals role reports = length (remdups (map pa_principal (filter (\<lambda>report. pa_role report = role) reports)))"

definition composition_met :: "composition_requirement \<Rightarrow> branch_log \<Rightarrow> bool" where
  "composition_met composition log \<longleftrightarrow> \<not> (length (lg_branches log) < unat (co_minimum_authorized_branches composition)
     \<or> distinct_principals ActorRole (lg_assurance log) < unat (co_minimum_distinct_actors composition)
     \<or> distinct_principals RootRole (lg_assurance log) < unat (co_minimum_distinct_roots composition))"

section \<open>The sealed result\<close>

definition evaluate_context_approvals ::
  "codec \<Rightarrow> registries \<Rightarrow> trusted_context \<Rightarrow> control_verified_proof \<Rightarrow> canonical_action \<Rightarrow> (verify_state, digest list) stage" where
  "evaluate_context_approvals cdc regs context controlled canonical =
     bind (from_result (context_approvals cdc context)) (\<lambda>requirements.
     bind (evaluate_list cdc regs context controlled canonical requirements) (\<lambda>_. return (map fst requirements)))"

record verified_authority =
  va_canonical_action :: canonical_action
  va_proof_digest :: digest
  va_context_digest :: digest
  va_plan_id :: digest
  va_action_ids :: "digest list"
  va_authorized_branches :: "proof_ref list"
  va_assurance :: "participant_assurance list"
  va_assurance_satisfactions :: "assurance_satisfaction list"
  va_observation_satisfactions :: "observation_satisfaction list"
  va_approval_satisfactions :: "approval_satisfaction list"
  va_work_units :: u64

text \<open>\<open>sort\<close> followed by \<open>dedup\<close>; the derived orders compare the fields in their order.\<close>

definition sorted_unique :: "('a \<Rightarrow> 'k::linorder) \<Rightarrow> 'a list \<Rightarrow> 'a list" where
  "sorted_unique key xs = remdups_adj (sort_key key xs)"

definition seal_authority ::
  "control_verified_proof \<Rightarrow> canonical_action \<Rightarrow> digest \<Rightarrow> branch_log \<Rightarrow> digest list \<Rightarrow> verify_state \<Rightarrow> verified_authority" where
  "seal_authority controlled canonical context_digest log context_requirements s = \<lparr>
     va_canonical_action = canonical,
     va_proof_digest = dp_proof_digest (rp_decoded (cp_resolved controlled)),
     va_context_digest = context_digest,
     va_plan_id = rp_plan_id (cp_resolved controlled),
     va_action_ids = sorted_unique (\<lambda>x. x) (lg_action_ids log),
     va_authorized_branches = sorted_unique (\<lambda>x. x) (lg_branches log),
     va_assurance = sorted_unique (\<lambda>report. (role_rank (pa_role report), pa_principal report)) (lg_assurance log),
     va_assurance_satisfactions = sorted_unique (\<lambda>s. (sf_requirement_index s, sf_principal s, claim_key (sf_claim s), sf_evidence s))
       (lg_assurance_satisfactions log),
     va_observation_satisfactions = sorted_unique (\<lambda>s. (sb_requirement s, sb_observation s)) (lg_observation_satisfactions log),
     va_approval_satisfactions = approval_satisfactions (vs_approvals s) (lg_approval_requirements log @ context_requirements),
     va_work_units = wm_used (vs_meter s) \<rparr>"

definition evaluate_authority ::
  "codec \<Rightarrow> registries \<Rightarrow> trusted_context \<Rightarrow> control_verified_proof \<Rightarrow> canonical_action \<Rightarrow> digest
     \<Rightarrow> (verify_state, verified_authority) stage" where
  "evaluate_authority cdc regs context controlled canonical context_digest =
     bind (run_plan cdc regs context controlled canonical) (\<lambda>log.
     bind (require (composition_met (tc_composition context) log) (FailDenied CompositionRequirementNotMet)) (\<lambda>_.
     bind (evaluate_context_approvals cdc regs context controlled canonical) (\<lambda>requirements.
       \<lambda>s. (Ok (seal_authority controlled canonical context_digest log requirements s), s))))"

text \<open>The approvals live as long as one evaluation; the meter is the caller's.\<close>

definition with_approvals :: "approvals \<Rightarrow> (verify_state, 'a) stage \<Rightarrow> (work_meter, 'a) stage" where
  "with_approvals approvals m meter = (case m \<lparr> vs_meter = meter, vs_approvals = approvals \<rparr> of (r, s) \<Rightarrow> (r, vs_meter s))"

definition verify_authority_measured ::
  "codec \<Rightarrow> registries \<Rightarrow> trusted_context \<Rightarrow> control_verified_proof \<Rightarrow> canonical_action
     \<Rightarrow> (work_meter, verified_authority) stage" where
  "verify_authority_measured cdc regs context controlled canonical =
     bind (validate_action_binding cdc regs context controlled canonical) (\<lambda>_.
     bind (from_result (with_codec (context_digest_of cdc context))) (\<lambda>context_digest.
     bind (from_result (approvals_new cdc (dp_bundle (rp_decoded (cp_resolved controlled))))) (\<lambda>approvals.
       with_approvals approvals (evaluate_authority cdc regs context controlled canonical context_digest))))"

section \<open>The verifier\<close>

record verified_action =
  vn_canonical_action :: canonical_action
  vn_proof_digest :: digest
  vn_context_digest :: digest
  vn_plan_id :: digest
  vn_action_ids :: "digest list"
  vn_authorized_branches :: "proof_ref list"
  vn_assurance :: "participant_assurance list"
  vn_assurance_satisfactions :: "assurance_satisfaction list"
  vn_observation_satisfactions :: "observation_satisfaction list"
  vn_approval_satisfactions :: "approval_satisfaction list"
  vn_work_units :: u64

definition bind_verified_action :: "verified_authority \<Rightarrow> verified_action" where
  "bind_verified_action authority = \<lparr>
     vn_canonical_action = va_canonical_action authority, vn_proof_digest = va_proof_digest authority,
     vn_context_digest = va_context_digest authority, vn_plan_id = va_plan_id authority,
     vn_action_ids = va_action_ids authority, vn_authorized_branches = va_authorized_branches authority,
     vn_assurance = va_assurance authority, vn_assurance_satisfactions = va_assurance_satisfactions authority,
     vn_observation_satisfactions = va_observation_satisfactions authority,
     vn_approval_satisfactions = va_approval_satisfactions authority, vn_work_units = va_work_units authority \<rparr>"

datatype verification_outcome =
  OutcomeAuthorized verified_action | OutcomeDenied denial_reason | OutcomeIndeterminate requirement

fun outcome_of :: "verification_failure \<Rightarrow> verification_outcome" where
  "outcome_of (FailDenied reason) = OutcomeDenied reason"
| "outcome_of (FailIndeterminate requirement) = OutcomeIndeterminate requirement"

definition from_used :: "u64 \<Rightarrow> u64 \<Rightarrow> work_meter" where
  "from_used limit used = \<lparr> wm_used = used, wm_limit = limit \<rparr>"

definition verify :: "codec \<Rightarrow> registries \<Rightarrow> bytes \<Rightarrow> canonical_action \<Rightarrow> trusted_context \<Rightarrow> verification_outcome" where
  "verify cdc regs proof_bytes canonical context =
     (case decode_proof cdc proof_bytes context of
        Inl failure \<Rightarrow> outcome_of failure
      | Inr decoded \<Rightarrow>
     (case resolve_proof cdc decoded context of
        Inl failure \<Rightarrow> outcome_of failure
      | Inr resolved \<Rightarrow>
     (case verify_principal_control cdc regs resolved context of
        Inl failure \<Rightarrow> outcome_of failure
      | Inr controlled \<Rightarrow>
     (case fst (verify_authority_measured cdc regs context controlled canonical
             (from_used (vl_work_units (tc_limits context)) (cp_work_units controlled))) of
        Inl failure \<Rightarrow> outcome_of failure
      | Inr authority \<Rightarrow> OutcomeAuthorized (bind_verified_action authority)))))"


section \<open>What an evaluation keeps\<close>

text \<open>
  Anything about the callback's state and the leaf outcomes recorded so far that every call of the
  callback keeps, the evaluation of the plan keeps.
\<close>

definition branch_keeps :: "('s \<Rightarrow> (proof_ref \<times> branch_outcome) list \<Rightarrow> bool) \<Rightarrow> 's branch \<Rightarrow> bool" where
  "branch_keeps J branch \<longleftrightarrow> (\<forall>reference s leaves outcome s'. J s leaves \<longrightarrow> branch reference s = (outcome, s')
     \<longrightarrow> J s' (leaves @ [(reference, outcome)]))"

lemma evaluate_node_keeps:
  "branch_keeps J branch \<Longrightarrow> J (fst obs) (leaf_events (snd obs)) \<Longrightarrow> evaluate_node branch plan obs = (outcome, obs')
     \<Longrightarrow> J (fst obs') (leaf_events (snd obs'))"
  "branch_keeps J branch \<Longrightarrow> J (fst obs) (leaf_events (snd obs)) \<Longrightarrow> evaluate_members branch plans t obs = (t', obs')
     \<Longrightarrow> J (fst obs') (leaf_events (snd obs'))"
proof (induction branch plan obs and branch plans t obs arbitrary: outcome obs' and t' obs' rule: evaluate_node_evaluate_members.induct)
  case (1 branch reference s log)
  then show ?case by (auto simp: branch_keeps_def split: prod.splits)
next
  case (2 branch members obs)
  obtain t s log where "evaluate_members branch members empty_tally obs = (t, s, log)" by (cases "evaluate_members branch members empty_tally obs")
  then show ?case using 2 by (auto simp: observe_aggregate_def)
next
  case (3 branch members obs)
  obtain t s log where "evaluate_members branch members empty_tally obs = (t, s, log)" by (cases "evaluate_members branch members empty_tally obs")
  then show ?case using 3 by (auto simp: observe_aggregate_def)
next
  case (4 branch k members obs)
  obtain t s log where "evaluate_members branch members empty_tally obs = (t, s, log)" by (cases "evaluate_members branch members empty_tally obs")
  then show ?case using 4 by (auto simp: observe_aggregate_def)
next
  case (5 branch t obs)
  then show ?case by simp
next
  case (6 branch member members t obs)
  obtain outcome s log where one: "evaluate_node branch member obs = (outcome, s, log)" by (cases "evaluate_node branch member obs")
  from 6(1) [OF 6(3,4) one] show ?case using 6(2) [OF one [symmetric] 6(3)] 6(5) one by simp
qed

fun plan_satisfied :: "(proof_ref \<Rightarrow> bool) \<Rightarrow> authorization_plan \<Rightarrow> bool" where
  "plan_satisfied ok (Proof reference) = ok reference"
| "plan_satisfied ok (AllOf members) = list_all (plan_satisfied ok) members"
| "plan_satisfied ok (AnyOf members) = list_ex (plan_satisfied ok) members"
| "plan_satisfied ok (KOfN k members) = (unat k \<le> length (filter (plan_satisfied ok) members))"

lemma nth_best_authorized:
  assumes "0 < n" "n \<le> length members" "nth_best n (map f members) = Authorized"
  shows "n \<le> length (filter (\<lambda>m. f m = Authorized) members)"
proof -
  have "Authorized \<le> nth_best n (map f members)" using assms(3) by simp
  then have "n \<le> length (filter (\<lambda>m. Authorized \<le> f m) members)"
    using nth_best_ge_iff [of n "map f members" Authorized] assms(1,2) by (simp add: filter_map comp_def)
  moreover have "Authorized \<le> f m \<longleftrightarrow> f m = Authorized" for m by (cases "f m") (auto simp: less_eq_truth_def)
  ultimately show ?thesis by simp
qed

lemma filter_length_mono: "(\<And>x. x \<in> set xs \<Longrightarrow> P x \<Longrightarrow> Q x) \<Longrightarrow> length (filter P xs) \<le> length (filter Q xs)"
  by (induction xs) (auto simp: le_SucI)

lemma plan_truth_satisfied:
  assumes "\<And>reference. v reference = Authorized \<Longrightarrow> ok reference"
  shows "plan_wf branching plan \<Longrightarrow> plan_truth v plan = Authorized \<Longrightarrow> plan_satisfied ok plan"
proof (induction plan)
  case (AllOf members)
  have "length members \<le> length (filter (\<lambda>m. plan_truth v m = Authorized) members)"
    using nth_best_authorized [of "length members" members "plan_truth v"] AllOf.prems by simp
  then have "\<forall>m \<in> set members. plan_truth v m = Authorized" by (simp add: length_filter_all_iff)
  then show ?case using AllOf by (simp add: list_all_iff)
next
  case (AnyOf members)
  have "1 \<le> length (filter (\<lambda>m. plan_truth v m = Authorized) members)"
    using nth_best_authorized [of 1 members "plan_truth v"] AnyOf.prems by (simp add: Suc_leI)
  then obtain m where "m \<in> set members" "plan_truth v m = Authorized" by (auto simp: Suc_le_eq filter_empty_conv)
  then show ?case using AnyOf by (auto simp: list_all_iff list_ex_iff)
next
  case (KOfN k members)
  have "unat k \<le> length (filter (\<lambda>m. plan_truth v m = Authorized) members)"
    using nth_best_authorized [of "unat k" members "plan_truth v"] KOfN.prems by simp
  also have "\<dots> \<le> length (filter (plan_satisfied ok) members)"
    using KOfN by (intro filter_length_mono) (simp add: list_all_iff)
  finally show ?case by simp
qed (use assms in simp)

section \<open>The branches of a plan\<close>

text \<open>
  The log of the branches against the recorded leaves: the references that authorized, in order, each
  an authorized branch with the reports that the log holds of it.
\<close>

definition log_sound ::
  "codec \<Rightarrow> registries \<Rightarrow> trusted_context \<Rightarrow> canonical_action \<Rightarrow> resolved_proof \<Rightarrow> approvals \<Rightarrow> branch_log
     \<Rightarrow> (proof_ref \<times> branch_outcome) list \<Rightarrow> bool" where
  "log_sound cdc regs context canonical resolved approvals log leaves \<longleftrightarrow>
     lg_branches log = map fst (filter (\<lambda>(_, outcome). outcome = BranchAuthorized) leaves)
     \<and> (\<exists>reports. length reports = length (lg_branches log) \<and> lg_assurance log = concat reports
          \<and> list_all2 (branch_authorized cdc regs context canonical resolved approvals) (lg_branches log) reports)"

lemma plan_branch_keeps:
  assumes resolve: "resolve_proof cdc decoded context = Inr resolved"
    and control: "verify_principal_control cdc regs resolved context = Inr controlled"
    and run: "plan_branch cdc regs context controlled canonical reference state = (outcome, state')"
    and ok: "approvals_sound cdc regs context canonical approvals (fst state)"
      "log_sound cdc regs context canonical resolved approvals (snd state) leaves"
  shows "approvals_sound cdc regs context canonical approvals (fst state')
    \<and> log_sound cdc regs context canonical resolved approvals (snd state') (leaves @ [(reference, outcome)])"
proof -
  obtain s log where state: "state = (s, log)" by force
  obtain r s' where branch: "verify_branch cdc regs context controlled canonical reference s = (r, s')" by force
  note sound = verify_branch_sound [OF resolve control branch ok(1) [unfolded state fst_conv]]
  show ?thesis
  proof (cases r)
    case (Inl failure)
    then show ?thesis using run branch sound ok(2) state
      by (cases failure) (auto simp: plan_branch_def log_sound_def)
  next
    case (Inr b)
    obtain reports where reports: "lg_assurance log = concat reports"
      "list_all2 (branch_authorized cdc regs context canonical resolved approvals) (lg_branches log) reports"
      and refs: "lg_branches log = map fst (filter (\<lambda>(_, outcome). outcome = BranchAuthorized) leaves)"
      using ok(2) state by (auto simp: log_sound_def)
    have "list_all2 (branch_authorized cdc regs context canonical resolved approvals)
        (lg_branches log @ [reference]) (reports @ [br_assurance b])"
      using reports(2) sound Inr by (simp add: list_all2_appendI)
    moreover have "outcome = BranchAuthorized" "state' = (s', log_branch reference b log)"
      using run branch Inr state by (simp_all add: plan_branch_def)
    ultimately show ?thesis using sound reports(1) refs list_all2_lengthD [OF reports(2)]
      by (auto simp: log_sound_def log_branch_def intro!: exI [of _ "reports @ [br_assurance b]"])
  qed
qed

lemma run_plan_sound:
  assumes resolve: "resolve_proof cdc decoded context = Inr resolved"
    and control: "verify_principal_control cdc regs resolved context = Inr controlled"
    and run: "run_plan cdc regs context controlled canonical s = (Inr log, s')"
    and ok: "approvals_sound cdc regs context canonical approvals s"
  shows "approvals_sound cdc regs context canonical approvals s' \<and> distinct (lg_branches log)
    \<and> plan_satisfied (\<lambda>reference. reference \<in> set (lg_branches log)) (pb_plan (dp_bundle decoded))
    \<and> (\<exists>reports. lg_assurance log = concat reports
         \<and> list_all2 (branch_authorized cdc regs context canonical resolved approvals) (lg_branches log) reports)"
proof -
  let ?plan = "pb_plan (dp_bundle decoded)" and ?branch = "plan_branch cdc regs context controlled canonical"
  let ?J = "\<lambda>state leaves. approvals_sound cdc regs context canonical approvals (fst state)
      \<and> log_sound cdc regs context canonical resolved approvals (snd state) leaves"
  have same: "cp_resolved controlled = resolved" using control
    by (auto simp: verify_principal_control_def split: if_splits prod.splits sum.splits)
  have decoded: "rp_decoded resolved = decoded" using resolve_proof_parts [OF resolve] .
  obtain outcome events where eval: "evaluate_observed ?plan (plan_limits.truncate (tc_limits context)) ?branch (s, empty_log)
      = Inr (outcome, (s', log), events)" and "outcome_verified outcome = Inr ()"
    using run by (auto simp: run_plan_def same decoded and_then_Inr_iff split: sum.splits prod.splits)
  then have authorized: "outcome = BranchAuthorized" by (cases outcome) simp_all
  obtain shape where valid: "validate ?plan (plan_limits.truncate (tc_limits context)) = Inr shape"
    and node: "evaluate_node ?branch ?plan ((s, empty_log), []) = (outcome, (s', log), events)"
    using eval by (auto simp: evaluate_observed_def split: sum.splits)
  have "?J (fst ((s, empty_log), [])) (leaf_events (snd ((s, empty_log), [])))"
    using ok by (simp add: log_sound_def empty_log_def)
  moreover have "branch_keeps ?J ?branch"
    unfolding branch_keeps_def using plan_branch_keeps [OF resolve control] by blast
  ultimately have "?J (fst ((s', log), events)) (leaf_events (snd ((s', log), events)))"
    using evaluate_node_keeps(1) [where J = ?J, OF _ _ node] by blast
  then have kept: "?J (s', log) (leaf_events events)" by simp
  have wf: "plan_wf (unat (plan_branching (plan_limits.truncate (tc_limits context)))) ?plan" and "distinct (plan_refs ?plan)"
    using valid by (simp_all add: validate_iff)
  have "node_run ?branch ?plan" by (rule plan_run [OF wf validated_members_small [OF valid]])
  from this [unfolded node_run_def, rule_format, of "(s, empty_log)" "[]"]
  have "map fst (leaf_events events) = plan_refs ?plan"
    and "\<forall>v. agrees v events \<longrightarrow> truth_of outcome = plan_truth v ?plan"
    unfolding node by auto
  moreover from this(1) have leaves: "distinct (map fst (leaf_events events))" using \<open>distinct (plan_refs ?plan)\<close> by simp
  ultimately have "plan_truth (recorded_truth events) ?plan = Authorized"
    using recorded_truth_agrees [OF leaves] authorized by (metis truth_of.simps(1))
  moreover have leaf: "\<And>reference. recorded_truth events reference = Authorized \<Longrightarrow> reference \<in> set (lg_branches log)"
  proof -
    fix reference assume recorded: "recorded_truth events reference = Authorized"
    obtain leaf where "map_of (leaf_events events) reference = Some leaf" "truth_of leaf = Authorized"
      using recorded by (auto simp: recorded_truth_def split: option.splits)
    then have "(reference, BranchAuthorized) \<in> set (leaf_events events)" using map_of_SomeD by (cases leaf) fastforce+
    then show "reference \<in> set (lg_branches log)" using kept by (force simp: log_sound_def)
  qed
  ultimately have "plan_satisfied (\<lambda>reference. reference \<in> set (lg_branches log)) ?plan"
    using plan_truth_satisfied [of "recorded_truth events", OF leaf wf] by simp
  moreover have "distinct (lg_branches log)" using kept distinct_map_filter [OF leaves] by (simp add: log_sound_def)
  ultimately show ?thesis using kept by (auto simp: log_sound_def)
qed


section \<open>The floors\<close>

definition authorized_actors :: "proof_bundle \<Rightarrow> proof_ref list \<Rightarrow> principal_id set" where
  "authorized_actors bundle branches = (\<lambda>action. ac_actor (sa_envelope action)) `
     {action \<in> set (pb_actions bundle). ac_proof_ref (sa_envelope action) \<in> set branches}"

definition authorized_roots :: "resolved_proof \<Rightarrow> proof_ref list \<Rightarrow> principal_id set" where
  "authorized_roots resolved branches = {root_principal action grants | action grants.
     action \<in> set (pb_actions (dp_bundle (rp_decoded resolved))) \<and> ac_proof_ref (sa_envelope action) \<in> set branches
     \<and> branch_chain resolved action = Some (Ok grants)}"

lemma finite_authorized_roots: "finite (authorized_roots resolved branches)"
proof -
  have "authorized_roots resolved branches \<subseteq> (\<lambda>action. root_principal action (projr (the (branch_chain resolved action))))
      ` set (pb_actions (dp_bundle (rp_decoded resolved)))"
    unfolding authorized_roots_def by force
  then show ?thesis by (rule finite_subset) simp
qed

lemma branch_participants_roles:
  assumes "(who, role) \<in> set (branch_participants action grants)"
  shows "role = ActorRole \<Longrightarrow> who = ac_actor (sa_envelope action)"
    and "role = RootRole \<Longrightarrow> who = root_principal action grants"
proof -
  have chain: "role = RootRole \<and> who = gs_issuer (sg_statement (hd grants)) \<or> role = IntermediateRole"
    if "grants \<noteq> []" "(who, role) \<in> set (zip (map (gs_issuer \<circ> sg_statement) grants) (map grant_issuer_role [0..<length grants]))"
    using that by (auto simp: in_set_zip grant_issuer_role_def hd_conv_nth simp del: upt_Suc split: if_splits)
  show "role = ActorRole \<Longrightarrow> who = ac_actor (sa_envelope action)"
    and "role = RootRole \<Longrightarrow> who = root_principal action grants"
    using assms chain by (auto simp: branch_participants_def root_principal_def split: if_splits list.splits)
qed

lemma distinct_principals_card:
  "distinct_principals role reports = card (pa_principal ` {report \<in> set reports. pa_role report = role})"
  unfolding distinct_principals_def length_remdups_card_conv by simp

lemma branch_report_principal:
  assumes branch: "branch_authorized cdc regs context canonical resolved approvals reference reports"
    and "reference \<in> set branches" "report \<in> set reports"
  shows "pa_role report = ActorRole \<Longrightarrow> pa_principal report \<in> authorized_actors (dp_bundle (rp_decoded resolved)) branches"
    and "pa_role report = RootRole \<Longrightarrow> pa_principal report \<in> authorized_roots resolved branches"
proof -
  obtain action anchor grants ids effective where action: "action \<in> set (pb_actions (dp_bundle (rp_decoded resolved)))"
    "ac_proof_ref (sa_envelope action) = reference"
    and holds: "branch_holds cdc regs context canonical resolved action anchor grants ids effective reports"
    using branch unfolding branch_authorized_def by blast
  have "(pa_principal report, pa_role report) \<in> set (branch_participants action grants)"
    using holds assms(3) unfolding branch_holds_def by (metis (no_types, lifting) image_eqI list.set_map)
  moreover have "branch_chain resolved action = Some (Inr grants)"
    using holds by (simp add: branch_holds_def resolved_chain_def)
  ultimately show "pa_role report = ActorRole \<Longrightarrow> pa_principal report \<in> authorized_actors (dp_bundle (rp_decoded resolved)) branches"
    and "pa_role report = RootRole \<Longrightarrow> pa_principal report \<in> authorized_roots resolved branches"
    using branch_participants_roles [of "pa_principal report" "pa_role report" action grants] action assms(2)
    unfolding authorized_actors_def authorized_roots_def by blast+
qed

lemma composition_floors:
  assumes met: "composition_met composition log" and log: "lg_assurance log = concat reports"
    and all: "list_all2 (branch_authorized cdc regs context canonical resolved approvals) (lg_branches log) reports"
  shows "unat (co_minimum_authorized_branches composition) \<le> length (lg_branches log)
    \<and> unat (co_minimum_distinct_actors composition) \<le> card (authorized_actors (dp_bundle (rp_decoded resolved)) (lg_branches log))
    \<and> unat (co_minimum_distinct_roots composition) \<le> card (authorized_roots resolved (lg_branches log))"
proof -
  have owner: "\<exists>reference \<in> set (lg_branches log). \<exists>rs.
      branch_authorized cdc regs context canonical resolved approvals reference rs \<and> report \<in> set rs"
    if "report \<in> set (lg_assurance log)" for report
  proof -
    obtain n where "n < length reports" "report \<in> set (reports ! n)" using \<open>report \<in> set (lg_assurance log)\<close> log
      by (auto simp: in_set_conv_nth [of _ reports])
    then show ?thesis using all by (metis list_all2_conv_all_nth nth_mem)
  qed
  have "card (pa_principal ` {report \<in> set (lg_assurance log). pa_role report = ActorRole})
      \<le> card (authorized_actors (dp_bundle (rp_decoded resolved)) (lg_branches log))"
    by (intro card_mono) (use owner branch_report_principal(1) in \<open>auto simp: authorized_actors_def, blast\<close>)
  moreover have "card (pa_principal ` {report \<in> set (lg_assurance log). pa_role report = RootRole})
      \<le> card (authorized_roots resolved (lg_branches log))"
    by (intro card_mono finite_authorized_roots) (use owner branch_report_principal(2) in blast)
  ultimately show ?thesis using met by (simp add: composition_met_def distinct_principals_card)
qed


section \<open>Work\<close>

lemma metered_run: "metered meter_of m \<Longrightarrow> m s = (r, s') \<Longrightarrow> meter_le (meter_of s) (meter_of s')"
  unfolding metered_def by (metis snd_conv)

lemma metered_run_plan [metered_intros]: "metered vs_meter (run_plan cdc regs context controlled canonical)"
proof -
  have "meter_le (vs_meter s) (vs_meter (snd (run_plan cdc regs context controlled canonical s)))" for s
  proof -
    let ?J = "\<lambda>state leaves. meter_le (vs_meter s) (vs_meter (fst state))"
    have "meter_le (vs_meter (fst state)) (vs_meter (fst (snd (plan_branch cdc regs context controlled canonical reference state))))"
      for reference state
    proof -
      obtain t log where state: "state = (t, log)" by force
      obtain r t' where run: "verify_branch cdc regs context controlled canonical reference t = (r, t')" by force
      have "meter_le (vs_meter t) (vs_meter t')" by (rule metered_run [OF metered_verify_branch run])
      then show ?thesis unfolding state plan_branch_def using run by (auto split: sum.splits verification_failure.splits)
    qed
    then have keeps: "branch_keeps ?J (plan_branch cdc regs context controlled canonical)"
      unfolding branch_keeps_def by (metis meter_le_trans snd_conv)
    have "meter_le (vs_meter s) (vs_meter (fst state))"
      if "evaluate_observed plan limits (plan_branch cdc regs context controlled canonical) (s, empty_log)
        = Inr (outcome, state, events)" for plan limits outcome state events
      using that evaluate_node_keeps(1) [where J = ?J, OF keeps, of "((s, empty_log), [])" plan outcome "(state, events)"]
      by (auto simp: evaluate_observed_def split: sum.splits)
    then show ?thesis unfolding run_plan_def by (fastforce split: sum.splits prod.splits)
  qed
  then show ?thesis by (simp add: metered_def)
qed

lemma metered_evaluate_authority [metered_intros]:
  "metered vs_meter (evaluate_authority cdc regs context controlled canonical context_digest)"
proof -
  have "metered vs_meter (\<lambda>s. (Inr (f s), s))" for f :: "verify_state \<Rightarrow> 'a" by (simp add: metered_def)
  note [metered_intros] = this
  show ?thesis unfolding evaluate_authority_def evaluate_context_approvals_def evaluate_list_def
    by (intro metered_intros)
qed

lemma metered_with_approvals [metered_intros]: "metered vs_meter m \<Longrightarrow> metered id (with_approvals approvals m)"
  unfolding metered_def with_approvals_def by (auto split: prod.splits) (metis snd_conv verify_state.select_convs(1))

lemma metered_verify_authority_measured:
  "metered id (verify_authority_measured cdc regs context controlled canonical)"
  unfolding verify_authority_measured_def by (intro metered_intros)

section \<open>Properties\<close>

lemma sorted_unique_distinct: "distinct xs \<Longrightarrow> sorted_unique (\<lambda>x. x) xs = sort xs"
  by (simp add: sorted_unique_def remdups_adj_distinct)

lemma sorted_unique_set [simp]: "set (sorted_unique key xs) = set xs"
  by (simp add: sorted_unique_def)

lemma evaluate_authority_sound:
  assumes resolve: "resolve_proof cdc decoded context = Inr resolved"
    and control: "verify_principal_control cdc regs resolved context = Inr controlled"
    and run: "evaluate_authority cdc regs context controlled canonical context_digest s = (Inr authority, s')"
    and ok: "approvals_sound cdc regs context canonical approvals s"
  shows "\<exists>log requirements reports. authority = seal_authority controlled canonical context_digest log (map fst requirements) s'
    \<and> distinct (lg_branches log) \<and> lg_assurance log = concat reports
    \<and> list_all2 (branch_authorized cdc regs context canonical resolved approvals) (lg_branches log) reports
    \<and> plan_satisfied (\<lambda>reference. reference \<in> set (lg_branches log)) (pb_plan (dp_bundle decoded))
    \<and> composition_met (tc_composition context) log \<and> context_approvals cdc context = Inr requirements
    \<and> list_all (\<lambda>entry. approved cdc regs context canonical (ap_authority approvals) (ap_candidates approvals)
         (known_approvals cdc context) (fst entry)) requirements"
proof -
  obtain log s1 requirements where plan: "run_plan cdc regs context controlled canonical s = (Inr log, s1)"
    and met: "composition_met (tc_composition context) log" and requirements: "context_approvals cdc context = Inr requirements"
    and list: "evaluate_list cdc regs context controlled canonical requirements s1 = (Inr (), s')"
    and seal: "authority = seal_authority controlled canonical context_digest log (map fst requirements) s'"
    using run unfolding evaluate_authority_def evaluate_context_approvals_def by (auto simp: stage_simps)
  note sound = run_plan_sound [OF resolve control plan ok]
  have "set requirements \<subseteq> known_approvals cdc context" using requirements by (auto simp: known_approvals_def)
  from evaluate_list_from_ok [OF list [unfolded evaluate_list_def] sound [THEN conjunct1] this]
  have "list_all (\<lambda>entry. approved cdc regs context canonical (ap_authority approvals) (ap_candidates approvals)
      (known_approvals cdc context) (fst entry)) requirements" by simp
  then show ?thesis using sound met requirements seal by blast
qed

lemma with_approvals_Inr_iff [stage_simps]:
  "with_approvals approvals m meter = (Inr x, meter') \<longleftrightarrow>
     (\<exists>s. m \<lparr> vs_meter = meter, vs_approvals = approvals \<rparr> = (Inr x, s) \<and> meter' = vs_meter s)"
  by (auto simp: with_approvals_def split: prod.splits)

lemma approvals_new_sound:
  "approvals_new cdc bundle = Inr approvals \<Longrightarrow> approvals_sound cdc regs context canonical approvals
     \<lparr> vs_meter = meter, vs_approvals = approvals \<rparr>"
  by (auto simp: approvals_new_def and_then_Inr_iff approvals_ok_def)

lemma verify_stages:
  assumes "verify cdc regs proof_bytes canonical context = OutcomeAuthorized action"
  obtains decoded resolved controlled authority meter where "decode_proof cdc proof_bytes context = Inr decoded"
    and "resolve_proof cdc decoded context = Inr resolved"
    and "verify_principal_control cdc regs resolved context = Inr controlled"
    and "verify_authority_measured cdc regs context controlled canonical
        (from_used (vl_work_units (tc_limits context)) (cp_work_units controlled)) = (Inr authority, meter)"
    and "action = bind_verified_action authority"
proof -
  have "outcome_of failure \<noteq> OutcomeAuthorized action" for failure by (cases failure) simp_all
  then show ?thesis using assms that unfolding verify_def
    by (auto split: sum.splits) (metis prod.collapse)
qed

text \<open>
  C1: The verifier authorizes an action only when the whole of what it stands for holds. The proof
  decodes and resolves; every action of the proof is bound to the request (profile, body, permission,
  budget, audience, challenge, validity, channel); the plan is satisfied by the distinct branches that
  are reported as authorized; each of those is the chain of a signed action to a trusted root, signed
  at every link, attenuated at every link, covering the action, in force, within the namespaces,
  assured, observed and approved; the composition floors hold of the real actors and roots of these
  branches; and the context's own approval requirements are approved.
\<close>

theorem verified_action_is_authorized:
  assumes "verify cdc regs proof_bytes canonical context = OutcomeAuthorized action"
  shows "\<exists>decoded resolved approvals requirements.
    decode_proof cdc proof_bytes context = Ok decoded \<and> resolve_proof cdc decoded context = Ok resolved
    \<and> approvals_new cdc (dp_bundle decoded) = Ok approvals \<and> vn_canonical_action action = canonical
    \<and> (\<forall>entry \<in> set (pb_actions (dp_bundle decoded)). bound_to_request cdc canonical context (sa_envelope entry))
    \<and> distinct (vn_authorized_branches action)
    \<and> plan_satisfied (\<lambda>reference. reference \<in> set (vn_authorized_branches action)) (pb_plan (dp_bundle decoded))
    \<and> (\<forall>reference \<in> set (vn_authorized_branches action). \<exists>reports. set reports \<subseteq> set (vn_assurance action)
        \<and> branch_authorized cdc regs context canonical resolved approvals reference reports)
    \<and> unat (co_minimum_authorized_branches (tc_composition context)) \<le> length (vn_authorized_branches action)
    \<and> unat (co_minimum_distinct_actors (tc_composition context))
        \<le> card (authorized_actors (dp_bundle decoded) (vn_authorized_branches action))
    \<and> unat (co_minimum_distinct_roots (tc_composition context))
        \<le> card (authorized_roots resolved (vn_authorized_branches action))
    \<and> context_approvals cdc context = Ok requirements
    \<and> list_all (\<lambda>entry. approved cdc regs context canonical (ap_authority approvals) (ap_candidates approvals)
         (known_approvals cdc context) (fst entry)) requirements"
proof -
  obtain decoded resolved controlled authority meter where decode: "decode_proof cdc proof_bytes context = Inr decoded"
    and resolve: "resolve_proof cdc decoded context = Inr resolved"
    and control: "verify_principal_control cdc regs resolved context = Inr controlled"
    and measured: "verify_authority_measured cdc regs context controlled canonical
        (from_used (vl_work_units (tc_limits context)) (cp_work_units controlled)) = (Inr authority, meter)"
    and action: "action = bind_verified_action authority"
    using assms verify_stages by metis
  have same: "cp_resolved controlled = resolved" using control
    by (auto simp: verify_principal_control_def split: if_splits prod.splits sum.splits)
  have decoded: "rp_decoded resolved = decoded" using resolve_proof_parts [OF resolve] .
  obtain m1 m2 context_digest approvals s' where
    binding: "validate_action_binding cdc regs context controlled canonical m1 = (Inr (), m2)"
    and new: "approvals_new cdc (dp_bundle decoded) = Inr approvals"
    and run: "evaluate_authority cdc regs context controlled canonical context_digest
      \<lparr> vs_meter = m2, vs_approvals = approvals \<rparr> = (Inr authority, s')"
    using measured by (auto simp: verify_authority_measured_def same decoded stage_simps)
  obtain log requirements reports where seal: "authority = seal_authority controlled canonical context_digest log (map fst requirements) s'"
    and refs: "distinct (lg_branches log)" and reports: "lg_assurance log = concat reports"
    and all: "list_all2 (branch_authorized cdc regs context canonical resolved approvals) (lg_branches log) reports"
    and plan: "plan_satisfied (\<lambda>reference. reference \<in> set (lg_branches log)) (pb_plan (dp_bundle decoded))"
    and met: "composition_met (tc_composition context) log" and requirements: "context_approvals cdc context = Inr requirements"
    and approved: "list_all (\<lambda>entry. approved cdc regs context canonical (ap_authority approvals) (ap_candidates approvals)
         (known_approvals cdc context) (fst entry)) requirements"
    using evaluate_authority_sound [OF resolve control run approvals_new_sound [OF new]] by (elim exE conjE) (rule that)
  have branches: "vn_authorized_branches action = sort (lg_branches log)"
    and assurance: "set (vn_assurance action) = set (lg_assurance log)" and "vn_canonical_action action = canonical"
    using refs by (simp_all add: action seal bind_verified_action_def seal_authority_def sorted_unique_distinct)
  have bound: "\<forall>entry \<in> set (pb_actions (dp_bundle decoded)). bound_to_request cdc canonical context (sa_envelope entry)"
    using validate_action_binding_Inr [OF binding] same decoded by blast
  have each: "\<forall>reference \<in> set (vn_authorized_branches action). \<exists>reports. set reports \<subseteq> set (vn_assurance action)
        \<and> branch_authorized cdc regs context canonical resolved approvals reference reports"
  proof
    fix reference assume "reference \<in> set (vn_authorized_branches action)"
    then obtain n where "n < length (lg_branches log)" "lg_branches log ! n = reference"
      unfolding branches set_sort in_set_conv_nth by blast
    then have "branch_authorized cdc regs context canonical resolved approvals reference (reports ! n)"
      and "set (reports ! n) \<subseteq> set (vn_assurance action)"
      using list_all2_nthD [OF all, of n] list_all2_lengthD [OF all] unfolding assurance reports
      by (auto intro!: bexI [of _ "reports ! n"])
    then show "\<exists>reports. set reports \<subseteq> set (vn_assurance action)
        \<and> branch_authorized cdc regs context canonical resolved approvals reference reports" by blast
  qed
  have "authorized_actors (dp_bundle decoded) (vn_authorized_branches action) = authorized_actors (dp_bundle decoded) (lg_branches log)"
    and "authorized_roots resolved (vn_authorized_branches action) = authorized_roots resolved (lg_branches log)"
    by (simp_all add: authorized_actors_def authorized_roots_def branches)
  note floors = composition_floors [OF met reports all, unfolded decoded, folded this]
  have counted: "length (vn_authorized_branches action) = length (lg_branches log)"
    and distinct: "distinct (vn_authorized_branches action)"
    and plan': "plan_satisfied (\<lambda>reference. reference \<in> set (vn_authorized_branches action)) (pb_plan (dp_bundle decoded))"
    using refs plan by (simp_all add: branches)
  show ?thesis
    by (intro exI conjI, rule decode, rule resolve, rule new, fact, rule bound, rule distinct, rule plan', rule each)
      (use floors counted requirements approved in simp_all)
qed

text \<open>The sample proof is authorized.\<close>

lemma sample_verified:
  "\<exists>regs action. sample_registries = Ok regs
     \<and> verify sample_codec regs [1] sample_canonical sample_context = OutcomeAuthorized action
     \<and> vn_authorized_branches action = [[50]] \<and> vn_work_units action = 19"
proof -
  have "case sample_registries of Inl _ \<Rightarrow> False
     | Inr regs \<Rightarrow> (case verify sample_codec regs [1] sample_canonical sample_context of
         OutcomeAuthorized action \<Rightarrow> vn_authorized_branches action = [[50]] \<and> vn_work_units action = 19
       | _ \<Rightarrow> False)" by code_simp
  then show ?thesis by (auto split: sum.splits verification_outcome.splits)
qed

theorem verified_action_is_authorized_witness:
  "\<exists>regs action decoded resolved approvals reports. sample_registries = Ok regs
     \<and> verify sample_codec regs [1] sample_canonical sample_context = OutcomeAuthorized action
     \<and> decode_proof sample_codec [1] sample_context = Ok decoded
     \<and> resolve_proof sample_codec decoded sample_context = Ok resolved
     \<and> plan_satisfied (\<lambda>reference. reference = [50]) (pb_plan (dp_bundle decoded))
     \<and> branch_authorized sample_codec regs sample_context sample_canonical resolved approvals [50] reports"
proof -
  obtain regs action where regs: "sample_registries = Ok regs"
    and run: "verify sample_codec regs [1] sample_canonical sample_context = OutcomeAuthorized action"
    and branches: "vn_authorized_branches action = [[50]]"
    using sample_verified by blast
  from verified_action_is_authorized [OF run] show ?thesis
    unfolding branches using regs run by (elim exE conjE) auto
qed


text \<open>
  C39: One work limit bounds a verification. Whatever the branches, statuses, observations and
  approvals ask for, and whether the evaluation of the authority succeeds or fails, the meter starts at
  the work of the principal controls, never goes down and ends within the limit of the context, which
  it never changes; and the work reported with an authorized action is the work of the meter.
\<close>

theorem verification_work_is_bounded:
  assumes "verify_principal_control cdc regs resolved context = Ok controlled"
    and "verify_authority_measured cdc regs context controlled canonical
      (from_used (vl_work_units (tc_limits context)) (cp_work_units controlled)) = (result, meter)"
  shows "wm_limit meter = vl_work_units (tc_limits context)
    \<and> cp_work_units controlled \<le> wm_used meter \<and> wm_used meter \<le> vl_work_units (tc_limits context)
    \<and> (case result of Inl failure \<Rightarrow> True | Inr authority \<Rightarrow> va_work_units authority = wm_used meter)"
proof -
  have "meter_le (from_used (vl_work_units (tc_limits context)) (cp_work_units controlled)) meter"
    using metered_run [OF metered_verify_authority_measured assms(2)] by simp
  moreover have "va_work_units authority = wm_used meter" if "result = Inr authority" for authority
    using assms(2) that unfolding verify_authority_measured_def evaluate_authority_def
    by (auto simp: stage_simps seal_authority_def)
  ultimately show ?thesis using control_work [OF assms(1)]
    by (auto simp: meter_le_def from_used_def split: sum.splits)
qed

theorem verification_work_is_bounded_witness:
  "\<exists>regs controlled result meter. sample_registries = Ok regs
     \<and> verify_authority_measured sample_codec regs sample_context controlled sample_canonical
         (from_used (vl_work_units (tc_limits sample_context)) (cp_work_units controlled)) = (result, meter)
     \<and> 0 < wm_used meter \<and> wm_used meter \<le> 1000"
proof -
  obtain regs action where regs: "sample_registries = Ok regs"
    and run: "verify sample_codec regs [1] sample_canonical sample_context = OutcomeAuthorized action"
    and work: "vn_work_units action = 19"
    using sample_verified by blast
  obtain decoded resolved controlled authority meter where
    control: "verify_principal_control sample_codec regs resolved sample_context = Inr controlled"
    and measured: "verify_authority_measured sample_codec regs sample_context controlled sample_canonical
        (from_used (vl_work_units (tc_limits sample_context)) (cp_work_units controlled)) = (Inr authority, meter)"
    and "action = bind_verified_action authority"
    using verify_stages [OF run] .
  then have "wm_used meter = 19" "wm_used meter \<le> vl_work_units (tc_limits sample_context)"
    using verification_work_is_bounded [OF control measured] work by (simp_all add: bind_verified_action_def)
  moreover have "vl_work_units (tc_limits sample_context) = 1000" by (simp add: sample_context_def)
  ultimately show ?thesis using regs measured by (intro exI conjI) (assumption | simp)+
qed

end
