(* ===== verification/Verifier_Portable.thy ===== *)
theory Verifier_Portable
  imports Verifier
begin

text \<open>
  The portable result of the verifier, \<open>verify_portable_sealed\<close> and \<open>verify_v1_sealed\<close> of
  \<open>core/crates/auths-verifier/src/lib.rs\<close>: the same stages as \<open>verify\<close>, with the decision, the stage
  that ended it, digests of the inputs and resource totals, from decoded values or from bytes. The
  result is shown to be the decision of \<open>verify\<close>. An \<open>expect\<close> that fails is the value \<open>None\<close>.
\<close>

section \<open>Data\<close>

datatype verification_stage = StageDecode | StageResolve | StagePrincipalControl | StageAuthority | StageComplete
datatype verification_decision = DecisionAuthorized | DecisionDenied | DecisionIndeterminate
datatype verification_code = CodeAuthorized | CodeDenied denial_reason | CodeIndeterminate requirement

record verification_resources =
  vr_proof_bytes :: u64
  vr_action_bytes :: u64
  vr_context_bytes :: u64
  vr_object_count :: u64
  vr_plan_leaves :: u64
  vr_plan_depth :: u64
  vr_work_units :: u64

record portable_verification_result =
  pv_decision :: verification_decision
  pv_stage :: verification_stage
  pv_code :: verification_code
  pv_proof_digest :: digest
  pv_action_digest :: digest
  pv_context_digest :: digest
  pv_plan_id :: "digest option"
  pv_result_digest :: digest
  pv_authorized_branches :: "proof_ref list"
  pv_assurance :: "participant_assurance list"
  pv_assurance_satisfactions :: "assurance_satisfaction list"
  pv_resources :: verification_resources
  pv_registry_manifest :: bytes
  pv_required_configuration :: "digest option"
  pv_local_configuration :: digest
  pv_observation_satisfactions :: "observation_satisfaction list"
  pv_approval_satisfactions :: "approval_satisfaction list"

record sealed_verification_result =
  sv_portable :: portable_verification_result
  sv_cbor :: bytes
  sv_action :: "verified_action option"

text \<open>The codec of the inputs and of the result.\<close>

record wire_codec =
  encode_canonical_action :: "canonical_action \<Rightarrow> (bytes, codec_error) result"
  encode_verifier_context :: "trusted_context \<Rightarrow> (bytes, codec_error) result"
  decode_canonical_action :: "bytes \<Rightarrow> verifier_limits \<Rightarrow> (canonical_action, codec_error) result"
  decode_verifier_context :: "bytes \<Rightarrow> (trusted_context, codec_error) result"
  verification_result_digest :: "portable_verification_result \<Rightarrow> (digest, codec_error) result"
  encode_verification_result :: "portable_verification_result \<Rightarrow> (bytes, codec_error) result"

definition zero_digest :: digest where "zero_digest = replicate 32 0"

text \<open>What is the same in every result of one run: digests, manifest and configurations.\<close>

record run_identity =
  ri_proof_digest :: digest
  ri_action_digest :: digest
  ri_context_digest :: digest
  ri_manifest :: bytes
  ri_required_configuration :: "digest option"
  ri_local_configuration :: digest

definition portable_result_new ::
  "run_identity \<Rightarrow> verification_decision \<Rightarrow> verification_stage \<Rightarrow> verification_code \<Rightarrow> digest option \<Rightarrow> proof_ref list
     \<Rightarrow> participant_assurance list \<Rightarrow> assurance_satisfaction list \<Rightarrow> verification_resources \<Rightarrow> portable_verification_result" where
  "portable_result_new ri decision stage code plan_id branches assurance satisfactions resources = \<lparr>
     pv_decision = decision, pv_stage = stage, pv_code = code, pv_proof_digest = ri_proof_digest ri,
     pv_action_digest = ri_action_digest ri, pv_context_digest = ri_context_digest ri, pv_plan_id = plan_id,
     pv_result_digest = zero_digest, pv_authorized_branches = branches, pv_assurance = assurance,
     pv_assurance_satisfactions = satisfactions, pv_resources = resources, pv_registry_manifest = ri_manifest ri,
     pv_required_configuration = ri_required_configuration ri, pv_local_configuration = ri_local_configuration ri,
     pv_observation_satisfactions = [], pv_approval_satisfactions = [] \<rparr>"

definition with_observation_satisfactions ::
  "observation_satisfaction list \<Rightarrow> portable_verification_result \<Rightarrow> portable_verification_result" where
  "with_observation_satisfactions satisfactions result = result \<lparr> pv_observation_satisfactions :=
     sorted_unique (\<lambda>s. (sb_requirement s, sb_observation s)) satisfactions \<rparr>"

definition with_approval_satisfactions ::
  "approval_satisfaction list \<Rightarrow> portable_verification_result \<Rightarrow> portable_verification_result" where
  "with_approval_satisfactions satisfactions result = result \<lparr> pv_approval_satisfactions :=
     sorted_unique (\<lambda>s. (sat_requirement s, sat_approvals s)) satisfactions \<rparr>"

definition with_result_digest :: "digest \<Rightarrow> portable_verification_result \<Rightarrow> portable_verification_result" where
  "with_result_digest d result = result \<lparr> pv_result_digest := d \<rparr>"

section \<open>The portable result\<close>

definition finalize_portable :: "wire_codec \<Rightarrow> portable_verification_result \<Rightarrow> portable_verification_result" where
  "finalize_portable wire result = (case verification_result_digest wire result of
     Inl _ \<Rightarrow> result | Inr d \<Rightarrow> with_result_digest d result)"

fun decision_and_code :: "verification_failure \<Rightarrow> verification_decision \<times> verification_code" where
  "decision_and_code (FailDenied reason) = (DecisionDenied, CodeDenied reason)"
| "decision_and_code (FailIndeterminate requirement) = (DecisionIndeterminate, CodeIndeterminate requirement)"

definition portable_failure ::
  "wire_codec \<Rightarrow> run_identity \<Rightarrow> verification_failure \<Rightarrow> verification_stage \<Rightarrow> digest option \<Rightarrow> verification_resources
     \<Rightarrow> portable_verification_result" where
  "portable_failure wire ri failure stage plan_id resources =
     (case decision_and_code failure of (decision, code) \<Rightarrow>
        finalize_portable wire (portable_result_new ri decision stage code plan_id [] [] [] resources))"

definition portable_success ::
  "wire_codec \<Rightarrow> run_identity \<Rightarrow> verified_authority \<Rightarrow> verification_resources \<Rightarrow> portable_verification_result" where
  "portable_success wire ri authority resources = finalize_portable wire
     (with_approval_satisfactions (va_approval_satisfactions authority)
       (with_observation_satisfactions (va_observation_satisfactions authority)
         (portable_result_new ri DecisionAuthorized StageComplete CodeAuthorized (Some (va_plan_id authority))
           (va_authorized_branches authority) (va_assurance authority) (va_assurance_satisfactions authority) resources)))"

definition infallible_encoding :: "('a, codec_error) result \<Rightarrow> 'a option" where
  "infallible_encoding encoded = (case encoded of Inl _ \<Rightarrow> None | Inr x \<Rightarrow> Some x)"

definition object_count :: "proof_bundle \<Rightarrow> usize" where
  "object_count bundle = foldl saturating_add (size_of (pb_grants bundle))
     [size_of (pb_actions bundle), size_of (pb_evidence bundle), size_of (pb_bindings bundle),
      size_of (pb_principal_status bundle), size_of (pb_grant_status bundle), size_of (pb_attachments bundle),
      size_of (pb_approvals bundle)]"

definition input_resources :: "bytes \<Rightarrow> bytes \<Rightarrow> bytes \<Rightarrow> verification_resources" where
  "input_resources proof_bytes action_bytes context_bytes = \<lparr> vr_proof_bytes = size_of proof_bytes,
     vr_action_bytes = size_of action_bytes, vr_context_bytes = size_of context_bytes, vr_object_count = 0,
     vr_plan_leaves = 0, vr_plan_depth = 0, vr_work_units = 0 \<rparr>"

definition bundle_resources :: "proof_bundle \<Rightarrow> trusted_context \<Rightarrow> verification_resources \<Rightarrow> verification_resources" where
  "bundle_resources bundle context resources =
     (let shape = validate (pb_plan bundle) (plan_limits.truncate (tc_limits context)) in
      resources \<lparr> vr_object_count := object_count bundle,
        vr_plan_leaves := (case shape of Inl _ \<Rightarrow> 0 | Inr s \<Rightarrow> size_of (ps_leaves s)),
        vr_plan_depth := (case shape of Inl _ \<Rightarrow> 0 | Inr s \<Rightarrow> of_nat (ps_maximum_depth s)), vr_work_units := 0 \<rparr>)"

text \<open>The stages, once the inputs are encoded and digested.\<close>

definition portable_stages ::
  "codec \<Rightarrow> wire_codec \<Rightarrow> registries \<Rightarrow> run_identity \<Rightarrow> verification_resources \<Rightarrow> bytes \<Rightarrow> canonical_action \<Rightarrow> trusted_context
     \<Rightarrow> portable_verification_result \<times> verified_action option" where
  "portable_stages cdc wire regs ri resources proof_bytes canonical context =
     (case decode_proof cdc proof_bytes context of
        Inl failure \<Rightarrow> (portable_failure wire ri failure StageDecode None resources, None)
      | Inr decoded \<Rightarrow> (let resources = bundle_resources (dp_bundle decoded) context resources in
     (case resolve_proof cdc decoded context of
        Inl failure \<Rightarrow> (portable_failure wire ri failure StageResolve None resources, None)
      | Inr resolved \<Rightarrow>
     (case verify_principal_control cdc regs resolved context of
        Inl failure \<Rightarrow> (portable_failure wire ri failure StagePrincipalControl (Some (rp_plan_id resolved)) resources, None)
      | Inr controlled \<Rightarrow>
     (case verify_authority_measured cdc regs context controlled canonical
             (from_used (vl_work_units (tc_limits context)) (cp_work_units controlled)) of
        (Inl failure, meter) \<Rightarrow> (portable_failure wire ri failure StageAuthority (Some (rp_plan_id resolved))
            (resources \<lparr> vr_work_units := wm_used meter \<rparr>), None)
      | (Inr authority, meter) \<Rightarrow> (portable_success wire ri authority (resources \<lparr> vr_work_units := va_work_units authority \<rparr>),
            Some (bind_verified_action authority)))))))"

definition verify_portable_sealed ::
  "codec \<Rightarrow> wire_codec \<Rightarrow> registries \<Rightarrow> bytes \<Rightarrow> canonical_action \<Rightarrow> trusted_context
     \<Rightarrow> (portable_verification_result \<times> verified_action option) option" where
  "verify_portable_sealed cdc wire regs proof_bytes canonical context =
     (case infallible_encoding (encode_canonical_action wire canonical) of
        None \<Rightarrow> None
      | Some action_bytes \<Rightarrow>
     (case infallible_encoding (encode_verifier_context wire context) of
        None \<Rightarrow> None
      | Some context_bytes \<Rightarrow>
     (case infallible_encoding (context_digest_of cdc context) of
        None \<Rightarrow> None
      | Some context_digest \<Rightarrow> Some (portable_stages cdc wire regs
          \<lparr> ri_proof_digest = body_digest cdc proof_bytes, ri_action_digest = body_digest cdc action_bytes,
            ri_context_digest = context_digest, ri_manifest = rg_manifest_id (tc_accepted_registries context),
            ri_required_configuration = Some (tc_configuration context), ri_local_configuration = ir_configuration regs \<rparr>
          (input_resources proof_bytes action_bytes context_bytes) proof_bytes canonical context))))"

definition seal_portable ::
  "wire_codec \<Rightarrow> portable_verification_result \<Rightarrow> verified_action option \<Rightarrow> (sealed_verification_result, codec_error) result" where
  "seal_portable wire portable action = and_then (encode_verification_result wire portable) (\<lambda>cbor.
     Ok \<lparr> sv_portable = portable, sv_cbor = cbor, sv_action = action \<rparr>)"

definition verify_v1_sealed ::
  "codec \<Rightarrow> wire_codec \<Rightarrow> registries \<Rightarrow> bytes \<Rightarrow> bytes \<Rightarrow> bytes \<Rightarrow> (sealed_verification_result, codec_error) result option" where
  "verify_v1_sealed cdc wire regs proof_cbor canonical_action_cbor trusted_context_cbor =
     (let resources = input_resources proof_cbor canonical_action_cbor trusted_context_cbor in
      case decode_verifier_context wire trusted_context_cbor of
        Inl error \<Rightarrow> Some (seal_portable wire (portable_failure wire
          \<lparr> ri_proof_digest = body_digest cdc proof_cbor, ri_action_digest = body_digest cdc canonical_action_cbor,
            ri_context_digest = zero_digest, ri_manifest = TARGET_V1_REGISTRY_MANIFEST,
            ri_required_configuration = None, ri_local_configuration = ir_configuration regs \<rparr>
          (codec_failure error) StageDecode None resources) None)
      | Inr context \<Rightarrow>
     (case decode_canonical_action wire canonical_action_cbor (tc_limits context) of
        Inl error \<Rightarrow>
          (case infallible_encoding (context_digest_of cdc context) of
             None \<Rightarrow> None
           | Some context_digest \<Rightarrow> Some (seal_portable wire (portable_failure wire
               \<lparr> ri_proof_digest = body_digest cdc proof_cbor, ri_action_digest = body_digest cdc canonical_action_cbor,
                 ri_context_digest = context_digest, ri_manifest = rg_manifest_id (tc_accepted_registries context),
                 ri_required_configuration = Some (tc_configuration context),
                 ri_local_configuration = ir_configuration regs \<rparr>
               (codec_failure error) StageDecode None resources) None))
      | Inr canonical \<Rightarrow>
          map_option (\<lambda>(portable, action). seal_portable wire portable action)
            (verify_portable_sealed cdc wire regs proof_cbor canonical context)))"

definition verify_v1 :: "codec \<Rightarrow> wire_codec \<Rightarrow> registries \<Rightarrow> bytes \<Rightarrow> bytes \<Rightarrow> bytes \<Rightarrow> (bytes, codec_error) result option" where
  "verify_v1 cdc wire regs proof_cbor canonical_action_cbor trusted_context_cbor =
     map_option (\<lambda>r. and_then r (\<lambda>sealed. Ok (sv_cbor sealed)))
       (verify_v1_sealed cdc wire regs proof_cbor canonical_action_cbor trusted_context_cbor)"

section \<open>The decision is the verifier's\<close>

text \<open>How a sealed result reports an outcome of the verifier.\<close>

definition reports_outcome :: "verification_outcome \<Rightarrow> portable_verification_result \<Rightarrow> verified_action option \<Rightarrow> bool" where
  "reports_outcome outcome portable action = (case outcome of
     OutcomeAuthorized verified \<Rightarrow> action = Some verified
       \<and> pv_decision portable = DecisionAuthorized \<and> pv_code portable = CodeAuthorized \<and> pv_stage portable = StageComplete
       \<and> pv_plan_id portable = Some (vn_plan_id verified)
       \<and> pv_authorized_branches portable = vn_authorized_branches verified
       \<and> pv_assurance portable = vn_assurance verified
       \<and> set (pv_observation_satisfactions portable) = set (vn_observation_satisfactions verified)
       \<and> set (pv_approval_satisfactions portable) = set (vn_approval_satisfactions verified)
       \<and> vr_work_units (pv_resources portable) = vn_work_units verified
   | OutcomeDenied reason \<Rightarrow> action = None
       \<and> pv_decision portable = DecisionDenied \<and> pv_code portable = CodeDenied reason \<and> pv_stage portable \<noteq> StageComplete
       \<and> pv_authorized_branches portable = [] \<and> pv_assurance portable = []
   | OutcomeIndeterminate requirement \<Rightarrow> action = None
       \<and> pv_decision portable = DecisionIndeterminate \<and> pv_code portable = CodeIndeterminate requirement
       \<and> pv_stage portable \<noteq> StageComplete \<and> pv_authorized_branches portable = [] \<and> pv_assurance portable = [])"

lemma finalize_portable_keeps:
  "\<exists>d. finalize_portable wire result = result \<lparr> pv_result_digest := d \<rparr>"
proof (cases "verification_result_digest wire result")
  case (Inl error)
  then have "finalize_portable wire result = result \<lparr> pv_result_digest := pv_result_digest result \<rparr>"
    by (simp add: finalize_portable_def)
  then show ?thesis by blast
qed (auto simp: finalize_portable_def with_result_digest_def)

lemma portable_failure_reports:
  "stage \<noteq> StageComplete \<Longrightarrow> reports_outcome (outcome_of failure) (portable_failure wire ri failure stage plan_id resources) None"
proof (cases failure)
  case (FailDenied reason)
  obtain d where "finalize_portable wire (portable_result_new ri DecisionDenied stage (CodeDenied reason) plan_id [] [] [] resources)
    = portable_result_new ri DecisionDenied stage (CodeDenied reason) plan_id [] [] [] resources \<lparr> pv_result_digest := d \<rparr>"
    using finalize_portable_keeps by blast
  then show "stage \<noteq> StageComplete \<Longrightarrow> ?thesis"
    by (simp add: FailDenied portable_failure_def reports_outcome_def portable_result_new_def)
next
  case (FailIndeterminate requirement)
  obtain d where "finalize_portable wire (portable_result_new ri DecisionIndeterminate stage (CodeIndeterminate requirement) plan_id
      [] [] [] resources)
    = portable_result_new ri DecisionIndeterminate stage (CodeIndeterminate requirement) plan_id [] [] [] resources
        \<lparr> pv_result_digest := d \<rparr>"
    using finalize_portable_keeps by blast
  then show "stage \<noteq> StageComplete \<Longrightarrow> ?thesis"
    by (simp add: FailIndeterminate portable_failure_def reports_outcome_def portable_result_new_def)
qed

lemma portable_success_reports:
  assumes "vr_work_units resources = va_work_units authority"
  shows "reports_outcome (OutcomeAuthorized (bind_verified_action authority)) (portable_success wire ri authority resources)
     (Some (bind_verified_action authority))"
proof -
  let ?result = "with_approval_satisfactions (va_approval_satisfactions authority)
       (with_observation_satisfactions (va_observation_satisfactions authority)
         (portable_result_new ri DecisionAuthorized StageComplete CodeAuthorized (Some (va_plan_id authority))
           (va_authorized_branches authority) (va_assurance authority) (va_assurance_satisfactions authority) resources))"
  obtain d where "portable_success wire ri authority resources = ?result \<lparr> pv_result_digest := d \<rparr>"
    unfolding portable_success_def using finalize_portable_keeps by blast
  then show ?thesis using assms
    by (simp add: reports_outcome_def with_approval_satisfactions_def with_observation_satisfactions_def
        portable_result_new_def bind_verified_action_def)
qed

lemma portable_stages_report:
  "case portable_stages cdc wire regs ri resources proof_bytes canonical context of (portable, action) \<Rightarrow>
     reports_outcome (verify cdc regs proof_bytes canonical context) portable action"
proof (cases "decode_proof cdc proof_bytes context")
  case (Inl failure)
  then show ?thesis by (simp add: portable_stages_def verify_def portable_failure_reports)
next
  case decode: (Inr decoded)
  show ?thesis
  proof (cases "resolve_proof cdc decoded context")
    case (Inl failure)
    then show ?thesis by (simp add: portable_stages_def verify_def decode portable_failure_reports Let_def)
  next
    case resolve: (Inr resolved)
    show ?thesis
    proof (cases "verify_principal_control cdc regs resolved context")
      case (Inl failure)
      then show ?thesis by (simp add: portable_stages_def verify_def decode resolve portable_failure_reports Let_def)
    next
      case control: (Inr controlled)
      obtain result meter where "verify_authority_measured cdc regs context controlled canonical
          (from_used (vl_work_units (tc_limits context)) (cp_work_units controlled)) = (result, meter)" by force
      then show ?thesis
        by (cases result) (simp_all add: portable_stages_def verify_def decode resolve control portable_failure_reports
            portable_success_reports Let_def)
    qed
  qed
qed

text \<open>
  C8: The byte-oriented entry decides exactly as the verifier on the decoded inputs. A result
  sealed from bytes carries the action that the verifier authorizes, with its branches, reports and
  work, and the decision, code and stage that say so; on every other outcome it carries no action and no
  branch and names the reason or requirement. Inputs that do not decode give a result of the decoding
  stage with the failure of the codec, and no action.
\<close>

theorem byte_results_are_the_verifier_decision:
  assumes "verify_v1_sealed cdc wire regs proof_cbor action_cbor context_cbor = Some (Ok sealed)"
  shows "reports_outcome
     (case decode_verifier_context wire context_cbor of
        Inl error \<Rightarrow> outcome_of (codec_failure error)
      | Inr context \<Rightarrow> (case decode_canonical_action wire action_cbor (tc_limits context) of
          Inl error \<Rightarrow> outcome_of (codec_failure error)
        | Inr canonical \<Rightarrow> verify cdc regs proof_cbor canonical context))
     (sv_portable sealed) (sv_action sealed)
    \<and> encode_verification_result wire (sv_portable sealed) = Ok (sv_cbor sealed)
    \<and> verify_v1 cdc wire regs proof_cbor action_cbor context_cbor = Some (Ok (sv_cbor sealed))"
proof -
  have seal: "sv_portable sealed = portable \<and> sv_action sealed = action
      \<and> encode_verification_result wire portable = Inr (sv_cbor sealed)"
    if "seal_portable wire portable action = Inr sealed" for portable action
    using that by (auto simp: seal_portable_def and_then_Inr_iff)
  have bytes: "verify_v1 cdc wire regs proof_cbor action_cbor context_cbor = Some (Ok (sv_cbor sealed))"
    using assms by (simp add: verify_v1_def)
  show ?thesis
  proof (cases "decode_verifier_context wire context_cbor")
    case (Inl error)
    then show ?thesis using assms bytes
      by (auto simp: verify_v1_sealed_def portable_failure_reports dest!: seal)
  next
    case local: (Inr ctx)
    show ?thesis
    proof (cases "decode_canonical_action wire action_cbor (tc_limits ctx)")
      case (Inl error)
      then show ?thesis using assms bytes local
        by (auto simp: verify_v1_sealed_def portable_failure_reports split: option.splits dest!: seal)
    next
      case (Inr canonical)
      then obtain ri resources portable action where
        "portable_stages cdc wire regs ri resources proof_cbor canonical ctx = (portable, action)"
        "seal_portable wire portable action = Inr sealed"
        using assms local by (auto simp: verify_v1_sealed_def verify_portable_sealed_def split: option.splits)
      then show ?thesis
        using portable_stages_report [of cdc regs proof_cbor canonical ctx wire ri resources] Inr local bytes seal by auto
    qed
  qed
qed

definition sample_wire_codec :: wire_codec where
  "sample_wire_codec = \<lparr> encode_canonical_action = (\<lambda>_. Ok [1]), encode_verifier_context = (\<lambda>_. Ok [1]),
     decode_canonical_action = (\<lambda>bs _. if bs = [1] then Ok sample_canonical else Err CodecMalformed),
     decode_verifier_context = (\<lambda>bs. if bs = [1] then Ok sample_context else Err CodecMalformed),
     verification_result_digest = (\<lambda>_. Ok [92]), encode_verification_result = (\<lambda>_. Ok [93]) \<rparr>"

theorem byte_results_are_the_verifier_decision_witness:
  "\<exists>regs sealed. sample_registries = Ok regs
     \<and> verify_v1_sealed sample_codec sample_wire_codec regs [1] [1] [1] = Some (Ok sealed)
     \<and> pv_decision (sv_portable sealed) = DecisionAuthorized
     \<and> pv_authorized_branches (sv_portable sealed) = [[50]] \<and> sv_action sealed \<noteq> None"
proof -
  obtain regs action where regs: "sample_registries = Ok regs"
    and run: "verify sample_codec regs [1] sample_canonical sample_context = OutcomeAuthorized action"
    and branches: "vn_authorized_branches action = [[50]]"
    using sample_verified by blast
  have wire: "encode_canonical_action sample_wire_codec sample_canonical = Inr [1]" "encode_verifier_context sample_wire_codec sample_context = Inr [1]"
    "decode_verifier_context sample_wire_codec [1] = Inr sample_context"
    "decode_canonical_action sample_wire_codec [1] limits = Inr sample_canonical"
    "encode_verification_result sample_wire_codec portable = Inr [93]"
    "context_digest_of sample_codec sample_context = Inr [91]" for limits portable
    by (simp_all add: sample_wire_codec_def sample_codec_def)
  obtain portable authorized where "verify_portable_sealed sample_codec sample_wire_codec regs [1] sample_canonical sample_context
      = Some (portable, authorized)"
    by (simp add: verify_portable_sealed_def infallible_encoding_def wire) (metis prod.exhaust)
  then obtain sealed where sealed: "verify_v1_sealed sample_codec sample_wire_codec regs [1] [1] [1] = Some (Ok sealed)"
    by (simp add: verify_v1_sealed_def wire seal_portable_def)
  from byte_results_are_the_verifier_decision [OF sealed] run
  have "reports_outcome (OutcomeAuthorized action) (sv_portable sealed) (sv_action sealed)"
    by (simp add: wire)
  then show ?thesis using regs sealed branches by (auto simp: reports_outcome_def)
qed

end
