(* ===== verification/Verifier_Trace.thy ===== *)
theory Verifier_Trace
  imports Verifier_Portable
begin

text \<open>
  The trace of a verification and its causal explanation, \<open>trace.rs\<close>, \<open>causal.rs\<close> and \<open>verify_internal\<close> of
  \<open>core/crates/auths-verifier/src\<close>. A trace is a list of facts whose parents are earlier facts; recording
  never changes the outcome, and the explanation is exactly the ancestry of the final fact.
\<close>

section \<open>Facts\<close>

datatype fact_kind =
    FactContextConfigurationMatches | FactRegistryManifestAccepted | FactExpectedPlanMatches
    | FactTrustAnchorAcceptedMethod | FactTrustAnchorProfile | FactTrustAnchorPermission
    | FactTrustAnchorResourceNamespace | FactGrantLinkage | FactGrantDepth | FactGrantPermissionAttenuation
    | FactGrantValidityAttenuation | FactGrantAudienceAttenuation | FactGrantBodyAttenuation
    | FactGrantBudgetAttenuation | FactGrantStatusAttenuation | FactGrantAssurancePolicy | FactActionActor
    | FactActionTerminalGrant | FactActionProfile | FactActionPermission | FactActionValidity
    | FactActionAudience | FactActionChallenge | FactActionBodyDigest | FactActionBudget
    | FactChannelBinding | FactPrincipalControl | FactPrincipalStatus | FactGrantStatus
    | FactAssuranceRequirement | FactResourceNamespace | FactProfilePolicy | FactCriticalExtension
    | FactAttachment | FactPlanNode | FactMinimumAuthorizedBranches | FactMinimumDistinctActors
    | FactMinimumDistinctRoots | FactApprovalRequirement | FactWorkReservation | FactDecision

fun fact_code :: "fact_kind \<Rightarrow> string" where
  "fact_code FactContextConfigurationMatches = ''context-configuration-matches''"
| "fact_code FactRegistryManifestAccepted = ''registry-manifest-accepted''"
| "fact_code FactExpectedPlanMatches = ''expected-plan-matches''"
| "fact_code FactTrustAnchorAcceptedMethod = ''trust-anchor-accepted-method''"
| "fact_code FactTrustAnchorProfile = ''trust-anchor-profile''"
| "fact_code FactTrustAnchorPermission = ''trust-anchor-permission''"
| "fact_code FactTrustAnchorResourceNamespace = ''trust-anchor-resource-namespace''"
| "fact_code FactGrantLinkage = ''grant-linkage''"
| "fact_code FactGrantDepth = ''grant-depth''"
| "fact_code FactGrantPermissionAttenuation = ''grant-permission-attenuation''"
| "fact_code FactGrantValidityAttenuation = ''grant-validity-attenuation''"
| "fact_code FactGrantAudienceAttenuation = ''grant-audience-attenuation''"
| "fact_code FactGrantBodyAttenuation = ''grant-body-attenuation''"
| "fact_code FactGrantBudgetAttenuation = ''grant-budget-attenuation''"
| "fact_code FactGrantStatusAttenuation = ''grant-status-attenuation''"
| "fact_code FactGrantAssurancePolicy = ''grant-assurance-policy''"
| "fact_code FactActionActor = ''action-actor''"
| "fact_code FactActionTerminalGrant = ''action-terminal-grant''"
| "fact_code FactActionProfile = ''action-profile''"
| "fact_code FactActionPermission = ''action-permission''"
| "fact_code FactActionValidity = ''action-validity''"
| "fact_code FactActionAudience = ''action-audience''"
| "fact_code FactActionChallenge = ''action-challenge''"
| "fact_code FactActionBodyDigest = ''action-body-digest''"
| "fact_code FactActionBudget = ''action-budget''"
| "fact_code FactChannelBinding = ''channel-binding''"
| "fact_code FactPrincipalControl = ''principal-control''"
| "fact_code FactPrincipalStatus = ''principal-status''"
| "fact_code FactGrantStatus = ''grant-status''"
| "fact_code FactAssuranceRequirement = ''assurance-requirement''"
| "fact_code FactResourceNamespace = ''resource-namespace''"
| "fact_code FactProfilePolicy = ''profile-policy''"
| "fact_code FactCriticalExtension = ''critical-extension''"
| "fact_code FactAttachment = ''attachment''"
| "fact_code FactPlanNode = ''plan-node''"
| "fact_code FactMinimumAuthorizedBranches = ''minimum-authorized-branches''"
| "fact_code FactMinimumDistinctActors = ''minimum-distinct-actors''"
| "fact_code FactMinimumDistinctRoots = ''minimum-distinct-roots''"
| "fact_code FactApprovalRequirement = ''approval-requirement''"
| "fact_code FactWorkReservation = ''work-reservation''"
| "fact_code FactDecision = ''decision''"

definition failure_fact_kind :: "verification_failure \<Rightarrow> fact_kind" where
  "failure_fact_kind failure = (case failure of
    FailDenied reason \<Rightarrow> (case reason of
      ResourceLimitExceeded \<Rightarrow> FactWorkReservation
       | InvalidSignature \<Rightarrow> FactPrincipalControl
       | PrincipalMethodMismatch \<Rightarrow> FactPrincipalControl
       | VerificationMethodMismatch \<Rightarrow> FactPrincipalControl
       | SignatureSuiteMismatch \<Rightarrow> FactPrincipalControl
       | UntrustedRoot \<Rightarrow> FactTrustAnchorAcceptedMethod
       | BrokenGrantChain \<Rightarrow> FactGrantLinkage
       | DelegationExpanded \<Rightarrow> FactGrantPermissionAttenuation
       | ObservationRequirementDropped \<Rightarrow> FactGrantPermissionAttenuation
       | PermissionNotGranted \<Rightarrow> FactActionPermission
       | ActionConstraintMismatch \<Rightarrow> FactActionBodyDigest
       | ActionBodyMismatch \<Rightarrow> FactActionBodyDigest
       | BudgetCeilingExceeded \<Rightarrow> FactActionBudget
       | AuthorizationPlanInvalid \<Rightarrow> FactPlanNode | PlanActionMismatch \<Rightarrow> FactPlanNode
       | CompositionRequirementNotMet \<Rightarrow> FactMinimumAuthorizedBranches
       | AudienceMismatch \<Rightarrow> FactActionAudience | ChallengeMismatch \<Rightarrow> FactActionChallenge
       | ActionOutsideValidity \<Rightarrow> FactActionValidity
       | PrincipalRevoked \<Rightarrow> FactPrincipalStatus
       | StatusSequenceRollback \<Rightarrow> FactPrincipalStatus
       | StatusMethodMismatch \<Rightarrow> FactPrincipalStatus
       | StatusIssuerUntrusted \<Rightarrow> FactPrincipalStatus | GrantRevoked \<Rightarrow> FactGrantStatus
       | RegistryManifestMismatch \<Rightarrow> FactRegistryManifestAccepted
       | VerifierConfigurationMismatch \<Rightarrow> FactContextConfigurationMatches
       | ResourceNamespaceMismatch \<Rightarrow> FactResourceNamespace
       | CriticalExtensionUnknown \<Rightarrow> FactCriticalExtension
       | AttachmentMissing \<Rightarrow> FactAttachment | AttachmentDigestMismatch \<Rightarrow> FactAttachment
       | AttachmentLengthMismatch \<Rightarrow> FactAttachment | DuplicateAttachment \<Rightarrow> FactAttachment
       | UnusedCriticalAttachment \<Rightarrow> FactAttachment
       | OpaqueAttachmentNotAllowed \<Rightarrow> FactAttachment
       | LocalPolicyDenied \<Rightarrow> FactProfilePolicy
       | ObservationConditionFalse \<Rightarrow> FactCriticalExtension
       | ObserverInAuthorityChain \<Rightarrow> FactCriticalExtension
       | ApprovalThresholdNotMet \<Rightarrow> FactApprovalRequirement
       | MalformedProof \<Rightarrow> FactPlanNode | NonCanonicalProof \<Rightarrow> FactPlanNode
       | DigestMismatch \<Rightarrow> FactPlanNode | DuplicateObject \<Rightarrow> FactPlanNode
       | MissingReference \<Rightarrow> FactPlanNode | ReferenceCycle \<Rightarrow> FactPlanNode
       | AmbiguousTerminalGrant \<Rightarrow> FactPlanNode | UnusedCriticalEvidence \<Rightarrow> FactPlanNode)
  | FailIndeterminate requirement \<Rightarrow> (case requirement of
      UnsupportedPrincipalMethod \<Rightarrow> FactPrincipalControl
       | UnsupportedSignatureSuite \<Rightarrow> FactPrincipalControl
       | UnsupportedEvidenceType \<Rightarrow> FactPrincipalControl
       | MissingPrincipalEvidence \<Rightarrow> FactPrincipalControl
       | HistoricalStateUnavailable \<Rightarrow> FactPrincipalControl
       | UnsupportedStatusMethod \<Rightarrow> FactPrincipalStatus
       | MissingPrincipalStatus \<Rightarrow> FactPrincipalStatus | StaleStatus \<Rightarrow> FactPrincipalStatus
       | MissingGrantStatus \<Rightarrow> FactGrantStatus
       | UnsupportedProfile \<Rightarrow> FactTrustAnchorProfile
       | UnsupportedProfilePolicy \<Rightarrow> FactProfilePolicy
       | UnsupportedResourceMatcher \<Rightarrow> FactResourceNamespace
       | UnsupportedBudgetAlgebra \<Rightarrow> FactActionBudget
       | UnsupportedCriticalExtension \<Rightarrow> FactCriticalExtension
       | ObservationMissing \<Rightarrow> FactCriticalExtension
       | ObservationActionFactUnavailable \<Rightarrow> FactCriticalExtension
       | UnsupportedAssuranceClaim \<Rightarrow> FactAssuranceRequirement
       | AssuranceRequirementNotMet \<Rightarrow> FactAssuranceRequirement
       | UnsupportedProtocol \<Rightarrow> FactPlanNode | ExternalFactUnavailable \<Rightarrow> FactPlanNode
       | ApprovalUnavailable \<Rightarrow> FactApprovalRequirement))"

datatype fact_origin = OriginTrustedContext | OriginProof | OriginExecutableRegistry | OriginDerived
datatype trace_value = ValuePresent bool | ValueEqual bool | ValueCount u64 u64 | ValueRedacted
datatype fact_result = ResultSatisfied | ResultContradicted | ResultUnavailable | ResultNotEvaluated

record fact_evaluation =
  fe_sequence :: u32
  fe_stage :: verification_stage
  fe_kind :: fact_kind
  fe_origin :: fact_origin
  fe_value :: trace_value
  fe_result :: fact_result
  fe_code :: "verification_code option"
  fe_parents :: "u32 list"

record verification_trace =
  vt_events :: "fact_evaluation list"
  vt_final_node :: u32

text \<open>The capacity is what the allocator grants, which may be more than was asked for.\<close>

record trace_collector =
  tr_collect :: bool
  tr_events :: "fact_evaluation list"
  tr_capacity :: nat
  tr_final_node :: "u32 option"

datatype trace_error = CapacityExceeded

definition HARD_MAX_TRACE_EVENTS :: nat where "HARD_MAX_TRACE_EVENTS = 4096"

definition discard_trace :: trace_collector where
  "discard_trace = \<lparr> tr_collect = False, tr_events = [], tr_capacity = 0, tr_final_node = None \<rparr>"

definition collect_trace :: "nat option \<Rightarrow> nat \<Rightarrow> (trace_collector, trace_error) result" where
  "collect_trace allocated capacity =
     (if capacity > HARD_MAX_TRACE_EVENTS then Err CapacityExceeded
      else case allocated of
        None \<Rightarrow> Err CapacityExceeded
      | Some room \<Rightarrow> Ok \<lparr> tr_collect = True, tr_events = [], tr_capacity = room, tr_final_node = None \<rparr>)"

definition u32_of_len :: "nat \<Rightarrow> u32" where
  "u32_of_len n = (if n < 2 ^ 32 then of_nat n else - 1)"

type_synonym recorder = "trace_collector \<Rightarrow> u32 option \<times> trace_collector"

definition record_with_parents ::
  "verification_stage \<Rightarrow> fact_kind \<Rightarrow> fact_origin \<Rightarrow> trace_value \<Rightarrow> fact_result \<Rightarrow> verification_code option \<Rightarrow> u32 list \<Rightarrow> recorder" where
  "record_with_parents stage kind origin v result code parents tr =
     (if \<not> tr_collect tr \<or> length (tr_events tr) \<ge> tr_capacity tr then (None, tr)
      else let sequence = u32_of_len (length (tr_events tr)) in
        (Some sequence, tr \<lparr> tr_events := tr_events tr @ [\<lparr> fe_sequence = sequence, fe_stage = stage, fe_kind = kind,
           fe_origin = origin, fe_value = v, fe_result = result, fe_code = code,
           fe_parents = remdups_adj (sort (filter (\<lambda>parent. parent < sequence) parents)) \<rparr>] \<rparr>))"

definition set_final_node :: "u32 option \<Rightarrow> trace_collector \<Rightarrow> trace_collector" where
  "set_final_node node tr = (if node \<noteq> None then tr \<lparr> tr_final_node := node \<rparr> else tr)"

definition finish_trace :: "trace_collector \<Rightarrow> verification_trace" where
  "finish_trace tr = \<lparr> vt_events = tr_events tr,
     vt_final_node = (case tr_final_node tr of Some node \<Rightarrow> node | None \<Rightarrow> u32_of_len (length (tr_events tr) - 1)) \<rparr>"

section \<open>What a verification records\<close>

definition failure_code :: "verification_failure \<Rightarrow> verification_code" where
  "failure_code failure = snd (decision_and_code failure)"

definition record_configuration_facts ::
  "trusted_context \<Rightarrow> registries \<Rightarrow> trace_collector \<Rightarrow> (u32 option \<times> u32 option) \<times> trace_collector" where
  "record_configuration_facts context regs tr =
     (let configuration_matches = (tc_configuration context = ir_configuration regs);
          registry_matches = (rg_manifest_id (tc_accepted_registries context) = TARGET_V1_REGISTRY_MANIFEST) in
      case record_with_parents StageResolve FactContextConfigurationMatches OriginTrustedContext
          (ValueEqual configuration_matches) (if configuration_matches then ResultSatisfied else ResultContradicted)
          (if configuration_matches then None else Some (CodeDenied VerifierConfigurationMismatch)) [] tr of (configuration, tr) \<Rightarrow>
      case record_with_parents StageResolve FactRegistryManifestAccepted OriginExecutableRegistry
          (ValueEqual registry_matches) (if registry_matches then ResultSatisfied else ResultContradicted)
          (if registry_matches then None else Some (CodeDenied RegistryManifestMismatch)) [] tr of (registry, tr) \<Rightarrow>
        ((configuration, registry), tr))"

definition record_failure ::
  "verification_stage \<Rightarrow> fact_origin \<Rightarrow> trace_value \<Rightarrow> verification_failure \<Rightarrow> u32 list \<Rightarrow> recorder" where
  "record_failure stage origin v failure parents = record_with_parents stage (failure_fact_kind failure) origin v
     (case failure of FailDenied _ \<Rightarrow> ResultContradicted | FailIndeterminate _ \<Rightarrow> ResultUnavailable)
     (Some (failure_code failure)) parents"

fun branch_fact_result :: "branch_outcome \<Rightarrow> fact_result" where
  "branch_fact_result BranchAuthorized = ResultSatisfied"
| "branch_fact_result (BranchDenied _) = ResultContradicted"
| "branch_fact_result (BranchStructurallyInvalid _) = ResultContradicted"
| "branch_fact_result (BranchIndeterminate _) = ResultUnavailable"

fun branch_verification_code :: "branch_outcome \<Rightarrow> verification_code" where
  "branch_verification_code BranchAuthorized = CodeAuthorized"
| "branch_verification_code (BranchDenied reason) = CodeDenied reason"
| "branch_verification_code (BranchStructurallyInvalid reason) = CodeDenied reason"
| "branch_verification_code (BranchIndeterminate requirement) = CodeIndeterminate requirement"

definition nodes :: "u32 option list \<Rightarrow> u32 list" where
  "nodes xs = List.map_filter (\<lambda>x. x) xs"

text \<open>The loop over the events with its stack, whose top is last; \<open>None\<close> is the early return.\<close>

fun plan_event_nodes ::
  "u32 option \<Rightarrow> u32 option list \<Rightarrow> evaluation_event list \<Rightarrow> trace_collector \<Rightarrow> u32 option list option \<times> trace_collector" where
  "plan_event_nodes principal_node stack [] tr = (Some stack, tr)"
| "plan_event_nodes principal_node stack (ProofEvent reference outcome # events) tr =
     (case record_with_parents StageAuthority FactPlanNode OriginProof (ValuePresent True) (branch_fact_result outcome)
         (Some (branch_verification_code outcome)) (nodes [principal_node]) tr of (node, tr) \<Rightarrow>
        plan_event_nodes principal_node (stack @ [node]) events tr)"
| "plan_event_nodes principal_node stack (AggregateEvent child_count required authorized indeterminate outcome # events) tr =
     (if unat child_count > length stack then (None, tr)
      else let kept = take (length stack - unat child_count) stack; children = drop (length stack - unat child_count) stack in
        case record_with_parents StageAuthority FactPlanNode OriginDerived (ValueCount authorized (ucast required))
            (branch_fact_result outcome) (Some (branch_verification_code outcome)) (nodes children) tr of (node, tr) \<Rightarrow>
          plan_event_nodes principal_node (kept @ [node]) events tr)"

definition record_plan_events :: "evaluation_event list \<Rightarrow> u32 option \<Rightarrow> recorder" where
  "record_plan_events events principal_node tr = (case plan_event_nodes principal_node [] events tr of
     (Some [node], tr) \<Rightarrow> (node, tr) | (_, tr) \<Rightarrow> (None, tr))"

record authority_diagnostics =
  dg_plan_events :: "evaluation_event list"
  dg_authorized_branches :: usize
  dg_distinct_actors :: usize
  dg_distinct_roots :: usize
  dg_context_approvals :: "(usize \<times> u16 \<times> fact_result) list"

definition no_diagnostics :: authority_diagnostics where
  "no_diagnostics = \<lparr> dg_plan_events = [], dg_authorized_branches = 0, dg_distinct_actors = 0, dg_distinct_roots = 0,
     dg_context_approvals = [] \<rparr>"

definition record_context_approval :: "evaluated_approval \<Rightarrow> usize \<times> u16 \<times> fact_result" where
  "record_context_approval evaluated = (ct_counted (ev_counts evaluated), ev_threshold evaluated,
     (case ev_verdict evaluated of
        VerdictAuthorized _ \<Rightarrow> ResultSatisfied | VerdictDenied \<Rightarrow> ResultContradicted | VerdictIndeterminate \<Rightarrow> ResultUnavailable))"

text \<open>What the evaluation of the authority leaves in its diagnostics, whatever its result.\<close>

definition context_diagnostics ::
  "codec \<Rightarrow> registries \<Rightarrow> trusted_context \<Rightarrow> control_verified_proof \<Rightarrow> canonical_action \<Rightarrow> verify_state
     \<Rightarrow> (usize \<times> u16 \<times> fact_result) list" where
  "context_diagnostics cdc regs context controlled canonical s = (case context_approvals cdc context of
     Inl _ \<Rightarrow> []
   | Inr requirements \<Rightarrow>
       (let approvals = vs_approvals (snd (evaluate_list cdc regs context controlled canonical requirements s)) in
        List.map_filter (\<lambda>(i, _). map_option record_context_approval (evaluated_of approvals i)) requirements))"

definition plan_diagnostics ::
  "codec \<Rightarrow> registries \<Rightarrow> trusted_context \<Rightarrow> control_verified_proof \<Rightarrow> canonical_action \<Rightarrow> verify_state \<Rightarrow> authority_diagnostics" where
  "plan_diagnostics cdc regs context controlled canonical s =
     (case evaluate_observed (pb_plan (dp_bundle (rp_decoded (cp_resolved controlled))))
             (plan_limits.truncate (tc_limits context)) (plan_branch cdc regs context controlled canonical) (s, empty_log) of
        Inl _ \<Rightarrow> no_diagnostics
      | Inr (outcome, (s', log), events) \<Rightarrow>
          (let diagnostics = no_diagnostics \<lparr> dg_plan_events := events \<rparr>;
               counted = diagnostics \<lparr> dg_authorized_branches := size_of (lg_branches log),
                 dg_distinct_actors := of_nat (distinct_principals ActorRole (lg_assurance log)),
                 dg_distinct_roots := of_nat (distinct_principals RootRole (lg_assurance log)) \<rparr> in
           if outcome \<noteq> BranchAuthorized then diagnostics
           else if \<not> composition_met (tc_composition context) log then counted
           else counted \<lparr> dg_context_approvals := context_diagnostics cdc regs context controlled canonical s' \<rparr>))"

definition authority_diagnostics ::
  "codec \<Rightarrow> registries \<Rightarrow> trusted_context \<Rightarrow> control_verified_proof \<Rightarrow> canonical_action \<Rightarrow> work_meter \<Rightarrow> authority_diagnostics" where
  "authority_diagnostics cdc regs context controlled canonical meter =
     (case validate_action_binding cdc regs context controlled canonical meter of
        (Inl _, _) \<Rightarrow> no_diagnostics
      | (Inr _, meter) \<Rightarrow>
     (case context_digest_of cdc context of
        Inl _ \<Rightarrow> no_diagnostics
      | Inr _ \<Rightarrow>
     (case approvals_new cdc (dp_bundle (rp_decoded (cp_resolved controlled))) of
        Inl _ \<Rightarrow> no_diagnostics
      | Inr approvals \<Rightarrow> plan_diagnostics cdc regs context controlled canonical
          \<lparr> vs_meter = meter, vs_approvals = approvals \<rparr>)))"

fun record_nodes :: "('a \<Rightarrow> recorder) \<Rightarrow> 'a list \<Rightarrow> u32 list \<Rightarrow> trace_collector \<Rightarrow> u32 list \<times> trace_collector" where
  "record_nodes f [] parents tr = (parents, tr)"
| "record_nodes f (x # xs) parents tr = (case f x tr of (node, tr) \<Rightarrow>
     record_nodes f xs (case node of None \<Rightarrow> parents | Some n \<Rightarrow> parents @ [n]) tr)"

definition record_floor :: "u32 list \<Rightarrow> fact_kind \<times> usize \<times> u16 \<Rightarrow> recorder" where
  "record_floor plan_parents floor = (case floor of (kind, actual, required) \<Rightarrow>
     record_with_parents StageAuthority kind OriginTrustedContext (ValueCount actual (ucast required))
       (if actual \<ge> ucast required then ResultSatisfied else ResultContradicted)
       (if actual \<ge> ucast required then None else Some (CodeDenied CompositionRequirementNotMet)) plan_parents)"

definition record_approval_fact :: "u32 list \<Rightarrow> usize \<times> u16 \<times> fact_result \<Rightarrow> recorder" where
  "record_approval_fact plan_parents entry = (case entry of (counted, threshold, result) \<Rightarrow>
     record_with_parents StageAuthority FactApprovalRequirement OriginTrustedContext (ValueCount counted (ucast threshold)) result
       (case result of ResultSatisfied \<Rightarrow> None | ResultNotEvaluated \<Rightarrow> None
          | ResultContradicted \<Rightarrow> Some (CodeDenied ApprovalThresholdNotMet)
          | ResultUnavailable \<Rightarrow> Some (CodeIndeterminate ApprovalUnavailable)) plan_parents)"

definition record_composition_decision ::
  "composition_requirement \<Rightarrow> authority_diagnostics \<Rightarrow> u32 option \<Rightarrow> verification_code \<Rightarrow> recorder" where
  "record_composition_decision requirement diagnostics plan_root code tr =
     (let plan_parents = nodes [plan_root] in
      case record_nodes (record_floor plan_parents)
          [(FactMinimumAuthorizedBranches, dg_authorized_branches diagnostics, co_minimum_authorized_branches requirement),
           (FactMinimumDistinctActors, dg_distinct_actors diagnostics, co_minimum_distinct_actors requirement),
           (FactMinimumDistinctRoots, dg_distinct_roots diagnostics, co_minimum_distinct_roots requirement)]
          plan_parents tr of (parents, tr) \<Rightarrow>
      case record_nodes (record_approval_fact plan_parents) (dg_context_approvals diagnostics) parents tr of (parents, tr) \<Rightarrow>
        record_with_parents StageComplete FactDecision OriginDerived (ValuePresent (code = CodeAuthorized))
          (case code of CodeAuthorized \<Rightarrow> ResultSatisfied | CodeDenied _ \<Rightarrow> ResultContradicted
             | CodeIndeterminate _ \<Rightarrow> ResultUnavailable) (Some code) parents tr)"

section \<open>The verifier with its trace\<close>

definition record_final :: "recorder \<Rightarrow> recorder" where
  "record_final m tr = (case m tr of (node, tr) \<Rightarrow> (node, set_final_node node tr))"

text \<open>The fact that closes a refused authority: a refusal after the plan authorized is the composition's.\<close>

definition record_refusal ::
  "trusted_context \<Rightarrow> authority_diagnostics \<Rightarrow> u32 option \<Rightarrow> verification_failure \<Rightarrow> recorder" where
  "record_refusal context diagnostics principal_node failure tr =
     (case record_plan_events (dg_plan_events diagnostics) principal_node tr of (plan_root, tr) \<Rightarrow>
        if plan_root \<noteq> None \<and> dg_plan_events diagnostics \<noteq> []
           \<and> event_outcome (last (dg_plan_events diagnostics)) = BranchAuthorized
           \<and> failure \<noteq> FailDenied ResourceLimitExceeded
        then record_composition_decision (tc_composition context) diagnostics plan_root (failure_code failure) tr
        else if plan_root \<noteq> None then (plan_root, tr)
        else record_failure StageAuthority OriginDerived (ValuePresent False) failure (nodes [principal_node]) tr)"

definition record_acceptance ::
  "trusted_context \<Rightarrow> authority_diagnostics \<Rightarrow> u32 option \<Rightarrow> recorder" where
  "record_acceptance context diagnostics principal_node tr =
     (case record_plan_events (dg_plan_events diagnostics) principal_node tr of (plan_root, tr) \<Rightarrow>
        record_composition_decision (tc_composition context) diagnostics plan_root CodeAuthorized tr)"

definition verify_internal ::
  "codec \<Rightarrow> registries \<Rightarrow> bytes \<Rightarrow> canonical_action \<Rightarrow> trusted_context \<Rightarrow> trace_collector \<Rightarrow> verification_outcome \<times> trace_collector" where
  "verify_internal cdc regs proof_bytes canonical context tr =
     (case record_configuration_facts context regs tr of ((configuration_node, registry_node), tr) \<Rightarrow>
     (case decode_proof cdc proof_bytes context of
        Inl failure \<Rightarrow> (outcome_of failure,
          snd (record_final (record_failure StageDecode OriginProof (ValuePresent False) failure []) tr))
      | Inr decoded \<Rightarrow>
     (case record_final (record_with_parents StageDecode FactAttachment OriginProof (ValuePresent True) ResultSatisfied None []) tr
      of (decode_node, tr) \<Rightarrow>
     (case resolve_proof cdc decoded context of
        Inl failure \<Rightarrow> (outcome_of failure, snd (record_final
          (record_failure StageResolve OriginTrustedContext (ValueEqual False) failure (nodes [decode_node])) tr))
      | Inr resolved \<Rightarrow>
     (case record_final (record_with_parents StageResolve FactExpectedPlanMatches OriginDerived (ValueEqual True) ResultSatisfied
          None (nodes [decode_node])) tr of (resolve_node, tr) \<Rightarrow>
     (case verify_principal_control cdc regs resolved context of
        Inl failure \<Rightarrow> (outcome_of failure, snd (record_final (record_failure StagePrincipalControl OriginExecutableRegistry
          (ValuePresent False) failure (nodes [resolve_node, configuration_node, registry_node])) tr))
      | Inr controlled \<Rightarrow>
     (case record_final (record_with_parents StagePrincipalControl FactPrincipalControl OriginExecutableRegistry
          (ValuePresent True) ResultSatisfied None (nodes [resolve_node, configuration_node, registry_node])) tr of
        (principal_node, tr) \<Rightarrow>
     (let meter = from_used (vl_work_units (tc_limits context)) (cp_work_units controlled);
          diagnostics = authority_diagnostics cdc regs context controlled canonical meter in
      case fst (verify_authority_measured cdc regs context controlled canonical meter) of
        Inl failure \<Rightarrow> (outcome_of failure, snd (record_final (record_refusal context diagnostics principal_node failure) tr))
      | Inr authority \<Rightarrow> (OutcomeAuthorized (bind_verified_action authority),
          snd (record_final (record_acceptance context diagnostics principal_node) tr))))))))))"

record explained_verification =
  ex_outcome :: verification_outcome
  ex_trace :: verification_trace

definition verify_explained ::
  "nat option \<Rightarrow> codec \<Rightarrow> registries \<Rightarrow> bytes \<Rightarrow> canonical_action \<Rightarrow> trusted_context
     \<Rightarrow> (explained_verification, trace_error) result" where
  "verify_explained allocated cdc regs proof_bytes canonical context =
     and_then (collect_trace allocated HARD_MAX_TRACE_EVENTS) (\<lambda>tr.
       case verify_internal cdc regs proof_bytes canonical context tr of (outcome, tr) \<Rightarrow>
         Ok \<lparr> ex_outcome = outcome, ex_trace = finish_trace tr \<rparr>)"

section \<open>The causal slice\<close>

datatype contribution =
  Decisive | NecessarySupport | SufficientAlternative | ContributingBlocker | ContextConstraint | Informational

record causal_fact =
  cf_fact :: fact_evaluation
  cf_contribution :: contribution

text \<open>
  The loop that marks ancestors: \<open>pending\<close> has the stack with its top first, and \<open>included\<close> has one flag
  per event.
\<close>

function mark_ancestors :: "fact_evaluation list \<Rightarrow> bool list \<Rightarrow> u32 list \<Rightarrow> bool list" where
  "mark_ancestors events included [] = included"
| "mark_ancestors events included (sequence # pending) =
     (if unat sequence \<ge> length included \<or> included ! unat sequence then mark_ancestors events included pending
      else mark_ancestors events (included[unat sequence := True]) (rev (fe_parents (events ! unat sequence)) @ pending))"
  by pat_completeness auto

lemma unmarked_decreases:
  "i < length included \<Longrightarrow> \<not> included ! i \<Longrightarrow> length (filter Not (included[i := True])) < length (filter Not included)"
proof (induction included arbitrary: i)
  case (Cons b bs)
  then show ?case by (cases i) auto
qed simp

termination mark_ancestors
  by (relation "measures [\<lambda>(events, included, pending). length (filter Not included), \<lambda>(events, included, pending). length pending]")
    (auto intro: unmarked_decreases)

declare mark_ancestors.simps [simp del]

definition is_included :: "bool list \<Rightarrow> fact_evaluation \<Rightarrow> bool" where
  "is_included included entry \<longleftrightarrow> unat (fe_sequence entry) < length included \<and> included ! unat (fe_sequence entry)"

definition dependents :: "fact_evaluation list \<Rightarrow> bool list \<Rightarrow> u32 \<Rightarrow> u32 list" where
  "dependents events included sequence = (if unat sequence < length events
     then concat (map (\<lambda>entry. map (\<lambda>_. fe_sequence entry) (filter (\<lambda>parent. parent = sequence) (fe_parents entry)))
       (filter (is_included included) events)) else [])"

definition plan_child_contribution :: "fact_evaluation \<Rightarrow> fact_evaluation \<Rightarrow> contribution" where
  "plan_child_contribution child parent = (case fe_value parent of
     ValueCount _ required \<Rightarrow>
       (let every_child_required = (unat required \<ge> length (fe_parents parent)) in
        if fe_result child = ResultSatisfied \<and> every_child_required \<and> fe_result parent \<in> {ResultSatisfied, ResultUnavailable}
          then NecessarySupport
        else if fe_result child = ResultSatisfied \<and> fe_result parent \<in> {ResultSatisfied, ResultUnavailable}
          then SufficientAlternative
        else if fe_result child \<in> {ResultContradicted, ResultUnavailable}
            \<and> fe_result parent \<in> {ResultContradicted, ResultUnavailable} then ContributingBlocker
        else Informational)
   | _ \<Rightarrow> Informational)"

fun consuming_node :: "fact_evaluation list \<Rightarrow> u32 list \<Rightarrow> fact_evaluation option" where
  "consuming_node events [] = None"
| "consuming_node events (sequence # sequences) =
     (if unat sequence < length events \<and> fe_kind (events ! unat sequence) = FactPlanNode
         \<and> (case fe_value (events ! unat sequence) of ValueCount _ _ \<Rightarrow> True | _ \<Rightarrow> False)
      then Some (events ! unat sequence) else consuming_node events sequences)"

definition classify_contribution :: "fact_evaluation \<Rightarrow> bool \<Rightarrow> u32 list \<Rightarrow> fact_evaluation list \<Rightarrow> contribution" where
  "classify_contribution entry final_node dependent_nodes events =
     (if final_node then Decisive
      else if fe_kind entry \<in> {FactMinimumAuthorizedBranches, FactMinimumDistinctActors, FactMinimumDistinctRoots}
        then ContextConstraint
      else case consuming_node events dependent_nodes of
        Some parent \<Rightarrow> plan_child_contribution entry parent
      | None \<Rightarrow> (case fe_result entry of
          ResultSatisfied \<Rightarrow> NecessarySupport
        | ResultContradicted \<Rightarrow> ContributingBlocker | ResultUnavailable \<Rightarrow> ContributingBlocker
        | ResultNotEvaluated \<Rightarrow> Informational))"

definition causal_slice :: "verification_trace \<Rightarrow> causal_fact list" where
  "causal_slice trace = (let events = vt_events trace in
     if unat (vt_final_node trace) \<ge> length events then []
     else let included = mark_ancestors events (replicate (length events) False) [vt_final_node trace] in
       map (\<lambda>entry. \<lparr> cf_fact = entry, cf_contribution = classify_contribution entry (fe_sequence entry = vt_final_node trace)
           (dependents events included (fe_sequence entry)) events \<rparr>) (filter (is_included included) events))"

section \<open>The slice is the ancestry\<close>

definition parent_edges :: "fact_evaluation list \<Rightarrow> (nat \<times> nat) set" where
  "parent_edges events = {(i, j). i < length events \<and> j < length events \<and> j \<in> unat ` set (fe_parents (events ! i))}"

definition marked :: "bool list \<Rightarrow> nat set" where
  "marked included = {i. i < length included \<and> included ! i}"

lemma marked_update: "i < length included \<Longrightarrow> marked (included[i := True]) = insert i (marked included)"
  by (auto simp: marked_def nth_list_update split: if_splits)

lemma length_mark_ancestors [simp]: "length (mark_ancestors events included pending) = length included"
  by (induction events included pending rule: mark_ancestors.induct) (simp_all add: mark_ancestors.simps)

lemma insert_Un_subset: "i \<in> B \<Longrightarrow> N \<subseteq> B \<Longrightarrow> insert i M \<union> N \<subseteq> M \<union> B"
  by blast

lemma mark_ancestors_keeps:
  assumes "length included = length events"
    and "\<forall>i \<in> marked included. \<forall>j. (i, j) \<in> parent_edges events \<longrightarrow> j \<in> marked included \<or> j \<in> unat ` set pending"
  shows "marked included \<subseteq> marked (mark_ancestors events included pending)
    \<and> (\<forall>p \<in> set pending. unat p < length events \<longrightarrow> unat p \<in> marked (mark_ancestors events included pending))
    \<and> (\<forall>i j. i \<in> marked (mark_ancestors events included pending) \<longrightarrow> (i, j) \<in> parent_edges events
        \<longrightarrow> j \<in> marked (mark_ancestors events included pending))
    \<and> marked (mark_ancestors events included pending)
        \<subseteq> marked included \<union> (parent_edges events)\<^sup>* `` {i \<in> unat ` set pending. i < length events}"
  using assms
proof (induction events included pending rule: mark_ancestors.induct)
  case (2 events included sequence pending)
  show ?case
  proof (cases "unat sequence \<ge> length included \<or> included ! unat sequence")
    case True
    have own: "unat sequence < length events \<Longrightarrow> unat sequence \<in> marked included" using True 2(3) by (simp add: marked_def)
    have "\<forall>i \<in> marked included. \<forall>j. (i, j) \<in> parent_edges events \<longrightarrow> j \<in> marked included \<or> j \<in> unat ` set pending"
    proof (intro ballI allI impI)
      fix i j assume "i \<in> marked included" and edge: "(i, j) \<in> parent_edges events"
      then have "j \<in> marked included \<or> j = unat sequence \<or> j \<in> unat ` set pending" using 2(4) by auto
      moreover have "j < length events" using edge by (simp add: parent_edges_def)
      ultimately show "j \<in> marked included \<or> j \<in> unat ` set pending" using own by blast
    qed
    note IH = 2(1) [OF True 2(3) this]
    have "mark_ancestors events included (sequence # pending) = mark_ancestors events included pending"
      using True by (simp add: mark_ancestors.simps)
    then have same: "mark_ancestors events included (sequence # pending) = mark_ancestors events included pending" .
    have "(parent_edges events)\<^sup>* `` {i \<in> unat ` set pending. i < length events}
        \<subseteq> (parent_edges events)\<^sup>* `` {i \<in> unat ` set (sequence # pending). i < length events}"
      by (rule Image_mono) auto
    then have below: "marked (mark_ancestors events included pending)
        \<subseteq> marked included \<union> (parent_edges events)\<^sup>* `` {i \<in> unat ` set (sequence # pending). i < length events}"
      using IH by (meson order_trans Un_mono subset_refl)
    have second: "\<forall>p \<in> set (sequence # pending). unat p < length events \<longrightarrow> unat p \<in> marked (mark_ancestors events included pending)"
      using IH own by auto
    show ?thesis unfolding same by (intro conjI IH [THEN conjunct1] second IH [THEN conjunct2, THEN conjunct2, THEN conjunct1] below)
  next
    case False
    let ?i = "unat sequence" and ?next = "rev (fe_parents (events ! unat sequence)) @ pending"
    let ?result = "mark_ancestors events (included[?i := True]) ?next"
    have i: "?i < length included" "?i < length events" using False 2(3) by simp_all
    have edge: "(?i, j) \<in> parent_edges events \<longleftrightarrow> j < length events \<and> j \<in> unat ` set (fe_parents (events ! ?i))" for j
      using i by (auto simp: parent_edges_def)
    have "\<forall>k \<in> marked (included[?i := True]). \<forall>j. (k, j) \<in> parent_edges events
        \<longrightarrow> j \<in> marked (included[?i := True]) \<or> j \<in> unat ` set ?next"
      using 2(4) edge unfolding marked_update [OF i(1)] by auto
    note IH = 2(2) [OF False _ this]
    have len: "length (included[?i := True]) = length events" using 2(3) by simp
    have same: "mark_ancestors events included (sequence # pending) = ?result" using False by (simp add: mark_ancestors.simps)
    have below: "(parent_edges events)\<^sup>* `` {j \<in> unat ` set ?next. j < length events}
        \<subseteq> (parent_edges events)\<^sup>* `` {j \<in> unat ` set (sequence # pending). j < length events}"
    proof
      fix k assume "k \<in> (parent_edges events)\<^sup>* `` {j \<in> unat ` set ?next. j < length events}"
      then obtain j where j: "j \<in> unat ` set ?next" "j < length events" "(j, k) \<in> (parent_edges events)\<^sup>*" by blast
      show "k \<in> (parent_edges events)\<^sup>* `` {j \<in> unat ` set (sequence # pending). j < length events}"
      proof (cases "j \<in> unat ` set pending")
        case False
        then have "(?i, j) \<in> parent_edges events" using j(1,2) edge by auto
        then have "(?i, k) \<in> (parent_edges events)\<^sup>*" using j(3) by (rule converse_rtrancl_into_rtrancl)
        then show ?thesis using i(2) by auto
      qed (use j in auto)
    qed
    have own: "?i \<in> marked (included[?i := True])" unfolding marked_update [OF i(1)] by simp
    have "marked included \<subseteq> marked (included[?i := True])" unfolding marked_update [OF i(1)] by blast
    then have first: "marked included \<subseteq> marked ?result" using IH [OF len] by blast
    have second: "\<forall>p \<in> set (sequence # pending). unat p < length events \<longrightarrow> unat p \<in> marked ?result"
      using IH [OF len] own by auto
    have third: "\<forall>k j. k \<in> marked ?result \<longrightarrow> (k, j) \<in> parent_edges events \<longrightarrow> j \<in> marked ?result"
      using IH [OF len] by blast
    let ?below = "(parent_edges events)\<^sup>* `` {j \<in> unat ` set (sequence # pending). j < length events}"
    have "?i \<in> ?below" using i(2) by auto
    then have "insert ?i (marked included) \<union> (parent_edges events)\<^sup>* `` {j \<in> unat ` set ?next. j < length events}
        \<subseteq> marked included \<union> ?below" using below by (rule insert_Un_subset)
    then have fourth: "marked ?result \<subseteq> marked included \<union> ?below"
      using IH [OF len, THEN conjunct2, THEN conjunct2, THEN conjunct2] unfolding marked_update [OF i(1)] by (rule order_trans [rotated])
    show ?thesis unfolding same by (intro conjI first second third fourth)
  qed
qed (simp add: mark_ancestors.simps)

lemma mark_ancestors_marks:
  assumes "unat final < length events"
  shows "marked (mark_ancestors events (replicate (length events) False) [final]) = (parent_edges events)\<^sup>* `` {unat final}"
proof
  let ?result = "mark_ancestors events (replicate (length events) False) [final]"
  have none: "marked (replicate (length events) False) = {}" by (auto simp: marked_def)
  note kept = mark_ancestors_keeps [of "replicate (length events) False" events "[final]", unfolded none, simplified]
  show "marked ?result \<subseteq> (parent_edges events)\<^sup>* `` {unat final}" using kept by auto
  show "(parent_edges events)\<^sup>* `` {unat final} \<subseteq> marked ?result"
  proof
    fix j assume "j \<in> (parent_edges events)\<^sup>* `` {unat final}"
    then have "(unat final, j) \<in> (parent_edges events)\<^sup>*" by simp
    then show "j \<in> marked ?result"
    proof (induction rule: rtrancl_induct)
      case (step k j)
      then show ?case using kept by blast
    qed (use kept assms in blast)
  qed
qed

lemma classify_decisive_iff [simp]: "classify_contribution entry final_node ds events = Decisive \<longleftrightarrow> final_node"
  by (auto simp: classify_contribution_def plan_child_contribution_def Let_def
      split: option.splits fact_result.splits trace_value.splits if_splits)

lemma causal_slice_facts:
  assumes "unat (vt_final_node trace) < length (vt_events trace)"
  shows "map cf_fact (causal_slice trace) = filter (\<lambda>entry. (unat (vt_final_node trace), unat (fe_sequence entry))
      \<in> (parent_edges (vt_events trace))\<^sup>*) (vt_events trace)"
proof -
  let ?events = "vt_events trace" and ?final = "vt_final_node trace"
  let ?included = "mark_ancestors ?events (replicate (length ?events) False) [?final]"
  have "is_included ?included entry \<longleftrightarrow> (unat ?final, unat (fe_sequence entry)) \<in> (parent_edges ?events)\<^sup>*" for entry
    using mark_ancestors_marks [OF assms] by (auto simp: is_included_def marked_def set_eq_iff)
  then have "filter (is_included ?included) ?events
      = filter (\<lambda>entry. (unat ?final, unat (fe_sequence entry)) \<in> (parent_edges ?events)\<^sup>*) ?events"
    by (intro filter_cong) simp_all
  then show ?thesis using assms by (simp add: causal_slice_def Let_def comp_def)
qed

section \<open>Recording\<close>

text \<open>
  A collector's facts are numbered in order, every parent is an earlier fact, and the final node is one
  of them. A recorder keeps this, drops no fact, and returns the number of a fact.
\<close>

definition trace_ok :: "trace_collector \<Rightarrow> bool" where
  "trace_ok tr \<longleftrightarrow> length (tr_events tr) \<le> 2 ^ 32 \<and> tr_capacity tr \<le> 2 ^ 32
     \<and> (\<forall>i < length (tr_events tr). fe_sequence (tr_events tr ! i) = of_nat i
         \<and> (\<forall>parent \<in> set (fe_parents (tr_events tr ! i)). parent < fe_sequence (tr_events tr ! i)))
     \<and> (\<forall>node. tr_final_node tr = Some node \<longrightarrow> unat node < length (tr_events tr))"

definition grows :: "trace_collector \<Rightarrow> trace_collector \<Rightarrow> bool" where
  "grows tr tr' \<longleftrightarrow> trace_ok tr' \<and> tr_collect tr' = tr_collect tr \<and> tr_capacity tr' = tr_capacity tr
     \<and> prefix (tr_events tr) (tr_events tr')"

definition node_ok :: "trace_collector \<Rightarrow> u32 option \<Rightarrow> bool" where
  "node_ok tr node \<longleftrightarrow> (\<forall>n. node = Some n \<longrightarrow> unat n < length (tr_events tr))"

definition recorder_ok :: "recorder \<Rightarrow> bool" where
  "recorder_ok m \<longleftrightarrow> (\<forall>tr. trace_ok tr \<longrightarrow> grows tr (snd (m tr)) \<and> node_ok (snd (m tr)) (fst (m tr)))"

lemma grows_refl [simp]: "trace_ok tr \<Longrightarrow> grows tr tr" by (simp add: grows_def)

lemma grows_trans: "grows a b \<Longrightarrow> grows b c \<Longrightarrow> grows a c"
  by (auto simp: grows_def)

lemma grows_ok: "grows a b \<Longrightarrow> trace_ok b" by (simp add: grows_def)

lemma node_ok_grows: "node_ok tr node \<Longrightarrow> grows tr tr' \<Longrightarrow> node_ok tr' node"
  by (auto simp: node_ok_def grows_def prefix_def)

lemma recorder_run:
  assumes "recorder_ok m" "trace_ok tr" "m tr = (node, tr')"
  shows "grows tr tr'" "node_ok tr' node" "trace_ok tr'"
proof -
  have "grows tr tr' \<and> node_ok tr' node" using assms(1) [unfolded recorder_ok_def, rule_format, OF assms(2)] assms(3) by simp
  then show "grows tr tr'" "node_ok tr' node" "trace_ok tr'" by (simp_all add: grows_def)
qed

lemma trace_ok_append:
  assumes "trace_ok tr" "length (tr_events tr) < 2 ^ 32" "fe_sequence e = of_nat (length (tr_events tr))"
    and "\<forall>parent \<in> set (fe_parents e). parent < fe_sequence e"
  shows "trace_ok (tr \<lparr> tr_events := tr_events tr @ [e] \<rparr>)"
  using assms by (auto simp: trace_ok_def nth_append less_Suc_eq)

lemma record_with_parents_ok: "recorder_ok (record_with_parents stage kind origin v result code parents)"
proof -
  let ?m = "record_with_parents stage kind origin v result code parents"
  have "grows tr (snd (?m tr)) \<and> node_ok (snd (?m tr)) (fst (?m tr))" if ok: "trace_ok tr" for tr
  proof (cases "\<not> tr_collect tr \<or> length (tr_events tr) \<ge> tr_capacity tr")
    case True
    then show ?thesis using ok by (auto simp: record_with_parents_def node_ok_def)
  next
    case False
    let ?n = "length (tr_events tr)"
    have n: "?n < 2 ^ 32" using False ok by (simp add: trace_ok_def)
    then have seq: "u32_of_len ?n = of_nat ?n" "unat (of_nat ?n :: u32) = ?n"
      by (simp_all add: u32_of_len_def unat_of_nat take_bit_nat_eq_self)
    have "trace_ok (snd (?m tr))"
      using trace_ok_append [OF ok n, of "\<lparr> fe_sequence = of_nat ?n, fe_stage = stage, fe_kind = kind, fe_origin = origin,
          fe_value = v, fe_result = result, fe_code = code,
          fe_parents = remdups_adj (sort (filter (\<lambda>parent. parent < of_nat ?n) parents)) \<rparr>"] False
      by (simp add: record_with_parents_def Let_def seq(1))
    then show ?thesis using False seq by (auto simp: record_with_parents_def Let_def grows_def node_ok_def)
  qed
  then show ?thesis by (simp add: recorder_ok_def)
qed

lemma record_failure_ok: "recorder_ok (record_failure stage origin v failure parents)"
  unfolding record_failure_def by (rule record_with_parents_ok)

lemma record_final_ok: "recorder_ok m \<Longrightarrow> recorder_ok (record_final m)"
proof -
  assume m: "recorder_ok m"
  have "grows tr (snd (record_final m tr)) \<and> node_ok (snd (record_final m tr)) (fst (record_final m tr))" if ok: "trace_ok tr" for tr
  proof -
    obtain node tr' where run: "m tr = (node, tr')" by force
    from recorder_run [OF m ok run] show ?thesis
      by (auto simp: record_final_def run set_final_node_def grows_def trace_ok_def node_ok_def)
  qed
  then show ?thesis by (simp add: recorder_ok_def)
qed

lemma plan_event_nodes_ok:
  assumes "trace_ok tr" "\<forall>node \<in> set stack. node_ok tr node"
    and "plan_event_nodes principal_node stack events tr = (result, tr')"
  shows "grows tr tr' \<and> (\<forall>s. result = Some s \<longrightarrow> (\<forall>node \<in> set s. node_ok tr' node))"
  using assms
proof (induction principal_node stack events tr rule: plan_event_nodes.induct)
  case (2 principal_node stack reference outcome events tr)
  obtain node t where run: "record_with_parents StageAuthority FactPlanNode OriginProof (ValuePresent True) (branch_fact_result outcome)
         (Some (branch_verification_code outcome)) (nodes [principal_node]) tr = (node, t)" by force
  note step = recorder_run [OF record_with_parents_ok 2(2) run]
  have "\<forall>n \<in> set (stack @ [node]). node_ok t n" using 2(3) step node_ok_grows by auto
  with 2(1) [OF run [symmetric] step(3)] 2(4) run show ?case using grows_trans [OF step(1)] by auto
next
  case (3 principal_node stack child_count required authorized indeterminate outcome events tr)
  show ?case
  proof (cases "unat child_count > length stack")
    case True
    then show ?thesis using 3 by auto
  next
    case False
    let ?kept = "take (length stack - unat child_count) stack" and ?children = "drop (length stack - unat child_count) stack"
    obtain node t where run: "record_with_parents StageAuthority FactPlanNode OriginDerived (ValueCount authorized (ucast required))
            (branch_fact_result outcome) (Some (branch_verification_code outcome)) (nodes ?children) tr = (node, t)" by force
    note step = recorder_run [OF record_with_parents_ok 3(2) run]
    have "\<forall>n \<in> set (?kept @ [node]). node_ok t n" using 3(3) step node_ok_grows in_set_takeD by fastforce
    with 3(1) [OF False refl refl run [symmetric] step(3)] 3(4) run False show ?thesis
      using grows_trans [OF step(1)] by (auto simp: Let_def)
  qed
qed auto

lemma record_plan_events_ok: "recorder_ok (record_plan_events events principal_node)"
proof -
  have "grows tr (snd (record_plan_events events principal_node tr))
      \<and> node_ok (snd (record_plan_events events principal_node tr)) (fst (record_plan_events events principal_node tr))"
    if ok: "trace_ok tr" for tr
  proof -
    obtain result tr' where run: "plan_event_nodes principal_node [] events tr = (result, tr')" by force
    show ?thesis using plan_event_nodes_ok [OF ok _ run] run
      by (auto simp: record_plan_events_def node_ok_def split: option.splits list.splits)
  qed
  then show ?thesis by (simp add: recorder_ok_def)
qed

lemma record_nodes_ok:
  "(\<And>x. recorder_ok (f x)) \<Longrightarrow> trace_ok tr \<Longrightarrow> record_nodes f xs parents tr = (parents', tr') \<Longrightarrow> grows tr tr'"
proof (induction xs arbitrary: parents tr)
  case (Cons x xs)
  obtain node t where run: "f x tr = (node, t)" by force
  note step = recorder_run [OF Cons.prems(1) Cons.prems(2) run]
  show ?case using Cons.IH [OF Cons.prems(1) step(3)] Cons.prems(3) run grows_trans [OF step(1)] by simp
qed simp

lemma record_composition_decision_ok: "recorder_ok (record_composition_decision requirement diagnostics plan_root code)"
proof -
  have floors: "recorder_ok (record_floor parents floor)" for parents floor
    by (cases floor) (simp add: record_floor_def record_with_parents_ok)
  have approvals: "recorder_ok (record_approval_fact parents entry)" for parents entry
    by (cases entry) (simp add: record_approval_fact_def record_with_parents_ok)
  have "grows tr (snd (record_composition_decision requirement diagnostics plan_root code tr))
      \<and> node_ok (snd (record_composition_decision requirement diagnostics plan_root code tr))
          (fst (record_composition_decision requirement diagnostics plan_root code tr))" if ok: "trace_ok tr" for tr
  proof -
    obtain p1 t1 where one: "record_nodes (record_floor (nodes [plan_root]))
          [(FactMinimumAuthorizedBranches, dg_authorized_branches diagnostics, co_minimum_authorized_branches requirement),
           (FactMinimumDistinctActors, dg_distinct_actors diagnostics, co_minimum_distinct_actors requirement),
           (FactMinimumDistinctRoots, dg_distinct_roots diagnostics, co_minimum_distinct_roots requirement)]
          (nodes [plan_root]) tr = (p1, t1)" by force
    note g1 = record_nodes_ok [OF floors ok one]
    obtain p2 t2 where two: "record_nodes (record_approval_fact (nodes [plan_root])) (dg_context_approvals diagnostics) p1 t1 = (p2, t2)"
      by force
    note g2 = record_nodes_ok [OF approvals grows_ok [OF g1] two]
    obtain node t3 where three: "record_with_parents StageComplete FactDecision OriginDerived (ValuePresent (code = CodeAuthorized))
          (case code of CodeAuthorized \<Rightarrow> ResultSatisfied | CodeDenied _ \<Rightarrow> ResultContradicted
             | CodeIndeterminate _ \<Rightarrow> ResultUnavailable) (Some code) p2 t2 = (node, t3)" by force
    note g3 = recorder_run [OF record_with_parents_ok grows_ok [OF g2] three]
    show ?thesis unfolding record_composition_decision_def Let_def one two three prod.case fst_conv snd_conv
      using g3 grows_trans [OF grows_trans [OF g1 g2] g3(1)] by simp
  qed
  then show ?thesis by (simp add: recorder_ok_def)
qed

lemma after_plan_ok:
  assumes "\<And>plan_root. recorder_ok (m plan_root)"
  shows "recorder_ok (\<lambda>tr. case record_plan_events events principal_node tr of (plan_root, tr) \<Rightarrow>
      if c plan_root then m plan_root tr else if plan_root \<noteq> None then (plan_root, tr) else record_failure stage origin v failure parents tr)"
    and "recorder_ok (\<lambda>tr. case record_plan_events events principal_node tr of (plan_root, tr) \<Rightarrow> m plan_root tr)"
proof -
  have "grows tr (snd (if c plan_root then m plan_root t else if plan_root \<noteq> None then (plan_root, t)
          else record_failure stage origin v failure parents t))
      \<and> node_ok (snd (if c plan_root then m plan_root t else if plan_root \<noteq> None then (plan_root, t)
          else record_failure stage origin v failure parents t))
          (fst (if c plan_root then m plan_root t else if plan_root \<noteq> None then (plan_root, t)
          else record_failure stage origin v failure parents t))"
    and "grows tr (snd (m plan_root t)) \<and> node_ok (snd (m plan_root t)) (fst (m plan_root t))"
    if ok: "trace_ok tr" and run: "record_plan_events events principal_node tr = (plan_root, t)" for tr plan_root t c
    using recorder_run [OF record_plan_events_ok ok run] assms [of plan_root] record_failure_ok [of stage origin v failure parents]
      grows_trans unfolding recorder_ok_def by auto
  then show "recorder_ok (\<lambda>tr. case record_plan_events events principal_node tr of (plan_root, tr) \<Rightarrow>
      if c plan_root then m plan_root tr else if plan_root \<noteq> None then (plan_root, tr) else record_failure stage origin v failure parents tr)"
    and "recorder_ok (\<lambda>tr. case record_plan_events events principal_node tr of (plan_root, tr) \<Rightarrow> m plan_root tr)"
    unfolding recorder_ok_def by (auto split: prod.splits)
qed

lemma record_refusal_ok: "recorder_ok (record_refusal context diagnostics principal_node failure)"
  unfolding record_refusal_def [abs_def] by (rule after_plan_ok(1) [OF record_composition_decision_ok])

lemma record_acceptance_ok: "recorder_ok (record_acceptance context diagnostics principal_node)"
  unfolding record_acceptance_def [abs_def] by (rule after_plan_ok(2) [OF record_composition_decision_ok])

lemmas recorders_ok = record_with_parents_ok record_failure_ok record_refusal_ok record_acceptance_ok

lemma record_final_run:
  assumes "trace_ok tr" "recorder_ok m" "record_final m tr = (node, tr')"
  shows "grows tr tr'" "trace_ok tr'"
  using recorder_run [OF record_final_ok [OF assms(2)] assms(1,3)] by simp_all

lemma record_configuration_facts_run:
  assumes "trace_ok tr" "record_configuration_facts context regs tr = (ns, tr')"
  shows "grows tr tr'" and "tr_collect tr \<Longrightarrow> 0 < tr_capacity tr \<Longrightarrow> tr_events tr' \<noteq> []"
proof -
  obtain configuration t1 registry where
    one: "record_with_parents StageResolve FactContextConfigurationMatches OriginTrustedContext
          (ValueEqual (tc_configuration context = ir_configuration regs))
          (if tc_configuration context = ir_configuration regs then ResultSatisfied else ResultContradicted)
          (if tc_configuration context = ir_configuration regs then None else Some (CodeDenied VerifierConfigurationMismatch)) [] tr
        = (configuration, t1)"
    and two: "record_with_parents StageResolve FactRegistryManifestAccepted OriginExecutableRegistry
          (ValueEqual (rg_manifest_id (tc_accepted_registries context) = TARGET_V1_REGISTRY_MANIFEST))
          (if rg_manifest_id (tc_accepted_registries context) = TARGET_V1_REGISTRY_MANIFEST then ResultSatisfied else ResultContradicted)
          (if rg_manifest_id (tc_accepted_registries context) = TARGET_V1_REGISTRY_MANIFEST then None
           else Some (CodeDenied RegistryManifestMismatch)) [] t1 = (registry, tr')"
    using assms(2) unfolding record_configuration_facts_def Let_def by (auto split: prod.splits)
  note g1 = recorder_run [OF record_with_parents_ok assms(1) one]
  note g2 = recorder_run [OF record_with_parents_ok g1(3) two]
  show "grows tr tr'" by (rule grows_trans [OF g1(1) g2(1)])
  show "tr_events tr' \<noteq> []" if "tr_collect tr" "0 < tr_capacity tr"
  proof -
    have "tr_events t1 \<noteq> []" using one that by (auto simp: record_with_parents_def Let_def split: if_splits)
    then show ?thesis using g2(1) by (auto simp: grows_def)
  qed
qed

lemma verify_internal_run:
  assumes ok: "trace_ok tr"
  shows "fst (verify_internal cdc regs proof_bytes canonical context tr) = verify cdc regs proof_bytes canonical context
    \<and> (\<exists>ns t. record_configuration_facts context regs tr = (ns, t)
        \<and> grows t (snd (verify_internal cdc regs proof_bytes canonical context tr)))"
proof -
  obtain configuration_node registry_node t where
    start: "record_configuration_facts context regs tr = ((configuration_node, registry_node), t)" by (metis prod.exhaust)
  have t: "trace_ok t" by (rule grows_ok [OF record_configuration_facts_run(1) [OF ok start]])
  show ?thesis
  proof (cases "decode_proof cdc proof_bytes context")
    case (Inl failure)
    obtain n t' where "record_final (record_failure StageDecode OriginProof (ValuePresent False) failure []) t = (n, t')" by force
    then show ?thesis using record_final_run [OF t record_failure_ok] start Inl by (simp add: verify_internal_def verify_def)
  next
    case decode: (Inr decoded)
    obtain decode_node t1 where one: "record_final (record_with_parents StageDecode FactAttachment OriginProof (ValuePresent True)
        ResultSatisfied None []) t = (decode_node, t1)" by force
    note g1 = record_final_run [OF t record_with_parents_ok one]
    show ?thesis
    proof (cases "resolve_proof cdc decoded context")
      case (Inl failure)
      obtain n t' where run: "record_final (record_failure StageResolve OriginTrustedContext (ValueEqual False) failure
          (nodes [decode_node])) t1 = (n, t')" by force
      note grows_trans [OF g1(1) record_final_run(1) [OF g1(2) record_failure_ok run]]
      then show ?thesis using start decode Inl one run by (simp add: verify_internal_def verify_def)
    next
      case resolve: (Inr resolved)
      obtain resolve_node t2 where two: "record_final (record_with_parents StageResolve FactExpectedPlanMatches OriginDerived
          (ValueEqual True) ResultSatisfied None (nodes [decode_node])) t1 = (resolve_node, t2)" by force
      note g2 = record_final_run [OF g1(2) record_with_parents_ok two]
      note to2 = grows_trans [OF g1(1) g2(1)]
      show ?thesis
      proof (cases "verify_principal_control cdc regs resolved context")
        case (Inl failure)
        obtain n t' where run: "record_final (record_failure StagePrincipalControl OriginExecutableRegistry
            (ValuePresent False) failure (nodes [resolve_node, configuration_node, registry_node])) t2 = (n, t')" by force
        note grows_trans [OF to2 record_final_run(1) [OF g2(2) record_failure_ok run]]
        then show ?thesis using start decode resolve Inl one two run by (simp add: verify_internal_def verify_def)
      next
        case control: (Inr controlled)
        let ?meter = "from_used (vl_work_units (tc_limits context)) (cp_work_units controlled)"
        let ?diagnostics = "authority_diagnostics cdc regs context controlled canonical ?meter"
        obtain principal_node t3 where three: "record_final (record_with_parents StagePrincipalControl FactPrincipalControl
            OriginExecutableRegistry (ValuePresent True) ResultSatisfied None
            (nodes [resolve_node, configuration_node, registry_node])) t2 = (principal_node, t3)" by force
        note g3 = record_final_run [OF g2(2) record_with_parents_ok three]
        note to3 = grows_trans [OF to2 g3(1)]
        show ?thesis
        proof (cases "fst (verify_authority_measured cdc regs context controlled canonical ?meter)")
          case (Inl failure)
          obtain n t' where run: "record_final (record_refusal context ?diagnostics principal_node failure) t3 = (n, t')" by force
          note grows_trans [OF to3 record_final_run(1) [OF g3(2) record_refusal_ok run]]
          then show ?thesis using start decode resolve control Inl one two three run
            by (simp add: verify_internal_def verify_def Let_def)
        next
          case (Inr authority)
          obtain n t' where run: "record_final (record_acceptance context ?diagnostics principal_node) t3 = (n, t')" by force
          note grows_trans [OF to3 record_final_run(1) [OF g3(2) record_acceptance_ok run]]
          then show ?thesis using start decode resolve control Inr one two three run
            by (simp add: verify_internal_def verify_def Let_def)
        qed
      qed
    qed
  qed
qed


section \<open>Properties\<close>

lemma finish_trace_final:
  assumes "trace_ok tr" "tr_events tr \<noteq> []"
  shows "unat (vt_final_node (finish_trace tr)) < length (vt_events (finish_trace tr))"
proof (cases "tr_final_node tr")
  case None
  have "length (tr_events tr) - 1 < 2 ^ 32" "0 < length (tr_events tr)" using assms by (auto simp: trace_ok_def)
  then show ?thesis using None by (simp add: finish_trace_def u32_of_len_def unat_of_nat take_bit_nat_eq_self)
next
  case (Some node)
  then show ?thesis using assms(1) by (simp add: finish_trace_def trace_ok_def)
qed

lemma numbered_parents:
  assumes "trace_ok tr" "i < length (tr_events tr)"
  shows "unat (fe_sequence (tr_events tr ! i)) = i" and "parent \<in> set (fe_parents (tr_events tr ! i)) \<Longrightarrow> unat parent < i"
proof -
  have "i < 2 ^ 32" using assms by (simp add: trace_ok_def)
  then show number: "unat (fe_sequence (tr_events tr ! i)) = i"
    using assms by (simp add: trace_ok_def unat_of_nat take_bit_nat_eq_self)
  show "unat parent < i" if "parent \<in> set (fe_parents (tr_events tr ! i))"
    using assms that number by (metis trace_ok_def word_less_nat_alt)
qed

lemma explained_trace:
  assumes "HARD_MAX_TRACE_EVENTS \<le> room" "room \<le> 2 ^ 32"
    and "verify_explained (Some room) cdc regs proof_bytes canonical context = Inr explained"
  shows "ex_outcome explained = verify cdc regs proof_bytes canonical context
    \<and> (\<exists>tr. trace_ok tr \<and> tr_events tr \<noteq> [] \<and> ex_trace explained = finish_trace tr)"
proof -
  let ?start = "\<lparr> tr_collect = True, tr_events = [], tr_capacity = room, tr_final_node = None \<rparr>"
  have ok: "trace_ok ?start" using assms(2) by (simp add: trace_ok_def)
  obtain outcome tr where run: "verify_internal cdc regs proof_bytes canonical context ?start = (outcome, tr)" by force
  then have explained: "explained = \<lparr> ex_outcome = outcome, ex_trace = finish_trace tr \<rparr>"
    using assms(3) by (simp add: verify_explained_def collect_trace_def)
  have "fst (verify_internal cdc regs proof_bytes canonical context ?start) = verify cdc regs proof_bytes canonical context
    \<and> (\<exists>ns t. record_configuration_facts context regs ?start = (ns, t)
        \<and> grows t (snd (verify_internal cdc regs proof_bytes canonical context ?start)))"
    by (rule verify_internal_run [OF ok])
  then obtain ns t where start: "record_configuration_facts context regs ?start = (ns, t)" and later: "grows t tr"
    and outcome: "outcome = verify cdc regs proof_bytes canonical context"
    unfolding run fst_conv snd_conv by blast
  have "tr_events t \<noteq> []"
    by (rule record_configuration_facts_run(2) [OF ok start]) (use assms(1) in \<open>simp_all add: HARD_MAX_TRACE_EVENTS_def\<close>)
  then have "tr_events tr \<noteq> []" using later by (auto simp: grows_def)
  then show ?thesis using grows_ok [OF later] explained outcome by auto
qed

text \<open>
  C40: Explaining a verification does not change it, and the explanation is exact. The explained entry
  returns the outcome of the verifier; its trace numbers the facts in order, every parent of a fact is
  an earlier fact and the final node is one of them; and the causal slice, whose marking loop always ends,
  is exactly the facts from which the final fact descends, in their order, with the final fact and no
  other called decisive.
\<close>

theorem explanation_is_the_ancestry_of_the_decision:
  assumes "HARD_MAX_TRACE_EVENTS \<le> room" "room \<le> 2 ^ 32"
    and "verify_explained (Some room) cdc regs proof_bytes canonical context = Ok explained"
    and "events = vt_events (ex_trace explained)" "final = unat (vt_final_node (ex_trace explained))"
  shows "ex_outcome explained = verify cdc regs proof_bytes canonical context
    \<and> (\<forall>i < length events. unat (fe_sequence (events ! i)) = i \<and> (\<forall>parent \<in> set (fe_parents (events ! i)). unat parent < i))
    \<and> final < length events
    \<and> map cf_fact (causal_slice (ex_trace explained))
        = filter (\<lambda>entry. (final, unat (fe_sequence entry)) \<in> (parent_edges events)\<^sup>*) events
    \<and> (\<forall>c \<in> set (causal_slice (ex_trace explained)). cf_contribution c = Decisive \<longleftrightarrow> cf_fact c = events ! final)"
proof -
  obtain tr where outcome: "ex_outcome explained = verify cdc regs proof_bytes canonical context"
    and tr: "trace_ok tr" "tr_events tr \<noteq> []" "ex_trace explained = finish_trace tr"
    using explained_trace [OF assms(1-3)] by blast
  have events: "events = tr_events tr" using tr(3) assms(4) by (simp add: finish_trace_def)
  have final: "final < length events" using finish_trace_final [OF tr(1,2)] tr(3) assms(4,5) by simp
  have numbered: "\<forall>i < length events. unat (fe_sequence (events ! i)) = i \<and> (\<forall>parent \<in> set (fe_parents (events ! i)). unat parent < i)"
    using numbered_parents [OF tr(1)] by (auto simp: events)
  have "cf_contribution c = Decisive \<longleftrightarrow> cf_fact c = events ! final" if "c \<in> set (causal_slice (ex_trace explained))" for c
  proof -
    have "cf_contribution c = Decisive \<longleftrightarrow> fe_sequence (cf_fact c) = vt_final_node (ex_trace explained)"
      and "cf_fact c \<in> set events"
      using that final assms(4,5) by (auto simp: causal_slice_def Let_def)
    moreover from this(2) obtain i where "i < length events" "events ! i = cf_fact c" by (auto simp: in_set_conv_nth)
    ultimately show ?thesis using numbered final assms(5) by (metis unsigned_word_eqI)
  qed
  then show ?thesis using outcome numbered final causal_slice_facts [of "ex_trace explained"] assms(4,5) by simp
qed

theorem explanation_is_the_ancestry_of_the_decision_witness:
  "\<exists>regs explained action. sample_registries = Ok regs
     \<and> verify_explained (Some 4096) sample_codec regs [1] sample_canonical sample_context = Ok explained
     \<and> ex_outcome explained = OutcomeAuthorized action
     \<and> unat (vt_final_node (ex_trace explained)) < length (vt_events (ex_trace explained))"
proof -
  obtain regs action where regs: "sample_registries = Ok regs"
    and run: "verify sample_codec regs [1] sample_canonical sample_context = OutcomeAuthorized action"
    using sample_verified by blast
  obtain outcome tr where "verify_internal sample_codec regs [1] sample_canonical sample_context
      \<lparr> tr_collect = True, tr_events = [], tr_capacity = 4096, tr_final_node = None \<rparr> = (outcome, tr)" by force
  then obtain explained where explained: "verify_explained (Some 4096) sample_codec regs [1] sample_canonical sample_context = Ok explained"
    by (simp add: verify_explained_def collect_trace_def HARD_MAX_TRACE_EVENTS_def)
  have "HARD_MAX_TRACE_EVENTS \<le> 4096" "(4096 :: nat) \<le> 2 ^ 32" by (simp_all add: HARD_MAX_TRACE_EVENTS_def)
  from explanation_is_the_ancestry_of_the_decision [OF this explained refl refl] show ?thesis using regs run explained by auto
qed

end
