(* ===== verification/Registry_Laws.thy ===== *)
theory Registry_Laws
  imports Verifier_Samples
begin

text \<open>
  What the registries of \<open>core/crates/auths-registries/src/lib.rs\<close> decide: which statement a status
  lookup rests on, that a constructed registry answers each identifier with its one implementation,
  and that the accepted extension laws only narrow the observation and approval requirements a
  grant chain carries. The link law of the bounded-policy extension is shown not to be reflexive.
\<close>

section \<open>Exact lookups\<close>

lemma find_exact:
  "distinct (map f xs) \<Longrightarrow> find (\<lambda>x. f x = i) xs = Some y \<longleftrightarrow> y \<in> set xs \<and> f y = i"
  by (induction xs) auto

lemma reject_duplicates_Ok_iff: "reject_duplicates is = Ok () \<longleftrightarrow> distinct is"
  by (simp add: reject_duplicates_def adjacent_equal_sorted)

lemma with_pure_parts:
  assumes "with_pure sha256 cdc methods suites pure = Ok regs"
  shows "ir_core regs = core_semantics_new sha256 cdc \<and> ir_principal_methods regs = methods
    \<and> ir_signature_suites regs = suites \<and> ir_pure regs = pure
    \<and> distinct (map me_id methods) \<and> distinct (map su_id suites)
    \<and> ir_configuration regs =
        verifier_configuration_id sha256 methods suites pure (core_semantics_new sha256 cdc)"
  using assms by (auto simp: with_pure_def Let_def result_simps reject_duplicates_Ok_iff split: if_splits)

lemma principal_method_exact:
  assumes "with_pure sha256 cdc methods suites pure = Ok regs"
  shows "principal_method_for regs accepted i = Some method \<longleftrightarrow>
    i \<in> set (rg_principal_methods accepted) \<and> method \<in> set methods \<and> me_id method = i"
  using with_pure_parts [OF assms] by (auto simp: principal_method_for_def find_exact)

lemma signature_suite_exact:
  assumes "with_pure sha256 cdc methods suites pure = Ok regs"
  shows "signature_suite_for regs accepted i = Some suite \<longleftrightarrow>
    i \<in> set (rg_signature_suites accepted) \<and> suite \<in> set suites \<and> su_id suite = i"
  using with_pure_parts [OF assms] by (auto simp: signature_suite_for_def find_exact)

lemmas extension_identifiers = EXACT_MARKER_EXTENSION_V1_def OBSERVATION_REQUIREMENT_EXTENSION_V1_def
  BOUNDED_POLICY_COMMITMENT_EXTENSION_V1_def APPROVAL_REQUIREMENT_EXTENSION_V1_def

lemma extension_identifiers_distinct:
  "distinct [EXACT_MARKER_EXTENSION_V1, OBSERVATION_REQUIREMENT_EXTENSION_V1,
     BOUNDED_POLICY_COMMITMENT_EXTENSION_V1, APPROVAL_REQUIREMENT_EXTENSION_V1]"
  by code_simp

lemma core_handlers [simp]:
  "eh_id (cs_extension (core_semantics_new sha256 cdc)) = EXACT_MARKER_EXTENSION_V1"
  "eh_id (cs_observation (core_semantics_new sha256 cdc)) = OBSERVATION_REQUIREMENT_EXTENSION_V1"
  "eh_id (cs_bounded_policy (core_semantics_new sha256 cdc)) = BOUNDED_POLICY_COMMITMENT_EXTENSION_V1"
  "eh_id (cs_approval (core_semantics_new sha256 cdc)) = APPROVAL_REQUIREMENT_EXTENSION_V1"
  "eh_attenuates (cs_extension (core_semantics_new sha256 cdc)) = marker_attenuates"
  "eh_attenuates (cs_observation (core_semantics_new sha256 cdc)) = observation_attenuates cdc"
  "eh_attenuates (cs_bounded_policy (core_semantics_new sha256 cdc)) = bounded_policy_attenuates cdc"
  "eh_attenuates (cs_approval (core_semantics_new sha256 cdc)) = approval_attenuates cdc"
  by (simp_all add: core_semantics_new_def exact_marker_extension_def observation_requirement_extension_def
      bounded_policy_commitment_extension_def approval_requirement_extension_def)

text \<open>The verifier's laws agree with the planning laws on the core identifiers it accepts.\<close>

lemma accepted_laws_core:
  assumes "with_pure sha256 cdc methods suites pure = Ok regs"
    and "i \<in> {EXACT_MARKER_EXTENSION_V1, OBSERVATION_REQUIREMENT_EXTENSION_V1,
      BOUNDED_POLICY_COMMITMENT_EXTENSION_V1, APPROVAL_REQUIREMENT_EXTENSION_V1}"
  shows "accepted_laws regs accepted i child parent \<longleftrightarrow>
    i \<in> set (rg_critical_extensions accepted) \<and> core_extension_laws cdc i child parent"
  using assms(2) with_pure_parts [OF assms(1)] extension_identifiers_distinct
  by (auto simp: accepted_laws_def extension_handler_for_def core_extension_laws_def Let_def)

lemma core_extension_laws_simps [simp]:
  "core_extension_laws cdc OBSERVATION_REQUIREMENT_EXTENSION_V1 child parent \<longleftrightarrow>
     observation_attenuates cdc child parent = Inr True"
  "core_extension_laws cdc APPROVAL_REQUIREMENT_EXTENSION_V1 child parent \<longleftrightarrow>
     approval_attenuates cdc child parent = Inr True"
  using extension_identifiers_distinct by (auto simp: core_extension_laws_def succeeds_def)

lemma accepted_laws_requirements:
  assumes "with_pure sha256 cdc methods suites pure = Ok regs"
  shows "accepted_laws regs accepted OBSERVATION_REQUIREMENT_EXTENSION_V1 child parent
      \<Longrightarrow> observation_attenuates cdc child parent = Inr True"
    and "accepted_laws regs accepted APPROVAL_REQUIREMENT_EXTENSION_V1 child parent
      \<Longrightarrow> approval_attenuates cdc child parent = Inr True"
  using accepted_laws_core [OF assms, of OBSERVATION_REQUIREMENT_EXTENSION_V1]
    accepted_laws_core [OF assms, of APPROVAL_REQUIREMENT_EXTENSION_V1] by simp_all

section \<open>Requirements along a chain\<close>

definition carried_observations :: "codec \<Rightarrow> grant_statement \<Rightarrow> observation_requirement list" where
  "carried_observations cdc grant =
     (case critical_extension_find (gs_extensions grant) OBSERVATION_REQUIREMENT_EXTENSION_V1 of
        None \<Rightarrow> []
      | Some e \<Rightarrow> (case decode_observation_requirements cdc (ce_bytes e) of Inl _ \<Rightarrow> [] | Inr rs \<Rightarrow> rs))"

definition carried_approvals :: "codec \<Rightarrow> grant_statement \<Rightarrow> approval_requirement list" where
  "carried_approvals cdc grant =
     (case critical_extension_find (gs_extensions grant) APPROVAL_REQUIREMENT_EXTENSION_V1 of
        None \<Rightarrow> []
      | Some e \<Rightarrow> (case decode_approval_requirements cdc (ce_bytes e) of Inl _ \<Rightarrow> [] | Inr rs \<Rightarrow> rs))"

lemma decoded_payload_Inr_iff [simp]: "decoded_payload r = Inr x \<longleftrightarrow> r = Inr x"
  by (simp add: decoded_payload_def)

lemma observation_attenuates_iff:
  "observation_attenuates cdc (Some child) (Some parent) = Inr True \<longleftrightarrow>
     (\<exists>cs ps. decode_observation_requirements cdc child = Inr cs
        \<and> decode_observation_requirements cdc parent = Inr ps \<and> observation_requirements_attenuate cs ps)"
  by (auto simp: observation_attenuates_def decode_requirements_def result_simps)

lemma approval_attenuates_iff:
  "approval_attenuates cdc (Some child) (Some parent) = Inr True \<longleftrightarrow>
     (\<exists>cs ps. decode_approval_requirements cdc child = Inr cs
        \<and> decode_approval_requirements cdc parent = Inr ps \<and> approval_requirements_attenuate cs ps)"
  by (auto simp: approval_attenuates_def decode_approvals_def result_simps)

lemma retained_payload:
  assumes "extensions_follow_laws laws child parent" "critical_extension_find (gs_extensions parent) i = Some e"
  obtains c where "critical_extension_find (gs_extensions child) i = Some c"
    and "laws i (Some (ce_bytes c)) (Some (ce_bytes e))"
proof -
  have "e \<in> set (gs_extensions parent)" and id: "ce_id e = i"
    using critical_extension_find_Some [OF assms(2)] by auto
  then have "parent_extension_retained laws (gs_extensions child) e"
    using assms(1) by (simp add: extensions_follow_laws_def)
  then show thesis using that by (auto simp: parent_extension_retained_def id split: option.splits)
qed

lemma edge_observations:
  assumes "with_pure sha256 cdc methods suites pure = Ok regs"
    and "extensions_follow_laws (accepted_laws regs accepted) child parent"
  shows "observation_requirements_attenuate (carried_observations cdc child) (carried_observations cdc parent)"
proof (cases "critical_extension_find (gs_extensions parent) OBSERVATION_REQUIREMENT_EXTENSION_V1")
  case (Some e)
  then obtain c where found: "critical_extension_find (gs_extensions child) OBSERVATION_REQUIREMENT_EXTENSION_V1 = Some c"
    and "accepted_laws regs accepted OBSERVATION_REQUIREMENT_EXTENSION_V1 (Some (ce_bytes c)) (Some (ce_bytes e))"
    using retained_payload [OF assms(2)] by blast
  then have "observation_attenuates cdc (Some (ce_bytes c)) (Some (ce_bytes e)) = Inr True"
    using accepted_laws_requirements [OF assms(1)] by blast
  then show ?thesis using Some found by (auto simp: carried_observations_def observation_attenuates_iff)
qed (simp add: carried_observations_def)

lemma edge_approvals:
  assumes "with_pure sha256 cdc methods suites pure = Ok regs"
    and "extensions_follow_laws (accepted_laws regs accepted) child parent"
  shows "approval_requirements_attenuate (carried_approvals cdc child) (carried_approvals cdc parent)"
proof (cases "critical_extension_find (gs_extensions parent) APPROVAL_REQUIREMENT_EXTENSION_V1")
  case (Some e)
  then obtain c where found: "critical_extension_find (gs_extensions child) APPROVAL_REQUIREMENT_EXTENSION_V1 = Some c"
    and "accepted_laws regs accepted APPROVAL_REQUIREMENT_EXTENSION_V1 (Some (ce_bytes c)) (Some (ce_bytes e))"
    using retained_payload [OF assms(2)] by blast
  then have "approval_attenuates cdc (Some (ce_bytes c)) (Some (ce_bytes e)) = Inr True"
    using accepted_laws_requirements [OF assms(1)] by blast
  then show ?thesis using Some found by (auto simp: carried_approvals_def approval_attenuates_iff)
qed (simp add: carried_approvals_def)

lemma chain_requirements_tighten:
  assumes regs: "with_pure sha256 cdc methods suites pure = Ok regs"
    and run: "delegate_all (accepted_laws regs accepted) grants authority = Inr authority'"
    and member: "(i, grant) \<in> set grants"
  shows "observation_requirements_attenuate (carried_observations cdc (snd (last grants))) (carried_observations cdc grant)
    \<and> approval_requirements_attenuate (carried_approvals cdc (snd (last grants))) (carried_approvals cdc grant)"
proof -
  have steps: "successively (\<lambda>(_, parent) (_, child).
      extensions_follow_laws (accepted_laws regs accepted) child parent) grants"
    using delegate_all_successive [OF run] by (rule successively_mono) auto
  have "successively (\<lambda>parent child. observation_requirements_attenuate child parent)
      (map (carried_observations cdc \<circ> snd) grants)"
    unfolding successively_map using steps by (rule successively_mono) (auto intro: edge_observations [OF regs])
  moreover have "successively (\<lambda>parent child. approval_requirements_attenuate child parent)
      (map (carried_approvals cdc \<circ> snd) grants)"
    unfolding successively_map using steps by (rule successively_mono) (auto intro: edge_approvals [OF regs])
  moreover have "(carried_observations cdc \<circ> snd) (i, grant) \<in> set (map (carried_observations cdc \<circ> snd) grants)"
    "(carried_approvals cdc \<circ> snd) (i, grant) \<in> set (map (carried_approvals cdc \<circ> snd) grants)"
    using member by (auto simp del: comp_apply)
  moreover have "grants \<noteq> []" using member by auto
  ultimately show ?thesis
    using observed.chain_last_tightens approved.chain_last_tightens by (fastforce simp: last_map)
qed

section \<open>The bounded-policy link\<close>

text \<open>
  The law of the bounded-policy extension relates a payload to the parent it links. A payload is
  refused under itself unless it links its own bytes, so the law is no preorder.
\<close>

lemma bounded_policy_law_is_not_reflexive:
  assumes "decode_bounded_policy_commitment cdc payload = Ok commitment"
    and "bounded_policy_link cdc payload = Ok link" and "bp_parent commitment \<noteq> Some link"
  shows "bounded_policy_attenuates cdc (Some payload) (Some payload) = Ok False"
  using assms by (simp add: bounded_policy_attenuates_def decode_bounded_policy_def decoded_payload_def)

section \<open>The latest trusted statements\<close>

definition trusted_rule :: "bytes \<Rightarrow> status_trust_rule list \<Rightarrow> status_statement \<Rightarrow> status_trust_rule option" where
  "trusted_rule method trust statement =
     find (\<lambda>rule. tr_method rule = method \<and> tr_issuer rule = ss_issuer statement) trust"

text \<open>The statements that take part: about the subject, by a visible issuer trusted for the method.\<close>

definition heard :: "bytes \<Rightarrow> status_snapshot \<Rightarrow> bytes \<Rightarrow> status_view \<Rightarrow> status_statement set" where
  "heard method snapshot subject view = {s \<in> st_statement ` set (sn_statements snapshot).
     ss_subject s = subject \<and> status_issuer_visible (sn_trust snapshot) (ss_issuer s) view
     \<and> ss_method s = method \<and> trusted_rule method (sn_trust snapshot) s \<noteq> None}"

definition above_floor :: "bytes \<Rightarrow> status_snapshot \<Rightarrow> status_statement \<Rightarrow> bool" where
  "above_floor method snapshot s \<longleftrightarrow> (case trusted_rule method (sn_trust snapshot) s of
     None \<Rightarrow> True | Some rule \<Rightarrow> tr_sequence_floor rule \<le> ss_sequence s)"

definition fresh_at :: "u64 \<Rightarrow> u64 \<Rightarrow> status_statement \<Rightarrow> bool" where
  "fresh_at max_age now s \<longleftrightarrow>
     ss_observed_at s \<le> now \<and> now \<le> ss_valid_until s \<and> unat now - unat (ss_observed_at s) \<le> unat max_age"

lemma trusted_statements_Inr_iff:
  "trusted_statements method trust candidates = Inr trusted \<longleftrightarrow>
     trusted = filter (\<lambda>s. trusted_rule method trust s \<noteq> None) candidates
     \<and> (\<forall>s \<in> set candidates. case trusted_rule method trust s of
           None \<Rightarrow> True | Some rule \<Rightarrow> tr_sequence_floor rule \<le> ss_sequence s)"
proof (induction candidates arbitrary: trusted)
  case (Cons s candidates)
  then show ?case
    by (cases "trusted_rule method trust s")
       (auto simp: trusted_rule_def [symmetric] result_simps simp flip: not_le)
qed auto

lemma maximum_sequence_Some:
  "statements \<noteq> [] \<Longrightarrow> maximum_sequence statements = Some (Max (ss_sequence ` set statements))"
proof (cases statements)
  case (Cons s rest)
  have "fold max (map ss_sequence rest) (ss_sequence s) = Max (set (ss_sequence s # map ss_sequence rest))"
    by (rule Max.set_eq_fold [symmetric])
  then show ?thesis by (simp add: maximum_sequence_def Cons)
qed simp

lemma status_freshness_iff:
  "status_freshness (SnapshotRequired method max_age) (ss_observed_at s) (ss_valid_until s) now = StatusStale
     \<longleftrightarrow> \<not> fresh_at max_age now s"
  by (auto simp: status_freshness_def fresh_at_def word_less_nat_alt unat_saturating_sub word_le_nat_alt
      split: if_splits)

lemma select_status_active_iff:
  assumes policy: "policy = SnapshotRequired method max_age"
  shows "select_status policy snapshot candidates now = Inr StatusActive \<longleftrightarrow>
    (let H = {s \<in> set candidates. ss_method s = method \<and> trusted_rule method (sn_trust snapshot) s \<noteq> None} in
     H \<noteq> {} \<and> (\<forall>s \<in> H. above_floor method snapshot s)
     \<and> (\<forall>s \<in> H. ss_sequence s = Max (ss_sequence ` H) \<longrightarrow> ss_state s = StateActive \<and> fresh_at max_age now s))"
proof -
  define offered where "offered = filter (\<lambda>s. ss_method s = method) candidates"
  define trusted where "trusted = filter (\<lambda>s. trusted_rule method (sn_trust snapshot) s \<noteq> None) offered"
  define floors where "floors \<longleftrightarrow> (\<forall>s \<in> set offered. above_floor method snapshot s)"
  have H: "{s \<in> set candidates. ss_method s = method \<and> trusted_rule method (sn_trust snapshot) s \<noteq> None} = set trusted"
    by (auto simp: trusted_def offered_def)
  have none: "list_all (\<lambda>s. ss_method s \<noteq> method) candidates \<Longrightarrow> trusted = []"
    by (auto simp: trusted_def offered_def list_all_iff filter_empty_conv)
  have floors_iff: "floors \<longleftrightarrow> (\<forall>s \<in> set trusted. above_floor method snapshot s)"
    by (auto simp: floors_def trusted_def above_floor_def split: option.splits)
  have loop: "trusted_statements method (sn_trust snapshot) offered = (if floors then Inr trusted else Inl StatusRollback)"
  proof (cases floors)
    case True
    then show ?thesis by (simp add: trusted_statements_Inr_iff trusted_def floors_def above_floor_def)
  next
    case False
    then have "\<nexists>t. trusted_statements method (sn_trust snapshot) offered = Inr t"
      unfolding trusted_statements_Inr_iff by (auto simp: floors_def above_floor_def)
    moreover have "trusted_statements m tr xs = Inl d \<Longrightarrow> d = StatusRollback" for m tr xs d
      by (induction xs) (auto simp: result_simps split: option.splits if_splits)
    ultimately show ?thesis using False by (metis sum.exhaust)
  qed
  show ?thesis
  proof (cases "trusted = []")
    case True
    then show ?thesis unfolding H Let_def
      by (simp add: select_status_def policy offered_def [symmetric] loop split: if_splits)
  next
    case False
    then have "candidates \<noteq> []" by (auto simp: trusted_def offered_def)
    moreover have "\<not> list_all (\<lambda>s. ss_method s \<noteq> method) candidates" using False none by blast
    ultimately show ?thesis unfolding H Let_def
      using False maximum_sequence_Some [OF False] floors_iff
      by (auto simp: select_status_def policy offered_def [symmetric] loop status_freshness_iff list_ex_iff
          Let_def split: if_splits)
  qed
qed

section \<open>Properties\<close>

definition observed_grants :: "(grant_id \<times> grant_statement) list" where
  "observed_grants = map (\<lambda>((i, g), bs). (i, g \<lparr> gs_extensions :=
     [\<lparr> ce_id = OBSERVATION_REQUIREMENT_EXTENSION_V1, ce_bytes = bs \<rparr>] \<rparr>)) (zip sample_grants [[60], [30]])"

definition sample_request ::
  "(bytes \<Rightarrow> observer_anchor option) \<times> (fact_name \<Rightarrow> fact_value option) \<times> u64 \<times> observation_statement list" where
  "sample_request =
     (\<lambda>_. Some \<lparr> oa_id = [1], oa_principal = [9], oa_accepted_methods = [[7]], oa_schemas = [[2]],
         oa_subject_namespaces = [[3]], oa_validity = \<lparr> not_before = 0, expires_at = 100 \<rparr> \<rparr>,
      \<lambda>_. None, 40, [\<lparr> os_version = 1, os_observer = [9], os_schema = [2], os_subject = [3], os_observed_at = 15,
         os_facts = [\<lparr> of_name = [4], of_value = Uint 5 \<rparr>] \<rparr>])"

text \<open>
  C36: Along every chain the verifier accepts with a constructed
  registry, the observation and approval requirements of each grant are kept or narrowed to the end:
  whatever observations fulfil the requirements the last grant carries fulfil those of every grant
  before it, and whatever set of approving principals meets its approval requirements meets theirs.
\<close>

theorem chain_requirements_only_narrow:
  assumes "with_pure sha256 cdc methods suites pure = Ok regs"
    and "delegate_all (accepted_laws regs accepted) grants (from_anchor anchor) = Ok authority"
    and "(i, grant) \<in> set grants"
  shows "(observations_admit (carried_observations cdc (snd (last grants))) request
      \<longrightarrow> observations_admit (carried_observations cdc grant) request)
    \<and> (approvals_admit (carried_approvals cdc (snd (last grants))) approving
      \<longrightarrow> approvals_admit (carried_approvals cdc grant) approving)"
  using chain_requirements_tighten [OF assms] observed.tightens_sound approved.tightens_sound by blast

theorem chain_requirements_only_narrow_witness:
  "observations_admit (carried_observations sample_codec (snd (last observed_grants))) sample_request
   \<and> observations_admit (carried_observations sample_codec (snd (hd observed_grants))) sample_request"
proof -
  have "\<not> isl sample_registries" by code_simp
  then obtain regs where regs: "sample_registries = Ok regs" using sum.collapse(2) by metis
  have "\<not> isl (and_then (map_failure (\<lambda>_. MalformedProof) sample_registries) (\<lambda>regs.
      delegate_all (accepted_laws regs sample_accepted) observed_grants (from_anchor sample_anchor)))" by code_simp
  then obtain authority where
    "delegate_all (accepted_laws regs sample_accepted) observed_grants (from_anchor sample_anchor) = Ok authority"
    unfolding regs map_failure_simps and_then_simps using sum.collapse(2) by metis
  note narrow = chain_requirements_only_narrow [OF regs [unfolded sample_registries_def] this]
  have last: "observations_admit (carried_observations sample_codec (snd (last observed_grants))) sample_request"
    by code_simp
  have "hd observed_grants \<in> set observed_grants" by (simp add: observed_grants_def sample_grants_def)
  then have "(fst (hd observed_grants), snd (hd observed_grants)) \<in> set observed_grants" by simp
  from narrow [OF this] last show ?thesis by blast
qed

definition sample_status :: "subject_state \<Rightarrow> u64 \<Rightarrow> signed_status" where
  "sample_status state sequence = \<lparr> st_statement = \<lparr> ss_method = [1], ss_subject = [2], ss_state = state,
       ss_sequence = sequence, ss_observed_at = 10, ss_valid_until = 50, ss_issuer = [3], ss_extensions = [] \<rparr>,
     st_signature = \<lparr> se_descriptor = \<lparr> sd_principal_method = [], sd_verification_method = [], sd_suite = [] \<rparr>,
       se_signature = [] \<rparr> \<rparr>"

definition sample_snapshot :: status_snapshot where
  "sample_snapshot = \<lparr> sn_observed_at = 20, sn_valid_until = 60,
     sn_statements = [sample_status StateRevoked 4, sample_status StateActive 5], sn_checkpoints = [],
     sn_trust = [\<lparr> tr_method = [1], tr_issuer = [3], tr_sequence_floor = 2, tr_scope = AnyAnchor \<rparr>] \<rparr>"

text \<open>
  C37: The built-in status method reports a subject active under a
  snapshot policy exactly when the policy names this method, the evaluation time is inside the
  snapshot's window, at least one statement about the subject is by a visible issuer that is trusted
  for the method, none of these is below its issuer's sequence floor, and each of them with the
  highest sequence number says active and is fresh. One revocation among the latest is enough to refuse.
\<close>

theorem status_is_active_exactly_when:
  "exact_status i (SnapshotRequired method max_age) snapshot subject view now = Ok StatusActive \<longleftrightarrow>
     method = i \<and> sn_observed_at snapshot \<le> now \<and> now \<le> sn_valid_until snapshot
     \<and> heard method snapshot subject view \<noteq> {}
     \<and> (\<forall>s \<in> heard method snapshot subject view. above_floor method snapshot s)
     \<and> (\<forall>s \<in> heard method snapshot subject view.
          (\<forall>t \<in> heard method snapshot subject view. ss_sequence t \<le> ss_sequence s)
          \<longrightarrow> ss_state s = StateActive \<and> fresh_at max_age now s)"
proof -
  let ?H = "heard method snapshot subject view"
  have H: "{s \<in> set (filter (\<lambda>s. ss_subject s = subject
      \<and> status_issuer_visible (sn_trust snapshot) (ss_issuer s) view) (map st_statement (sn_statements snapshot))).
      ss_method s = method \<and> trusted_rule method (sn_trust snapshot) s \<noteq> None} = ?H"
    by (auto simp: heard_def)
  have finite: "finite (ss_sequence ` ?H)" by (simp add: heard_def)
  have maximal: "ss_sequence s = Max (ss_sequence ` ?H) \<longleftrightarrow> (\<forall>t \<in> ?H. ss_sequence t \<le> ss_sequence s)"
    if "s \<in> ?H" for s
  proof
    assume "ss_sequence s = Max (ss_sequence ` ?H)"
    then show "\<forall>t \<in> ?H. ss_sequence t \<le> ss_sequence s" using Max_ge [OF finite] by simp
  next
    assume "\<forall>t \<in> ?H. ss_sequence t \<le> ss_sequence s"
    then show "ss_sequence s = Max (ss_sequence ` ?H)"
      using that by (intro Max_eqI [symmetric] finite) auto
  qed
  have "select_status (SnapshotRequired method max_age) snapshot
      (filter (\<lambda>s. ss_subject s = subject \<and> status_issuer_visible (sn_trust snapshot) (ss_issuer s) view)
        (map st_statement (sn_statements snapshot))) now = Inr StatusActive \<longleftrightarrow>
    ?H \<noteq> {} \<and> (\<forall>s \<in> ?H. above_floor method snapshot s)
    \<and> (\<forall>s \<in> ?H. (\<forall>t \<in> ?H. ss_sequence t \<le> ss_sequence s) \<longrightarrow> ss_state s = StateActive \<and> fresh_at max_age now s)"
    unfolding select_status_active_iff [OF refl] H Let_def using maximal by (metis (no_types, lifting))
  then show ?thesis by (simp add: exact_status_def not_less) auto
qed

theorem status_is_active_exactly_when_witness:
  "exact_status [1] (SnapshotRequired [1] 30) sample_snapshot [2] ApproverView 40 = Ok StatusActive
   \<and> ss_state (st_statement (sample_status StateActive 5)) = StateActive
   \<and> fresh_at 30 40 (st_statement (sample_status StateActive 5))"
proof -
  have active: "exact_status [1] (SnapshotRequired [1] 30) sample_snapshot [2] ApproverView 40 = Ok StatusActive"
    by code_simp
  have in_heard: "st_statement (sample_status StateActive 5) \<in> heard [1] sample_snapshot [2] ApproverView"
    by (simp add: heard_def sample_snapshot_def sample_status_def status_issuer_visible_def trusted_rule_def)
  have latest: "\<forall>t \<in> heard [1] sample_snapshot [2] ApproverView.
      ss_sequence t \<le> ss_sequence (st_statement (sample_status StateActive 5))"
    by (auto simp: heard_def sample_snapshot_def sample_status_def)
  show ?thesis using active status_is_active_exactly_when in_heard latest by metis
qed

end
