(* ===== verification/Gateway_Ratio.thy ===== *)
theory Gateway_Ratio
  imports Auths_Prelude
begin

text \<open>
  The relative ceiling of \<open>product/runtime/auths-gateway-kernel/src/ratio.rs\<close>: the basis read
  from the provider and the exact comparison of a verified argument with a ratio of it. Both
  products are computed at 128 bits, as the code does.
\<close>

definition BASIS_POINTS_PER_WHOLE :: u128 where
  "BASIS_POINTS_PER_WHOLE = 10000"

definition relative_basis :: "u64 \<Rightarrow> u64 option \<Rightarrow> u64 option" where
  "relative_basis value subtrahend =
     (case subtrahend of
        None \<Rightarrow> Some value
      | Some second \<Rightarrow> if second \<le> value then Some (value - second) else None)"

definition relative_ceiling_admits :: "u64 \<Rightarrow> u64 \<Rightarrow> u16 \<Rightarrow> bool" where
  "relative_ceiling_admits argument basis basis_points =
     (let scaled_argument = (ucast argument :: u128) * BASIS_POINTS_PER_WHOLE;
          scaled_basis = (ucast basis :: u128) * (ucast basis_points :: u128)
      in scaled_argument \<le> scaled_basis)"

section \<open>Facts\<close>

lemma u64_u128_product_exact:
  assumes "unat (b :: u128) < 2 ^ 16"
  shows "unat ((ucast (a :: u64) :: u128) * b) = unat a * unat b"
proof -
  have "unat a * unat b < 2 ^ 64 * 2 ^ 16"
    by (rule mult_strict_mono') (use assms unsigned_less [of a] in auto)
  then show ?thesis
    by (simp add: unat_word_ariths unat_ucast_widen)
qed

lemma relative_ceiling_admits_nat:
  "relative_ceiling_admits argument basis points \<longleftrightarrow>
     unat argument * 10000 \<le> unat basis * unat points"
proof -
  have "unat (ucast points :: u128) < 2 ^ 16"
    using unsigned_less [of points] by (simp add: unat_ucast_widen)
  then show ?thesis
    by (simp add: relative_ceiling_admits_def BASIS_POINTS_PER_WHOLE_def word_le_nat_alt
        u64_u128_product_exact unat_ucast_widen Let_def)
qed

lemma relative_basis_checked_sub:
  "relative_basis value None = Some value"
  "relative_basis value (Some second) = checked_sub value second"
  by (simp_all add: relative_basis_def checked_sub_def)

section \<open>Properties\<close>

text \<open>
  At full width and for every argument, basis and ratio,
  the leaf admits exactly the arguments up to the floor of \<open>basis * basis_points / 10000\<close>; no
  product wraps.
\<close>

theorem relative_ceiling_is_floor_division:
  "relative_ceiling_admits argument basis points \<longleftrightarrow>
     unat argument \<le> unat basis * unat points div 10000"
  by (simp add: relative_ceiling_admits_nat less_eq_div_iff_mult_less_eq)

end
