(* ===== verification/Gateway_Order.thy ===== *)
theory Gateway_Order
  imports Gateway_Ratio
begin

text \<open>
  The admission order of one gateway submission,
  \<open>product/runtime/auths-gateway-kernel/src/order.rs\<close>: a closed step machine. Each call takes the
  machine state and the result of the action the previous decision named, and returns the next
  state and the next action; the engine performs I/O only as the machine directs. Constructors
  carry their Rust type's name where two types share one (\<open>Phase::Claim\<close>, \<open>SubmitEvent::Claim\<close>
  and \<open>SubmitAction::Claim\<close> are \<open>PhaseClaim\<close>, \<open>EventClaim\<close> and \<open>ActClaim\<close>).
\<close>

section \<open>Data\<close>

record submit_plan =
  account_scope :: bool
  account_read :: bool
  denied_reads :: u8
  pre_entry :: bool
  relative_ceiling :: bool
  basis_points :: u16

datatype phase =
    PhaseStart | PhaseClock | PhaseVerify | PhaseAdmit | PhaseScope | PhasePrepare | PhaseClaim
  | PhaseReload | PhaseLease | PhasePrefix | PhaseAccount | PhaseDenied u8
  | PhasePreEntry | PhaseCeiling | PhaseCheckpoint | PhaseEntryReload | PhaseDeadline | PhaseGrant
  | PhaseSend | PhaseRecordResponse | PhaseRecordUnknown | PhaseRecordNotEntered | PhaseDone

record submit_state =
  ss_plan :: submit_plan
  ss_phase :: phase
  ss_argument :: u64

datatype verification = VerificationRefused | VerificationAuthorized u64

datatype claim_result = ClaimReserved | ClaimRefused | ClaimReplay | ClaimUnavailable

datatype account_result = AccountEqual | AccountMismatched | AccountReadUnavailable

datatype denied_result = DeniedRefused | DeniedAnswered | DeniedUnavailable

datatype pre_entry_result = PreEntrySatisfied | PreEntryFalse | PreEntryReadUnavailable

datatype ceiling_read = CeilingReadUnavailable | CeilingReadBasis u64 bool

datatype write_result = WriteUnknown | WriteResponse

datatype response_record = ResponseFailed | ResponseStored

datatype submit_event =
    EventStart
  | EventClock bool
  | EventVerification verification
  | EventAdmission bool
  | EventScope bool
  | EventPreparation bool
  | EventClaim claim_result
  | EventReload bool
  | EventLease bool
  | EventPrefix bool
  | EventAccount account_result
  | EventDenied denied_result
  | EventPreEntry pre_entry_result
  | EventCeiling ceiling_read
  | EventRecorded bool
  | EventDeadline bool
  | EventGranted bool
  | EventWrite write_result
  | EventResponse response_record

datatype refusal =
    ConnectionChanged | CredentialUnavailable | ModeGuard | AccountMismatch | AccountUnavailable
  | CapabilityExcess | CapabilityUnavailable | PreEntryConditionFalse | PreEntryUnavailable
  | CeilingAbove | CeilingBindingMismatch | CeilingUnavailable | EntryDeadline
  | TransportNotEntered

datatype stop_reason =
    StopRefused | StopStoreUnavailable | StopClaimRefused | StopNotEntered | StopUnknown
  | StopResponse | StopStored | StopGrantUnavailable | StopHalted

datatype submit_action =
    ActReadClock | ActVerify | ActAdmit | ActBindScope | ActPrepare | ActClaim | ActReload
  | ActLease | ActCheckPrefix | ActReadAccount | ActDeniedRead u8 | ActPreEntryRead
  | ActCeilingRead | ActRecordCheckpoint | ActReloadBeforeEntry | ActCheckDeadline | ActGrantEntry
  | ActSend | ActRecordResponse | ActRecordUnknown | ActRecordNotEntered refusal
  | ActStop stop_reason

record submit_decision =
  sd_state :: submit_state
  sd_action :: submit_action

section \<open>Steps\<close>

definition start :: "submit_plan \<Rightarrow> submit_state" where
  "start plan = \<lparr> ss_plan = plan, ss_phase = PhaseStart, ss_argument = 0 \<rparr>"

definition go :: "submit_state \<Rightarrow> phase \<Rightarrow> submit_action \<Rightarrow> submit_decision" where
  "go state phase action =
     \<lparr> sd_state = \<lparr> ss_plan = ss_plan state, ss_phase = phase, ss_argument = ss_argument state \<rparr>,
       sd_action = action \<rparr>"

definition stop :: "submit_state \<Rightarrow> stop_reason \<Rightarrow> submit_decision" where
  "stop state reason = go state PhaseDone (ActStop reason)"

definition halt :: "submit_state \<Rightarrow> submit_decision" where
  "halt state = stop state StopHalted"

definition not_entered :: "submit_state \<Rightarrow> refusal \<Rightarrow> submit_decision" where
  "not_entered state refusal = go state PhaseRecordNotEntered (ActRecordNotEntered refusal)"

definition after_reads :: "submit_state \<Rightarrow> submit_decision" where
  "after_reads state =
     (if pre_entry (ss_plan state) \<or> relative_ceiling (ss_plan state)
      then go state PhaseCheckpoint ActRecordCheckpoint
      else go state PhaseEntryReload ActReloadBeforeEntry)"

definition ceiling_from :: "submit_state \<Rightarrow> submit_decision" where
  "ceiling_from state =
     (if relative_ceiling (ss_plan state) then go state PhaseCeiling ActCeilingRead
      else after_reads state)"

definition pre_entry_from :: "submit_state \<Rightarrow> submit_decision" where
  "pre_entry_from state =
     (if pre_entry (ss_plan state) then go state PhasePreEntry ActPreEntryRead
      else ceiling_from state)"

definition denied_from :: "submit_state \<Rightarrow> u8 \<Rightarrow> submit_decision" where
  "denied_from state index =
     (if index < denied_reads (ss_plan state)
      then go state (PhaseDenied index) (ActDeniedRead index)
      else pre_entry_from state)"

definition after_prefix :: "submit_state \<Rightarrow> submit_decision" where
  "after_prefix state =
     (if account_read (ss_plan state) then go state PhaseAccount ActReadAccount
      else denied_from state 0)"

definition after_admission :: "submit_state \<Rightarrow> submit_decision" where
  "after_admission state =
     (if account_scope (ss_plan state) then go state PhaseScope ActBindScope
      else go state PhasePrepare ActPrepare)"

definition pre_claim :: "submit_state \<Rightarrow> bool \<Rightarrow> submit_decision \<Rightarrow> submit_decision" where
  "pre_claim state passed next = (if passed then next else stop state StopRefused)"

fun after_claim :: "submit_state \<Rightarrow> claim_result \<Rightarrow> submit_decision" where
  "after_claim state ClaimReserved = go state PhaseReload ActReload"
| "after_claim state ClaimRefused = stop state StopClaimRefused"
| "after_claim state ClaimReplay = stop state StopStored"
| "after_claim state ClaimUnavailable = stop state StopStoreUnavailable"

fun after_account :: "submit_state \<Rightarrow> account_result \<Rightarrow> submit_decision" where
  "after_account state AccountEqual = denied_from state 0"
| "after_account state AccountMismatched = not_entered state AccountMismatch"
| "after_account state AccountReadUnavailable = not_entered state AccountUnavailable"

fun after_denied :: "submit_state \<Rightarrow> u8 \<Rightarrow> denied_result \<Rightarrow> submit_decision" where
  "after_denied state index DeniedRefused =
     (if index < denied_reads (ss_plan state) then denied_from state (index + 1) else halt state)"
| "after_denied state index DeniedAnswered = not_entered state CapabilityExcess"
| "after_denied state index DeniedUnavailable = not_entered state CapabilityUnavailable"

fun after_pre_entry :: "submit_state \<Rightarrow> pre_entry_result \<Rightarrow> submit_decision" where
  "after_pre_entry state PreEntrySatisfied = ceiling_from state"
| "after_pre_entry state PreEntryFalse = not_entered state PreEntryConditionFalse"
| "after_pre_entry state PreEntryReadUnavailable = not_entered state PreEntryUnavailable"

fun after_ceiling :: "submit_state \<Rightarrow> ceiling_read \<Rightarrow> submit_decision" where
  "after_ceiling state CeilingReadUnavailable = not_entered state CeilingUnavailable"
| "after_ceiling state (CeilingReadBasis basis binds_equal) =
     (if \<not> binds_equal then not_entered state CeilingBindingMismatch
      else if relative_ceiling_admits (ss_argument state) basis (basis_points (ss_plan state))
      then after_reads state
      else not_entered state CeilingAbove)"

fun after_write :: "submit_state \<Rightarrow> write_result \<Rightarrow> submit_decision" where
  "after_write state WriteUnknown = go state PhaseRecordUnknown ActRecordUnknown"
| "after_write state WriteResponse = go state PhaseRecordResponse ActRecordResponse"

fun after_response :: "submit_state \<Rightarrow> response_record \<Rightarrow> submit_decision" where
  "after_response state ResponseFailed = stop state StopUnknown"
| "after_response state ResponseStored = stop state StopResponse"

definition pre_claim_step :: "submit_state \<Rightarrow> submit_event \<Rightarrow> submit_decision" where
  "pre_claim_step state event =
     (case ss_phase state of
        PhaseStart \<Rightarrow>
          (case event of EventStart \<Rightarrow> go state PhaseClock ActReadClock | _ \<Rightarrow> halt state)
      | PhaseClock \<Rightarrow>
          (case event of
             EventClock read \<Rightarrow> pre_claim state read (go state PhaseVerify ActVerify)
           | _ \<Rightarrow> halt state)
      | PhaseVerify \<Rightarrow>
          (case event of
             EventVerification verification \<Rightarrow>
               (case verification of
                  VerificationRefused \<Rightarrow> stop state StopRefused
                | VerificationAuthorized argument \<Rightarrow>
                    \<lparr> sd_state = \<lparr> ss_plan = ss_plan state, ss_phase = PhaseAdmit,
                                   ss_argument = argument \<rparr>,
                      sd_action = ActAdmit \<rparr>)
           | _ \<Rightarrow> halt state)
      | PhaseAdmit \<Rightarrow>
          (case event of
             EventAdmission admitted \<Rightarrow> pre_claim state admitted (after_admission state)
           | _ \<Rightarrow> halt state)
      | PhaseScope \<Rightarrow>
          (case event of
             EventScope bound \<Rightarrow> pre_claim state bound (go state PhasePrepare ActPrepare)
           | _ \<Rightarrow> halt state)
      | PhasePrepare \<Rightarrow>
          (case event of
             EventPreparation prepared \<Rightarrow> pre_claim state prepared (go state PhaseClaim ActClaim)
           | _ \<Rightarrow> halt state)
      | PhaseClaim \<Rightarrow>
          (case event of EventClaim result \<Rightarrow> after_claim state result | _ \<Rightarrow> halt state)
      | _ \<Rightarrow> halt state)"

definition lease_step :: "submit_state \<Rightarrow> submit_event \<Rightarrow> submit_decision" where
  "lease_step state event =
     (case ss_phase state of
        PhaseReload \<Rightarrow>
          (case event of
             EventReload unchanged \<Rightarrow>
               if unchanged then go state PhaseLease ActLease
               else not_entered state ConnectionChanged
           | _ \<Rightarrow> halt state)
      | PhaseLease \<Rightarrow>
          (case event of
             EventLease leased \<Rightarrow>
               if leased then go state PhasePrefix ActCheckPrefix
               else not_entered state CredentialUnavailable
           | _ \<Rightarrow> halt state)
      | PhasePrefix \<Rightarrow>
          (case event of
             EventPrefix allowed \<Rightarrow>
               if allowed then after_prefix state else not_entered state ModeGuard
           | _ \<Rightarrow> halt state)
      | PhaseAccount \<Rightarrow>
          (case event of EventAccount result \<Rightarrow> after_account state result | _ \<Rightarrow> halt state)
      | PhaseDenied index \<Rightarrow>
          (case event of EventDenied result \<Rightarrow> after_denied state index result | _ \<Rightarrow> halt state)
      | _ \<Rightarrow> halt state)"

definition entry_step :: "submit_state \<Rightarrow> submit_event \<Rightarrow> submit_decision" where
  "entry_step state event =
     (case ss_phase state of
        PhasePreEntry \<Rightarrow>
          (case event of EventPreEntry result \<Rightarrow> after_pre_entry state result | _ \<Rightarrow> halt state)
      | PhaseCeiling \<Rightarrow>
          (case event of EventCeiling read \<Rightarrow> after_ceiling state read | _ \<Rightarrow> halt state)
      | PhaseCheckpoint \<Rightarrow>
          (case event of
             EventRecorded recorded \<Rightarrow>
               if recorded then go state PhaseEntryReload ActReloadBeforeEntry
               else stop state StopUnknown
           | _ \<Rightarrow> halt state)
      | PhaseEntryReload \<Rightarrow>
          (case event of
             EventReload unchanged \<Rightarrow>
               if unchanged then go state PhaseDeadline ActCheckDeadline
               else not_entered state ConnectionChanged
           | _ \<Rightarrow> halt state)
      | PhaseDeadline \<Rightarrow>
          (case event of
             EventDeadline within \<Rightarrow>
               if within then go state PhaseGrant ActGrantEntry
               else not_entered state EntryDeadline
           | _ \<Rightarrow> halt state)
      | PhaseGrant \<Rightarrow>
          (case event of
             EventGranted granted \<Rightarrow>
               if granted then go state PhaseSend ActSend else stop state StopGrantUnavailable
           | _ \<Rightarrow> halt state)
      | PhaseSend \<Rightarrow>
          (case event of EventWrite result \<Rightarrow> after_write state result | _ \<Rightarrow> halt state)
      | PhaseRecordResponse \<Rightarrow>
          (case event of EventResponse rec \<Rightarrow> after_response state rec | _ \<Rightarrow> halt state)
      | PhaseRecordUnknown \<Rightarrow>
          (case event of EventRecorded _ \<Rightarrow> stop state StopUnknown | _ \<Rightarrow> halt state)
      | PhaseRecordNotEntered \<Rightarrow>
          (case event of
             EventRecorded recorded \<Rightarrow>
               if recorded then stop state StopNotEntered else stop state StopUnknown
           | _ \<Rightarrow> halt state)
      | _ \<Rightarrow> halt state)"

definition next_step :: "submit_state \<Rightarrow> submit_event \<Rightarrow> submit_decision" where
  "next_step state event =
     (case ss_phase state of
        PhaseStart \<Rightarrow> pre_claim_step state event
      | PhaseClock \<Rightarrow> pre_claim_step state event
      | PhaseVerify \<Rightarrow> pre_claim_step state event
      | PhaseAdmit \<Rightarrow> pre_claim_step state event
      | PhaseScope \<Rightarrow> pre_claim_step state event
      | PhasePrepare \<Rightarrow> pre_claim_step state event
      | PhaseClaim \<Rightarrow> pre_claim_step state event
      | PhaseReload \<Rightarrow> lease_step state event
      | PhaseLease \<Rightarrow> lease_step state event
      | PhasePrefix \<Rightarrow> lease_step state event
      | PhaseAccount \<Rightarrow> lease_step state event
      | PhaseDenied _ \<Rightarrow> lease_step state event
      | PhaseDone \<Rightarrow> halt state
      | _ \<Rightarrow> entry_step state event)"

text \<open>
  The engine's loop (\<open>product/runtime/auths-gateway/src/submit.rs\<close>): it performs each action the
  decision names until the machine stops, for at most \<open>MAX_STEPS\<close> steps. The I/O is a parameter:
  \<open>perform\<close> takes the world and the action and returns the event with the next world.
\<close>

definition MAX_STEPS :: nat where
  "MAX_STEPS = 64"

fun drive_loop ::
  "nat \<Rightarrow> ('w \<Rightarrow> submit_action \<Rightarrow> submit_event \<times> 'w) \<Rightarrow> 'w \<Rightarrow> submit_decision \<Rightarrow> stop_reason \<times> 'w"
where
  "drive_loop 0 perform world decision = (StopHalted, world)"
| "drive_loop (Suc steps) perform world decision =
     (case sd_action decision of
        ActStop reason \<Rightarrow> (reason, world)
      | action \<Rightarrow>
          (let (event, world') = perform world action
           in drive_loop steps perform world' (next_step (sd_state decision) event)))"

definition run_submission ::
  "('w \<Rightarrow> submit_action \<Rightarrow> submit_event \<times> 'w) \<Rightarrow> 'w \<Rightarrow> submit_plan \<Rightarrow> stop_reason \<times> 'w"
where
  "run_submission perform world plan =
     drive_loop MAX_STEPS perform world (next_step (start plan) EventStart)"

text \<open>
  The action-to-event mapping of the engine's \<open>perform\<close>: the kind of event each action answers
  with. What the I/O finds is open; the constructor is not.
\<close>

fun answers :: "submit_action \<Rightarrow> submit_event \<Rightarrow> bool" where
  "answers ActReadClock event = (case event of EventClock _ \<Rightarrow> True | _ \<Rightarrow> False)"
| "answers ActVerify event = (case event of EventVerification _ \<Rightarrow> True | _ \<Rightarrow> False)"
| "answers ActAdmit event = (case event of EventAdmission _ \<Rightarrow> True | _ \<Rightarrow> False)"
| "answers ActBindScope event = (case event of EventScope _ \<Rightarrow> True | _ \<Rightarrow> False)"
| "answers ActPrepare event = (case event of EventPreparation _ \<Rightarrow> True | _ \<Rightarrow> False)"
| "answers ActClaim event = (case event of EventClaim _ \<Rightarrow> True | _ \<Rightarrow> False)"
| "answers ActReload event = (case event of EventReload _ \<Rightarrow> True | _ \<Rightarrow> False)"
| "answers ActReloadBeforeEntry event = (case event of EventReload _ \<Rightarrow> True | _ \<Rightarrow> False)"
| "answers ActLease event = (case event of EventLease _ \<Rightarrow> True | _ \<Rightarrow> False)"
| "answers ActCheckPrefix event = (case event of EventPrefix _ \<Rightarrow> True | _ \<Rightarrow> False)"
| "answers ActReadAccount event = (case event of EventAccount _ \<Rightarrow> True | _ \<Rightarrow> False)"
| "answers (ActDeniedRead _) event = (case event of EventDenied _ \<Rightarrow> True | _ \<Rightarrow> False)"
| "answers ActPreEntryRead event = (case event of EventPreEntry _ \<Rightarrow> True | _ \<Rightarrow> False)"
| "answers ActCeilingRead event = (case event of EventCeiling _ \<Rightarrow> True | _ \<Rightarrow> False)"
| "answers ActRecordCheckpoint event = (case event of EventRecorded _ \<Rightarrow> True | _ \<Rightarrow> False)"
| "answers ActCheckDeadline event = (case event of EventDeadline _ \<Rightarrow> True | _ \<Rightarrow> False)"
| "answers ActGrantEntry event = (case event of EventGranted _ \<Rightarrow> True | _ \<Rightarrow> False)"
| "answers ActSend event = (case event of EventWrite _ \<Rightarrow> True | _ \<Rightarrow> False)"
| "answers ActRecordResponse event = (case event of EventResponse _ \<Rightarrow> True | _ \<Rightarrow> False)"
| "answers ActRecordUnknown event = (case event of EventRecorded _ \<Rightarrow> True | _ \<Rightarrow> False)"
| "answers (ActRecordNotEntered _) event = (case event of EventRecorded _ \<Rightarrow> True | _ \<Rightarrow> False)"
| "answers (ActStop _) event = (case event of EventStart \<Rightarrow> True | _ \<Rightarrow> False)"

text \<open>
  The machine under a given list of results: every action it names, in order, and the state it
  ends in.
\<close>

fun drive :: "submit_state \<Rightarrow> submit_event list \<Rightarrow> submit_action list" where
  "drive state [] = []"
| "drive state (event # events) =
     (let decision = next_step state event
      in sd_action decision # drive (sd_state decision) events)"

fun drive_state :: "submit_state \<Rightarrow> submit_event list \<Rightarrow> submit_state" where
  "drive_state state [] = state"
| "drive_state state (event # events) = drive_state (sd_state (next_step state event)) events"

section \<open>The admitting order\<close>

text \<open>
  The specification the machine implements: the one sequence of results under which a plan sends
  its write, and the sequence of actions it names meanwhile.
\<close>

definition entry_events :: "submit_event list" where
  "entry_events = [EventReload True, EventDeadline True, EventGranted True]"

definition read_events :: "submit_plan \<Rightarrow> u64 \<Rightarrow> submit_event list" where
  "read_events plan basis =
     (if relative_ceiling plan then [EventCeiling (CeilingReadBasis basis True)] else [])
     @ (if pre_entry plan \<or> relative_ceiling plan then [EventRecorded True] else [])
     @ entry_events"

definition lease_events :: "submit_plan \<Rightarrow> u64 \<Rightarrow> submit_event list" where
  "lease_events plan basis =
     [EventReload True, EventLease True, EventPrefix True]
     @ (if account_read plan then [EventAccount AccountEqual] else [])
     @ replicate (unat (denied_reads plan)) (EventDenied DeniedRefused)
     @ (if pre_entry plan then [EventPreEntry PreEntrySatisfied] else [])
     @ read_events plan basis"

definition admitting_events :: "submit_plan \<Rightarrow> u64 \<Rightarrow> u64 \<Rightarrow> submit_event list" where
  "admitting_events plan argument basis =
     [EventStart, EventClock True, EventVerification (VerificationAuthorized argument),
      EventAdmission True]
     @ (if account_scope plan then [EventScope True] else [])
     @ [EventPreparation True, EventClaim ClaimReserved]
     @ lease_events plan basis"

definition admitting_actions :: "submit_plan \<Rightarrow> submit_action list" where
  "admitting_actions plan =
     [ActReadClock, ActVerify, ActAdmit]
     @ (if account_scope plan then [ActBindScope] else [])
     @ [ActPrepare, ActClaim, ActReload, ActLease, ActCheckPrefix]
     @ (if account_read plan then [ActReadAccount] else [])
     @ map (\<lambda>i. ActDeniedRead (of_nat i)) [0..<unat (denied_reads plan)]
     @ (if pre_entry plan then [ActPreEntryRead] else [])
     @ (if relative_ceiling plan then [ActCeilingRead] else [])
     @ (if pre_entry plan \<or> relative_ceiling plan then [ActRecordCheckpoint] else [])
     @ [ActReloadBeforeEntry, ActCheckDeadline, ActGrantEntry, ActSend]"

section \<open>Facts about steps\<close>

lemmas decision_defs = go_def stop_def halt_def not_entered_def after_reads_def ceiling_from_def
  pre_entry_from_def denied_from_def after_prefix_def after_admission_def pre_claim_def
lemmas step_defs = next_step_def pre_claim_step_def lease_step_def entry_step_def

lemma step_keeps_plan [simp]: "ss_plan (sd_state (next_step state event)) = ss_plan state"
proof -
  have claim: "ss_plan (sd_state (after_claim s r)) = ss_plan s" for s r
    by (cases r) (simp_all add: decision_defs)
  have account: "ss_plan (sd_state (after_account s r)) = ss_plan s" for s r
    by (cases r) (simp_all add: decision_defs)
  have denied: "ss_plan (sd_state (after_denied s i r)) = ss_plan s" for s i r
    by (cases r) (simp_all add: decision_defs)
  have pre: "ss_plan (sd_state (after_pre_entry s r)) = ss_plan s" for s r
    by (cases r) (simp_all add: decision_defs)
  have ceiling: "ss_plan (sd_state (after_ceiling s r)) = ss_plan s" for s r
    by (cases r) (simp_all add: decision_defs)
  have response: "ss_plan (sd_state (after_response s r)) = ss_plan s" for s r
    by (cases r) (simp_all add: decision_defs)
  have wrt: "ss_plan (sd_state (after_write s r)) = ss_plan s" for s r
    by (cases r) (simp_all add: decision_defs)
  show ?thesis
    by (cases "ss_phase state"; cases event)
      (simp_all add: step_defs claim account denied pre ceiling response wrt decision_defs
        split: verification.split)
qed

section \<open>The machine stops\<close>

fun phase_rank :: "u8 \<Rightarrow> phase \<Rightarrow> nat" where
  "phase_rank n PhaseDone = 0"
| "phase_rank n PhaseRecordResponse = 1"
| "phase_rank n PhaseRecordUnknown = 1"
| "phase_rank n PhaseRecordNotEntered = 1"
| "phase_rank n PhaseSend = 2"
| "phase_rank n PhaseGrant = 3"
| "phase_rank n PhaseDeadline = 4"
| "phase_rank n PhaseEntryReload = 5"
| "phase_rank n PhaseCheckpoint = 6"
| "phase_rank n PhaseCeiling = 7"
| "phase_rank n PhasePreEntry = 8"
| "phase_rank n (PhaseDenied i) = 9 + (unat n - unat i)"
| "phase_rank n PhaseAccount = 10 + unat n"
| "phase_rank n PhasePrefix = 11 + unat n"
| "phase_rank n PhaseLease = 12 + unat n"
| "phase_rank n PhaseReload = 13 + unat n"
| "phase_rank n PhaseClaim = 14 + unat n"
| "phase_rank n PhasePrepare = 15 + unat n"
| "phase_rank n PhaseScope = 16 + unat n"
| "phase_rank n PhaseAdmit = 17 + unat n"
| "phase_rank n PhaseVerify = 18 + unat n"
| "phase_rank n PhaseClock = 19 + unat n"
| "phase_rank n PhaseStart = 20 + unat n"

definition submit_rank :: "submit_state \<Rightarrow> nat" where
  "submit_rank state = phase_rank (denied_reads (ss_plan state)) (ss_phase state)"

lemma unat_u8_succ:
  assumes "(i :: u8) < n"
  shows "unat (i + 1) = unat i + 1"
proof -
  have "unat i < unat n" and "unat n < 256"
    using assms unsigned_less [of n] by (simp_all add: word_less_nat_alt)
  then have "Suc (unat i) < 256" by linarith
  then show ?thesis by (simp add: unat_word_ariths)
qed

lemma rank_pre_entry_from: "submit_rank (sd_state (pre_entry_from s)) \<le> 8"
  by (simp add: decision_defs submit_rank_def)

lemma rank_denied_from:
  "submit_rank (sd_state (denied_from s i)) \<le> 9 + (unat (denied_reads (ss_plan s)) - unat i)"
  using rank_pre_entry_from [of s] by (auto simp: denied_from_def go_def submit_rank_def)

lemma rank_after_denied: "submit_rank (sd_state (after_denied s i r)) < submit_rank s"
  if "ss_phase s = PhaseDenied i"
proof (cases r)
  case DeniedRefused
  show ?thesis
  proof (cases "i < denied_reads (ss_plan s)")
    case True
    then have "unat (i + 1) = unat i + 1" and "unat i < unat (denied_reads (ss_plan s))"
      by (simp_all add: unat_u8_succ word_less_nat_alt)
    with rank_denied_from [of s "i + 1"] True DeniedRefused that show ?thesis
      by (simp add: submit_rank_def)
  qed (use DeniedRefused that in \<open>simp add: decision_defs submit_rank_def\<close>)
qed (use that in \<open>simp_all add: decision_defs submit_rank_def\<close>)

lemma rank_after_account: "submit_rank (sd_state (after_account s r)) < submit_rank s"
  if "ss_phase s = PhaseAccount"
  using that rank_denied_from [of s 0]
  by (cases r) (simp_all add: submit_rank_def not_entered_def go_def)

lemma rank_after_prefix: "submit_rank (sd_state (after_prefix s)) < submit_rank s"
  if "ss_phase s = PhasePrefix"
  using that rank_denied_from [of s 0] by (simp add: after_prefix_def submit_rank_def go_def)

lemma rank_after_pre_entry: "submit_rank (sd_state (after_pre_entry s r)) < submit_rank s"
  if "ss_phase s = PhasePreEntry"
  using that by (cases r) (simp_all add: decision_defs submit_rank_def)

lemma rank_after_ceiling: "submit_rank (sd_state (after_ceiling s r)) < submit_rank s"
  if "ss_phase s = PhaseCeiling"
  using that by (cases r) (simp_all add: decision_defs submit_rank_def)

lemma rank_after_claim: "submit_rank (sd_state (after_claim s r)) < submit_rank s"
  if "ss_phase s = PhaseClaim"
  using that by (cases r) (simp_all add: decision_defs submit_rank_def)

lemma rank_after_write: "submit_rank (sd_state (after_write s r)) < submit_rank s"
  if "ss_phase s = PhaseSend"
  using that by (cases r) (simp_all add: decision_defs submit_rank_def)

lemma rank_after_response: "submit_rank (sd_state (after_response s r)) < submit_rank s"
  if "ss_phase s = PhaseRecordResponse"
  using that by (cases r) (simp_all add: decision_defs submit_rank_def)

lemmas after_ranks = rank_after_denied rank_after_account rank_after_prefix rank_after_pre_entry
  rank_after_ceiling rank_after_claim rank_after_write rank_after_response

lemma step_rank:
  assumes "ss_phase s \<noteq> PhaseDone"
  shows "submit_rank (sd_state (next_step s e)) < submit_rank s"
proof -
  have halted: "submit_rank (sd_state (halt s)) < submit_rank s"
    using assms by (cases "ss_phase s") (simp_all add: halt_def stop_def go_def submit_rank_def)
  have moved: "submit_rank (sd_state (go s p a)) < submit_rank s"
    if "phase_rank (denied_reads (ss_plan s)) p
      < phase_rank (denied_reads (ss_plan s)) (ss_phase s)" for p a
    using that by (simp add: go_def submit_rank_def)
  have verified: "submit_rank \<lparr> ss_plan = ss_plan s, ss_phase = PhaseAdmit, ss_argument = x \<rparr>
      < submit_rank s" if "ss_phase s = PhaseVerify" for x
    using that by (simp add: submit_rank_def)
  show ?thesis
    using assms
    by (cases "ss_phase s")
      (simp_all add: step_defs halted moved verified after_ranks stop_def not_entered_def
         pre_claim_def after_admission_def split: submit_event.split verification.split)
qed

lemma step_done: "ss_phase s = PhaseDone \<Longrightarrow> next_step s e = stop s StopHalted"
  by (simp add: next_step_def halt_def)

section \<open>Where the write is sent\<close>

definition sends :: "submit_state \<Rightarrow> submit_event list \<Rightarrow> bool" where
  "sends s es \<longleftrightarrow> ActSend \<in> set (drive s es)"

lemma sends_simps [simp]:
  "\<not> sends s []"
  "sends s (e # es) \<longleftrightarrow>
     sd_action (next_step s e) = ActSend \<or> sends (sd_state (next_step s e)) es"
  by (auto simp: sends_def Let_def)

lemma go_simps [simp]:
  "sd_action (go s p a) = a" "ss_phase (sd_state (go s p a)) = p"
  "ss_plan (sd_state (go s p a)) = ss_plan s" "ss_argument (sd_state (go s p a)) = ss_argument s"
  by (simp_all add: go_def)

lemma late_rank: "submit_rank s \<le> 2 \<Longrightarrow>
    ss_phase s \<in> {PhaseDone, PhaseRecordResponse, PhaseRecordUnknown, PhaseRecordNotEntered, PhaseSend}"
  by (cases "ss_phase s") (simp_all add: submit_rank_def)

lemma late_step:
  assumes "submit_rank s \<le> 2"
  shows "sd_action (next_step s e) \<noteq> ActSend \<and> submit_rank (sd_state (next_step s e)) \<le> 2"
proof
  have "sd_action (after_write s r) \<noteq> ActSend" for r by (cases r) simp_all
  moreover have "sd_action (after_response s r) \<noteq> ActSend" for r
    by (cases r) (simp_all add: stop_def)
  ultimately show "sd_action (next_step s e) \<noteq> ActSend"
    using late_rank [OF assms]
    by (elim insertE; simp add: step_defs halt_def stop_def split: submit_event.split)
  show "submit_rank (sd_state (next_step s e)) \<le> 2"
  proof (cases "ss_phase s = PhaseDone")
    case True
    then show ?thesis by (simp add: step_done stop_def submit_rank_def)
  next
    case False
    then show ?thesis using step_rank [of s e] assms by linarith
  qed
qed

lemma no_send_late: "submit_rank s \<le> 2 \<Longrightarrow> \<not> sends s es"
  by (induction es arbitrary: s) (simp_all add: late_step)

lemma no_send_after_refusal [simp]:
  "\<not> sends (sd_state (halt s)) es" "\<not> sends (sd_state (stop s r)) es"
  "\<not> sends (sd_state (not_entered s f)) es"
  by (simp_all add: no_send_late submit_rank_def halt_def stop_def not_entered_def)

lemma refusal_actions [simp]:
  "sd_action (halt s) \<noteq> ActSend" "sd_action (stop s r) \<noteq> ActSend"
  "sd_action (not_entered s f) \<noteq> ActSend"
  by (simp_all add: halt_def stop_def not_entered_def)

text \<open>One lemma per phase, from the write back to the start: what must still be received.\<close>

lemma sends_grant:
  "ss_phase s = PhaseGrant \<Longrightarrow> sends s es \<longleftrightarrow> prefix [EventGranted True] es"
  by (cases es) (auto simp: step_defs no_send_late submit_rank_def split: submit_event.splits if_splits)

lemma sends_deadline:
  "ss_phase s = PhaseDeadline \<Longrightarrow> sends s es \<longleftrightarrow> prefix [EventDeadline True, EventGranted True] es"
  by (cases es) (auto simp: step_defs sends_grant split: submit_event.splits if_splits)

lemma sends_entry_reload:
  "ss_phase s = PhaseEntryReload \<Longrightarrow> sends s es \<longleftrightarrow> prefix entry_events es"
  by (cases es)
    (auto simp: step_defs sends_deadline entry_events_def split: submit_event.splits if_splits)

lemma sends_checkpoint:
  "ss_phase s = PhaseCheckpoint \<Longrightarrow> sends s es \<longleftrightarrow> prefix (EventRecorded True # entry_events) es"
  by (cases es) (auto simp: step_defs sends_entry_reload split: submit_event.splits if_splits)

lemma after_reads_action [simp]: "sd_action (after_reads s) \<noteq> ActSend"
  by (simp add: after_reads_def)

lemma sends_after_reads:
  "sends (sd_state (after_reads s)) es \<longleftrightarrow>
     prefix ((if pre_entry (ss_plan s) \<or> relative_ceiling (ss_plan s) then [EventRecorded True] else [])
       @ entry_events) es"
  by (simp add: after_reads_def sends_checkpoint sends_entry_reload)

text \<open>
  From a state with a verified argument: some basis within the ceiling was read, after the
  results \<open>before\<close>.
\<close>

definition reads_admit :: "submit_state \<Rightarrow> submit_event list \<Rightarrow> submit_event list \<Rightarrow> bool" where
  "reads_admit s before es \<longleftrightarrow>
     (\<exists>basis. (relative_ceiling (ss_plan s) \<longrightarrow>
                relative_ceiling_admits (ss_argument s) basis (basis_points (ss_plan s)))
              \<and> prefix (before @ read_events (ss_plan s) basis) es)"

lemma reads_admit_go [simp]:
  "reads_admit (sd_state (go s p a)) before es \<longleftrightarrow> reads_admit s before es"
  by (simp add: reads_admit_def)

lemma reads_admit_Cons:
  "reads_admit s (e # before) es \<longleftrightarrow> (\<exists>rest. es = e # rest \<and> reads_admit s before rest)"
  by (cases es) (auto simp: reads_admit_def)

lemma sends_ceiling_read:
  assumes "ss_phase s = PhaseCeiling" and "relative_ceiling (ss_plan s)"
  shows "sends s es \<longleftrightarrow> reads_admit s [] es"
proof (cases es)
  case (Cons e rest)
  show ?thesis
  proof (cases "\<exists>basis. e = EventCeiling (CeilingReadBasis basis True)")
    case True
    then obtain basis where "e = EventCeiling (CeilingReadBasis basis True)" ..
    with Cons assms show ?thesis
      by (auto simp: step_defs reads_admit_def read_events_def sends_after_reads)
  next
    case False
    have "\<not> sends (sd_state (after_ceiling s r)) rest \<and> sd_action (after_ceiling s r) \<noteq> ActSend"
      if "\<nexists>basis. r = CeilingReadBasis basis True" for r
      using that by (cases r) auto
    with False Cons assms show ?thesis
      by (auto simp: step_defs reads_admit_def read_events_def split: submit_event.splits)
  qed
qed (use assms in \<open>simp add: reads_admit_def read_events_def\<close>)

lemma sends_ceiling_from: "sends (sd_state (ceiling_from s)) es \<longleftrightarrow> reads_admit s [] es"
proof (cases "relative_ceiling (ss_plan s)")
  case True
  then show ?thesis by (simp add: ceiling_from_def sends_ceiling_read)
next
  case False
  then show ?thesis
    by (simp add: ceiling_from_def sends_after_reads reads_admit_def read_events_def)
qed

lemma ceiling_from_action [simp]: "sd_action (ceiling_from s) \<noteq> ActSend"
  by (simp add: ceiling_from_def)

definition pre_entry_events :: "submit_plan \<Rightarrow> submit_event list" where
  "pre_entry_events plan = (if pre_entry plan then [EventPreEntry PreEntrySatisfied] else [])"

definition denied_events :: "submit_plan \<Rightarrow> u8 \<Rightarrow> submit_event list" where
  "denied_events plan i =
     replicate (unat (denied_reads plan) - unat i) (EventDenied DeniedRefused)
     @ pre_entry_events plan"

definition account_events :: "submit_plan \<Rightarrow> submit_event list" where
  "account_events plan =
     (if account_read plan then [EventAccount AccountEqual] else []) @ denied_events plan 0"

lemma sends_pre_entry:
  assumes "ss_phase s = PhasePreEntry"
  shows "sends s es \<longleftrightarrow> reads_admit s [EventPreEntry PreEntrySatisfied] es"
proof (cases es)
  case (Cons e rest)
  have "sends (sd_state (after_pre_entry s r)) rest \<longleftrightarrow> r = PreEntrySatisfied \<and> reads_admit s [] rest"
    and "sd_action (after_pre_entry s r) \<noteq> ActSend" for r
    by (cases r; simp add: sends_ceiling_from)+
  with Cons assms show ?thesis
    by (auto simp: step_defs reads_admit_Cons split: submit_event.splits)
qed (simp add: reads_admit_Cons)

lemma sends_pre_entry_from:
  "sends (sd_state (pre_entry_from s)) es \<longleftrightarrow> reads_admit s (pre_entry_events (ss_plan s)) es"
  by (simp add: pre_entry_from_def pre_entry_events_def sends_pre_entry sends_ceiling_from)

lemma pre_entry_from_action [simp]: "sd_action (pre_entry_from s) \<noteq> ActSend"
  by (simp add: pre_entry_from_def)

lemma denied_from_action [simp]: "sd_action (denied_from s i) \<noteq> ActSend"
  by (simp add: denied_from_def)

lemma denied_events_step:
  assumes "i < denied_reads plan"
  shows "denied_events plan i = EventDenied DeniedRefused # denied_events plan (i + 1)"
proof -
  have "unat (denied_reads plan) - unat i = Suc (unat (denied_reads plan) - unat (i + 1))"
    using assms unat_u8_succ [OF assms] by (simp add: word_less_nat_alt)
  then show ?thesis by (simp add: denied_events_def)
qed

lemma sends_denied_from:
  "sends (sd_state (denied_from s i)) es \<longleftrightarrow> reads_admit s (denied_events (ss_plan s) i) es"
proof (induction "unat (denied_reads (ss_plan s)) - unat i" arbitrary: s i es)
  case 0
  then have "\<not> i < denied_reads (ss_plan s)" by (simp add: word_less_nat_alt)
  with "0" show ?case by (simp add: denied_from_def sends_pre_entry_from denied_events_def)
next
  case (Suc k)
  then have lt: "i < denied_reads (ss_plan s)" by (simp add: word_less_nat_alt)
  let ?s = "sd_state (go s (PhaseDenied i) (ActDeniedRead i))"
  have step: "sends (sd_state (after_denied ?s i r)) rest \<longleftrightarrow>
        r = DeniedRefused \<and> reads_admit s (denied_events (ss_plan s) (i + 1)) rest"
    and act: "sd_action (after_denied ?s i r) \<noteq> ActSend" for r rest
    using Suc.hyps(1) [of ?s "i + 1" rest] Suc.hyps(2) lt unat_u8_succ [OF lt]
    by (cases r; simp)+
  show ?case
    using lt by (cases es)
      (auto simp: denied_from_def step_defs step act denied_events_step reads_admit_Cons
        split: submit_event.splits)
qed

lemma sends_account:
  assumes "ss_phase s = PhaseAccount"
  shows "sends s es \<longleftrightarrow> reads_admit s (EventAccount AccountEqual # denied_events (ss_plan s) 0) es"
proof (cases es)
  case (Cons e rest)
  have "sends (sd_state (after_account s r)) rest \<longleftrightarrow>
          r = AccountEqual \<and> reads_admit s (denied_events (ss_plan s) 0) rest"
    and "sd_action (after_account s r) \<noteq> ActSend" for r
    by (cases r; simp add: sends_denied_from)+
  with Cons assms show ?thesis
    by (auto simp: step_defs reads_admit_Cons split: submit_event.splits)
qed (simp add: reads_admit_Cons)

lemma sends_after_prefix:
  "sends (sd_state (after_prefix s)) es \<longleftrightarrow> reads_admit s (account_events (ss_plan s)) es"
  by (simp add: after_prefix_def account_events_def sends_account sends_denied_from)

lemma after_prefix_action [simp]: "sd_action (after_prefix s) \<noteq> ActSend"
  by (simp add: after_prefix_def)

lemma sends_prefix:
  "ss_phase s = PhasePrefix \<Longrightarrow>
     sends s es \<longleftrightarrow> reads_admit s (EventPrefix True # account_events (ss_plan s)) es"
  by (cases es)
    (auto simp: step_defs sends_after_prefix reads_admit_Cons split: submit_event.splits if_splits)

lemma sends_lease:
  "ss_phase s = PhaseLease \<Longrightarrow>
     sends s es \<longleftrightarrow>
       reads_admit s (EventLease True # EventPrefix True # account_events (ss_plan s)) es"
  by (cases es)
    (auto simp: step_defs sends_prefix reads_admit_Cons split: submit_event.splits if_splits)

text \<open>The same from a state before the lease, after the results \<open>before\<close>.\<close>

definition lease_admits :: "submit_state \<Rightarrow> submit_event list \<Rightarrow> submit_event list \<Rightarrow> bool" where
  "lease_admits s before es \<longleftrightarrow>
     (\<exists>basis. (relative_ceiling (ss_plan s) \<longrightarrow>
                relative_ceiling_admits (ss_argument s) basis (basis_points (ss_plan s)))
              \<and> prefix (before @ lease_events (ss_plan s) basis) es)"

lemma lease_admits_go [simp]:
  "lease_admits (sd_state (go s p a)) before es \<longleftrightarrow> lease_admits s before es"
  by (simp add: lease_admits_def)

lemma lease_admits_Cons:
  "lease_admits s (e # before) es \<longleftrightarrow> (\<exists>rest. es = e # rest \<and> lease_admits s before rest)"
  by (cases es) (auto simp: lease_admits_def)

lemma sends_reload:
  assumes "ss_phase s = PhaseReload"
  shows "sends s es \<longleftrightarrow> lease_admits s [] es"
proof -
  have "sends s es \<longleftrightarrow> reads_admit s
      (EventReload True # EventLease True # EventPrefix True # account_events (ss_plan s)) es"
    using assms by (cases es)
      (auto simp: step_defs sends_lease reads_admit_Cons split: submit_event.splits if_splits)
  then show ?thesis
    by (simp add: reads_admit_def lease_admits_def lease_events_def account_events_def
        denied_events_def pre_entry_events_def)
qed

lemma sends_claim:
  assumes "ss_phase s = PhaseClaim"
  shows "sends s es \<longleftrightarrow> lease_admits s [EventClaim ClaimReserved] es"
proof (cases es)
  case (Cons e rest)
  have "sends (sd_state (after_claim s r)) rest \<longleftrightarrow> r = ClaimReserved \<and> lease_admits s [] rest"
    and "sd_action (after_claim s r) \<noteq> ActSend" for r
    by (cases r; simp add: sends_reload)+
  with Cons assms show ?thesis
    by (auto simp: step_defs lease_admits_Cons split: submit_event.splits)
qed (simp add: lease_admits_Cons)

lemma sends_prepare:
  "ss_phase s = PhasePrepare \<Longrightarrow>
     sends s es \<longleftrightarrow> lease_admits s [EventPreparation True, EventClaim ClaimReserved] es"
  by (cases es)
    (auto simp: step_defs pre_claim_def sends_claim lease_admits_Cons
      split: submit_event.splits if_splits)

lemma sends_scope:
  "ss_phase s = PhaseScope \<Longrightarrow>
     sends s es \<longleftrightarrow>
       lease_admits s [EventScope True, EventPreparation True, EventClaim ClaimReserved] es"
  by (cases es)
    (auto simp: step_defs pre_claim_def sends_prepare lease_admits_Cons
      split: submit_event.splits if_splits)

definition admission_events :: "submit_plan \<Rightarrow> submit_event list" where
  "admission_events plan =
     (if account_scope plan then [EventScope True] else [])
     @ [EventPreparation True, EventClaim ClaimReserved]"

lemma sends_after_admission:
  "sends (sd_state (after_admission s)) es \<longleftrightarrow> lease_admits s (admission_events (ss_plan s)) es"
  by (simp add: after_admission_def admission_events_def sends_scope sends_prepare)

lemma after_admission_action [simp]: "sd_action (after_admission s) \<noteq> ActSend"
  by (simp add: after_admission_def)

lemma sends_admit:
  "ss_phase s = PhaseAdmit \<Longrightarrow>
     sends s es \<longleftrightarrow> lease_admits s (EventAdmission True # admission_events (ss_plan s)) es"
  by (cases es)
    (auto simp: step_defs pre_claim_def sends_after_admission lease_admits_Cons
      split: submit_event.splits if_splits)

lemma sends_verify:
  assumes "ss_phase s = PhaseVerify"
  shows "sends s es \<longleftrightarrow>
    (\<exists>argument rest. es = EventVerification (VerificationAuthorized argument) # rest
       \<and> lease_admits (s\<lparr>ss_argument := argument\<rparr>)
            (EventAdmission True # admission_events (ss_plan s)) rest)"
proof (cases es)
  case (Cons e rest)
  have admit: "lease_admits \<lparr>ss_plan = ss_plan s, ss_phase = PhaseAdmit, ss_argument = x\<rparr> b r
      \<longleftrightarrow> lease_admits (s\<lparr>ss_argument := x\<rparr>) b r" for x b r
    by (simp add: lease_admits_def)
  from Cons assms show ?thesis
    by (auto simp: step_defs sends_admit admit split: submit_event.splits verification.splits)
qed simp

lemma sends_start:
  "sends (start plan) es \<longleftrightarrow>
     (\<exists>argument basis. (relative_ceiling plan \<longrightarrow>
          relative_ceiling_admits argument basis (basis_points plan))
        \<and> prefix (admitting_events plan argument basis) es)"
proof -
  have clock: "sends s es \<longleftrightarrow> (\<exists>rest. es = EventClock True # rest
      \<and> sends (sd_state (go s PhaseVerify ActVerify)) rest)" if "ss_phase s = PhaseClock" for s es
    using that by (cases es)
      (auto simp: step_defs pre_claim_def split: submit_event.splits if_splits)
  have "sends (start plan) es \<longleftrightarrow> (\<exists>rest argument. es = EventStart # EventClock True #
        EventVerification (VerificationAuthorized argument) # rest
      \<and> lease_admits ((start plan)\<lparr>ss_argument := argument\<rparr>)
          (EventAdmission True # admission_events plan) rest)"
    by (cases es) (auto simp: start_def step_defs clock sends_verify go_def lease_admits_def
        split: submit_event.splits)
  also have "\<dots> \<longleftrightarrow> (\<exists>argument basis. (relative_ceiling plan \<longrightarrow>
          relative_ceiling_admits argument basis (basis_points plan))
        \<and> prefix (admitting_events plan argument basis) es)"
    by (auto simp: lease_admits_def admission_events_def admitting_events_def start_def
        prefix_def)
  finally show ?thesis .
qed

section \<open>The order of the actions\<close>

lemma drive_append: "drive s (xs @ ys) = drive s xs @ drive (drive_state s xs) ys"
  by (induction xs arbitrary: s) (simp_all add: Let_def)

definition trace :: "submit_decision \<Rightarrow> submit_event list \<Rightarrow> submit_action list" where
  "trace d es = sd_action d # drive (sd_state d) es"

lemma drive_Cons_trace: "drive s (e # es) = trace (next_step s e) es"
  by (simp add: trace_def Let_def)

lemma go_go: "go (sd_state (go s p a)) q b = go s q b"
  by (simp add: go_def)

lemma trace_go_Cons: "trace (go s p a) (e # es) = a # trace (next_step (sd_state (go s p a)) e) es"
  by (simp add: trace_def Let_def)

lemma trace_send: "trace (go s PhaseSend ActSend) [] = [ActSend]"
  by (simp add: trace_def)

lemmas trace_simps = trace_go_Cons trace_send step_defs go_go

definition entry_actions :: "submit_action list" where
  "entry_actions = [ActReloadBeforeEntry, ActCheckDeadline, ActGrantEntry, ActSend]"

lemma trace_after_reads:
  "trace (after_reads s)
     ((if pre_entry (ss_plan s) \<or> relative_ceiling (ss_plan s) then [EventRecorded True] else [])
       @ entry_events)
   = (if pre_entry (ss_plan s) \<or> relative_ceiling (ss_plan s) then [ActRecordCheckpoint] else [])
       @ entry_actions"
  by (simp add: after_reads_def entry_events_def entry_actions_def trace_simps)

definition read_actions :: "submit_plan \<Rightarrow> submit_action list" where
  "read_actions plan =
     (if relative_ceiling plan then [ActCeilingRead] else [])
     @ (if pre_entry plan \<or> relative_ceiling plan then [ActRecordCheckpoint] else [])
     @ entry_actions"

lemma trace_ceiling_from:
  assumes "relative_ceiling (ss_plan s) \<longrightarrow>
    relative_ceiling_admits (ss_argument s) basis (basis_points (ss_plan s))"
  shows "trace (ceiling_from s) (read_events (ss_plan s) basis) = read_actions (ss_plan s)"
  using assms trace_after_reads [of s]
    trace_after_reads [of "sd_state (go s PhaseCeiling ActCeilingRead)"]
  by (auto simp: ceiling_from_def read_events_def read_actions_def trace_simps)

lemma trace_pre_entry_from:
  assumes "relative_ceiling (ss_plan s) \<longrightarrow>
    relative_ceiling_admits (ss_argument s) basis (basis_points (ss_plan s))"
  shows "trace (pre_entry_from s) (pre_entry_events (ss_plan s) @ read_events (ss_plan s) basis)
    = (if pre_entry (ss_plan s) then [ActPreEntryRead] else []) @ read_actions (ss_plan s)"
  using assms trace_ceiling_from [of s]
    trace_ceiling_from [of "sd_state (go s PhasePreEntry ActPreEntryRead)"]
  by (simp add: pre_entry_from_def pre_entry_events_def trace_simps)

lemma trace_denied_from:
  assumes "relative_ceiling (ss_plan s) \<longrightarrow>
    relative_ceiling_admits (ss_argument s) basis (basis_points (ss_plan s))"
  shows "trace (denied_from s i) (denied_events (ss_plan s) i @ read_events (ss_plan s) basis)
    = map (\<lambda>k. ActDeniedRead (of_nat k)) [unat i..<unat (denied_reads (ss_plan s))]
      @ (if pre_entry (ss_plan s) then [ActPreEntryRead] else []) @ read_actions (ss_plan s)"
  using assms
proof (induction "unat (denied_reads (ss_plan s)) - unat i" arbitrary: s i)
  case 0
  then have "\<not> i < denied_reads (ss_plan s)" by (simp add: word_less_nat_alt)
  with 0 trace_pre_entry_from [OF "0.prems"] show ?case
    by (simp add: denied_from_def denied_events_def)
next
  case (Suc k)
  then have lt: "i < denied_reads (ss_plan s)" by (simp add: word_less_nat_alt)
  let ?s = "sd_state (go s (PhaseDenied i) (ActDeniedRead i))"
  have "[unat i..<unat (denied_reads (ss_plan s))]
      = unat i # [unat (i + 1)..<unat (denied_reads (ss_plan s))]"
    using lt unat_u8_succ [OF lt] by (simp add: upt_conv_Cons word_less_nat_alt)
  with Suc.hyps(1) [of ?s "i + 1"] Suc.hyps(2) Suc.prems lt unat_u8_succ [OF lt] show ?case
    by (simp add: denied_events_step denied_from_def [of s] trace_simps)
qed

lemma trace_after_prefix:
  assumes "relative_ceiling (ss_plan s) \<longrightarrow>
    relative_ceiling_admits (ss_argument s) basis (basis_points (ss_plan s))"
  shows "trace (after_prefix s) (account_events (ss_plan s) @ read_events (ss_plan s) basis)
    = (if account_read (ss_plan s) then [ActReadAccount] else [])
      @ map (\<lambda>k. ActDeniedRead (of_nat k)) [0..<unat (denied_reads (ss_plan s))]
      @ (if pre_entry (ss_plan s) then [ActPreEntryRead] else []) @ read_actions (ss_plan s)"
  using assms trace_denied_from [of s basis 0]
    trace_denied_from [of "sd_state (go s PhaseAccount ActReadAccount)" basis 0]
  by (simp add: after_prefix_def account_events_def trace_simps)

lemma lease_events_account:
  "lease_events plan basis =
     EventReload True # EventLease True # EventPrefix True # account_events plan @ read_events plan basis"
  by (simp add: lease_events_def account_events_def denied_events_def pre_entry_events_def)

definition lease_actions :: "submit_plan \<Rightarrow> submit_action list" where
  "lease_actions plan =
     [ActPrepare, ActClaim, ActReload, ActLease, ActCheckPrefix]
     @ (if account_read plan then [ActReadAccount] else [])
     @ map (\<lambda>i. ActDeniedRead (of_nat i)) [0..<unat (denied_reads plan)]
     @ (if pre_entry plan then [ActPreEntryRead] else []) @ read_actions plan"

lemma trace_prepare:
  assumes "relative_ceiling (ss_plan s) \<longrightarrow>
    relative_ceiling_admits (ss_argument s) basis (basis_points (ss_plan s))"
  shows "trace (go s PhasePrepare ActPrepare)
      (EventPreparation True # EventClaim ClaimReserved # lease_events (ss_plan s) basis)
    = lease_actions (ss_plan s)"
  using trace_after_prefix [of "sd_state (go s PhasePrefix ActCheckPrefix)" basis] assms
  by (simp add: lease_events_account trace_simps pre_claim_def lease_actions_def)

lemma trace_after_admission:
  assumes "relative_ceiling (ss_plan s) \<longrightarrow>
    relative_ceiling_admits (ss_argument s) basis (basis_points (ss_plan s))"
  shows "trace (after_admission s)
      (admission_events (ss_plan s) @ lease_events (ss_plan s) basis)
    = (if account_scope (ss_plan s) then [ActBindScope] else []) @ lease_actions (ss_plan s)"
  using trace_prepare [of s basis] assms
  by (simp add: after_admission_def admission_events_def trace_go_Cons [of s PhaseScope]
      step_defs pre_claim_def go_go)

lemma drive_admitting:
  assumes "relative_ceiling plan \<longrightarrow> relative_ceiling_admits argument basis (basis_points plan)"
  shows "drive (start plan) (admitting_events plan argument basis) = admitting_actions plan"
proof -
  define s where "s = \<lparr> ss_plan = plan, ss_phase = PhaseAdmit, ss_argument = argument \<rparr>"
  have events: "admitting_events plan argument basis =
      [EventStart, EventClock True, EventVerification (VerificationAuthorized argument),
       EventAdmission True] @ admission_events plan @ lease_events plan basis"
    by (simp add: admitting_events_def admission_events_def)
  have actions: "admitting_actions plan = [ActReadClock, ActVerify, ActAdmit]
      @ (if account_scope plan then [ActBindScope] else []) @ lease_actions plan"
    by (simp add: admitting_actions_def lease_actions_def read_actions_def entry_actions_def)
  have "drive s (EventAdmission True # admission_events plan @ lease_events plan basis)
      = (if account_scope plan then [ActBindScope] else []) @ lease_actions plan"
    using trace_after_admission [of s basis] assms
    by (simp add: s_def trace_def Let_def step_defs pre_claim_def)
  then show ?thesis
    unfolding events actions s_def
    by (simp add: Let_def start_def step_defs pre_claim_def go_def)
qed

section \<open>Actions and phases\<close>

text \<open>The phase of a decision is the one that waits for its action.\<close>

fun awaits :: "phase \<Rightarrow> submit_action \<Rightarrow> bool" where
  "awaits PhaseStart action = False"
| "awaits PhaseClock action = (action = ActReadClock)"
| "awaits PhaseVerify action = (action = ActVerify)"
| "awaits PhaseAdmit action = (action = ActAdmit)"
| "awaits PhaseScope action = (action = ActBindScope)"
| "awaits PhasePrepare action = (action = ActPrepare)"
| "awaits PhaseClaim action = (action = ActClaim)"
| "awaits PhaseReload action = (action = ActReload)"
| "awaits PhaseLease action = (action = ActLease)"
| "awaits PhasePrefix action = (action = ActCheckPrefix)"
| "awaits PhaseAccount action = (action = ActReadAccount)"
| "awaits (PhaseDenied i) action = (action = ActDeniedRead i)"
| "awaits PhasePreEntry action = (action = ActPreEntryRead)"
| "awaits PhaseCeiling action = (action = ActCeilingRead)"
| "awaits PhaseCheckpoint action = (action = ActRecordCheckpoint)"
| "awaits PhaseEntryReload action = (action = ActReloadBeforeEntry)"
| "awaits PhaseDeadline action = (action = ActCheckDeadline)"
| "awaits PhaseGrant action = (action = ActGrantEntry)"
| "awaits PhaseSend action = (action = ActSend)"
| "awaits PhaseRecordResponse action = (action = ActRecordResponse)"
| "awaits PhaseRecordUnknown action = (action = ActRecordUnknown)"
| "awaits PhaseRecordNotEntered action = (\<exists>refusal. action = ActRecordNotEntered refusal)"
| "awaits PhaseDone action = (\<exists>reason. action = ActStop reason)"

definition fits :: "submit_decision \<Rightarrow> bool" where
  "fits d \<longleftrightarrow> awaits (ss_phase (sd_state d)) (sd_action d)
     \<and> (\<forall>i. ss_phase (sd_state d) = PhaseDenied i \<longrightarrow> i < denied_reads (ss_plan (sd_state d)))"

lemma fits_helpers [simp]:
  "fits (stop s r)" "fits (halt s)" "fits (not_entered s f)" "fits (after_reads s)"
  "fits (ceiling_from s)" "fits (pre_entry_from s)" "fits (denied_from s i)"
  "fits (after_prefix s)" "fits (after_admission s)"
  by (simp_all add: fits_def decision_defs)

lemma fits_go: "awaits p a \<Longrightarrow> (\<forall>i. p \<noteq> PhaseDenied i) \<Longrightarrow> fits (go s p a)"
  by (simp add: fits_def)

lemma fits_results [simp]:
  "fits (after_claim s c)" "fits (after_account s a)" "fits (after_denied s i d)"
  "fits (after_pre_entry s p)" "fits (after_ceiling s r)" "fits (after_write s w)"
  "fits (after_response s x)"
  by (cases c; simp add: fits_go; fail) (cases a; simp; fail | cases d; simp; fail
     | cases p; simp; fail | cases r; simp; fail | cases w; simp add: fits_go; fail
     | cases x; simp; fail)+

lemma next_step_fits: "fits (next_step s e)"
proof -
  have verified: "fits \<lparr> sd_state = \<lparr> ss_plan = q, ss_phase = PhaseAdmit, ss_argument = x \<rparr>,
      sd_action = ActAdmit \<rparr>" for q x
    by (simp add: fits_def)
  show ?thesis
    by (cases "ss_phase s")
      (simp_all add: step_defs fits_go pre_claim_def verified
        split: submit_event.split verification.split)
qed

lemma fits_Send: "fits d \<Longrightarrow> sd_action d = ActSend \<Longrightarrow> ss_phase (sd_state d) = PhaseSend"
  by (cases "ss_phase (sd_state d)") (simp_all add: fits_def)

lemma fits_Stop_iff:
  "fits d \<Longrightarrow> ss_phase (sd_state d) = PhaseDone \<longleftrightarrow> (\<exists>reason. sd_action d = ActStop reason)"
  by (cases "ss_phase (sd_state d)") (auto simp: fits_def)

lemma no_send_after_send: "sd_action (next_step s e) = ActSend \<Longrightarrow> \<not> sends (sd_state (next_step s e)) es"
  using fits_Send [OF next_step_fits] by (simp add: no_send_late submit_rank_def)

lemma sends_once:
  assumes "sends s xs"
  shows "\<not> sends (drive_state s xs) ys"
  using assms
proof (induction xs arbitrary: s)
  case (Cons e xs)
  show ?case
  proof (cases "sends (sd_state (next_step s e)) xs")
    case False
    with Cons.prems have "sd_action (next_step s e) = ActSend" by simp
    then have "\<not> sends (sd_state (next_step s e)) (xs @ ys)" by (rule no_send_after_send)
    then show ?thesis by (simp add: sends_def drive_append)
  qed (simp add: Cons.IH)
qed simp

section \<open>Properties\<close>

text \<open>
  C3: under any sequence of I/O results, a run of the machine sends
  the write exactly when the results begin with the admitting sequence of its plan: clock,
  verification, admission, scope, preparation, a reserved claim, an unchanged connection, the lease,
  the prefix guard, the account, every denied read refused, the pre-entry read, a basis within the
  relative ceiling, the checkpoint, an unchanged connection again, the deadline and the grant.
\<close>

theorem write_is_sent_only_in_order:
  "ActSend \<in> set (drive (start plan) es) \<longleftrightarrow>
     (\<exists>argument basis. (relative_ceiling plan \<longrightarrow>
          relative_ceiling_admits argument basis (basis_points plan))
        \<and> prefix (admitting_events plan argument basis) es)"
  using sends_start by (simp add: sends_def)

definition sample_plan :: submit_plan where
  "sample_plan = \<lparr> account_scope = True, account_read = True, denied_reads = 2, pre_entry = True,
     relative_ceiling = True, basis_points = 5000 \<rparr>"

theorem write_is_sent_only_in_order_witness:
  "ActSend \<in> set (drive (start sample_plan) (admitting_events sample_plan 50 100))
   \<and> relative_ceiling_admits 50 100 (basis_points sample_plan)"
proof -
  have "relative_ceiling_admits 50 100 (basis_points sample_plan)" by code_simp
  then show ?thesis
    using write_is_sent_only_in_order [of sample_plan "admitting_events sample_plan 50 100"] by blast
qed

text \<open>
  a run that sends the write has performed exactly the actions of
  its plan's admission order before it, each once and in that order, and names no second send
  whatever is returned afterwards.
\<close>

lemma send_follows_every_check:
  assumes "ActSend \<in> set (drive (start plan) es)"
  shows "\<exists>later. drive (start plan) es = admitting_actions plan @ later \<and> ActSend \<notin> set later"
proof -
  obtain argument basis rest
    where ceiling: "relative_ceiling plan \<longrightarrow> relative_ceiling_admits argument basis (basis_points plan)"
      and es: "es = admitting_events plan argument basis @ rest"
    using assms sends_start [of plan es] by (auto simp: sends_def prefix_def)
  have order: "drive (start plan) (admitting_events plan argument basis) = admitting_actions plan"
    using ceiling by (rule drive_admitting)
  then have "sends (start plan) (admitting_events plan argument basis)"
    by (simp add: sends_def admitting_actions_def)
  then have "\<not> sends (drive_state (start plan) (admitting_events plan argument basis)) rest"
    by (rule sends_once)
  with order es show ?thesis by (auto simp: drive_append sends_def)
qed

theorem send_follows_every_check_witness:
  "\<exists>later. drive (start sample_plan) (admitting_events sample_plan 50 100 @ [EventWrite WriteUnknown])
     = admitting_actions sample_plan @ later \<and> ActSend \<notin> set later"
  by (rule send_follows_every_check) code_simp

section \<open>The engine's loop\<close>

definition submit_moves :: "submit_state \<Rightarrow> submit_state \<Rightarrow> bool" where
  "submit_moves s t \<longleftrightarrow> ss_phase s \<noteq> PhaseDone \<and> (\<exists>e. t = sd_state (next_step s e))"

interpretation submission: forward_steps submit_moves "\<lambda>_. True" submit_rank
  by unfold_locales (auto simp: submit_moves_def step_rank)

lemma drive_loop_enough:
  assumes "fits d" and "submit_rank (sd_state d) < n"
  shows "drive_loop (n + k) perform w d = drive_loop n perform w d"
  using assms
proof (induction n arbitrary: w d)
  case (Suc n)
  show ?case
  proof (cases "\<exists>reason. sd_action d = ActStop reason")
    case False
    then have "ss_phase (sd_state d) \<noteq> PhaseDone" using fits_Stop_iff [OF Suc.prems(1)] by simp
    then have "submit_rank (sd_state (next_step (sd_state d) e)) < n" for e
      using step_rank [of "sd_state d" e] Suc.prems(2) by simp
    with Suc.IH [OF next_step_fits] False show ?thesis
      by (auto split: submit_action.split prod.split)
  qed auto
qed simp

lemma answered_step_not_halted:
  assumes "fits d" and "answers (sd_action d) e" and "\<nexists>reason. sd_action d = ActStop reason"
  shows "sd_action (next_step (sd_state d) e) \<noteq> ActStop StopHalted"
proof -
  have helpers: "sd_action (after_claim s c) \<noteq> ActStop StopHalted"
    "sd_action (after_account s a) \<noteq> ActStop StopHalted"
    "sd_action (after_pre_entry s p) \<noteq> ActStop StopHalted"
    "sd_action (after_ceiling s r) \<noteq> ActStop StopHalted"
    "sd_action (after_write s w) \<noteq> ActStop StopHalted"
    "sd_action (after_response s x) \<noteq> ActStop StopHalted" for s c a p r w x
    by (cases c; simp add: decision_defs; fail) (cases a; simp add: decision_defs; fail
      | cases p; simp add: decision_defs; fail | cases r; simp add: decision_defs; fail
      | cases w; simp add: decision_defs; fail | cases x; simp add: decision_defs; fail)+
  have denied: "sd_action (after_denied s i r) \<noteq> ActStop StopHalted"
    if "i < denied_reads (ss_plan s)" for s i r
    using that by (cases r) (simp_all add: decision_defs)
  show ?thesis
    using assms
    by (cases "ss_phase (sd_state d)")
      (auto simp: fits_def step_defs helpers denied pre_claim_def stop_def not_entered_def
        after_prefix_def after_admission_def denied_from_def pre_entry_from_def ceiling_from_def
        after_reads_def
        split: submit_event.splits verification.split)
qed

lemma drive_loop_not_halted:
  assumes "fits d" and "sd_action d \<noteq> ActStop StopHalted" and "submit_rank (sd_state d) < n"
    and "\<And>w a. answers a (fst (perform w a))"
  shows "fst (drive_loop n perform w d) \<noteq> StopHalted"
  using assms(1-3)
proof (induction n arbitrary: w d)
  case (Suc n)
  show ?case
  proof (cases "\<exists>reason. sd_action d = ActStop reason")
    case False
    let ?e = "fst (perform w (sd_action d))"
    have "ss_phase (sd_state d) \<noteq> PhaseDone" using False fits_Stop_iff [OF Suc.prems(1)] by simp
    then have "submit_rank (sd_state (next_step (sd_state d) ?e)) < n"
      using step_rank [of "sd_state d" ?e] Suc.prems(3) by simp
    moreover have "sd_action (next_step (sd_state d) ?e) \<noteq> ActStop StopHalted"
      using answered_step_not_halted [OF Suc.prems(1) assms(4) False] .
    ultimately show ?thesis
      using Suc.IH [OF next_step_fits, of _ _ "snd (perform w (sd_action d))"] False
      by (cases "sd_action d") (auto simp: split_beta)
  qed (use Suc.prems in auto)
qed simp

text \<open>
  C20: with fewer than 44 denied reads (a recipe declares at most
  four), the engine's loop reaches the machine's own stop within \<open>MAX_STEPS\<close> for any I/O: more
  steps change neither the stop nor the world, and with I/O that answers every action with its own
  kind of event the run never halts.
\<close>

theorem submission_loop_reaches_its_stop:
  assumes "unat (denied_reads plan) < 44"
  shows "drive_loop (MAX_STEPS + k) perform w (next_step (start plan) EventStart)
      = run_submission perform w plan
    \<and> ((\<forall>w a. answers a (fst (perform w a))) \<longrightarrow> fst (run_submission perform w plan) \<noteq> StopHalted)"
proof -
  have "submit_rank (sd_state (next_step (start plan) EventStart)) < MAX_STEPS"
    using assms by (simp add: start_def step_defs submit_rank_def MAX_STEPS_def)
  moreover have "sd_action (next_step (start plan) EventStart) \<noteq> ActStop StopHalted"
    by (simp add: start_def step_defs)
  ultimately show ?thesis
    by (simp add: run_submission_def drive_loop_enough drive_loop_not_halted next_step_fits)
qed

text \<open>I/O on which every check passes, and the write's fate is unknown.\<close>

fun passing_io :: "nat \<Rightarrow> submit_action \<Rightarrow> submit_event \<times> nat" where
  "passing_io n action =
     ((case action of
         ActReadClock \<Rightarrow> EventClock True | ActVerify \<Rightarrow> EventVerification (VerificationAuthorized 50)
       | ActAdmit \<Rightarrow> EventAdmission True | ActBindScope \<Rightarrow> EventScope True
       | ActPrepare \<Rightarrow> EventPreparation True | ActClaim \<Rightarrow> EventClaim ClaimReserved
       | ActReload \<Rightarrow> EventReload True | ActReloadBeforeEntry \<Rightarrow> EventReload True
       | ActLease \<Rightarrow> EventLease True | ActCheckPrefix \<Rightarrow> EventPrefix True
       | ActReadAccount \<Rightarrow> EventAccount AccountEqual | ActDeniedRead _ \<Rightarrow> EventDenied DeniedRefused
       | ActPreEntryRead \<Rightarrow> EventPreEntry PreEntrySatisfied
       | ActCeilingRead \<Rightarrow> EventCeiling (CeilingReadBasis 100 True)
       | ActRecordCheckpoint \<Rightarrow> EventRecorded True | ActCheckDeadline \<Rightarrow> EventDeadline True
       | ActGrantEntry \<Rightarrow> EventGranted True | ActSend \<Rightarrow> EventWrite WriteUnknown
       | ActRecordResponse \<Rightarrow> EventResponse ResponseStored | ActRecordUnknown \<Rightarrow> EventRecorded True
       | ActRecordNotEntered _ \<Rightarrow> EventRecorded True | ActStop _ \<Rightarrow> EventStart),
      if action = ActSend then n + 1 else n)"

lemma passing_io_answers: "answers a (fst (passing_io w a))"
  by (cases a) simp_all

theorem submission_loop_reaches_its_stop_witness:
  "drive_loop (MAX_STEPS + 5) passing_io 0 (next_step (start sample_plan) EventStart)
     = run_submission passing_io 0 sample_plan
   \<and> fst (run_submission passing_io 0 sample_plan) \<noteq> StopHalted
   \<and> run_submission passing_io 0 sample_plan = (StopUnknown, 1)"
proof -
  have "unat (denied_reads sample_plan) < 44" by (simp add: sample_plan_def)
  from submission_loop_reaches_its_stop [OF this, of 5 passing_io 0]
  have "drive_loop (MAX_STEPS + 5) passing_io 0 (next_step (start sample_plan) EventStart)
     = run_submission passing_io 0 sample_plan"
    and "fst (run_submission passing_io 0 sample_plan) \<noteq> StopHalted"
    by (simp_all only: passing_io_answers simp_thms)
  moreover have "run_submission passing_io 0 sample_plan = (StopUnknown, 1)" by code_simp
  ultimately show ?thesis by blast
qed

end
