(* ===== verification/Gateway_Transition.thy ===== *)
theory Gateway_Transition
  imports Auths_Prelude
begin

text \<open>
  The closed stage-transition rule of the gateway attempt record,
  \<open>product/runtime/auths-gateway-kernel/src/transition.rs\<close>: the view of a stored record, the
  predicates on its stage, the consistency of its fields, and \<open>valid_transition\<close>, which decides
  whether one record may replace another.
\<close>

section \<open>The attempt record\<close>

datatype protocol = Mutation | Acquisition | Disclosure

datatype stage =
    Reserved | EntryGranted | NotEntered | Unknown | ResponseRecorded
  | Observed | ObservedByProvider | Acknowledged

text \<open>\<open>Reading::None\<close> and \<open>Link::None\<close> carry their type's name, to keep \<open>None\<close> free.\<close>

datatype reading = ReadingNone | Match | Mismatch | EchoMismatch

datatype link = LinkNone | Verified | AfterResponse

record attempt_view =
  av_protocol :: protocol
  av_revision :: u64
  av_fixed :: bytes
  av_entry :: bytes
  av_stage :: stage
  av_refusal :: bool
  av_pre_entry :: bytes
  av_response :: bytes
  av_acknowledgement :: bytes
  av_locator :: bytes
  av_reading :: reading
  av_evidence :: bool
  av_observation :: bool
  av_link :: link

section \<open>Predicates on bytes, links and stages\<close>

definition absent :: "bytes \<Rightarrow> bool" where
  "absent bs \<longleftrightarrow> length bs = 0"

fun same_bytes_from :: "bytes \<Rightarrow> bytes \<Rightarrow> bool" where
  "same_bytes_from (l # ls) (r # rs) = (if l \<noteq> r then False else same_bytes_from ls rs)"
| "same_bytes_from _ _ = True"

definition same_bytes :: "bytes \<Rightarrow> bytes \<Rightarrow> bool" where
  "same_bytes left right =
     (if length left = length right then same_bytes_from left right else False)"

fun resolves_unknown :: "link \<Rightarrow> bool" where
  "resolves_unknown Verified = True"
| "resolves_unknown LinkNone = False"
| "resolves_unknown AfterResponse = False"

fun has_link :: "link \<Rightarrow> bool" where
  "has_link LinkNone = False"
| "has_link Verified = True"
| "has_link AfterResponse = True"

fun refusal_stage :: "stage \<Rightarrow> bool" where
  "refusal_stage NotEntered = True"
| "refusal_stage _ = False"

fun requires_response :: "stage \<Rightarrow> bool" where
  "requires_response ResponseRecorded = True"
| "requires_response Observed = True"
| "requires_response _ = False"

fun permits_response :: "stage \<Rightarrow> bool" where
  "permits_response ResponseRecorded = True"
| "permits_response Observed = True"
| "permits_response ObservedByProvider = True"
| "permits_response _ = False"

fun observed_stage :: "stage \<Rightarrow> bool" where
  "observed_stage Observed = True"
| "observed_stage _ = False"

fun provider_stage :: "stage \<Rightarrow> bool" where
  "provider_stage ObservedByProvider = True"
| "provider_stage _ = False"


fun has_reading :: "reading \<Rightarrow> bool" where
  "has_reading ReadingNone = False"
| "has_reading _ = True"

fun acknowledgement_stage :: "stage \<Rightarrow> bool" where
  "acknowledgement_stage Acknowledged = True"
| "acknowledgement_stage _ = False"

fun requires_entry :: "stage \<Rightarrow> bool" where
  "requires_entry Reserved = False"
| "requires_entry NotEntered = False"
| "requires_entry _ = True"

section \<open>Consistency of one record\<close>

definition protocol_consistent :: "attempt_view \<Rightarrow> bool" where
  "protocol_consistent view \<longleftrightarrow>
     (case av_protocol view of
        Mutation \<Rightarrow>
          \<not> acknowledgement_stage (av_stage view) \<and> absent (av_acknowledgement view)
      | Acquisition \<Rightarrow>
          av_stage view \<in> {Reserved, EntryGranted, NotEntered, Unknown, ResponseRecorded}
          \<and> absent (av_acknowledgement view)
          \<and> absent (av_pre_entry view)
          \<and> absent (av_locator view)
          \<and> \<not> av_observation view
          \<and> \<not> av_evidence view
          \<and> av_reading view = ReadingNone
          \<and> av_link view = LinkNone
      | Disclosure \<Rightarrow>
          av_stage view \<in> {Reserved, EntryGranted, NotEntered, Unknown, Acknowledged}
          \<and> absent (av_response view)
          \<and> absent (av_pre_entry view)
          \<and> absent (av_locator view)
          \<and> \<not> av_observation view
          \<and> \<not> av_evidence view
          \<and> av_reading view = ReadingNone
          \<and> av_link view = LinkNone)"

definition max_revision :: u64 where
  "max_revision = 9007199254740991"

definition consistent :: "attempt_view \<Rightarrow> bool" where
  "consistent view \<longleftrightarrow>
     (let has_response = \<not> absent (av_response view)
      in protocol_consistent view
         \<and> 0 < av_revision view
         \<and> av_revision view \<le> max_revision
         \<and> requires_entry (av_stage view) \<noteq> absent (av_entry view)
         \<and> acknowledgement_stage (av_stage view) \<noteq> absent (av_acknowledgement view)
         \<and> refusal_stage (av_stage view) = av_refusal view
         \<and> (\<not> requires_response (av_stage view) \<or> has_response)
         \<and> (\<not> has_response \<or> permits_response (av_stage view))
         \<and> (absent (av_locator view) \<or> has_response)
         \<and> observed_stage (av_stage view) = has_reading (av_reading view)
         \<and> (\<not> has_reading (av_reading view) \<or> av_observation view)
         \<and> provider_stage (av_stage view) = av_evidence view
         \<and> (\<not> av_evidence view \<or> has_link (av_link view))
         \<and> (\<not> av_evidence view \<or> has_response \<or> resolves_unknown (av_link view)))"

section \<open>Transitions\<close>

definition same_protocol :: "protocol \<Rightarrow> protocol \<Rightarrow> bool" where
  "same_protocol left right =
     (case (left, right) of
        (Mutation, Mutation) \<Rightarrow> True
      | (Acquisition, Acquisition) \<Rightarrow> True
      | (Disclosure, Disclosure) \<Rightarrow> True
      | _ \<Rightarrow> False)"

fun stage_transition_allowed :: "stage \<Rightarrow> stage \<Rightarrow> link \<Rightarrow> bool" where
  "stage_transition_allowed Reserved to lnk = (to \<in> {Reserved, NotEntered, EntryGranted})"
| "stage_transition_allowed EntryGranted to lnk =
     (case to of
        Unknown \<Rightarrow> True
      | ResponseRecorded \<Rightarrow> True
      | Acknowledged \<Rightarrow> True
      | ObservedByProvider \<Rightarrow> resolves_unknown lnk
      | _ \<Rightarrow> False)"
| "stage_transition_allowed Unknown to lnk =
     (case to of
        ResponseRecorded \<Rightarrow> True
      | Acknowledged \<Rightarrow> True
      | ObservedByProvider \<Rightarrow> resolves_unknown lnk
      | _ \<Rightarrow> False)"
| "stage_transition_allowed ResponseRecorded to lnk = (to \<in> {Observed, ObservedByProvider})"
| "stage_transition_allowed _ to lnk = False"

definition adds_pre_entry :: "stage \<Rightarrow> stage \<Rightarrow> bool" where
  "adds_pre_entry from to \<longleftrightarrow> from = Reserved \<and> to \<in> {Reserved, NotEntered}"

definition adds_response :: "stage \<Rightarrow> stage \<Rightarrow> bool" where
  "adds_response from to \<longleftrightarrow> from \<in> {EntryGranted, Unknown} \<and> to = ResponseRecorded"

definition checkpoint_valid :: "attempt_view \<Rightarrow> attempt_view \<Rightarrow> bool" where
  "checkpoint_valid old new =
     (if av_stage old = Reserved \<and> av_stage new = Reserved
      then absent (av_pre_entry old) \<and> \<not> absent (av_pre_entry new)
      else True)"

definition entry_kept :: "attempt_view \<Rightarrow> attempt_view \<Rightarrow> bool" where
  "entry_kept old new =
     (if av_stage old = Reserved \<and> av_stage new = EntryGranted
      then absent (av_entry old) \<and> \<not> absent (av_entry new)
      else same_bytes (av_entry old) (av_entry new))"

definition pre_entry_kept :: "attempt_view \<Rightarrow> attempt_view \<Rightarrow> bool" where
  "pre_entry_kept old new =
     (if absent (av_pre_entry old)
      then absent (av_pre_entry new) \<or> adds_pre_entry (av_stage old) (av_stage new)
      else same_bytes (av_pre_entry old) (av_pre_entry new))"

definition response_kept :: "attempt_view \<Rightarrow> attempt_view \<Rightarrow> bool" where
  "response_kept old new \<longleftrightarrow>
     adds_response (av_stage old) (av_stage new)
     \<or> same_bytes (av_response old) (av_response new)
       \<and> same_bytes (av_locator old) (av_locator new)"

definition acknowledgement_kept :: "attempt_view \<Rightarrow> attempt_view \<Rightarrow> bool" where
  "acknowledgement_kept old new =
     (if av_stage old \<in> {EntryGranted, Unknown} \<and> acknowledgement_stage (av_stage new)
      then absent (av_acknowledgement old) \<and> \<not> absent (av_acknowledgement new)
      else same_bytes (av_acknowledgement old) (av_acknowledgement new))"

definition exact_acknowledgement_replay :: "attempt_view \<Rightarrow> bytes \<Rightarrow> bool" where
  "exact_acknowledgement_replay view acknowledgement \<longleftrightarrow>
     av_protocol view = Disclosure
     \<and> acknowledgement_stage (av_stage view)
     \<and> consistent view
     \<and> same_bytes (av_acknowledgement view) acknowledgement"

fun link_equal :: "link \<Rightarrow> link \<Rightarrow> bool" where
  "link_equal LinkNone right = (case right of LinkNone \<Rightarrow> True | _ \<Rightarrow> False)"
| "link_equal Verified right = (case right of Verified \<Rightarrow> True | _ \<Rightarrow> False)"
| "link_equal AfterResponse right = (case right of AfterResponse \<Rightarrow> True | _ \<Rightarrow> False)"

definition plan_kept :: "attempt_view \<Rightarrow> attempt_view \<Rightarrow> bool" where
  "plan_kept old new \<longleftrightarrow>
     av_observation old = av_observation new \<and> link_equal (av_link old) (av_link new)"

definition valid_transition :: "attempt_view \<Rightarrow> attempt_view \<Rightarrow> bool" where
  "valid_transition old new \<longleftrightarrow>
     same_protocol (av_protocol old) (av_protocol new)
     \<and> av_revision old < max_revision
     \<and> av_revision new = av_revision old + 1
     \<and> consistent old
     \<and> entry_kept old new
     \<and> same_bytes (av_fixed old) (av_fixed new)
     \<and> plan_kept old new
     \<and> stage_transition_allowed (av_stage old) (av_stage new) (av_link old)
     \<and> checkpoint_valid old new
     \<and> pre_entry_kept old new
     \<and> response_kept old new
     \<and> acknowledgement_kept old new
     \<and> consistent new"

section \<open>The record table\<close>

text \<open>
  The tables the crate's bounded model checker compares the rule with, row by row: the stage
  table, the fields each stage holds, and the transition relation they give.
\<close>

definition table :: "stage \<Rightarrow> stage \<Rightarrow> link \<Rightarrow> bool" where
  "table from to lnk \<longleftrightarrow>
     (from, to) \<in> {(EntryGranted, Unknown), (EntryGranted, ResponseRecorded),
        (EntryGranted, Acknowledged), (Reserved, Reserved), (Reserved, NotEntered),
        (Reserved, EntryGranted), (Unknown, ResponseRecorded), (Unknown, Acknowledged),
        (ResponseRecorded, Observed), (ResponseRecorded, ObservedByProvider)}
     \<or> (from, to) \<in> {(EntryGranted, ObservedByProvider), (Unknown, ObservedByProvider)}
       \<and> lnk = Verified"

definition fields_match_stage :: "attempt_view \<Rightarrow> bool" where
  "fields_match_stage view \<longleftrightarrow>
     (let response = av_response view \<noteq> [];
          reading = av_reading view \<noteq> ReadingNone;
          shape = (case av_stage view of
              NotEntered \<Rightarrow> av_refusal view \<and> \<not> response \<and> \<not> reading \<and> \<not> av_evidence view
            | Reserved \<Rightarrow> \<not> av_refusal view \<and> \<not> response \<and> \<not> reading \<and> \<not> av_evidence view
            | EntryGranted \<Rightarrow> \<not> av_refusal view \<and> \<not> response \<and> \<not> reading \<and> \<not> av_evidence view
            | Unknown \<Rightarrow> \<not> av_refusal view \<and> \<not> response \<and> \<not> reading \<and> \<not> av_evidence view
            | Acknowledged \<Rightarrow> \<not> av_refusal view \<and> \<not> response \<and> \<not> reading \<and> \<not> av_evidence view
            | ResponseRecorded \<Rightarrow>
                \<not> av_refusal view \<and> response \<and> \<not> reading \<and> \<not> av_evidence view
            | Observed \<Rightarrow>
                \<not> av_refusal view \<and> response \<and> reading \<and> av_observation view
                \<and> \<not> av_evidence view
            | ObservedByProvider \<Rightarrow>
                \<not> av_refusal view \<and> \<not> reading \<and> av_evidence view
                \<and> av_link view \<noteq> LinkNone \<and> (response \<or> av_link view = Verified));
          protocol = (case av_protocol view of
              Mutation \<Rightarrow> av_stage view \<noteq> Acknowledged \<and> av_acknowledgement view = []
            | Acquisition \<Rightarrow>
                av_stage view \<notin> {Observed, ObservedByProvider, Acknowledged}
                \<and> av_acknowledgement view = [] \<and> av_pre_entry view = [] \<and> av_locator view = []
                \<and> av_reading view = ReadingNone \<and> \<not> av_evidence view
                \<and> \<not> av_observation view \<and> av_link view = LinkNone
            | Disclosure \<Rightarrow>
                av_stage view \<in> {Reserved, EntryGranted, NotEntered, Unknown, Acknowledged}
                \<and> av_response view = [] \<and> av_pre_entry view = [] \<and> av_locator view = []
                \<and> av_reading view = ReadingNone \<and> \<not> av_evidence view
                \<and> \<not> av_observation view \<and> av_link view = LinkNone)
      in shape \<and> protocol
         \<and> (av_stage view = Acknowledged) = (av_acknowledgement view \<noteq> [])
         \<and> 0 < av_revision view
         \<and> av_revision view \<le> max_revision
         \<and> (av_locator view = [] \<or> response)
         \<and> (av_stage view \<in> {Reserved, NotEntered}) = (av_entry view = []))"

definition record_table :: "attempt_view \<Rightarrow> attempt_view \<Rightarrow> bool" where
  "record_table old new \<longleftrightarrow>
     (let pre_entry = (case (av_stage old, av_stage new) of
              (Reserved, Reserved) \<Rightarrow> av_pre_entry old = [] \<and> av_pre_entry new \<noteq> []
            | (Reserved, NotEntered) \<Rightarrow>
                av_pre_entry old = [] \<or> av_pre_entry old = av_pre_entry new
            | _ \<Rightarrow> av_pre_entry old = av_pre_entry new);
          response = ((av_stage old, av_stage new) \<in>
                {(EntryGranted, ResponseRecorded), (Unknown, ResponseRecorded)}
              \<or> av_response old = av_response new \<and> av_locator old = av_locator new);
          entry = (if av_stage old = Reserved \<and> av_stage new = EntryGranted
              then av_entry old = [] \<and> av_entry new \<noteq> []
              else av_entry old = av_entry new);
          acknowledgement = (if av_stage old \<in> {EntryGranted, Unknown}
                \<and> av_stage new = Acknowledged
              then av_acknowledgement old = [] \<and> av_acknowledgement new \<noteq> []
              else av_acknowledgement old = av_acknowledgement new)
      in av_revision old < max_revision
         \<and> av_revision new = av_revision old + 1
         \<and> av_fixed old = av_fixed new
         \<and> av_protocol old = av_protocol new
         \<and> entry
         \<and> fields_match_stage old
         \<and> av_observation old = av_observation new
         \<and> av_link old = av_link new
         \<and> table (av_stage old) (av_stage new) (av_link old)
         \<and> pre_entry
         \<and> response
         \<and> acknowledgement
         \<and> fields_match_stage new)"

section \<open>Facts about the rule\<close>

lemma absent_iff [simp]: "absent bs \<longleftrightarrow> bs = []"
  by (simp add: absent_def)

lemma same_bytes_from_eq: "length l = length r \<Longrightarrow> same_bytes_from l r \<longleftrightarrow> l = r"
  by (induction l r rule: same_bytes_from.induct) auto

lemma same_bytes_iff [simp]: "same_bytes l r \<longleftrightarrow> l = r"
  by (auto simp: same_bytes_def same_bytes_from_eq)

lemma link_equal_iff [simp]: "link_equal l r \<longleftrightarrow> l = r"
  by (cases l; cases r) auto

lemma same_protocol_iff [simp]: "same_protocol l r \<longleftrightarrow> l = r"
  by (cases l; cases r) (auto simp: same_protocol_def)

lemma resolves_unknown_iff: "resolves_unknown l \<longleftrightarrow> l = Verified"
  by (cases l) auto

lemma has_link_iff: "has_link l \<longleftrightarrow> l \<noteq> LinkNone"
  by (cases l) auto

lemma has_reading_iff: "has_reading r \<longleftrightarrow> r \<noteq> ReadingNone"
  by (cases r) auto

lemmas view_iffs = resolves_unknown_iff has_link_iff has_reading_iff

lemma stage_transition_allowed_table: "stage_transition_allowed from to lnk = table from to lnk"
  by (cases "from"; cases to) (auto simp: table_def resolves_unknown_iff)

lemma consistent_iff_fields: "consistent view = fields_match_stage view"
  by (cases "av_stage view"; cases "av_protocol view")
    (auto simp: consistent_def fields_match_stage_def protocol_consistent_def view_iffs Let_def)

lemma acknowledgement_stage_iff [simp]: "acknowledgement_stage st \<longleftrightarrow> st = Acknowledged"
  by (cases st) auto

lemma pre_entry_rule:
  "checkpoint_valid old new \<and> pre_entry_kept old new \<longleftrightarrow>
     (case (av_stage old, av_stage new) of
        (Reserved, Reserved) \<Rightarrow> av_pre_entry old = [] \<and> av_pre_entry new \<noteq> []
      | (Reserved, NotEntered) \<Rightarrow> av_pre_entry old = [] \<or> av_pre_entry old = av_pre_entry new
      | _ \<Rightarrow> av_pre_entry old = av_pre_entry new)"
  by (cases "av_stage old"; cases "av_stage new")
    (auto simp: pre_entry_kept_def checkpoint_valid_def adds_pre_entry_def)

lemma response_rule:
  "response_kept old new \<longleftrightarrow>
     (av_stage old, av_stage new) \<in> {(EntryGranted, ResponseRecorded), (Unknown, ResponseRecorded)}
     \<or> av_response old = av_response new \<and> av_locator old = av_locator new"
  by (auto simp: response_kept_def adds_response_def)

lemma valid_transition_iff_table: "valid_transition old new = record_table old new"
proof -
  have entry: "entry_kept old new \<longleftrightarrow>
      (if av_stage old = Reserved \<and> av_stage new = EntryGranted
       then av_entry old = [] \<and> av_entry new \<noteq> [] else av_entry old = av_entry new)"
    by (simp add: entry_kept_def)
  have ack: "acknowledgement_kept old new \<longleftrightarrow>
      (if av_stage old \<in> {EntryGranted, Unknown} \<and> av_stage new = Acknowledged
       then av_acknowledgement old = [] \<and> av_acknowledgement new \<noteq> []
       else av_acknowledgement old = av_acknowledgement new)"
    by (simp add: acknowledgement_kept_def)
  show ?thesis
    unfolding valid_transition_def record_table_def Let_def entry ack response_rule
      pre_entry_rule [symmetric] plan_kept_def same_bytes_iff link_equal_iff same_protocol_iff
      consistent_iff_fields stage_transition_allowed_table
    by (intro iffI; elim conjE; intro conjI; assumption)
qed

section \<open>The journal of one attempt\<close>

text \<open>
  A journal is a run of \<open>valid_transition\<close>. Its rank falls with every transition: a reservation
  may add its checkpoint once, and every other transition leaves its stage for a later one.
\<close>

definition attempt_rank :: "attempt_view \<Rightarrow> nat" where
  "attempt_rank view =
     (case av_stage view of
        Reserved \<Rightarrow> if absent (av_pre_entry view) then 5 else 4
      | EntryGranted \<Rightarrow> 3
      | Unknown \<Rightarrow> 2
      | ResponseRecorded \<Rightarrow> 1
      | _ \<Rightarrow> 0)"

definition evidence_kept :: "attempt_view \<Rightarrow> attempt_view \<Rightarrow> bool" where
  "evidence_kept old new \<longleftrightarrow>
     av_protocol new = av_protocol old
     \<and> av_fixed new = av_fixed old
     \<and> av_observation new = av_observation old
     \<and> av_link new = av_link old
     \<and> av_revision old \<le> av_revision new
     \<and> once_set (av_entry old) (av_entry new)
     \<and> once_set (av_pre_entry old) (av_pre_entry new)
     \<and> once_set (av_response old) (av_response new)
     \<and> once_set (av_locator old) (av_locator new)
     \<and> once_set (av_acknowledgement old) (av_acknowledgement new)"

lemma fields_entry:
  "fields_match_stage view \<Longrightarrow> av_entry view = [] \<longleftrightarrow> av_stage view \<in> {Reserved, NotEntered}"
  by (simp only: fields_match_stage_def Let_def)

lemma fields_acknowledgement:
  "fields_match_stage view \<Longrightarrow> av_acknowledgement view \<noteq> [] \<longleftrightarrow> av_stage view = Acknowledged"
  by (simp only: fields_match_stage_def Let_def)

lemma fields_response:
  "fields_match_stage view \<Longrightarrow> av_response view \<noteq> [] \<Longrightarrow>
     av_stage view \<in> {ResponseRecorded, Observed, ObservedByProvider}"
  by (cases "av_stage view") (simp_all add: fields_match_stage_def Let_def)

lemma fields_locator:
  "fields_match_stage view \<Longrightarrow> av_locator view \<noteq> [] \<Longrightarrow> av_response view \<noteq> []"
  by (simp only: fields_match_stage_def Let_def) blast

lemma fields_acquisition:
  assumes "fields_match_stage view" and "av_protocol view = Acquisition"
  shows "av_stage view \<notin> {Observed, ObservedByProvider, Acknowledged}"
    and "\<not> av_evidence view" and "av_acknowledgement view = []"
  using assms by (simp_all only: fields_match_stage_def Let_def protocol.case simp_thms)

lemma fields_disclosure:
  assumes "fields_match_stage view" and "av_protocol view = Disclosure"
  shows "av_response view = []" and "\<not> av_evidence view"
  using assms by (simp_all only: fields_match_stage_def Let_def protocol.case simp_thms)

lemma valid_transitionD:
  assumes "valid_transition old new"
  shows "table (av_stage old) (av_stage new) (av_link old)"
    and "fields_match_stage old" and "fields_match_stage new"
    and "av_protocol new = av_protocol old"
    and "unat (av_revision new) = unat (av_revision old) + 1"
proof -
  show "table (av_stage old) (av_stage new) (av_link old)"
    and "fields_match_stage old" and "fields_match_stage new"
    and "av_protocol new = av_protocol old"
    using assms by (auto simp: valid_transition_iff_table record_table_def Let_def)
  have "av_revision old < max_revision" and "av_revision new = av_revision old + 1"
    using assms by (auto simp: valid_transition_def)
  then show "unat (av_revision new) = unat (av_revision old) + 1"
    by (simp add: max_revision_def word_less_nat_alt unat_word_ariths)
qed

lemma valid_transition_rank:
  assumes "valid_transition old new"
  shows "attempt_rank new < attempt_rank old"
  using valid_transitionD(1) [OF assms] assms
  by (auto simp: table_def attempt_rank_def valid_transition_def checkpoint_valid_def)

lemma valid_transition_keeps_evidence:
  assumes "valid_transition old new"
  shows "evidence_kept old new"
proof -
  have "av_revision old \<le> av_revision new"
    using valid_transitionD(5) [OF assms] by (simp add: word_le_nat_alt)
  moreover have "once_set (av_entry old) (av_entry new)"
    using assms by (auto simp: once_set_def valid_transition_def entry_kept_def split: if_splits)
  moreover have "once_set (av_pre_entry old) (av_pre_entry new)"
    using assms by (auto simp: once_set_def valid_transition_def pre_entry_kept_def split: if_splits)
  moreover have "once_set (av_response old) (av_response new) \<and> once_set (av_locator old) (av_locator new)"
    using assms fields_response [OF valid_transitionD(2) [OF assms]]
      fields_locator [OF valid_transitionD(2) [OF assms]]
    by (cases "av_response old = []"; cases "av_locator old = []")
      (auto simp: once_set_def valid_transition_def response_rule)
  moreover have "once_set (av_acknowledgement old) (av_acknowledgement new)"
    using assms
    by (auto simp: once_set_def valid_transition_def acknowledgement_kept_def split: if_splits)
  ultimately show ?thesis
    using assms by (simp add: evidence_kept_def valid_transition_def plan_kept_def)
qed

interpretation attempts: forward_steps valid_transition "\<lambda>_. True" attempt_rank
  by unfold_locales (simp_all add: valid_transition_rank)

interpretation journal: kept_history valid_transition evidence_kept
proof unfold_locales
  show "evidence_kept s s" for s by (simp add: evidence_kept_def)
  show "evidence_kept s u" if "evidence_kept s t" "evidence_kept t u" for s t u
    using that unfolding evidence_kept_def by (metis order_trans once_set_trans)
  show "evidence_kept s t" if "valid_transition s t" for s t
    using that by (rule valid_transition_keeps_evidence)
qed

lemma attempt_rank_le: "attempt_rank view \<le> 5"
  by (simp add: attempt_rank_def split: stage.split)

lemma attempt_rank_granted: "attempt_rank view = 3 \<longleftrightarrow> av_stage view = EntryGranted"
  by (simp add: attempt_rank_def split: stage.split)

lemma reserved_step:
  assumes "valid_transition v w" and "av_stage v = Reserved"
  shows "av_stage w = EntryGranted \<or> av_entry w = []"
proof -
  have "av_stage w \<in> {Reserved, NotEntered, EntryGranted}"
    using valid_transitionD(1) [OF assms(1)] assms(2) by (auto simp: table_def)
  then show ?thesis using fields_entry [OF valid_transitionD(3) [OF assms(1)]] by auto
qed

lemma granted_before_entry:
  assumes "chain valid_transition v vs" and "av_stage v = Reserved"
    and "w \<in> set vs" and "av_entry w \<noteq> []"
  shows "\<exists>g \<in> set vs. av_stage g = EntryGranted \<and> av_entry g = av_entry w"
  using assms
proof (induction vs arbitrary: v)
  case (Cons u us)
  then have step: "valid_transition v u" and rest: "chain valid_transition u us" by auto
  consider (granted) "av_stage u = EntryGranted" | (reserved) "av_stage u = Reserved"
    | (refused) "av_stage u = NotEntered"
    using valid_transitionD(1) [OF step] Cons.prems(2) by (auto simp: table_def)
  then show ?case
  proof cases
    case granted
    then have set: "av_entry u \<noteq> []"
      using fields_entry [OF valid_transitionD(3) [OF step]] by auto
    have "w = u \<or> evidence_kept u w"
      using Cons.prems(3) journal.chain_keep [OF rest] by auto
    with set have "av_entry w = av_entry u" by (auto simp: evidence_kept_def once_set_def)
    with granted show ?thesis by simp
  next
    case reserved
    then have "av_entry u = []" using reserved_step [OF step Cons.prems(2)] by simp
    with Cons.prems(3,4) have "w \<in> set us" by auto
    with Cons.IH [OF rest reserved] Cons.prems(4) show ?thesis by auto
  next
    case refused
    then have "av_entry u = []" using reserved_step [OF step Cons.prems(2)] by simp
    moreover have "us = []"
    proof (cases us)
      case (Cons x xs)
      with rest refused show ?thesis
        using valid_transitionD(1) [of u x] by (auto simp: table_def)
    qed simp
    ultimately show ?thesis using Cons.prems(3,4) by simp
  qed
qed simp


lemma journal_fields: "chain valid_transition v vs \<Longrightarrow> w \<in> set vs \<Longrightarrow> fields_match_stage w"
  by (induction vs arbitrary: v) (auto dest: valid_transitionD(3))



section \<open>Properties\<close>

text \<open>
  C21: for records of any size, \<open>valid_transition\<close> holds exactly
  when the record table does: the fixed bytes, protocol and plan are kept, the revision advances
  by one below its bound, the stage change is a row of the stage table, each optional field is
  added only where the table adds it, and both records hold exactly the fields of their stage.
  The crate's model checker covers this for byte fields of at most one byte.
\<close>

theorem attempt_rule_is_the_record_table:
  "valid_transition old new = record_table old new \<and> consistent old = fields_match_stage old"
  by (simp add: valid_transition_iff_table consistent_iff_fields)

text \<open>
  C18: along every journal, the protocol, the fixed bytes and
  the stored plan stay those of the first record, and the entry grant, the pre-entry record, the
  response with its locator and the acknowledgement are never changed once they are set.
\<close>

theorem attempt_evidence_is_never_rewritten:
  assumes "chain valid_transition v vs" and "w \<in> set vs"
  shows "evidence_kept v w"
  using assms by (rule journal.chain_keep)

text \<open>
  C11: every journal has at most five transitions, and at most one of
  its records is in the stage \<open>entry-granted\<close>: an attempt never enters its provider twice.
\<close>

theorem attempt_enters_at_most_once:
  assumes "chain valid_transition v vs"
  shows "length vs \<le> 5 \<and> length (filter (\<lambda>w. av_stage w = EntryGranted) (v # vs)) \<le> 1"
proof
  have "length vs \<le> attempt_rank v" using assms by (simp add: attempts.chain_length)
  then show "length vs \<le> 5" using attempt_rank_le [of v] by linarith
  show "length (filter (\<lambda>w. av_stage w = EntryGranted) (v # vs)) \<le> 1"
    using attempts.chain_visits_rank_once [of v vs 3] assms
    by (simp add: attempt_rank_granted)
qed

text \<open>
  in a journal that starts at a reservation, a record that
  carries a response or an acknowledgement, or is \<open>unknown\<close>, was preceded by a durable entry
  grant whose bytes it still carries.
\<close>

lemma external_evidence_needs_a_grant:
  assumes "chain valid_transition v vs" and "av_stage v = Reserved" and "w \<in> set vs"
    and "av_response w \<noteq> [] \<or> av_acknowledgement w \<noteq> [] \<or> av_stage w = Unknown"
  shows "\<exists>g \<in> set vs. av_stage g = EntryGranted \<and> av_entry g = av_entry w"
proof -
  have fields: "fields_match_stage w"
    using assms(1,3) by (rule journal_fields)
  then have "av_stage w \<notin> {Reserved, NotEntered}"
    using assms(4) fields_response [OF fields] fields_acknowledgement [OF fields] by auto
  then have "av_entry w \<noteq> []" using fields_entry [OF fields] by simp
  with assms show ?thesis by (intro granted_before_entry)
qed

text \<open>
  Along every journal, an acquisition never reaches an
  observation or an acknowledgement and carries no provider evidence, and a disclosure never
  carries a response.
\<close>

theorem attempt_protocol_confines_evidence:
  assumes "chain valid_transition v vs" and "w \<in> set vs"
  shows "(av_protocol v = Acquisition \<longrightarrow>
            av_stage w \<notin> {Observed, ObservedByProvider, Acknowledged}
            \<and> \<not> av_evidence w \<and> av_acknowledgement w = [])
       \<and> (av_protocol v = Disclosure \<longrightarrow> av_response w = [] \<and> \<not> av_evidence w)"
proof -
  have "fields_match_stage w"
    using assms by (rule journal_fields)
  moreover have "av_protocol w = av_protocol v"
    using journal.chain_keep [OF assms] by (simp add: evidence_kept_def)
  ultimately show ?thesis
    using fields_acquisition [of w] fields_disclosure [of w] by simp
qed


section \<open>Witnesses\<close>

text \<open>A record of each stage with a verified link, and the journal of an attempt they form.\<close>

definition sample_view :: "stage \<Rightarrow> u64 \<Rightarrow> bytes \<Rightarrow> attempt_view" where
  "sample_view st n pre = \<lparr>
     av_protocol = Mutation, av_revision = n, av_fixed = [7, 7],
     av_entry = (if requires_entry st then [9] else []),
     av_stage = st, av_refusal = refusal_stage st, av_pre_entry = pre,
     av_response = (if requires_response st then [1] else []),
     av_acknowledgement = [], av_locator = [],
     av_reading = (if observed_stage st then Match else ReadingNone),
     av_evidence = provider_stage st, av_observation = True, av_link = Verified \<rparr>"

definition sample_journal :: "attempt_view list" where
  "sample_journal =
     [sample_view Reserved 2 [3], sample_view EntryGranted 3 [3], sample_view Unknown 4 [3],
      sample_view ResponseRecorded 5 [3], sample_view Observed 6 [3]]"

lemmas transition_rules = valid_transition_def entry_kept_def plan_kept_def checkpoint_valid_def
  pre_entry_kept_def adds_pre_entry_def response_kept_def adds_response_def
  acknowledgement_kept_def consistent_def protocol_consistent_def max_revision_def

lemma sample_journal_chain: "chain valid_transition (sample_view Reserved 1 []) sample_journal"
  by (simp add: sample_journal_def sample_view_def transition_rules)

theorem attempt_evidence_is_never_rewritten_witness:
  "evidence_kept (sample_view Reserved 1 []) (sample_view Observed 6 [3])"
  using attempt_evidence_is_never_rewritten [OF sample_journal_chain]
  by (simp add: sample_journal_def)

theorem attempt_enters_at_most_once_witness:
  "length sample_journal = 5
   \<and> length (filter (\<lambda>w. av_stage w = EntryGranted) (sample_view Reserved 1 [] # sample_journal)) \<le> 1"
  using attempt_enters_at_most_once [OF sample_journal_chain] by (simp add: sample_journal_def)

theorem external_evidence_needs_a_grant_witness:
  "\<exists>g \<in> set sample_journal. av_stage g = EntryGranted
     \<and> av_entry g = av_entry (sample_view ResponseRecorded 5 [3])"
  by (rule external_evidence_needs_a_grant [OF sample_journal_chain])
    (simp_all add: sample_journal_def sample_view_def)

theorem attempt_protocol_confines_evidence_witness:
  "av_stage (sample_view Unknown 2 []\<lparr>av_protocol := Acquisition, av_observation := False,
      av_link := LinkNone\<rparr>) \<notin> {Observed, ObservedByProvider, Acknowledged}"
proof -
  let ?acquisition = "\<lambda>v. v\<lparr>av_protocol := Acquisition, av_observation := False, av_link := LinkNone\<rparr>"
  have "chain valid_transition (?acquisition (sample_view EntryGranted 1 []))
      [?acquisition (sample_view Unknown 2 [])]"
    by (simp add: sample_view_def transition_rules)
  from attempt_protocol_confines_evidence [OF this, of "?acquisition (sample_view Unknown 2 [])"]
  show ?thesis by (simp add: sample_view_def)
qed


end
