(* ===== verification/Gateway_Recovery.thy ===== *)
theory Gateway_Recovery
  imports Gateway_Transition
begin

text \<open>
  What a recipe can prove after an ambiguous write
  (\<open>product/runtime/auths-gateway-kernel/src/recovery.rs\<close>) and which facts a signed outcome of
  each stage carries (\<open>outcome.rs\<close>), with the link a stored observation plan gives the attempt
  record (\<open>auths-gateway/src/recipe/runtime.rs\<close>).
\<close>

section \<open>Recovery capability\<close>

datatype state_observation = ObservationNone | VerifiedLocator | ResponseLocator

datatype idempotency_kind = DerivedHeader | OperationIdField

datatype lost_claim_reentry =
    ReentryNone
  | Declared (declared_kind: idempotency_kind) (retention_seconds: u64)

record recovery_declarations =
  rd_observation :: state_observation
  rd_echo :: bool
  rd_idempotency :: lost_claim_reentry
  rd_pre_entry :: bool

datatype recovery_class = Linked | LinkedAfterResponse | ObservedClass | Recorded

datatype unknown_resolution = GatewayReobservation | ResolutionNone

record recovery_capability =
  rc_class :: recovery_class
  rc_state_observation :: state_observation
  rc_provider_link :: state_observation
  rc_unknown_resolution :: unknown_resolution
  rc_lost_claim_reentry :: lost_claim_reentry
  rc_pre_entry_reread :: bool
  rc_write_is_conditional :: bool

definition provider_link :: "state_observation \<Rightarrow> bool \<Rightarrow> state_observation" where
  "provider_link observation echo = (if echo then observation else ObservationNone)"

fun recovery_class_of :: "state_observation \<Rightarrow> state_observation \<Rightarrow> recovery_class" where
  "recovery_class_of observation VerifiedLocator = Linked"
| "recovery_class_of observation ResponseLocator = LinkedAfterResponse"
| "recovery_class_of observation ObservationNone =
     (case observation of ObservationNone \<Rightarrow> Recorded | _ \<Rightarrow> ObservedClass)"

fun unknown_resolution_of :: "recovery_class \<Rightarrow> unknown_resolution" where
  "unknown_resolution_of Linked = GatewayReobservation"
| "unknown_resolution_of _ = ResolutionNone"

definition recovery_capability_of :: "recovery_declarations \<Rightarrow> recovery_capability" where
  "recovery_capability_of declarations =
     (let link = provider_link (rd_observation declarations) (rd_echo declarations);
          class = recovery_class_of (rd_observation declarations) link
      in \<lparr> rc_class = class,
           rc_state_observation = rd_observation declarations,
           rc_provider_link = link,
           rc_unknown_resolution = unknown_resolution_of class,
           rc_lost_claim_reentry = rd_idempotency declarations,
           rc_pre_entry_reread = rd_pre_entry declarations,
           rc_write_is_conditional = False \<rparr>)"

text \<open>
  The link of a stored observation plan, from whether its template has an echo pointer and
  whether a segment comes from the recorded response.
\<close>

definition template_link :: "bool \<Rightarrow> bool \<Rightarrow> link" where
  "template_link has_echo_pointer has_response_fields =
     (case (has_echo_pointer, has_response_fields) of
        (False, _) \<Rightarrow> LinkNone
      | (True, False) \<Rightarrow> Verified
      | (True, True) \<Rightarrow> AfterResponse)"

section \<open>Signed outcomes\<close>

record outcome_facts =
  of_counters_digest :: bool
  of_refusal :: bool
  of_http_status :: bool
  of_response_digest :: bool
  of_observation :: bool
  of_evidence_digest :: bool
  of_pre_entry_digest :: bool
  of_relative_basis :: bool
  of_relative_basis_digest :: bool

fun outcome_stage :: "stage \<Rightarrow> bool" where
  "outcome_stage EntryGranted = False"
| "outcome_stage Acknowledged = False"
| "outcome_stage _ = True"

definition outcome_facts_present :: "stage \<Rightarrow> outcome_facts \<Rightarrow> bool" where
  "outcome_facts_present st facts \<longleftrightarrow>
     outcome_stage st
     \<and> refusal_stage st = of_refusal facts
     \<and> of_http_status facts = of_response_digest facts
     \<and> (\<not> requires_response st \<or> of_http_status facts)
     \<and> (\<not> of_http_status facts \<or> permits_response st)
     \<and> observed_stage st = of_observation facts
     \<and> provider_stage st = of_evidence_digest facts
     \<and> of_relative_basis facts = of_relative_basis_digest facts"

text \<open>
  The outcome of a stored provider record (\<open>auths-gateway/src/observer.rs\<close>): an entry grant is
  reported as \<open>unknown\<close>, and the facts are those of the record. Whether a counter slot, a
  pre-entry digest and a relative basis exist is not part of the view and is supplied.
\<close>

definition reported_stage :: "stage \<Rightarrow> stage" where
  "reported_stage st = (if st = EntryGranted then Unknown else st)"

definition facts_of_view :: "attempt_view \<Rightarrow> bool \<Rightarrow> bool \<Rightarrow> bool \<Rightarrow> outcome_facts" where
  "facts_of_view view counters pre_entry_digest basis = \<lparr>
     of_counters_digest = counters,
     of_refusal = av_refusal view,
     of_http_status = av_response view \<noteq> [],
     of_response_digest = av_response view \<noteq> [],
     of_observation = (reported_stage (av_stage view) = Observed),
     of_evidence_digest = av_evidence view,
     of_pre_entry_digest = pre_entry_digest,
     of_relative_basis = basis,
     of_relative_basis_digest = basis \<rparr>"

section \<open>Facts\<close>

lemma outcome_facts_by_stage:
  "outcome_facts_present st facts \<longleftrightarrow>
     of_http_status facts = of_response_digest facts
     \<and> of_relative_basis facts = of_relative_basis_digest facts
     \<and> (case st of
          EntryGranted \<Rightarrow> False
        | Acknowledged \<Rightarrow> False
        | NotEntered \<Rightarrow> of_refusal facts \<and> \<not> of_http_status facts \<and> \<not> of_observation facts
            \<and> \<not> of_evidence_digest facts
        | Reserved \<Rightarrow> \<not> of_refusal facts \<and> \<not> of_http_status facts \<and> \<not> of_observation facts
            \<and> \<not> of_evidence_digest facts
        | Unknown \<Rightarrow> \<not> of_refusal facts \<and> \<not> of_http_status facts \<and> \<not> of_observation facts
            \<and> \<not> of_evidence_digest facts
        | ResponseRecorded \<Rightarrow> \<not> of_refusal facts \<and> of_http_status facts \<and> \<not> of_observation facts
            \<and> \<not> of_evidence_digest facts
        | Observed \<Rightarrow> \<not> of_refusal facts \<and> of_http_status facts \<and> of_observation facts
            \<and> \<not> of_evidence_digest facts
        | ObservedByProvider \<Rightarrow> \<not> of_refusal facts \<and> \<not> of_observation facts
            \<and> of_evidence_digest facts)"
  by (cases st) (auto simp: outcome_facts_present_def)

section \<open>Properties\<close>

text \<open>
  The recovery class promises that the gateway can resolve
  an \<open>unknown\<close> write exactly when the link its stored plan gives the attempt record lets an
  \<open>unknown\<close> record become \<open>observed-by-provider\<close>; and no declaration makes a write conditional.
\<close>

theorem recovery_matches_the_attempt_rule:
  assumes "rd_observation d = (if response_fields then ResponseLocator else VerifiedLocator)"
  shows "(rc_unknown_resolution (recovery_capability_of d) = GatewayReobservation
           \<longleftrightarrow> stage_transition_allowed Unknown ObservedByProvider
                 (template_link (rd_echo d) response_fields))
         \<and> \<not> rc_write_is_conditional (recovery_capability_of d)"
  using assms
  by (cases "rd_echo d"; cases response_fields)
    (simp_all add: recovery_capability_of_def provider_link_def template_link_def Let_def)

text \<open>
  every consistent provider record, in every stage, yields a
  set of facts that the presence rule admits for the stage its outcome reports.
\<close>

lemma consistent_records_have_outcomes:
  assumes "consistent view" and "av_protocol view \<noteq> Disclosure"
  shows "outcome_facts_present (reported_stage (av_stage view)) (facts_of_view view counters pre_entry basis)"
proof -
  have "av_stage view \<noteq> Acknowledged"
    using assms by (cases "av_protocol view") (auto simp: consistent_def protocol_consistent_def)
  with assms(1) show ?thesis
    by (cases "av_stage view")
      (simp_all add: outcome_facts_by_stage facts_of_view_def reported_stage_def consistent_def Let_def)
qed

theorem recovery_matches_the_attempt_rule_witness:
  "rc_unknown_resolution (recovery_capability_of \<lparr>rd_observation = VerifiedLocator, rd_echo = True,
     rd_idempotency = ReentryNone, rd_pre_entry = False\<rparr>) = GatewayReobservation"
  using recovery_matches_the_attempt_rule
    [of "\<lparr>rd_observation = VerifiedLocator, rd_echo = True, rd_idempotency = ReentryNone,
        rd_pre_entry = False\<rparr>" False]
  by (simp add: template_link_def)

theorem consistent_records_have_outcomes_witness:
  "outcome_facts_present Unknown (facts_of_view (sample_view EntryGranted 3 [3]) True True False)"
  using consistent_records_have_outcomes [of "sample_view EntryGranted 3 [3]" True True False]
  by (simp add: sample_view_def reported_stage_def consistent_def protocol_consistent_def
      max_revision_def)

end
