(* ===== verification/Gateway_Construct.thy ===== *)
theory Gateway_Construct
  imports Auths_Prelude
begin

text \<open>
  Closed request construction, \<open>product/runtime/auths-gateway-kernel/src/construct.rs\<close>: a compiled
  recipe's plans and verified argument values in, request bytes out. Index loops over slices are
  structural recursions over the slice; byte literals are their numbers. The encoders are shown
  to be readable back, byte by byte, through one interface (\<open>byte_encoder\<close>).
\<close>

section \<open>Data\<close>

definition MAX_BODY_BYTES :: nat where
  "MAX_BODY_BYTES = 16384"

definition MAX_SEGMENT_VALUE_BYTES :: nat where
  "MAX_SEGMENT_VALUE_BYTES = 4096"

definition MAX_PATH_BYTES :: nat where
  "MAX_PATH_BYTES = 8192"

datatype argument_value = Text bytes | Integer bytes | Boolean bool

datatype request_method = Get | Head | Post | Put | Patch | Delete

datatype segment_plan = SegmentFixed bytes | SegmentField nat

record header =
  h_name :: bytes
  h_value :: bytes

datatype scope_grammar = StripeAccount

record account_scope_plan =
  as_name :: bytes
  as_field :: nat
  as_grammar :: scope_grammar

record header_plan =
  hp_versions :: "header list"
  hp_account_scope :: "account_scope_plan option"

datatype json_piece = JsonRaw bytes | JsonField nat | JsonEcho

datatype form_piece = FormRaw bytes | FormField nat | FormJson "json_piece list" | FormEcho

datatype body_plan = BodyJson "json_piece list" | BodyForm "form_piece list"

record write_plan =
  wp_method :: request_method
  wp_origin :: bytes
  wp_path :: "segment_plan list"
  wp_headers :: header_plan
  wp_idempotency_header :: "bytes option"
  wp_body :: body_plan

record action_read_plan =
  ar_origin :: bytes
  ar_path :: "segment_plan list"
  ar_headers :: header_plan

record credential_read_plan =
  cr_method :: request_method
  cr_origin :: bytes
  cr_path :: "bytes list"
  cr_versions :: "header list"

record built_request =
  br_method :: request_method
  br_url :: bytes
  br_headers :: "header list"
  br_body :: bytes

datatype construct_error =
  ArgumentMismatch | UnsafeSegment | PathTooLong | HeaderValue | BodySize

section \<open>Bytes and path\<close>

fun append_bytes :: "bytes \<Rightarrow> bytes \<Rightarrow> bytes" where
  "append_bytes out [] = out"
| "append_bytes out (byte # rest) = append_bytes (out @ [byte]) rest"

definition copy_bytes :: "bytes \<Rightarrow> bytes" where
  "copy_bytes bs = append_bytes [] bs"

definition is_alphanumeric :: "u8 \<Rightarrow> bool" where
  "is_alphanumeric byte \<longleftrightarrow>
     (byte \<ge> 48 \<and> byte \<le> 57) \<or> (byte \<ge> 65 \<and> byte \<le> 90) \<or> (byte \<ge> 97 \<and> byte \<le> 122)"

definition is_path_literal :: "u8 \<Rightarrow> bool" where
  "is_path_literal byte \<longleftrightarrow>
     is_alphanumeric byte \<or> byte = 45 \<or> byte = 95 \<or> byte = 46 \<or> byte = 126"

definition is_form_literal :: "u8 \<Rightarrow> bool" where
  "is_form_literal byte \<longleftrightarrow>
     is_alphanumeric byte \<or> byte = 42 \<or> byte = 45 \<or> byte = 46 \<or> byte = 95"

definition hex_upper :: "u8 \<Rightarrow> u8" where
  "hex_upper nibble = (if nibble < 10 then 48 + nibble else 65 + (nibble - 10))"

definition hex_lower :: "u8 \<Rightarrow> u8" where
  "hex_lower nibble = (if nibble < 10 then 48 + nibble else 97 + (nibble - 10))"

definition append_percent :: "bytes \<Rightarrow> u8 \<Rightarrow> bytes" where
  "append_percent out byte = out @ [37, hex_upper (byte div 16), hex_upper (byte mod 16)]"

definition append_path_byte :: "bytes \<Rightarrow> u8 \<Rightarrow> bytes" where
  "append_path_byte out byte =
     (if is_path_literal byte then out @ [byte] else append_percent out byte)"

fun append_path_encoded :: "bytes \<Rightarrow> bytes \<Rightarrow> bytes" where
  "append_path_encoded out [] = out"
| "append_path_encoded out (byte # rest) = append_path_encoded (append_path_byte out byte) rest"

definition segment_value_valid :: "bytes \<Rightarrow> bool" where
  "segment_value_valid text =
     (if text = [] \<or> length text > MAX_SEGMENT_VALUE_BYTES then False
      else if length text = 1 \<and> text ! 0 = 46 then False
      else \<not> (length text = 2 \<and> text ! 0 = 46 \<and> text ! 1 = 46))"

fun segment_error :: "segment_plan \<Rightarrow> argument_value list \<Rightarrow> construct_error option" where
  "segment_error (SegmentFixed _) arguments = None"
| "segment_error (SegmentField field) arguments =
     (if field \<ge> length arguments then Some ArgumentMismatch
      else case arguments ! field of
             Text text \<Rightarrow> if segment_value_valid text then None else Some UnsafeSegment
           | Integer _ \<Rightarrow> Some ArgumentMismatch
           | Boolean _ \<Rightarrow> Some ArgumentMismatch)"

fun path_error :: "segment_plan list \<Rightarrow> argument_value list \<Rightarrow> construct_error option" where
  "path_error [] arguments = None"
| "path_error (segment # rest) arguments =
     (case segment_error segment arguments of
        Some error \<Rightarrow> Some error
      | None \<Rightarrow> path_error rest arguments)"

fun append_segment :: "bytes \<Rightarrow> segment_plan \<Rightarrow> argument_value list \<Rightarrow> bytes" where
  "append_segment out (SegmentFixed value) arguments = append_bytes (out @ [47]) value"
| "append_segment out (SegmentField field) arguments =
     (if field < length arguments then
        (case arguments ! field of
           Text text \<Rightarrow> append_path_encoded (out @ [47]) text
         | Integer _ \<Rightarrow> out @ [47]
         | Boolean _ \<Rightarrow> out @ [47])
      else out @ [47])"

fun append_segments :: "bytes \<Rightarrow> segment_plan list \<Rightarrow> argument_value list \<Rightarrow> bytes" where
  "append_segments out [] arguments = out"
| "append_segments out (segment # rest) arguments =
     append_segments (append_segment out segment arguments) rest arguments"

definition build_url ::
  "bytes \<Rightarrow> segment_plan list \<Rightarrow> argument_value list \<Rightarrow> (bytes, construct_error) result" where
  "build_url origin path arguments =
     (case path_error path arguments of
        Some error \<Rightarrow> Err error
      | None \<Rightarrow>
          (let encoded = append_segments [] path arguments
           in if length encoded > MAX_PATH_BYTES then Err PathTooLong
              else Ok (append_bytes (copy_bytes origin) encoded)))"

fun fixed_url_from :: "bytes \<Rightarrow> bytes list \<Rightarrow> bytes" where
  "fixed_url_from out [] = out"
| "fixed_url_from out (segment # rest) = fixed_url_from (append_bytes (out @ [47]) segment) rest"

definition fixed_url :: "bytes \<Rightarrow> bytes list \<Rightarrow> bytes" where
  "fixed_url origin path = fixed_url_from (copy_bytes origin) path"

text \<open>The compiler's rule for a fixed segment (\<open>auths-gateway/src/recipe/validate.rs\<close>).\<close>

definition valid_fixed_segment :: "bytes \<Rightarrow> bool" where
  "valid_fixed_segment value \<longleftrightarrow>
     value \<noteq> [] \<and> length value \<le> 128 \<and> value \<noteq> [46] \<and> value \<noteq> [46, 46]
     \<and> list_all (\<lambda>byte. is_alphanumeric byte \<or> byte = 45 \<or> byte = 95 \<or> byte = 46 \<or> byte = 126) value"

section \<open>Headers\<close>

definition copy_header :: "header \<Rightarrow> header" where
  "copy_header h = \<lparr> h_name = copy_bytes (h_name h), h_value = copy_bytes (h_value h) \<rparr>"

fun append_version_headers :: "header list \<Rightarrow> header list \<Rightarrow> header list" where
  "append_version_headers out [] = out"
| "append_version_headers out (h # rest) = append_version_headers (out @ [copy_header h]) rest"

definition is_account_byte :: "u8 \<Rightarrow> bool" where
  "is_account_byte byte \<longleftrightarrow> is_alphanumeric byte \<or> byte = 95"

fun account_bytes_from :: "bytes \<Rightarrow> bool" where
  "account_bytes_from [] = True"
| "account_bytes_from (byte # rest) =
     (if \<not> is_account_byte byte then False else account_bytes_from rest)"

definition account_bytes_valid :: "bytes \<Rightarrow> nat \<Rightarrow> bool" where
  "account_bytes_valid value start = account_bytes_from (drop start value)"

fun scope_value_valid :: "scope_grammar \<Rightarrow> bytes \<Rightarrow> bool" where
  "scope_value_valid StripeAccount value \<longleftrightarrow>
     length value \<ge> 13 \<and> length value \<le> 64
     \<and> value ! 0 = 97 \<and> value ! 1 = 99 \<and> value ! 2 = 99 \<and> value ! 3 = 116 \<and> value ! 4 = 95
     \<and> account_bytes_valid value 5"

definition account_scope_header ::
  "account_scope_plan \<Rightarrow> argument_value list \<Rightarrow> (header, construct_error) result" where
  "account_scope_header plan arguments =
     (if as_field plan \<ge> length arguments then Err ArgumentMismatch
      else case arguments ! as_field plan of
             Text value \<Rightarrow>
               if scope_value_valid (as_grammar plan) value
               then Ok \<lparr> h_name = copy_bytes (as_name plan), h_value = copy_bytes value \<rparr>
               else Err HeaderValue
           | Integer _ \<Rightarrow> Err ArgumentMismatch
           | Boolean _ \<Rightarrow> Err ArgumentMismatch)"

definition action_headers ::
  "header_plan \<Rightarrow> argument_value list \<Rightarrow> (header list, construct_error) result" where
  "action_headers plan arguments =
     (let out = append_version_headers [] (hp_versions plan)
      in case hp_account_scope plan of
           None \<Rightarrow> Ok out
         | Some scope \<Rightarrow>
             (case account_scope_header scope arguments of
                Inr h \<Rightarrow> Ok (out @ [h])
              | Inl error \<Rightarrow> Err error))"

section \<open>Bodies\<close>

definition append_json_byte :: "bytes \<Rightarrow> u8 \<Rightarrow> bytes" where
  "append_json_byte out byte =
     (if byte = 34 \<or> byte = 92 then out @ [92, byte]
      else if byte = 0x08 then out @ [92, 98]
      else if byte = 0x09 then out @ [92, 116]
      else if byte = 0x0a then out @ [92, 110]
      else if byte = 0x0c then out @ [92, 102]
      else if byte = 0x0d then out @ [92, 114]
      else if byte < 0x20 then
        out @ [92, 117, 48, 48, hex_lower (byte div 16), hex_lower (byte mod 16)]
      else out @ [byte])"

fun append_json_escaped :: "bytes \<Rightarrow> bytes \<Rightarrow> bytes" where
  "append_json_escaped out [] = out"
| "append_json_escaped out (byte # rest) = append_json_escaped (append_json_byte out byte) rest"

definition append_json_string :: "bytes \<Rightarrow> bytes \<Rightarrow> bytes" where
  "append_json_string out text = append_json_escaped (out @ [34]) text @ [34]"

fun append_json_argument :: "bytes \<Rightarrow> argument_value \<Rightarrow> bytes" where
  "append_json_argument out (Text text) = append_json_string out text"
| "append_json_argument out (Integer digits) = append_bytes out digits"
| "append_json_argument out (Boolean True) = out @ [116, 114, 117, 101]"
| "append_json_argument out (Boolean False) = out @ [102, 97, 108, 115, 101]"

fun json_piece_valid :: "json_piece \<Rightarrow> argument_value list \<Rightarrow> bool" where
  "json_piece_valid (JsonRaw _) arguments = True"
| "json_piece_valid JsonEcho arguments = True"
| "json_piece_valid (JsonField field) arguments = (field < length arguments)"

fun json_pieces_valid :: "json_piece list \<Rightarrow> argument_value list \<Rightarrow> bool" where
  "json_pieces_valid [] arguments = True"
| "json_pieces_valid (piece # rest) arguments =
     (if \<not> json_piece_valid piece arguments then False else json_pieces_valid rest arguments)"

fun append_json_piece :: "bytes \<Rightarrow> json_piece \<Rightarrow> argument_value list \<Rightarrow> bytes \<Rightarrow> bytes" where
  "append_json_piece out (JsonRaw bs) arguments echo = append_bytes out bs"
| "append_json_piece out (JsonField field) arguments echo =
     (if field < length arguments then append_json_argument out (arguments ! field) else out)"
| "append_json_piece out JsonEcho arguments echo = append_json_string out echo"

fun append_json_pieces :: "bytes \<Rightarrow> json_piece list \<Rightarrow> argument_value list \<Rightarrow> bytes \<Rightarrow> bytes" where
  "append_json_pieces out [] arguments echo = out"
| "append_json_pieces out (piece # rest) arguments echo =
     append_json_pieces (append_json_piece out piece arguments echo) rest arguments echo"

definition append_form_byte :: "bytes \<Rightarrow> u8 \<Rightarrow> bytes" where
  "append_form_byte out byte =
     (if byte = 32 then out @ [43]
      else if is_form_literal byte then out @ [byte]
      else append_percent out byte)"

fun append_form_encoded :: "bytes \<Rightarrow> bytes \<Rightarrow> bytes" where
  "append_form_encoded out [] = out"
| "append_form_encoded out (byte # rest) = append_form_encoded (append_form_byte out byte) rest"

fun form_piece_valid :: "form_piece \<Rightarrow> argument_value list \<Rightarrow> bool" where
  "form_piece_valid (FormRaw _) arguments = True"
| "form_piece_valid FormEcho arguments = True"
| "form_piece_valid (FormField field) arguments \<longleftrightarrow>
     field < length arguments
     \<and> (case arguments ! field of Text _ \<Rightarrow> True | Integer _ \<Rightarrow> True | Boolean _ \<Rightarrow> False)"
| "form_piece_valid (FormJson pieces) arguments = json_pieces_valid pieces arguments"

fun form_pieces_valid :: "form_piece list \<Rightarrow> argument_value list \<Rightarrow> bool" where
  "form_pieces_valid [] arguments = True"
| "form_pieces_valid (piece # rest) arguments =
     (if \<not> form_piece_valid piece arguments then False else form_pieces_valid rest arguments)"

fun append_form_piece :: "bytes \<Rightarrow> form_piece \<Rightarrow> argument_value list \<Rightarrow> bytes \<Rightarrow> bytes" where
  "append_form_piece out (FormRaw bs) arguments echo = append_bytes out bs"
| "append_form_piece out (FormField field) arguments echo =
     (if field < length arguments then
        (case arguments ! field of
           Text text \<Rightarrow> append_form_encoded out text
         | Integer text \<Rightarrow> append_form_encoded out text
         | Boolean _ \<Rightarrow> out)
      else out)"
| "append_form_piece out (FormJson pieces) arguments echo =
     (let json = append_json_pieces [] pieces arguments echo in append_form_encoded out json)"
| "append_form_piece out FormEcho arguments echo = append_form_encoded out echo"

fun append_form_pieces :: "bytes \<Rightarrow> form_piece list \<Rightarrow> argument_value list \<Rightarrow> bytes \<Rightarrow> bytes" where
  "append_form_pieces out [] arguments echo = out"
| "append_form_pieces out (piece # rest) arguments echo =
     append_form_pieces (append_form_piece out piece arguments echo) rest arguments echo"

definition build_body ::
  "body_plan \<Rightarrow> argument_value list \<Rightarrow> bytes \<Rightarrow> (bytes, construct_error) result" where
  "build_body plan arguments echo =
     and_then
       (case plan of
          BodyJson pieces \<Rightarrow>
            if \<not> json_pieces_valid pieces arguments then Err ArgumentMismatch
            else Ok (append_json_pieces [] pieces arguments echo)
        | BodyForm pieces \<Rightarrow>
            if \<not> form_pieces_valid pieces arguments then Err ArgumentMismatch
            else Ok (append_form_pieces [] pieces arguments echo))
       (\<lambda>body. if length body = 0 \<or> length body > MAX_BODY_BYTES then Err BodySize else Ok body)"

section \<open>Requests\<close>

definition construct_write ::
  "write_plan \<Rightarrow> argument_value list \<Rightarrow> bytes \<Rightarrow> bytes \<Rightarrow> (built_request, construct_error) result"
where
  "construct_write plan arguments echo idempotency_key =
     and_then (build_url (wp_origin plan) (wp_path plan) arguments) (\<lambda>url.
     and_then (build_body (wp_body plan) arguments echo) (\<lambda>body.
     and_then (action_headers (wp_headers plan) arguments) (\<lambda>headers.
       Ok \<lparr> br_method = wp_method plan, br_url = url,
            br_headers =
              (case wp_idempotency_header plan of
                 None \<Rightarrow> headers
               | Some name \<Rightarrow>
                   headers @ [\<lparr> h_name = copy_bytes name, h_value = copy_bytes idempotency_key \<rparr>]),
            br_body = body \<rparr>)))"

definition construct_action_read ::
  "action_read_plan \<Rightarrow> argument_value list \<Rightarrow> (built_request, construct_error) result" where
  "construct_action_read plan arguments =
     and_then (build_url (ar_origin plan) (ar_path plan) arguments) (\<lambda>url.
     and_then (action_headers (ar_headers plan) arguments) (\<lambda>headers.
       Ok \<lparr> br_method = Get, br_url = url, br_headers = headers, br_body = [] \<rparr>))"

definition construct_credential_read :: "credential_read_plan \<Rightarrow> built_request" where
  "construct_credential_read plan =
     \<lparr> br_method = cr_method plan, br_url = fixed_url (cr_origin plan) (cr_path plan),
       br_headers = append_version_headers [] (cr_versions plan), br_body = [] \<rparr>"

section \<open>Reading encodings back\<close>

text \<open>The text of an encoder that works byte by byte, and the reader that takes bytes while it can.\<close>

definition encoded :: "(u8 \<Rightarrow> bytes) \<Rightarrow> bytes \<Rightarrow> bytes" where
  "encoded encode text = concat (map encode text)"

fun read_text :: "(bytes \<Rightarrow> (u8 \<times> bytes) option) \<Rightarrow> nat \<Rightarrow> bytes \<Rightarrow> bytes \<times> bytes" where
  "read_text next_byte 0 input = ([], input)"
| "read_text next_byte (Suc n) input =
     (case next_byte input of
        None \<Rightarrow> ([], input)
      | Some (b, rest) \<Rightarrow> (let (text, tail) = read_text next_byte n rest in (b # text, tail)))"

lemma encoded_simps [simp]:
  "encoded f [] = []" "encoded f (b # text) = f b @ encoded f text"
  by (simp_all add: encoded_def)

text \<open>
  The interface of a byte encoder: the reader recovers each encoded byte whatever follows, and
  takes nothing at the end of the input. An encoded text is then recovered up to the first byte
  the reader refuses, so a text ends where its terminator is and cannot contain one.
\<close>

locale byte_encoder =
  fixes encode :: "u8 \<Rightarrow> bytes"
    and next_byte :: "bytes \<Rightarrow> (u8 \<times> bytes) option"
  assumes next_encoded: "next_byte (encode b @ rest) = Some (b, rest)"
    and next_end: "next_byte [] = None"
begin

lemma read_encoded:
  "next_byte rest = None \<Longrightarrow> length text \<le> n \<Longrightarrow>
     read_text next_byte n (encoded encode text @ rest) = (text, rest)"
proof (induction "text" arbitrary: n)
  case Nil
  then show ?case by (cases n) simp_all
next
  case (Cons b xs)
  then show ?case by (cases n) (simp_all add: next_encoded)
qed

lemma encoded_split:
  assumes "encoded encode xs @ r = encoded encode ys @ s"
    and "next_byte r = None" and "next_byte s = None"
  shows "xs = ys \<and> r = s"
proof -
  let ?n = "length xs + length ys"
  have "read_text next_byte ?n (encoded encode xs @ r) = (xs, r)"
    using assms(2) by (simp add: read_encoded)
  moreover have "read_text next_byte ?n (encoded encode ys @ s) = (ys, s)"
    using assms(3) by (simp add: read_encoded)
  ultimately show ?thesis unfolding assms(1) by (metis Pair_inject)
qed

lemma encoded_inject: "encoded encode xs = encoded encode ys \<longleftrightarrow> xs = ys"
  using encoded_split [of xs "[]" ys "[]"] by (auto simp: next_end)

lemma encode_nonempty: "encode b \<noteq> []"
proof
  assume "encode b = []"
  with next_encoded [of b "[]"] next_end show False by simp
qed

lemma length_encoded: "length text \<le> length (encoded encode text)"
proof (induction "text")
  case (Cons b xs)
  then show ?case using encode_nonempty [of b] by (cases "encode b") simp_all
qed simp

end

text \<open>The readers of the three encodings.\<close>

definition hex_value :: "u8 \<Rightarrow> u8 option" where
  "hex_value c =
     (if c \<ge> 48 \<and> c \<le> 57 then Some (c - 48)
      else if c \<ge> 65 \<and> c \<le> 70 then Some (c - 55)
      else if c \<ge> 97 \<and> c \<le> 102 then Some (c - 87)
      else None)"

definition unhex :: "u8 \<Rightarrow> u8 \<Rightarrow> u8 option" where
  "unhex hi lo =
     (case hex_value hi of
        None \<Rightarrow> None
      | Some h \<Rightarrow> (case hex_value lo of None \<Rightarrow> None | Some l \<Rightarrow> Some (h * 16 + l)))"

fun read_percent :: "bytes \<Rightarrow> (u8 \<times> bytes) option" where
  "read_percent (hi # lo # rest) = map_option (\<lambda>b. (b, rest)) (unhex hi lo)"
| "read_percent _ = None"

fun path_next :: "bytes \<Rightarrow> (u8 \<times> bytes) option" where
  "path_next [] = None"
| "path_next (c # rest) =
     (if c = 37 then read_percent rest else if is_path_literal c then Some (c, rest) else None)"

fun form_next :: "bytes \<Rightarrow> (u8 \<times> bytes) option" where
  "form_next [] = None"
| "form_next (c # rest) =
     (if c = 43 then Some (32, rest)
      else if c = 37 then read_percent rest
      else if is_form_literal c then Some (c, rest) else None)"

fun json_escape :: "bytes \<Rightarrow> (u8 \<times> bytes) option" where
  "json_escape [] = None"
| "json_escape (c # rest) =
     (if c = 34 \<or> c = 92 then Some (c, rest)
      else if c = 98 then Some (8, rest)
      else if c = 116 then Some (9, rest)
      else if c = 110 then Some (10, rest)
      else if c = 102 then Some (12, rest)
      else if c = 114 then Some (13, rest)
      else if c = 117 then
        (case rest of z # y # rest' \<Rightarrow> if z = 48 \<and> y = 48 then read_percent rest' else None
         | _ \<Rightarrow> None)
      else None)"

fun json_next :: "bytes \<Rightarrow> (u8 \<times> bytes) option" where
  "json_next [] = None"
| "json_next (c # rest) =
     (if c = 34 then None else if c = 92 then json_escape rest
      else if c < 32 then None else Some (c, rest))"

lemma nibble_cases:
  assumes "(n :: u8) < 16"
  shows "n \<in> {0, 1, 2, 3, 4, 5, 6, 7, 8, 9, 10, 11, 12, 13, 14, 15}"
proof -
  have "unat n < 16" using assms by (simp add: word_less_nat_alt)
  then have "unat n \<in> {0, 1, 2, 3, 4, 5, 6, 7, 8, 9, 10, 11, 12, 13, 14, 15}" by (simp, arith)
  then show ?thesis by (auto simp: word_unat_eq_iff)
qed

lemma hex_value_digits:
  assumes "n < 16"
  shows "hex_value (hex_upper n) = Some n" and "hex_value (hex_lower n) = Some n"
  using nibble_cases [OF assms]
  by (elim insertE emptyE; simp add: hex_value_def hex_upper_def hex_lower_def)+

lemma nibbles: "(b :: u8) div 16 < 16" "b mod 16 < 16"
  using unsigned_less [of b, where 'a = nat] by (simp_all add: word_less_nat_alt unat_div unat_mod)

lemma unhex_upper: "unhex (hex_upper (b div 16)) (hex_upper (b mod 16)) = Some b"
  by (simp add: unhex_def hex_value_digits nibbles div_mult_mod_eq)

lemma unhex_lower: "unhex (hex_lower (b div 16)) (hex_lower (b mod 16)) = Some b"
  by (simp add: unhex_def hex_value_digits nibbles div_mult_mod_eq)

lemma path_literal_not_reserved:
  "is_path_literal b \<Longrightarrow> b \<notin> {37, 47, 63, 35, 92}" "is_form_literal b \<Longrightarrow> b \<notin> {37, 38, 43, 61, 32}"
  by (auto simp: is_path_literal_def is_form_literal_def is_alphanumeric_def)

interpretation path_code: byte_encoder "append_path_byte []" path_next
proof
  fix b rest
  show "path_next (append_path_byte [] b @ rest) = Some (b, rest)"
    using path_literal_not_reserved(1) [of b]
    by (simp add: append_path_byte_def append_percent_def unhex_upper)
qed simp

interpretation form_code: byte_encoder "append_form_byte []" form_next
proof
  fix b rest
  show "form_next (append_form_byte [] b @ rest) = Some (b, rest)"
    using path_literal_not_reserved(2) [of b]
    by (simp add: append_form_byte_def append_percent_def unhex_upper)
qed simp

interpretation json_code: byte_encoder "append_json_byte []" json_next
  by unfold_locales (simp_all add: append_json_byte_def unhex_lower)

section \<open>Accumulators\<close>

lemma append_bytes_eq [simp]: "append_bytes out bs = out @ bs"
  by (induction out bs rule: append_bytes.induct) simp_all

lemma copy_bytes_eq [simp]: "copy_bytes bs = bs"
  by (simp add: copy_bytes_def)

lemma append_path_encoded_eq: "append_path_encoded out t = out @ encoded (append_path_byte []) t"
  by (induction out t rule: append_path_encoded.induct)
    (simp_all add: append_path_byte_def append_percent_def)

lemma append_form_encoded_eq: "append_form_encoded out t = out @ encoded (append_form_byte []) t"
  by (induction out t rule: append_form_encoded.induct)
    (simp_all add: append_form_byte_def append_percent_def)

lemma append_json_escaped_eq: "append_json_escaped out t = out @ encoded (append_json_byte []) t"
  by (induction out t rule: append_json_escaped.induct) (simp_all add: append_json_byte_def)

lemma append_json_string_eq:
  "append_json_string out t = out @ 34 # encoded (append_json_byte []) t @ [34]"
  by (simp add: append_json_string_def append_json_escaped_eq)

lemma append_json_argument_eq: "append_json_argument out v = out @ append_json_argument [] v"
  by (cases "(out, v)" rule: append_json_argument.cases) (simp_all add: append_json_string_eq)

lemma append_json_piece_eq:
  "append_json_piece out q arguments echo = out @ append_json_piece [] q arguments echo"
proof (cases q)
  case (JsonField field)
  then show ?thesis using append_json_argument_eq [of out "arguments ! field"] by simp
qed (simp_all add: append_json_string_eq)

lemma append_json_pieces_eq:
  "append_json_pieces out qs arguments echo
     = out @ concat (map (\<lambda>q. append_json_piece [] q arguments echo) qs)"
proof (induction qs arbitrary: out)
  case (Cons q qs)
  show ?case using append_json_piece_eq [of out q] by (simp add: Cons.IH)
qed simp

lemma append_form_piece_eq:
  "append_form_piece out q arguments echo = out @ append_form_piece [] q arguments echo"
  by (cases q) (simp_all add: append_form_encoded_eq split: argument_value.split)

lemma append_form_pieces_eq:
  "append_form_pieces out qs arguments echo
     = out @ concat (map (\<lambda>q. append_form_piece [] q arguments echo) qs)"
proof (induction qs arbitrary: out)
  case (Cons q qs)
  show ?case using append_form_piece_eq [of out q] by (simp add: Cons.IH)
qed simp

lemma append_segment_eq: "append_segment out seg arguments = out @ append_segment [] seg arguments"
  by (cases seg) (simp_all add: append_path_encoded_eq split: argument_value.split)

lemma append_segments_eq:
  "append_segments out segs arguments
     = out @ concat (map (\<lambda>seg. append_segment [] seg arguments) segs)"
proof (induction segs arbitrary: out)
  case (Cons seg segs)
  show ?case using append_segment_eq [of out seg] by (simp add: Cons.IH)
qed simp

lemma append_version_headers_eq [simp]: "append_version_headers out hs = out @ hs"
  by (induction out hs rule: append_version_headers.induct) (simp_all add: copy_header_def)

lemma account_bytes_from_iff: "account_bytes_from bs \<longleftrightarrow> list_all is_account_byte bs"
  by (induction bs) simp_all

section \<open>Paths\<close>

text \<open>The value a segment stands for, and a reader of an encoded path.\<close>

fun segment_value :: "argument_value list \<Rightarrow> segment_plan \<Rightarrow> bytes" where
  "segment_value arguments (SegmentFixed v) = v"
| "segment_value arguments (SegmentField field) =
     (case arguments ! field of Text v \<Rightarrow> v | _ \<Rightarrow> [])"

fun read_path :: "nat \<Rightarrow> bytes \<Rightarrow> bytes list option" where
  "read_path n [] = Some []"
| "read_path 0 (c # rest) = None"
| "read_path (Suc n) (c # rest) =
     (if c = 47 then
        (let (v, tail) = read_text path_next (length rest) rest
         in map_option (\<lambda>vs. v # vs) (read_path n tail))
      else None)"

definition encoded_path :: "bytes list \<Rightarrow> bytes" where
  "encoded_path vs = concat (map (\<lambda>v. 47 # encoded (append_path_byte []) v) vs)"

lemma read_encoded_path: "length vs \<le> n \<Longrightarrow> read_path n (encoded_path vs) = Some vs"
proof (induction vs arbitrary: n)
  case (Cons v vs)
  then obtain m where n: "n = Suc m" and m: "length vs \<le> m" by (cases n) auto
  have "path_next (encoded_path vs) = None"
    by (cases vs) (simp_all add: encoded_path_def is_path_literal_def is_alphanumeric_def)
  moreover have "length v \<le> length (encoded (append_path_byte []) v @ encoded_path vs)"
    using path_code.length_encoded [of v] by simp
  ultimately have "read_text path_next (length (encoded (append_path_byte []) v @ encoded_path vs))
      (encoded (append_path_byte []) v @ encoded_path vs) = (v, encoded_path vs)"
    by (rule path_code.read_encoded)
  then show ?case using Cons.IH [OF m] n by (simp add: encoded_path_def)
qed (simp add: encoded_path_def)

lemma hex_upper_literal: "n < 16 \<Longrightarrow> is_path_literal (hex_upper n)"
  by (drule nibble_cases)
    (elim insertE emptyE; simp add: hex_upper_def is_path_literal_def is_alphanumeric_def)

lemma encoded_path_bytes:
  "b \<in> set (encoded (append_path_byte []) v) \<Longrightarrow> is_path_literal b \<or> b = 37"
proof (induction v)
  case (Cons c v)
  have "is_path_literal (hex_upper (c div 16))" "is_path_literal (hex_upper (c mod 16))"
    by (simp_all add: hex_upper_literal nibbles)
  with Cons show ?case
    by (auto simp: append_path_byte_def append_percent_def split: if_splits)
qed simp

lemma encoded_literals: "list_all is_path_literal v \<Longrightarrow> encoded (append_path_byte []) v = v"
  by (induction v) (simp_all add: append_path_byte_def)

definition segment_ok :: "argument_value list \<Rightarrow> segment_plan \<Rightarrow> bool" where
  "segment_ok arguments seg =
     (case seg of
        SegmentFixed v \<Rightarrow> valid_fixed_segment v
      | SegmentField field \<Rightarrow>
          field < length arguments
          \<and> (\<exists>v. arguments ! field = Text v \<and> segment_value_valid v))"

lemma segment_value_valid_iff:
  "segment_value_valid v \<longleftrightarrow>
     v \<noteq> [] \<and> v \<noteq> [46] \<and> v \<noteq> [46, 46] \<and> length v \<le> MAX_SEGMENT_VALUE_BYTES"
proof -
  have "length v = 1 \<and> v ! 0 = 46 \<longleftrightarrow> v = [46]"
    by (cases v) auto
  moreover have "length v = 2 \<and> v ! 0 = 46 \<and> v ! 1 = 46 \<longleftrightarrow> v = [46, 46]"
    by (cases v; cases "tl v") auto
  ultimately show ?thesis by (auto simp: segment_value_valid_def)
qed

lemma path_error_None_iff:
  "path_error segs arguments = None \<longleftrightarrow> (\<forall>seg \<in> set segs. segment_error seg arguments = None)"
  by (induction segs) (simp_all split: option.split)

lemma segment_error_None_iff:
  "segment_error seg arguments = None \<longleftrightarrow>
     (case seg of SegmentFixed v \<Rightarrow> True
      | SegmentField field \<Rightarrow> field < length arguments
          \<and> (\<exists>v. arguments ! field = Text v \<and> segment_value_valid v))"
  by (cases seg) (auto split: argument_value.splits)

lemma segment_ok_value: "segment_ok arguments seg \<Longrightarrow> segment_value arguments seg \<notin> {[], [46], [46, 46]}"
  by (cases seg) (auto simp: segment_ok_def segment_value_valid_iff valid_fixed_segment_def)

lemma append_segment_ok:
  "segment_ok arguments seg \<Longrightarrow>
     append_segment [] seg arguments = 47 # encoded (append_path_byte []) (segment_value arguments seg)"
  by (cases seg)
    (auto simp: segment_ok_def valid_fixed_segment_def append_path_encoded_eq encoded_literals
      is_path_literal_def [abs_def])

lemma append_segments_ok:
  "\<forall>seg \<in> set segs. segment_ok arguments seg \<Longrightarrow>
     append_segments [] segs arguments = encoded_path (map (segment_value arguments) segs)"
  by (induction segs)
    (simp_all add: append_segments_eq encoded_path_def append_segment_ok)

section \<open>Bodies\<close>

text \<open>
  Where a value ends inside a JSON body: a number ends at the first byte that is not a digit or a
  sign, so a plan keeps a separator after each field, as the compiler's rendering does.
\<close>

definition number_byte :: "u8 \<Rightarrow> bool" where
  "number_byte c \<longleftrightarrow> (c \<ge> 48 \<and> c \<le> 57) \<or> c = 45"

fun wf_argument :: "argument_value \<Rightarrow> bool" where
  "wf_argument (Integer digits) \<longleftrightarrow> digits \<noteq> [] \<and> list_all number_byte digits"
| "wf_argument _ = True"

definition clear_of_number :: "bytes \<Rightarrow> bool" where
  "clear_of_number r = (case r of [] \<Rightarrow> True | c # _ \<Rightarrow> \<not> number_byte c)"

fun ends_field :: "json_piece list \<Rightarrow> bool" where
  "ends_field [] = True"
| "ends_field (JsonRaw (c # _) # _) = (\<not> number_byte c)"
| "ends_field _ = False"

fun json_separated :: "json_piece list \<Rightarrow> bool" where
  "json_separated [] = True"
| "json_separated (JsonField f # qs) = (ends_field qs \<and> json_separated qs)"
| "json_separated (_ # qs) = json_separated qs"

lemma number_split:
  assumes "list_all number_byte xs" "list_all number_byte ys"
    and "clear_of_number r" "clear_of_number s" and "xs @ r = ys @ s"
  shows "xs = ys \<and> r = s"
proof -
  have take: "takeWhile number_byte (zs @ t) = zs"
    if "list_all number_byte zs" "clear_of_number t" for zs t
    using that by (cases t) (simp_all add: list_all_iff clear_of_number_def)
  then have "xs = ys" using assms by metis
  with assms(5) show ?thesis by simp
qed

lemma json_value_shape:
  assumes "wf_argument v"
  obtains (string) t where "v = Text t"
      "append_json_argument [] v = 34 # encoded (append_json_byte []) t @ [34]"
  | (number) c ds where "v = Integer (c # ds)" "number_byte c" "list_all number_byte ds"
      "append_json_argument [] v = c # ds"
  | (yes) "v = Boolean True" "append_json_argument [] v = [116, 114, 117, 101]"
  | (no) "v = Boolean False" "append_json_argument [] v = [102, 97, 108, 115, 101]"
proof (cases v)
  case (Integer digits)
  then show ?thesis using assms number by (cases digits) auto
next
  case (Boolean b)
  then show ?thesis using yes no by (cases b) auto
qed (use string in \<open>auto simp: append_json_string_eq\<close>)

lemma number_byte_heads: "\<not> number_byte 34" "\<not> number_byte 116" "\<not> number_byte 102"
  by (simp_all add: number_byte_def)

lemma json_value_split:
  assumes eq: "append_json_argument [] v @ r = append_json_argument [] w @ s"
    and "wf_argument v" and w: "wf_argument w" and "clear_of_number r" "clear_of_number s"
  shows "v = w \<and> r = s"
  using \<open>wf_argument v\<close>
proof (cases rule: json_value_shape)
  case (string t)
  from w show ?thesis
  proof (cases rule: json_value_shape)
    case s: (string u)
    then have "encoded (append_json_byte []) t @ 34 # r = encoded (append_json_byte []) u @ 34 # s"
      using eq string by simp
    from json_code.encoded_split [OF this] show ?thesis using string s by simp
  qed (use eq string number_byte_heads in auto)
next
  case (number c ds)
  from w show ?thesis
  proof (cases rule: json_value_shape)
    case n: (number d es)
    then show ?thesis
      using eq number assms(4,5) number_split [of "c # ds" "d # es" r s] by simp
  qed (use eq number number_byte_heads in auto)
next
  case yes
  from w show ?thesis
    by (cases rule: json_value_shape) (use eq yes number_byte_heads in auto)
next
  case no
  from w show ?thesis
    by (cases rule: json_value_shape) (use eq no number_byte_heads in auto)
qed

lemma clear_after_field:
  "ends_field qs \<Longrightarrow>
     clear_of_number (concat (map (\<lambda>q. append_json_piece [] q arguments echo) qs))"
  by (cases qs rule: ends_field.cases) (simp_all add: clear_of_number_def)

lemma json_pieces_determine:
  assumes "json_separated qs"
    and "json_pieces_valid qs args" "json_pieces_valid qs args'"
    and "list_all wf_argument args" "list_all wf_argument args'"
    and "concat (map (\<lambda>q. append_json_piece [] q args echo) qs)
       = concat (map (\<lambda>q. append_json_piece [] q args' echo') qs)"
  shows "(\<forall>f. JsonField f \<in> set qs \<longrightarrow> args ! f = args' ! f) \<and> (JsonEcho \<in> set qs \<longrightarrow> echo = echo')"
  using assms(1-3,6)
proof (induction qs)
  case (Cons q qs)
  show ?case
  proof (cases q)
    case (JsonRaw bs)
    then show ?thesis using Cons by simp
  next
    case (JsonField f)
    let ?r = "concat (map (\<lambda>q. append_json_piece [] q args echo) qs)"
    let ?s = "concat (map (\<lambda>q. append_json_piece [] q args' echo') qs)"
    have bounds: "f < length args" "f < length args'"
      using Cons.prems(2,3) JsonField by (simp_all split: if_splits)
    then have "append_json_argument [] (args ! f) @ ?r = append_json_argument [] (args' ! f) @ ?s"
      using Cons.prems(4) JsonField by simp
    moreover have "wf_argument (args ! f)" "wf_argument (args' ! f)"
      using bounds assms(4,5) by (simp_all add: list_all_length)
    moreover have "clear_of_number ?r" "clear_of_number ?s"
      using Cons.prems(1) JsonField by (simp_all add: clear_after_field)
    ultimately have "args ! f = args' ! f \<and> ?r = ?s" by (rule json_value_split)
    then show ?thesis using Cons JsonField by (auto split: if_splits)
  next
    case JsonEcho
    let ?r = "concat (map (\<lambda>q. append_json_piece [] q args echo) qs)"
    let ?s = "concat (map (\<lambda>q. append_json_piece [] q args' echo') qs)"
    have "encoded (append_json_byte []) echo @ 34 # ?r = encoded (append_json_byte []) echo' @ 34 # ?s"
      using Cons.prems(4) JsonEcho by (simp add: append_json_string_eq)
    then have both: "echo = echo' \<and> 34 # ?r = 34 # ?s" by (rule json_code.encoded_split) simp_all
    then have same: "echo = echo'" by (rule conjunct1)
    have rest: "?r = ?s" using conjunct2 [OF both] by (rule list.inject [THEN iffD1, THEN conjunct2])
    have "\<forall>f. JsonField f \<in> set qs \<longrightarrow> args ! f = args' ! f"
      using Cons.IH [OF _ _ _ rest] Cons.prems(1-3) JsonEcho by simp
    with same show ?thesis using JsonEcho by simp
  qed
qed simp

text \<open>
  The bytes a form piece encodes, and the separator the compiler keeps after every encoded piece.
\<close>

fun form_content :: "argument_value list \<Rightarrow> bytes \<Rightarrow> form_piece \<Rightarrow> bytes" where
  "form_content args echo (FormRaw bs) = []"
| "form_content args echo (FormField f) =
     (case args ! f of Text t \<Rightarrow> t | Integer t \<Rightarrow> t | Boolean _ \<Rightarrow> [])"
| "form_content args echo (FormJson qs) = append_json_pieces [] qs args echo"
| "form_content args echo FormEcho = echo"

fun ends_member :: "form_piece list \<Rightarrow> bool" where
  "ends_member [] = True"
| "ends_member (FormRaw (c # _) # _) = (c = 38)"
| "ends_member _ = False"

fun form_separated :: "form_piece list \<Rightarrow> bool" where
  "form_separated [] = True"
| "form_separated (FormRaw _ # qs) = form_separated qs"
| "form_separated (_ # qs) = (ends_member qs \<and> form_separated qs)"

lemma append_form_piece_content:
  "form_piece_valid q args \<Longrightarrow> append_form_piece [] q args echo =
     (case q of FormRaw bs \<Rightarrow> bs | _ \<Rightarrow> encoded (append_form_byte []) (form_content args echo q))"
  by (cases q) (auto simp: append_form_encoded_eq split: argument_value.splits)

lemma form_next_after_piece:
  "ends_member qs \<Longrightarrow> form_next (concat (map (\<lambda>q. append_form_piece [] q args echo) qs)) = None"
  by (cases qs rule: ends_member.cases) (simp_all add: is_form_literal_def is_alphanumeric_def)

lemma form_pieces_determine:
  assumes "form_separated qs"
    and "form_pieces_valid qs args" "form_pieces_valid qs args'"
    and "concat (map (\<lambda>q. append_form_piece [] q args echo) qs)
       = concat (map (\<lambda>q. append_form_piece [] q args' echo') qs)"
  shows "\<forall>q \<in> set qs. form_content args echo q = form_content args' echo' q"
  using assms
proof (induction qs)
  case (Cons q qs)
  let ?r = "concat (map (\<lambda>q. append_form_piece [] q args echo) qs)"
  let ?s = "concat (map (\<lambda>q. append_form_piece [] q args' echo') qs)"
  have valid: "form_piece_valid q args" "form_piece_valid q args'"
    using Cons.prems by (simp_all split: if_splits)
  have "form_content args echo q = form_content args' echo' q \<and> ?r = ?s \<and> form_separated qs"
  proof (cases "\<exists>bs. q = FormRaw bs")
    case True
    then show ?thesis using Cons.prems(1,4) by auto
  next
    case False
    have "append_form_piece [] q args echo @ ?r = append_form_piece [] q args' echo' @ ?s"
      using Cons.prems(4) by simp
    then have "encoded (append_form_byte []) (form_content args echo q) @ ?r
        = encoded (append_form_byte []) (form_content args' echo' q) @ ?s"
      using False unfolding append_form_piece_content [OF valid(1)] append_form_piece_content [OF valid(2)]
      by (cases q) simp_all
    note split = form_code.encoded_split [OF this]
    have sep: "ends_member qs" "form_separated qs" using Cons.prems(1) False by (cases q; auto)+
    have "form_content args echo q = form_content args' echo' q \<and> ?r = ?s"
      by (rule split) (rule form_next_after_piece [OF sep(1)])+
    with sep(2) show ?thesis by blast
  qed
  then show ?case using Cons by (simp split: if_splits)
qed simp

section \<open>Properties\<close>

text \<open>
  C23: a URL that is built is the pinned origin followed by a
  path of at most \<open>MAX_PATH_BYTES\<close> bytes that reads back as exactly the declared segments with the
  verified values, in order. No value can add or remove a segment, start a query or a fragment, or
  be empty, \<open>.\<close> or \<open>..\<close>.
\<close>

theorem url_has_exactly_the_declared_segments:
  assumes "build_url origin path arguments = Ok url"
    and "\<forall>v. SegmentFixed v \<in> set path \<longrightarrow> valid_fixed_segment v"
  shows "\<exists>p. url = origin @ p \<and> length p \<le> MAX_PATH_BYTES
    \<and> read_path (length p) p = Some (map (segment_value arguments) path)
    \<and> (\<forall>b \<in> set p. is_path_literal b \<or> b = 37 \<or> b = 47)
    \<and> (\<forall>v \<in> set (map (segment_value arguments) path). v \<notin> {[], [46], [46, 46]})"
proof -
  let ?vs = "map (segment_value arguments) path"
  have ok: "\<forall>seg \<in> set path. segment_ok arguments seg"
    using assms by (auto simp: build_url_def path_error_None_iff segment_error_None_iff segment_ok_def
        split: option.splits segment_plan.splits)
  then have url: "url = origin @ encoded_path ?vs" "length (encoded_path ?vs) \<le> MAX_PATH_BYTES"
    using assms(1) by (auto simp: build_url_def append_segments_ok Let_def split: option.splits if_splits)
  have "length vs \<le> length (encoded_path vs)" for vs
    by (induction vs) (simp_all add: encoded_path_def)
  then have "read_path (length (encoded_path ?vs)) (encoded_path ?vs) = Some ?vs"
    by (rule read_encoded_path)
  moreover have "is_path_literal b \<or> b = 37 \<or> b = 47" if "b \<in> set (encoded_path ?vs)" for b
    using that encoded_path_bytes by (auto simp: encoded_path_def split: if_splits)
  moreover have "\<forall>v \<in> set ?vs. v \<notin> {[], [46], [46, 46]}"
    using ok segment_ok_value by fastforce
  ultimately show ?thesis using url by blast
qed

definition sample_arguments :: "argument_value list" where
  "sample_arguments = [Text [97, 47, 46, 46, 63], Integer [45, 52, 50], Text [34, 10, 38]]"

definition sample_path :: "segment_plan list" where
  "sample_path = [SegmentFixed [118, 49], SegmentField 0]"

theorem url_has_exactly_the_declared_segments_witness:
  "\<exists>p. [104, 47, 118, 49, 47, 97, 37, 50, 70, 46, 46, 37, 51, 70] = [104] @ p
    \<and> read_path (length p) p = Some [[118, 49], [97, 47, 46, 46, 63]]"
proof -
  have "build_url [104] sample_path sample_arguments
      = Ok [104, 47, 118, 49, 47, 97, 37, 50, 70, 46, 46, 37, 51, 70]"
    by code_simp
  moreover have "\<forall>v. SegmentFixed v \<in> set sample_path \<longrightarrow> valid_fixed_segment v"
    by (simp add: sample_path_def valid_fixed_segment_def is_alphanumeric_def)
  ultimately have "\<exists>p. [104, 47, 118, 49, 47, 97, 37, 50, 70, 46, 46, 37, 51, 70] = [104] @ p
    \<and> length p \<le> MAX_PATH_BYTES
    \<and> read_path (length p) p = Some (map (segment_value sample_arguments) sample_path)
    \<and> (\<forall>b \<in> set p. is_path_literal b \<or> b = 37 \<or> b = 47)
    \<and> (\<forall>v \<in> set (map (segment_value sample_arguments) sample_path). v \<notin> {[], [46], [46, 46]})"
    by (rule url_has_exactly_the_declared_segments)
  moreover have "map (segment_value sample_arguments) sample_path = [[118, 49], [97, 47, 46, 46, 63]]"
    by (simp add: sample_path_def sample_arguments_def)
  ultimately show ?thesis by metis
qed

text \<open>
  C24: two sets of verified arguments that give one JSON body under
  one plan agree on every argument the plan uses, in kind and value, and on the echo token: no text
  value can forge another field, end its string early or stand for a number or a boolean.
\<close>

theorem json_body_determines_its_values:
  assumes "build_body (BodyJson pieces) args echo = Ok body"
    and "build_body (BodyJson pieces) args' echo' = Ok body"
    and "json_separated pieces" and "list_all wf_argument args" and "list_all wf_argument args'"
  shows "(\<forall>f. JsonField f \<in> set pieces \<longrightarrow> args ! f = args' ! f)
    \<and> (JsonEcho \<in> set pieces \<longrightarrow> echo = echo')"
  using assms
  by (intro json_pieces_determine)
    (auto simp: build_body_def append_json_pieces_eq split: if_splits)

definition sample_json :: "json_piece list" where
  "sample_json = [JsonRaw [123, 34, 97, 34, 58], JsonField 2, JsonRaw [44, 34, 98, 34, 58], JsonField 1,
     JsonRaw [125]]"

definition sample_others :: "argument_value list" where
  "sample_others = [Boolean True, Integer [45, 52, 50], Text [34, 10, 38]]"

theorem json_body_determines_its_values_witness:
  "build_body (BodyJson sample_json) sample_others [7]
     = Ok [123, 34, 97, 34, 58, 34, 92, 34, 92, 110, 38, 34, 44, 34, 98, 34, 58, 45, 52, 50, 125]
   \<and> sample_arguments ! 1 = sample_others ! 1 \<and> sample_arguments ! 2 = sample_others ! 2"
proof -
  let ?body = "[123, 34, 97, 34, 58, 34, 92, 34, 92, 110, 38, 34, 44, 34, 98, 34, 58, 45, 52, 50, 125]"
  have body: "build_body (BodyJson sample_json) sample_arguments [] = Ok ?body"
    "build_body (BodyJson sample_json) sample_others [7] = Ok ?body" by code_simp+
  have sep: "json_separated sample_json" "list_all wf_argument sample_arguments" "list_all wf_argument sample_others"
    by (simp_all add: sample_json_def sample_arguments_def sample_others_def number_byte_def)
  from json_body_determines_its_values [OF body sep] body(2) show ?thesis
    by (simp add: sample_json_def)
qed

text \<open>
  two sets of verified arguments that give one form body under
  one plan agree on the bytes of every member, echo included, and on every argument of a nested
  JSON value: no value can add a member or change another one.
\<close>

lemma form_body_determines_its_values:
  assumes "build_body (BodyForm pieces) args echo = Ok body"
    and "build_body (BodyForm pieces) args' echo' = Ok body" and "form_separated pieces"
  shows "(\<forall>q \<in> set pieces. form_content args echo q = form_content args' echo' q)
    \<and> (\<forall>qs f. FormJson qs \<in> set pieces \<longrightarrow> json_separated qs \<longrightarrow> list_all wf_argument args \<longrightarrow>
         list_all wf_argument args' \<longrightarrow> JsonField f \<in> set qs \<longrightarrow> args ! f = args' ! f)"
proof -
  have valid: "form_pieces_valid pieces args" "form_pieces_valid pieces args'"
    using assms(1,2) by (auto simp: build_body_def split: if_splits)
  have contents: "\<forall>q \<in> set pieces. form_content args echo q = form_content args' echo' q"
    using assms by (intro form_pieces_determine)
      (auto simp: build_body_def append_form_pieces_eq split: if_splits)
  have nested: "json_pieces_valid qs as" if "FormJson qs \<in> set pieces" "form_pieces_valid pieces as" for qs as
    using that by (induction pieces) (auto split: if_splits)
  have "args ! f = args' ! f" if "FormJson qs \<in> set pieces" "json_separated qs" "list_all wf_argument args"
    "list_all wf_argument args'" "JsonField f \<in> set qs" for qs f
    using json_pieces_determine [of qs args args' echo echo'] that contents nested valid
    by (fastforce simp: append_json_pieces_eq)
  with contents show ?thesis by blast
qed

theorem form_body_determines_its_values_witness:
  "build_body (BodyForm [FormRaw [97, 61], FormField 2]) sample_others [7]
     = Ok [97, 61, 37, 50, 50, 37, 48, 65, 37, 50, 54]
   \<and> form_content sample_arguments [] (FormField 2) = form_content sample_others [7] (FormField 2)"
proof -
  let ?plan = "[FormRaw [97, 61], FormField 2]"
  let ?body = "[97, 61, 37, 50, 50, 37, 48, 65, 37, 50, 54]"
  have body: "build_body (BodyForm ?plan) sample_arguments [] = Ok ?body"
    "build_body (BodyForm ?plan) sample_others [7] = Ok ?body" by code_simp+
  from form_body_determines_its_values [OF body] body(2) show ?thesis by simp
qed

text \<open>The account-scope headers a plan adds, and when it can add them.\<close>

definition scope_admitted :: "account_scope_plan option \<Rightarrow> argument_value list \<Rightarrow> bool" where
  "scope_admitted scope arguments =
     (case scope of
        None \<Rightarrow> True
      | Some s \<Rightarrow> as_field s < length arguments
          \<and> (case arguments ! as_field s of Text v \<Rightarrow> scope_value_valid (as_grammar s) v | _ \<Rightarrow> False))"

definition scope_headers :: "account_scope_plan option \<Rightarrow> argument_value list \<Rightarrow> header list" where
  "scope_headers scope arguments =
     (case scope of
        None \<Rightarrow> []
      | Some s \<Rightarrow> [\<lparr> h_name = as_name s,
                     h_value = (case arguments ! as_field s of Text v \<Rightarrow> v | _ \<Rightarrow> []) \<rparr>])"

definition body_bytes :: "body_plan \<Rightarrow> argument_value list \<Rightarrow> bytes \<Rightarrow> bytes" where
  "body_bytes plan arguments echo =
     (case plan of BodyJson qs \<Rightarrow> append_json_pieces [] qs arguments echo
      | BodyForm qs \<Rightarrow> append_form_pieces [] qs arguments echo)"

definition body_arguments_valid :: "body_plan \<Rightarrow> argument_value list \<Rightarrow> bool" where
  "body_arguments_valid plan arguments =
     (case plan of BodyJson qs \<Rightarrow> json_pieces_valid qs arguments
      | BodyForm qs \<Rightarrow> form_pieces_valid qs arguments)"

lemma build_url_Ok_iff:
  "build_url origin path arguments = Ok url \<longleftrightarrow>
     path_error path arguments = None
     \<and> length (append_segments [] path arguments) \<le> MAX_PATH_BYTES
     \<and> url = origin @ append_segments [] path arguments"
  by (auto simp: build_url_def Let_def split: option.splits if_splits)

lemma build_body_Ok_iff:
  "build_body plan arguments echo = Ok body \<longleftrightarrow>
     body_arguments_valid plan arguments \<and> body = body_bytes plan arguments echo
     \<and> 0 < length body \<and> length body \<le> MAX_BODY_BYTES"
  by (cases plan) (auto simp: build_body_def body_arguments_valid_def body_bytes_def)

lemma action_headers_Ok_iff:
  "action_headers plan arguments = Ok headers \<longleftrightarrow>
     scope_admitted (hp_account_scope plan) arguments
     \<and> headers = hp_versions plan @ scope_headers (hp_account_scope plan) arguments"
  by (auto simp: action_headers_def account_scope_header_def scope_admitted_def scope_headers_def
      split: option.splits argument_value.splits if_splits)

lemma scope_value_bytes: "scope_value_valid g v \<Longrightarrow> list_all is_account_byte v"
proof (cases g)
  case StripeAccount
  assume valid: "scope_value_valid g v"
  then have "v = take 5 v @ drop 5 v" and "take 5 v = [97, 99, 99, 116, 95]"
    by (auto simp: StripeAccount list_eq_iff_nth_eq nth_Cons' less_Suc_eq numeral_eq_Suc)
  moreover have "list_all is_account_byte (drop 5 v)"
    using valid by (simp add: StripeAccount account_bytes_valid_def account_bytes_from_iff)
  moreover have "list_all is_account_byte [97, 99, 99, 116, 95]"
    by (simp add: is_account_byte_def is_alphanumeric_def)
  ultimately show ?thesis by (metis list_all_append)
qed


definition sample_write :: write_plan where
  "sample_write =
     \<lparr> wp_method = Post, wp_origin = [104], wp_path = sample_path,
       wp_headers = \<lparr> hp_versions = [\<lparr> h_name = [86], h_value = [49] \<rparr>],
         hp_account_scope = Some \<lparr> as_name = [65], as_field = 3, as_grammar = StripeAccount \<rparr> \<rparr>,
       wp_idempotency_header = Some [73], wp_body = BodyJson sample_json \<rparr>"

definition sample_account :: bytes where
  "sample_account = [97, 99, 99, 116, 95, 49, 50, 51, 52, 53, 54, 55, 56]"


text \<open>
  C13: a constructed write has the approved method, the pinned origin,
  and as headers the fixed versions, the account scope when declared and the derived idempotency
  key when declared, in that order and nothing else; no byte of the account scope can end or add a
  header line, and the body is within its bound.
\<close>

theorem constructed_write_is_closed:
  assumes "construct_write plan arguments echo key = Ok request"
  shows "br_method request = wp_method plan \<and> prefix (wp_origin plan) (br_url request)
    \<and> br_headers request = hp_versions (wp_headers plan)
        @ scope_headers (hp_account_scope (wp_headers plan)) arguments
        @ (case wp_idempotency_header plan of None \<Rightarrow> []
           | Some name \<Rightarrow> [\<lparr> h_name = name, h_value = key \<rparr>])
    \<and> (\<forall>h \<in> set (scope_headers (hp_account_scope (wp_headers plan)) arguments).
         13 \<le> length (h_value h) \<and> length (h_value h) \<le> 64 \<and> list_all is_account_byte (h_value h))
    \<and> length (br_body request) \<le> MAX_BODY_BYTES \<and> br_body request \<noteq> []"
proof -
  have scope: "list_all is_account_byte v \<and> 13 \<le> length v \<and> length v \<le> 64"
    if "scope_value_valid g v" for g v
    using that scope_value_bytes [OF that] by (cases g) simp
  then show ?thesis
    using assms
    by (auto simp: construct_write_def and_then_Inr_iff build_url_Ok_iff build_body_Ok_iff
        action_headers_Ok_iff scope_admitted_def scope_headers_def
        split: option.splits argument_value.splits)
qed

theorem constructed_write_is_closed_witness:
  "\<exists>request. construct_write sample_write (sample_arguments @ [Text sample_account]) [] [57] = Ok request
    \<and> br_headers request = [\<lparr> h_name = [86], h_value = [49] \<rparr>,
        \<lparr> h_name = [65], h_value = sample_account \<rparr>, \<lparr> h_name = [73], h_value = [57] \<rparr>]"
proof -
  have "case_sum (\<lambda>_. False) (\<lambda>_. True)
      (construct_write sample_write (sample_arguments @ [Text sample_account]) [] [57])"
    by code_simp
  then obtain request
    where ok: "construct_write sample_write (sample_arguments @ [Text sample_account]) [] [57] = Ok request"
    by (cases "construct_write sample_write (sample_arguments @ [Text sample_account]) [] [57]") simp_all
  from constructed_write_is_closed [OF ok] show ?thesis
    using ok by (auto simp: sample_write_def sample_arguments_def scope_headers_def)
qed

end
