(* ===== verification/Gateway_Bounds.thy ===== *)
theory Gateway_Bounds
  imports Policy_Kernel "HOL-Library.List_Lexorder"
begin

text \<open>
  Bounded policy in the gateway path, \<open>product/runtime/auths-gateway/src/bounds.rs\<close>: policies as the
  registered evaluator reads them, the admission of a verified action under every link of its
  bounded branch, and the count and sum counters the claim reserves. Text is byte strings, ordered
  lexicographically as Rust orders them. Parameters: SHA-256 (the \<open>sha2\<close> crate) is \<open>sha256\<close>, and the
  verified facts of the action (the MCP profile) are \<open>action_fact\<close>. Refusal codes are constructors.
\<close>

section \<open>Names and values\<close>

text \<open>
  \<open>parse_bounded\<close> of \<open>core/crates/auths-model/src/lib.rs\<close> on UTF-8 text: no control character and no
  white space. The characters are told apart by their UTF-8 bytes; the two- and three-byte ones
  are U+0080 to U+00A0, U+1680, U+2000 to U+200A, U+2028, U+2029, U+202F, U+205F and U+3000.
\<close>

fun has_control_or_space :: "bytes \<Rightarrow> bool" where
  "has_control_or_space [] = False"
| "has_control_or_space (b # rest) =
     (b \<le> 32 \<or> b = 127
      \<or> (b = 0xC2 \<and> (case rest of c # _ \<Rightarrow> c \<ge> 0x80 \<and> c \<le> 0xA0 | [] \<Rightarrow> False))
      \<or> (b = 0xE1 \<and> (case rest of c # d # _ \<Rightarrow> c = 0x9A \<and> d = 0x80 | _ \<Rightarrow> False))
      \<or> (b = 0xE2 \<and> (case rest of
            c # d # _ \<Rightarrow>
              (c = 0x80 \<and> (d \<le> 0x8A \<or> d = 0xA8 \<or> d = 0xA9 \<or> d = 0xAF)) \<or> (c = 0x81 \<and> d = 0x9F)
          | _ \<Rightarrow> False))
      \<or> (b = 0xE3 \<and> (case rest of c # d # _ \<Rightarrow> c = 0x80 \<and> d = 0x80 | _ \<Rightarrow> False))
      \<or> has_control_or_space rest)"

definition parse_bounded :: "bytes \<Rightarrow> nat \<Rightarrow> 'e \<Rightarrow> (bytes, 'e) result" where
  "parse_bounded v maximum error =
     (if v = [] \<or> length v > maximum \<or> has_control_or_space v then Err error else Ok v)"

datatype bounded_policy_error = InvalidPolicy

definition fact_name_parse :: "bytes \<Rightarrow> (bytes, bounded_policy_error) result" where
  "fact_name_parse v = parse_bounded v 128 InvalidPolicy"

definition MAX_WINDOW_SECONDS :: u64 where
  "MAX_WINDOW_SECONDS = 31 * 86400"

definition MAX_WINDOW_COUNT :: u64 where
  "MAX_WINDOW_COUNT = 4294967296"

definition MAX_SUM_LIMIT :: u64 where
  "MAX_SUM_LIMIT = 9007199254740991"

definition MAX_LISTED_VALUES :: nat where
  "MAX_LISTED_VALUES = 16"

definition MAX_LISTED_VALUE_BYTES :: nat where
  "MAX_LISTED_VALUE_BYTES = 64"

definition MAX_BOUNDED_LINKS :: nat where
  "MAX_BOUNDED_LINKS = 16"

definition valid_listed_value :: "bytes \<Rightarrow> bool" where
  "valid_listed_value v \<longleftrightarrow>
     1 \<le> length v \<and> length v \<le> MAX_LISTED_VALUE_BYTES
     \<and> list_all (\<lambda>byte. 0x21 \<le> byte \<and> byte \<le> 0x7e) v"

record listed_values =
  lv_argument :: bytes
  lv_values :: "bytes list"

definition listed_from_sorted :: "bytes \<Rightarrow> bytes list \<Rightarrow> (listed_values, bounded_policy_error) result" where
  "listed_from_sorted argument vs =
     (if \<not> (1 \<le> length vs \<and> length vs \<le> MAX_LISTED_VALUES) \<or> \<not> list_all valid_listed_value vs
         \<or> \<not> successively (<) vs
      then Err InvalidPolicy
      else and_then (fact_name_parse argument) (\<lambda>name. Ok \<lparr> lv_argument = name, lv_values = vs \<rparr>))"

definition listed_new :: "bytes \<Rightarrow> bytes list \<Rightarrow> (listed_values, bounded_policy_error) result" where
  "listed_new argument vs = listed_from_sorted argument (sort vs)"

definition lists :: "listed_values \<Rightarrow> bytes \<Rightarrow> bool" where
  "lists l v = list_ex (\<lambda>listed. listed = v) (lv_values l)"

definition listed_members :: "listed_values \<Rightarrow> value_list" where
  "listed_members l = \<lparr> vl_argument = lv_argument l, vl_values = lv_values l \<rparr>"

section \<open>Policies\<close>

record ceiling_policy =
  cp_argument :: bytes
  cp_ceiling :: u64
  cp_window_seconds :: u64
  cp_max_count :: u64
  cp_sum_limit :: "u64 option"
  cp_partition :: "listed_values option"
  cp_scope :: "listed_values option"

definition policy_new ::
  "bytes \<Rightarrow> u64 \<Rightarrow> u64 \<Rightarrow> u64 \<Rightarrow> (ceiling_policy, bounded_policy_error) result" where
  "policy_new argument ceiling window_seconds max_count =
     (if \<not> (1 \<le> window_seconds \<and> window_seconds \<le> MAX_WINDOW_SECONDS)
         \<or> \<not> (1 \<le> max_count \<and> max_count \<le> MAX_WINDOW_COUNT)
      then Err InvalidPolicy
      else and_then (fact_name_parse argument) (\<lambda>name.
        Ok \<lparr> cp_argument = name, cp_ceiling = ceiling, cp_window_seconds = window_seconds,
             cp_max_count = max_count, cp_sum_limit = None, cp_partition = None, cp_scope = None \<rparr>))"

definition with_sum ::
  "ceiling_policy \<Rightarrow> u64 \<Rightarrow> listed_values option \<Rightarrow> (ceiling_policy, bounded_policy_error) result" where
  "with_sum p limit part =
     (if \<not> (1 \<le> limit \<and> limit \<le> MAX_SUM_LIMIT)
         \<or> (case part of None \<Rightarrow> False | Some l \<Rightarrow> lv_argument l = cp_argument p)
      then Err InvalidPolicy
      else Ok (p\<lparr> cp_sum_limit := Some limit, cp_partition := part \<rparr>))"

definition with_scope ::
  "ceiling_policy \<Rightarrow> listed_values \<Rightarrow> (ceiling_policy, bounded_policy_error) result" where
  "with_scope p scope =
     (if lv_argument scope = cp_argument p then Err InvalidPolicy
      else Ok (p\<lparr> cp_scope := Some scope \<rparr>))"

definition members :: "ceiling_policy \<Rightarrow> policy_members" where
  "members p =
     \<lparr> pm_argument = cp_argument p, pm_ceiling = cp_ceiling p, pm_window = cp_window_seconds p,
       pm_max_count = cp_max_count p,
       pm_sum = map_option (\<lambda>limit. \<lparr> sb_limit = limit,
                                       sb_partition = map_option listed_members (cp_partition p) \<rparr>)
                  (cp_sum_limit p),
       pm_scope = map_option listed_members (cp_scope p) \<rparr>"

definition tightens :: "ceiling_policy \<Rightarrow> ceiling_policy \<Rightarrow> bool" where
  "tightens p parent = argument_policy_tightens (members p) (members parent)"

section \<open>Counters\<close>

record bound_link =
  bl_subject :: bytes
  bl_policy :: ceiling_policy

record count_counter =
  cc_key :: bytes
  cc_capacity :: u64

record sum_counter =
  sc_key :: bytes
  sc_capacity :: u64
  sc_slots :: u64

record bound_admission =
  ba_links :: "bound_link list"
  ba_argument :: u64
  ba_window_seconds :: u64
  ba_window_index :: u64
  ba_window_end :: u64
  ba_counts :: "count_counter list"
  ba_sums :: "sum_counter list"

definition expires_at :: "bound_admission \<Rightarrow> u64" where
  "expires_at b = saturating_add (ba_window_end b) (ba_window_seconds b)"

record sum_requirement =
  sr_argument :: bytes
  sr_partition :: "bytes option"

definition counter_key :: "(bytes \<Rightarrow> bytes) \<Rightarrow> bytes \<Rightarrow> bytes list \<Rightarrow> u64 \<Rightarrow> u64 \<Rightarrow> bytes" where
  "counter_key sha256 domain components window_seconds index =
     sha256 (domain @ concat (map (\<lambda>c. be_bytes (word_of_nat (length c) :: u64) @ c) components)
             @ be_bytes window_seconds @ be_bytes index)"

text \<open>The literals of the sources, as bytes.\<close>

definition ARGUMENT_CEILING_EVALUATOR :: bytes where
  "ARGUMENT_CEILING_EVALUATOR = ascii ''auths.gateway.argument-ceiling-window-count/2''"

definition count_counter_key :: "(bytes \<Rightarrow> bytes) \<Rightarrow> bytes \<Rightarrow> bytes \<Rightarrow> u64 \<Rightarrow> u64 \<Rightarrow> bytes" where
  "count_counter_key sha256 namespace subject window_seconds index =
     counter_key sha256 (ascii ''auths.gateway-bounded-count/2'' @ [0])
       [namespace, subject, ARGUMENT_CEILING_EVALUATOR] window_seconds index"

definition sum_counter_key :: "(bytes \<Rightarrow> bytes) \<Rightarrow> bytes \<Rightarrow> bytes \<Rightarrow> bytes \<Rightarrow> u64 \<Rightarrow> u64 \<Rightarrow> bytes" where
  "sum_counter_key sha256 namespace subject part window_seconds index =
     counter_key sha256 (ascii ''auths.gateway-bounded-sum/1'' @ [0])
       [namespace, subject, ARGUMENT_CEILING_EVALUATOR, part] window_seconds index"

definition slot_key :: "(bytes \<Rightarrow> bytes) \<Rightarrow> bytes \<Rightarrow> bytes \<Rightarrow> u64 \<Rightarrow> bytes" where
  "slot_key sha256 domain counter slot = sha256 (domain @ counter @ be_bytes slot)"

definition count_slot_key :: "(bytes \<Rightarrow> bytes) \<Rightarrow> bytes \<Rightarrow> u64 \<Rightarrow> bytes" where
  "count_slot_key sha256 counter slot =
     slot_key sha256 (ascii ''auths.gateway-bounded-count-slot/2'' @ [0]) counter slot"

definition sum_slot_key :: "(bytes \<Rightarrow> bytes) \<Rightarrow> bytes \<Rightarrow> u64 \<Rightarrow> bytes" where
  "sum_slot_key sha256 counter slot =
     slot_key sha256 (ascii ''auths.gateway-bounded-sum-slot/1'' @ [0]) counter slot"

fun charge_count :: "bytes \<Rightarrow> u64 \<Rightarrow> count_counter list \<Rightarrow> count_counter list" where
  "charge_count key max_count [] = [\<lparr> cc_key = key, cc_capacity = max_count \<rparr>]"
| "charge_count key max_count (counter # rest) =
     (if cc_key counter = key
      then counter\<lparr> cc_capacity := min (cc_capacity counter) max_count \<rparr> # rest
      else counter # charge_count key max_count rest)"

fun charge_sum :: "bytes \<Rightarrow> u64 \<Rightarrow> u64 \<Rightarrow> sum_counter list \<Rightarrow> sum_counter list" where
  "charge_sum key limit slots [] = [\<lparr> sc_key = key, sc_capacity = limit, sc_slots = slots \<rparr>]"
| "charge_sum key limit slots (counter # rest) =
     (if sc_key counter = key
      then counter\<lparr> sc_capacity := min (sc_capacity counter) limit \<rparr> # rest
      else counter # charge_sum key limit slots rest)"

fun chain_count_counters ::
  "(bytes \<Rightarrow> bytes) \<Rightarrow> bytes \<Rightarrow> u64 \<Rightarrow> u64 \<Rightarrow> bound_link list \<Rightarrow> count_counter list \<Rightarrow> count_counter list"
where
  "chain_count_counters sha256 namespace window_seconds index [] counts = counts"
| "chain_count_counters sha256 namespace window_seconds index (link # links) counts =
     chain_count_counters sha256 namespace window_seconds index links
       (charge_count (count_counter_key sha256 namespace (bl_subject link) window_seconds index)
          (cp_max_count (bl_policy link)) counts)"

fun chain_sum_counters ::
  "(bytes \<Rightarrow> bytes) \<Rightarrow> bytes \<Rightarrow> u64 \<Rightarrow> u64 \<Rightarrow> count_counter list \<Rightarrow> (bound_link \<times> bytes) list
   \<Rightarrow> sum_counter list \<Rightarrow> sum_counter list"
where
  "chain_sum_counters sha256 namespace window_seconds index counts [] sums = sums"
| "chain_sum_counters sha256 namespace window_seconds index counts ((link, part) # rest) sums =
     chain_sum_counters sha256 namespace window_seconds index counts rest
       (case cp_sum_limit (bl_policy link) of
          None \<Rightarrow> sums
        | Some limit \<Rightarrow>
            (let count = count_counter_key sha256 namespace (bl_subject link) window_seconds index;
                 slots = (case find (\<lambda>counter. cc_key counter = count) counts of
                            None \<Rightarrow> 0 | Some counter \<Rightarrow> cc_capacity counter)
             in charge_sum
                  (sum_counter_key sha256 namespace (bl_subject link) part window_seconds index)
                  limit slots sums))"

definition chain_counters ::
  "(bytes \<Rightarrow> bytes) \<Rightarrow> bound_link list \<Rightarrow> bytes list \<Rightarrow> bytes \<Rightarrow> u64 \<Rightarrow> u64
   \<Rightarrow> count_counter list \<times> sum_counter list"
where
  "chain_counters sha256 links partitions namespace window_seconds index =
     (let counts = chain_count_counters sha256 namespace window_seconds index links [];
          sums = chain_sum_counters sha256 namespace window_seconds index counts
                   (zip links partitions) []
      in (sort_key cc_key counts, sort_key sc_key sums))"

section \<open>Admission\<close>

datatype fact_value = FactUint u64 | FactText bytes | FactOther

datatype policy_refusal =
    TooManyBounds | SumRequired | Expanded | ArgumentUnavailable | AboveCeiling | ScopeDenied
  | PartitionDenied | AboveSumLimit | EvaluatorMismatch | ClockUnavailable | AccountScopeUnbound

definition text_argument ::
  "(bytes \<Rightarrow> fact_value option) \<Rightarrow> bytes \<Rightarrow> (bytes, policy_refusal) result" where
  "text_argument action_fact argument =
     (case fact_name_parse argument of
        Inl _ \<Rightarrow> Err ArgumentUnavailable
      | Inr name \<Rightarrow>
          (case action_fact name of
             Some (FactText t) \<Rightarrow> Ok t
           | _ \<Rightarrow> Err ArgumentUnavailable))"

fun bounded_argument_from ::
  "(bytes \<Rightarrow> fact_value option) \<Rightarrow> u64 option \<Rightarrow> bound_link list \<Rightarrow> (u64, policy_refusal) result"
where
  "bounded_argument_from action_fact argument [] = ok_or argument ArgumentUnavailable"
| "bounded_argument_from action_fact argument (link # links) =
     (case action_fact (cp_argument (bl_policy link)) of
        Some (FactUint v) \<Rightarrow>
          if (case argument of None \<Rightarrow> False | Some previous \<Rightarrow> previous \<noteq> v)
          then Err ArgumentUnavailable
          else if ceiling_count_code v (cp_ceiling (bl_policy link)) 0 (cp_max_count (bl_policy link))
                  = CeilingAboveCeiling
          then Err AboveCeiling
          else bounded_argument_from action_fact (Some v) links
      | _ \<Rightarrow> Err ArgumentUnavailable)"

definition bounded_argument ::
  "bound_link list \<Rightarrow> (bytes \<Rightarrow> fact_value option) \<Rightarrow> (u64, policy_refusal) result" where
  "bounded_argument links action_fact = bounded_argument_from action_fact None links"

definition link_partition ::
  "(bytes \<Rightarrow> fact_value option) \<Rightarrow> bound_link \<Rightarrow> (bytes, policy_refusal) result" where
  "link_partition action_fact link =
     and_then
       (case cp_scope (bl_policy link) of
          None \<Rightarrow> Ok ()
        | Some scope \<Rightarrow>
            and_then (text_argument action_fact (lv_argument scope)) (\<lambda>v.
              if \<not> lists scope v then Err ScopeDenied else Ok ()))
       (\<lambda>_. case cp_partition (bl_policy link) of
              None \<Rightarrow> Ok []
            | Some part \<Rightarrow>
                and_then (text_argument action_fact (lv_argument part)) (\<lambda>v.
                  if \<not> lists part v then Err PartitionDenied else Ok v))"

fun listed_arguments ::
  "bound_link list \<Rightarrow> (bytes \<Rightarrow> fact_value option) \<Rightarrow> (bytes list, policy_refusal) result" where
  "listed_arguments [] action_fact = Ok []"
| "listed_arguments (link # links) action_fact =
     and_then (link_partition action_fact link) (\<lambda>part.
     and_then (listed_arguments links action_fact) (\<lambda>partitions. Ok (part # partitions)))"

definition smallest_sum :: "bound_link list \<Rightarrow> u64 option" where
  "smallest_sum links =
     (case List.map_filter (\<lambda>link. cp_sum_limit (bl_policy link)) links of
        [] \<Rightarrow> None
      | limit # limits \<Rightarrow> Some (fold min limits limit))"

definition satisfies_requirement :: "sum_requirement \<Rightarrow> bound_link \<Rightarrow> bool" where
  "satisfies_requirement requirement link \<longleftrightarrow>
     cp_sum_limit (bl_policy link) \<noteq> None
     \<and> cp_argument (bl_policy link) = sr_argument requirement
     \<and> map_option lv_argument (cp_partition (bl_policy link)) = sr_partition requirement"

definition window_end_of :: "u64 \<Rightarrow> u64 \<Rightarrow> u64 option" where
  "window_end_of index window_seconds =
     (case checked_add index 1 of
        None \<Rightarrow> None
      | Some next \<Rightarrow>
          (case checked_mul next window_seconds of
             None \<Rightarrow> None
           | Some end_of \<Rightarrow> if checked_add end_of window_seconds \<noteq> None then Some end_of else None))"

definition admit_policy_links ::
  "(bytes \<Rightarrow> bytes) \<Rightarrow> bound_link list \<Rightarrow> (bytes \<Rightarrow> fact_value option) \<Rightarrow> bytes
   \<Rightarrow> sum_requirement option \<Rightarrow> u64 \<Rightarrow> (bound_admission option, policy_refusal) result"
where
  "admit_policy_links sha256 links action_fact namespace requirement now =
     (if length links > MAX_BOUNDED_LINKS then Err TooManyBounds
      else case links of
        [] \<Rightarrow> (case requirement of Some _ \<Rightarrow> Err SumRequired | None \<Rightarrow> Ok None)
      | first # _ \<Rightarrow>
          (let window_seconds = cp_window_seconds (bl_policy first) in
           if \<not> successively (\<lambda>parent child. tightens (bl_policy child) (bl_policy parent)) links
           then Err Expanded
           else
             and_then (bounded_argument links action_fact) (\<lambda>argument.
             and_then (listed_arguments links action_fact) (\<lambda>partitions.
             if (case smallest_sum links of None \<Rightarrow> False | Some smallest \<Rightarrow> argument > smallest)
             then Err AboveSumLimit
             else if (case requirement of None \<Rightarrow> False
                      | Some r \<Rightarrow> \<not> list_all (satisfies_requirement r) links)
             then Err SumRequired
             else
               and_then (ok_or (window_index now window_seconds) EvaluatorMismatch) (\<lambda>index.
               and_then (ok_or (window_end_of index window_seconds) ClockUnavailable) (\<lambda>window_end.
                 let (counts, sums) =
                       chain_counters sha256 links partitions namespace window_seconds index
                 in Ok (Some
                      \<lparr> ba_links = links, ba_argument = argument, ba_window_seconds = window_seconds,
                        ba_window_index = index, ba_window_end = window_end,
                        ba_counts = counts, ba_sums = sums \<rparr>)))))))"

text \<open>
  The account-scope binding of a recipe: \<open>field\<close> is the recipe's declared field, and \<open>argument\<close> its
  verified text value.
\<close>

fun links_bind_scope :: "bytes \<Rightarrow> bytes \<Rightarrow> bound_link list \<Rightarrow> (unit, policy_refusal) result" where
  "links_bind_scope field v [] = Ok ()"
| "links_bind_scope field v (link # links) =
     (case cp_scope (bl_policy link) of
        None \<Rightarrow> Err AccountScopeUnbound
      | Some scope \<Rightarrow>
          if lv_argument scope \<noteq> field then Err AccountScopeUnbound
          else if \<not> lists scope v then Err ScopeDenied
          else links_bind_scope field v links)"

definition bind_account_scope ::
  "bytes option \<Rightarrow> bound_admission option \<Rightarrow> (bytes \<Rightarrow> bytes option) \<Rightarrow> (unit, policy_refusal) result"
where
  "bind_account_scope account_scope_field bound argument =
     (case account_scope_field of
        None \<Rightarrow> Ok ()
      | Some field \<Rightarrow>
          (case bound of
             None \<Rightarrow> Err AccountScopeUnbound
           | Some b \<Rightarrow>
               (case argument field of
                  None \<Rightarrow> Err AccountScopeUnbound
                | Some v \<Rightarrow>
                    if ba_links b = [] then Err AccountScopeUnbound
                    else links_bind_scope field v (ba_links b))))"

section \<open>Facts about counters\<close>

text \<open>Both kinds of counters are charged alike: a list of keys with their smallest capacity.\<close>

fun charge_pair :: "bytes \<times> u64 \<Rightarrow> (bytes \<times> u64) list \<Rightarrow> (bytes \<times> u64) list" where
  "charge_pair (key, limit) [] = [(key, limit)]"
| "charge_pair (key, limit) ((k, c) # rest) =
     (if k = key then (k, min c limit) # rest else (k, c) # charge_pair (key, limit) rest)"

lemma charge_pair_keys:
  "set (map fst (charge_pair r ps)) = insert (fst r) (set (map fst ps))
   \<and> (distinct (map fst ps) \<longrightarrow> distinct (map fst (charge_pair r ps)))"
  by (induction r ps rule: charge_pair.induct) auto

lemma charge_pair_lookup:
  "map_of (charge_pair (key, limit) ps) =
     (map_of ps)(key \<mapsto> (case map_of ps key of None \<Rightarrow> limit | Some c \<Rightarrow> min c limit))"
  by (induction "(key, limit)" ps rule: charge_pair.induct) (auto simp: fun_eq_iff)

lemma charges_keys:
  "set (map fst (fold charge_pair rs ps)) = set (map fst rs) \<union> set (map fst ps)"
  by (induction rs arbitrary: ps) (auto simp: charge_pair_keys simp del: set_map)

lemma charges_distinct: "distinct (map fst ps) \<Longrightarrow> distinct (map fst (fold charge_pair rs ps))"
  by (induction rs arbitrary: ps) (simp_all add: charge_pair_keys)

lemma charges_old:
  "map_of ps key = Some c \<Longrightarrow> \<exists>c' \<le> c. map_of (fold charge_pair rs ps) key = Some c'"
proof (induction rs arbitrary: ps c)
  case (Cons r rs)
  obtain k l where r: "r = (k, l)" by (cases r)
  have "\<exists>c' \<le> c. map_of (charge_pair r ps) key = Some c'"
    using Cons.prems by (auto simp: r charge_pair_lookup)
  then show ?case using Cons.IH by (fastforce intro: order_trans)
qed auto

lemma charges_cover:
  "(key, limit) \<in> set rs \<Longrightarrow> \<exists>c \<le> limit. map_of (fold charge_pair rs ps) key = Some c"
proof (induction rs arbitrary: ps)
  case (Cons r rs)
  show ?case
  proof (cases "r = (key, limit)")
    case True
    have "\<exists>c \<le> limit. map_of (charge_pair r ps) key = Some c"
      by (auto simp: True charge_pair_lookup split: option.split)
    then obtain c where "c \<le> limit" and "map_of (charge_pair r ps) key = Some c" by blast
    with charges_old [of "charge_pair r ps" key c rs] show ?thesis by (auto intro: order_trans)
  qed (use Cons in auto)
qed simp

lemma charges_attained:
  "map_of (fold charge_pair rs ps) key = Some c \<Longrightarrow> map_of ps key = Some c \<or> (key, c) \<in> set rs"
proof (induction rs arbitrary: ps)
  case (Cons r rs)
  obtain k l where r: "r = (k, l)" by (cases r)
  from Cons.IH [of "charge_pair r ps"] Cons.prems show ?case
    by (auto simp: r charge_pair_lookup min_def split: if_splits option.splits)
qed simp

definition count_pairs :: "count_counter list \<Rightarrow> (bytes \<times> u64) list" where
  "count_pairs = map (\<lambda>c. (cc_key c, cc_capacity c))"

definition sum_pairs :: "sum_counter list \<Rightarrow> (bytes \<times> u64) list" where
  "sum_pairs = map (\<lambda>c. (sc_key c, sc_capacity c))"

lemma pairs_Nil [simp]: "count_pairs [] = []" "sum_pairs [] = []"
  by (simp_all add: count_pairs_def sum_pairs_def)

lemma count_pairs_charge: "count_pairs (charge_count key m cs) = charge_pair (key, m) (count_pairs cs)"
  by (induction key m cs rule: charge_count.induct) (simp_all add: count_pairs_def)

lemma sum_pairs_charge: "sum_pairs (charge_sum key l n cs) = charge_pair (key, l) (sum_pairs cs)"
  by (induction key l n cs rule: charge_sum.induct) (simp_all add: sum_pairs_def)

definition count_requests :: "(bytes \<Rightarrow> bytes) \<Rightarrow> bytes \<Rightarrow> u64 \<Rightarrow> u64 \<Rightarrow> bound_link list \<Rightarrow> (bytes \<times> u64) list" where
  "count_requests sha256 namespace w i links =
     map (\<lambda>link. (count_counter_key sha256 namespace (bl_subject link) w i, cp_max_count (bl_policy link))) links"

definition sum_requests ::
  "(bytes \<Rightarrow> bytes) \<Rightarrow> bytes \<Rightarrow> u64 \<Rightarrow> u64 \<Rightarrow> (bound_link \<times> bytes) list \<Rightarrow> (bytes \<times> u64) list" where
  "sum_requests sha256 namespace w i zs =
     List.map_filter (\<lambda>(link, part). map_option
       (\<lambda>limit. (sum_counter_key sha256 namespace (bl_subject link) part w i, limit))
       (cp_sum_limit (bl_policy link))) zs"

lemma chain_count_counters_charges:
  "count_pairs (chain_count_counters sha256 namespace w i links cs)
     = fold charge_pair (count_requests sha256 namespace w i links) (count_pairs cs)"
  by (induction links arbitrary: cs) (simp_all add: count_requests_def count_pairs_charge)

lemma chain_sum_counters_charges:
  "sum_pairs (chain_sum_counters sha256 namespace w i counts zs cs)
     = fold charge_pair (sum_requests sha256 namespace w i zs) (sum_pairs cs)"
  by (induction zs arbitrary: cs)
    (auto simp: sum_requests_def map_filter_simps sum_pairs_charge Let_def split: option.split)

text \<open>Every counter of a chain, and what the chain's links find among them.\<close>

lemma chain_counters_counts:
  assumes "chain_counters sha256 links parts namespace w i = (counts, sums)"
  shows "sorted (map cc_key counts) \<and> distinct (map cc_key counts)"
    and "link \<in> set links \<Longrightarrow> \<exists>c \<in> set counts.
        cc_key c = count_counter_key sha256 namespace (bl_subject link) w i
        \<and> cc_capacity c \<le> cp_max_count (bl_policy link)"
    and "c \<in> set counts \<Longrightarrow> \<exists>link \<in> set links.
        cc_key c = count_counter_key sha256 namespace (bl_subject link) w i
        \<and> cc_capacity c = cp_max_count (bl_policy link)"
proof -
  let ?cs = "chain_count_counters sha256 namespace w i links []"
  have counts: "counts = sort_key cc_key ?cs" using assms by (simp add: chain_counters_def Let_def)
  have pairs: "count_pairs ?cs = fold charge_pair (count_requests sha256 namespace w i links) []"
    by (simp add: chain_count_counters_charges)
  have keys: "distinct (map fst (count_pairs ?cs))" unfolding pairs by (rule charges_distinct) simp
  then have "distinct (map cc_key ?cs)" by (simp add: count_pairs_def o_def)
  then show "sorted (map cc_key counts) \<and> distinct (map cc_key counts)"
    by (simp add: counts distinct_map)
  show "\<exists>c \<in> set counts. cc_key c = count_counter_key sha256 namespace (bl_subject link) w i
      \<and> cc_capacity c \<le> cp_max_count (bl_policy link)" if "link \<in> set links"
  proof -
    have "(count_counter_key sha256 namespace (bl_subject link) w i, cp_max_count (bl_policy link))
        \<in> set (count_requests sha256 namespace w i links)"
      using that by (auto simp: count_requests_def)
    from charges_cover [OF this, of "[]"] obtain n where "n \<le> cp_max_count (bl_policy link)"
      and "map_of (count_pairs ?cs) (count_counter_key sha256 namespace (bl_subject link) w i) = Some n"
      unfolding pairs by blast
    then show ?thesis unfolding counts count_pairs_def set_sort by (fastforce dest: map_of_SomeD)
  qed
  show "\<exists>link \<in> set links. cc_key c = count_counter_key sha256 namespace (bl_subject link) w i
      \<and> cc_capacity c = cp_max_count (bl_policy link)" if "c \<in> set counts"
  proof -
    have "(cc_key c, cc_capacity c) \<in> set (count_pairs ?cs)" using that by (simp add: counts count_pairs_def)
    then have "map_of (count_pairs ?cs) (cc_key c) = Some (cc_capacity c)"
      using keys by (simp add: map_of_is_SomeI)
    then show ?thesis
      using charges_attained [of "count_requests sha256 namespace w i links" "[]"] unfolding pairs
      by (auto simp: count_requests_def)
  qed
qed

lemma chain_counters_sums:
  assumes "chain_counters sha256 links parts namespace w i = (counts, sums)"
  shows "sorted (map sc_key sums) \<and> distinct (map sc_key sums)"
    and "(link, part) \<in> set (zip links parts) \<Longrightarrow> cp_sum_limit (bl_policy link) = Some limit \<Longrightarrow>
        \<exists>c \<in> set sums. sc_key c = sum_counter_key sha256 namespace (bl_subject link) part w i
          \<and> sc_capacity c \<le> limit"
    and "c \<in> set sums \<Longrightarrow> \<exists>(link, part) \<in> set (zip links parts).
        sc_key c = sum_counter_key sha256 namespace (bl_subject link) part w i
        \<and> cp_sum_limit (bl_policy link) = Some (sc_capacity c)"
proof -
  let ?counts = "chain_count_counters sha256 namespace w i links []"
  let ?cs = "chain_sum_counters sha256 namespace w i ?counts (zip links parts) []"
  have sums: "sums = sort_key sc_key ?cs" using assms by (simp add: chain_counters_def Let_def)
  have pairs: "sum_pairs ?cs = fold charge_pair (sum_requests sha256 namespace w i (zip links parts)) []"
    by (simp add: chain_sum_counters_charges)
  have keys: "distinct (map fst (sum_pairs ?cs))" unfolding pairs by (rule charges_distinct) simp
  then have "distinct (map sc_key ?cs)" by (simp add: sum_pairs_def o_def)
  then show "sorted (map sc_key sums) \<and> distinct (map sc_key sums)"
    by (simp add: sums distinct_map)
  show "\<exists>c \<in> set sums. sc_key c = sum_counter_key sha256 namespace (bl_subject link) part w i
      \<and> sc_capacity c \<le> limit"
    if "(link, part) \<in> set (zip links parts)" "cp_sum_limit (bl_policy link) = Some limit"
  proof -
    have "(sum_counter_key sha256 namespace (bl_subject link) part w i, limit)
        \<in> set (sum_requests sha256 namespace w i (zip links parts))"
      using that by (force simp: sum_requests_def List.map_filter_def)
    from charges_cover [OF this, of "[]"] obtain n where "n \<le> limit"
      and "map_of (sum_pairs ?cs) (sum_counter_key sha256 namespace (bl_subject link) part w i) = Some n"
      unfolding pairs by blast
    then show ?thesis unfolding sums sum_pairs_def set_sort by (fastforce dest: map_of_SomeD)
  qed
  show "\<exists>(link, part) \<in> set (zip links parts).
        sc_key c = sum_counter_key sha256 namespace (bl_subject link) part w i
        \<and> cp_sum_limit (bl_policy link) = Some (sc_capacity c)" if "c \<in> set sums"
  proof -
    have "(sc_key c, sc_capacity c) \<in> set (sum_pairs ?cs)" using that by (simp add: sums sum_pairs_def)
    then have "map_of (sum_pairs ?cs) (sc_key c) = Some (sc_capacity c)"
      using keys by (simp add: map_of_is_SomeI)
    then show ?thesis
      using charges_attained [of "sum_requests sha256 namespace w i (zip links parts)" "[]"] unfolding pairs
      by (force simp: sum_requests_def List.map_filter_def)
  qed
qed

section \<open>Facts about admission\<close>

lemma bounded_argument_from_ok:
  assumes "bounded_argument_from action_fact argument links = Ok v"
  shows "(\<forall>link \<in> set links. action_fact (cp_argument (bl_policy link)) = Some (FactUint v)
            \<and> v \<le> cp_ceiling (bl_policy link))
         \<and> (argument = None \<or> argument = Some v)"
  using assms
proof (induction links arbitrary: argument)
  case (Cons link links)
  then obtain x where x: "action_fact (cp_argument (bl_policy link)) = Some (FactUint x)"
    "argument = None \<or> argument = Some x" "x \<le> cp_ceiling (bl_policy link)"
    and rest: "bounded_argument_from action_fact (Some x) links = Ok v"
    by (auto simp: ceiling_count_code_def not_less split: option.splits fact_value.splits if_splits)
  from Cons.IH [OF rest] x show ?case by auto
qed simp

lemma listed_arguments_ok:
  "listed_arguments links action_fact = Ok parts \<Longrightarrow> link \<in> set links \<Longrightarrow>
     \<exists>part. (link, part) \<in> set (zip links parts) \<and> link_partition action_fact link = Ok part"
  by (induction links arbitrary: parts) (auto simp: and_then_Inr_iff)

definition admits_text :: "(bytes \<Rightarrow> fact_value option) \<Rightarrow> listed_values option \<Rightarrow> bool" where
  "admits_text action_fact l =
     (case l of None \<Rightarrow> True
      | Some l' \<Rightarrow> \<exists>v \<in> set (lv_values l'). action_fact (lv_argument l') = Some (FactText v))"

lemma fact_name_parse_ok [simp]: "fact_name_parse v = Ok n \<Longrightarrow> n = v"
  by (auto simp: fact_name_parse_def parse_bounded_def split: if_splits)

lemma text_argument_ok: "text_argument action_fact n = Ok t \<Longrightarrow> action_fact n = Some (FactText t)"
  by (auto simp: text_argument_def split: sum.splits option.splits fact_value.splits dest: fact_name_parse_ok)

lemma link_partition_ok:
  assumes "link_partition action_fact link = Ok part"
  shows "admits_text action_fact (cp_scope (bl_policy link))"
    and "admits_text action_fact (cp_partition (bl_policy link))"
    and "part = (case cp_partition (bl_policy link) of None \<Rightarrow> []
           | Some l \<Rightarrow> (case action_fact (lv_argument l) of Some (FactText t) \<Rightarrow> t | _ \<Rightarrow> []))"
  using assms
  by (auto simp: link_partition_def admits_text_def and_then_Inr_iff lists_def list_ex_iff
      split: option.splits if_splits dest!: text_argument_ok)

lemma fold_min_le: "fold min (xs :: u64 list) x \<le> x \<and> (\<forall>y \<in> set xs. fold min xs x \<le> y)"
proof (induction xs arbitrary: x)
  case (Cons y xs)
  have "fold min xs (min y x) \<le> min y x" and "\<forall>z \<in> set xs. fold min xs (min y x) \<le> z"
    using Cons.IH by blast+
  then show ?case by simp
qed simp

lemma smallest_sum_le:
  assumes "link \<in> set links" and "cp_sum_limit (bl_policy link) = Some limit"
  shows "\<exists>m. smallest_sum links = Some m \<and> m \<le> limit"
proof -
  have "limit \<in> set (List.map_filter (\<lambda>link. cp_sum_limit (bl_policy link)) links)"
    using assms by (force simp: List.map_filter_def)
  then show ?thesis
    using fold_min_le by (auto simp: smallest_sum_def split: list.splits)
qed

lemma window_bounds:
  assumes "window_index now w = Some i" and "window_end_of i w = Some e"
  shows "unat e = (unat i + 1) * unat w" and "now < e" and "unat i * unat w \<le> unat now"
    and "unat e + unat w < 2 ^ 64"
proof -
  have i: "w \<noteq> 0" "unat i = unat now div unat w"
    using assms(1) by (auto simp: window_index_def checked_div_Some_iff)
  obtain n :: u64 where n: "unat n = unat i + 1" "unat e = unat n * unat w" and fits: "checked_add e w \<noteq> None"
    using assms(2) by (auto simp: window_end_of_def checked_simps split: option.splits if_splits)
  show e: "unat e = (unat i + 1) * unat w" using n by simp
  have "unat w > 0" using i(1) by (simp add: unat_gt_0)
  then have "unat now < (unat now div unat w + 1) * unat w" by (simp add: dividend_less_div_times)
  then show "now < e" using e i(2) by (simp add: word_less_nat_alt)
  show "unat i * unat w \<le> unat now" using i(2) by simp
  show "unat e + unat w < 2 ^ 64" using fits by (auto simp: checked_add_None_iff)
qed

lemma admit_links_ok:
  assumes "admit_policy_links sha256 links action_fact namespace requirement now = Ok (Some b)"
  obtains parts where "links \<noteq> []" "length links \<le> MAX_BOUNDED_LINKS" "ba_links b = links"
    "successively (\<lambda>parent child. tightens (bl_policy child) (bl_policy parent)) links"
    "bounded_argument links action_fact = Ok (ba_argument b)"
    "listed_arguments links action_fact = Ok parts"
    "ba_window_seconds b = cp_window_seconds (bl_policy (hd links))"
    "case smallest_sum links of None \<Rightarrow> True | Some m \<Rightarrow> ba_argument b \<le> m"
    "case requirement of None \<Rightarrow> True | Some r \<Rightarrow> list_all (satisfies_requirement r) links"
    "window_index now (ba_window_seconds b) = Some (ba_window_index b)"
    "window_end_of (ba_window_index b) (ba_window_seconds b) = Some (ba_window_end b)"
    "chain_counters sha256 links parts namespace (ba_window_seconds b) (ba_window_index b)
       = (ba_counts b, ba_sums b)"
  using assms that
  by (cases links)
    (auto simp: admit_policy_links_def and_then_Inr_iff Let_def not_less
      split: if_splits option.splits prod.splits)

lemma links_tighten_last:
  assumes "successively (\<lambda>parent child. tightens (bl_policy child) (bl_policy parent)) links"
    and "link \<in> set links"
  shows "tightens (bl_policy (last links)) (bl_policy link)"
proof -
  let ?ps = "map (\<lambda>l. members (bl_policy l)) links"
  have "successively (\<lambda>parent child. argument_policy_tightens child parent) ?ps"
    using assms(1) by (simp add: successively_map tightens_def)
  moreover have "members (bl_policy link) \<in> set ?ps" using assms(2) by simp
  ultimately have "argument_policy_tightens (last ?ps) (members (bl_policy link))"
    by (rule policy.chain_last_tightens)
  moreover have "links \<noteq> []" using assms(2) by auto
  ultimately show ?thesis by (simp add: tightens_def last_map)
qed

lemma links_share_window:
  assumes "successively (\<lambda>parent child. tightens (bl_policy child) (bl_policy parent)) links"
    and "link \<in> set links"
  shows "cp_window_seconds (bl_policy link) = cp_window_seconds (bl_policy (hd links))"
proof -
  have "cp_window_seconds (bl_policy (last links)) = cp_window_seconds (bl_policy l)" if "l \<in> set links" for l
    using links_tighten_last [OF assms(1) that]
    by (simp add: tightens_def argument_policy_tightens_iff members_def)
  from this [OF assms(2)] this [of "hd links"] assms(2) show ?thesis by (cases links) auto
qed

section \<open>Properties\<close>

text \<open>
  C12: an action admitted under a bounded branch satisfies every
  link of it, not only the last: its verified argument is within each ceiling and each sum limit,
  each scope and each partition lists the verified value, all links share one window, which contains
  the evaluation time, and the terminal policy narrows each of them.
\<close>

theorem admitted_action_satisfies_every_link:
  assumes "admit_policy_links sha256 links action_fact namespace requirement now = Ok (Some b)"
    and "link \<in> set links"
  shows "action_fact (cp_argument (bl_policy link)) = Some (FactUint (ba_argument b))
    \<and> ba_argument b \<le> cp_ceiling (bl_policy link)
    \<and> admits_text action_fact (cp_scope (bl_policy link))
    \<and> admits_text action_fact (cp_partition (bl_policy link))
    \<and> (case cp_sum_limit (bl_policy link) of None \<Rightarrow> True | Some limit \<Rightarrow> ba_argument b \<le> limit)
    \<and> cp_window_seconds (bl_policy link) = ba_window_seconds b
    \<and> now < ba_window_end b \<and> unat (ba_window_index b) * unat (ba_window_seconds b) \<le> unat now
    \<and> tightens (bl_policy (last links)) (bl_policy link)"
proof -
  from admit_links_ok [OF assms(1)] obtain parts
    where chained: "successively (\<lambda>parent child. tightens (bl_policy child) (bl_policy parent)) links"
      and argument: "bounded_argument links action_fact = Ok (ba_argument b)"
      and listed: "listed_arguments links action_fact = Ok parts"
      and seconds: "ba_window_seconds b = cp_window_seconds (bl_policy (hd links))"
      and smallest: "case smallest_sum links of None \<Rightarrow> True | Some m \<Rightarrow> ba_argument b \<le> m"
      and window: "window_index now (ba_window_seconds b) = Some (ba_window_index b)"
        "window_end_of (ba_window_index b) (ba_window_seconds b) = Some (ba_window_end b)"
    by blast
  obtain part where "link_partition action_fact link = Ok part"
    using listed_arguments_ok [OF listed assms(2)] by blast
  note text_ok = link_partition_ok [OF this]
  have "case cp_sum_limit (bl_policy link) of None \<Rightarrow> True | Some limit \<Rightarrow> ba_argument b \<le> limit"
    using smallest_sum_le [OF assms(2)] smallest by (auto split: option.splits)
  with text_ok bounded_argument_from_ok [OF argument [unfolded bounded_argument_def]] assms(2)
    links_share_window [OF chained assms(2)] seconds window_bounds [OF window]
    links_tighten_last [OF chained assms(2)]
  show ?thesis by simp
qed

text \<open>
  C19: admission reserves, for every link, one count counter keyed by the link's
  subject with a capacity no larger than the link's count, and for every link with a sum limit one sum
  counter keyed by its subject and partition value with a capacity no larger than that limit; keys
  are distinct and ordered, and every capacity is that of some link. Delegation cannot avoid an
  ancestor's counter.
\<close>

theorem every_link_is_charged:
  assumes "admit_policy_links sha256 links action_fact namespace requirement now = Ok (Some b)"
    and "link \<in> set links"
    and "part = (case cp_partition (bl_policy link) of None \<Rightarrow> []
           | Some l \<Rightarrow> (case action_fact (lv_argument l) of Some (FactText t) \<Rightarrow> t | _ \<Rightarrow> []))"
  shows "(\<exists>c \<in> set (ba_counts b).
       cc_key c = count_counter_key sha256 namespace (bl_subject link) (ba_window_seconds b) (ba_window_index b)
       \<and> cc_capacity c \<le> cp_max_count (bl_policy link))
    \<and> (\<forall>limit. cp_sum_limit (bl_policy link) = Some limit \<longrightarrow> (\<exists>c \<in> set (ba_sums b).
       sc_key c = sum_counter_key sha256 namespace (bl_subject link) part (ba_window_seconds b) (ba_window_index b)
       \<and> sc_capacity c \<le> limit))
    \<and> sorted (map cc_key (ba_counts b)) \<and> distinct (map cc_key (ba_counts b))
    \<and> sorted (map sc_key (ba_sums b)) \<and> distinct (map sc_key (ba_sums b))"
proof -
  from admit_links_ok [OF assms(1)] obtain parts
    where listed: "listed_arguments links action_fact = Ok parts"
      and counters: "chain_counters sha256 links parts namespace (ba_window_seconds b) (ba_window_index b)
        = (ba_counts b, ba_sums b)"
    by blast
  obtain q where "(link, q) \<in> set (zip links parts)" and "link_partition action_fact link = Ok q"
    using listed_arguments_ok [OF listed assms(2)] by blast
  with link_partition_ok(3) assms(3) have "(link, part) \<in> set (zip links parts)" by metis
  with chain_counters_counts(1,2) [OF counters] chain_counters_sums(1,2) [OF counters] assms(2)
  show ?thesis by simp
qed

text \<open>
  a recipe with an account scope is bound exactly when the action
  has a bounded branch, the field has a verified value, and every link's policy carries a scope on
  that very field that lists the value.
\<close>

lemma account_scope_needs_every_link:
  "bind_account_scope (Some field) bound argument = Ok () \<longleftrightarrow>
     (\<exists>b v. bound = Some b \<and> argument field = Some v \<and> ba_links b \<noteq> []
        \<and> (\<forall>link \<in> set (ba_links b). \<exists>scope. cp_scope (bl_policy link) = Some scope
             \<and> lv_argument scope = field \<and> v \<in> set (lv_values scope)))"
proof -
  have "links_bind_scope field v links = Ok () \<longleftrightarrow>
      (\<forall>link \<in> set links. \<exists>scope. cp_scope (bl_policy link) = Some scope
             \<and> lv_argument scope = field \<and> v \<in> set (lv_values scope))" for v links
    by (induction links) (auto simp: lists_def list_ex_iff split: option.splits)
  then show ?thesis by (auto simp: bind_account_scope_def split: option.splits)
qed

section \<open>Witnesses\<close>

definition sample_link :: "bytes \<Rightarrow> u64 \<Rightarrow> u64 \<Rightarrow> bound_link" where
  "sample_link subject ceiling limit =
     \<lparr> bl_subject = subject, bl_policy =
       \<lparr> cp_argument = [97], cp_ceiling = ceiling, cp_window_seconds = 3600, cp_max_count = 10,
         cp_sum_limit = Some limit, cp_partition = None,
         cp_scope = Some \<lparr> lv_argument = [115], lv_values = [[120], [121]] \<rparr> \<rparr> \<rparr>"

definition sample_links :: "bound_link list" where
  "sample_links = [sample_link [1] 500 900, sample_link [2] 100 300]"

definition sample_fact :: "bytes \<Rightarrow> fact_value option" where
  "sample_fact n =
     (if n = [97] then Some (FactUint 80) else if n = [115] then Some (FactText [121]) else None)"

definition sample_admission :: bound_admission where
  "sample_admission =
     (case admit_policy_links (\<lambda>bs. bs) sample_links sample_fact [110] None 7300 of
        Inr (Some b) \<Rightarrow> b
      | _ \<Rightarrow> \<lparr> ba_links = [], ba_argument = 0, ba_window_seconds = 0, ba_window_index = 0,
              ba_window_end = 0, ba_counts = [], ba_sums = [] \<rparr>)"

lemma sample_admitted:
  "admit_policy_links (\<lambda>bs. bs) sample_links sample_fact [110] None 7300 = Ok (Some sample_admission)"
proof -
  have "(case admit_policy_links (\<lambda>bs. bs) sample_links sample_fact [110] None 7300 of
      Inr (Some b) \<Rightarrow> True | _ \<Rightarrow> False)"
    by code_simp
  then show ?thesis by (auto simp: sample_admission_def split: sum.splits option.splits)
qed

theorem admitted_action_satisfies_every_link_witness:
  "ba_argument sample_admission \<le> cp_ceiling (bl_policy (sample_link [1] 500 900))
   \<and> 7300 < ba_window_end sample_admission"
  using admitted_action_satisfies_every_link [OF sample_admitted, of "sample_link [1] 500 900"]
  by (simp add: sample_links_def)

theorem every_link_is_charged_witness:
  "\<exists>c \<in> set (ba_sums sample_admission).
     sc_key c = sum_counter_key (\<lambda>bs. bs) [110] [1] [] (ba_window_seconds sample_admission)
       (ba_window_index sample_admission)
     \<and> sc_capacity c \<le> 900"
  using every_link_is_charged [OF sample_admitted, of "sample_link [1] 500 900"]
  by (simp add: sample_links_def sample_link_def)

theorem account_scope_needs_every_link_witness:
  "bind_account_scope (Some [115]) (Some sample_admission) (\<lambda>_. Some [121]) = Ok ()
   \<and> bind_account_scope (Some [116]) (Some sample_admission) (\<lambda>_. Some [121]) \<noteq> Ok ()"
proof -
  have "ba_links sample_admission = sample_links"
    using sample_admitted by (blast elim: admit_links_ok)
  then show ?thesis
    unfolding account_scope_needs_every_link by (auto simp: sample_links_def sample_link_def)
qed

end
