(* ===== verification/Slot_Ledger.thy ===== *)
theory Slot_Ledger
  imports Auths_Prelude
begin

text \<open>
  The append-only slot table that every counter of the gateway's store is: a batch charges each of
  its counters once, at a vacant slot whose predecessor is taken, and a slot keeps the whole amount
  charged up to it. The locale \<open>slot_ledger\<close> states that contract and derives what it gives: the
  taken slots are a prefix, their number is the number of charges, and the amount a slot keeps is
  the exact sum of the charges up to it. The count and sum slots of \<open>Gateway_Capacity\<close> interpret
  it.
\<close>

type_synonym 'k charge = "'k \<times> u64 \<times> u64"

definition charges_of :: "'k \<Rightarrow> 'k charge list list \<Rightarrow> nat list" where
  "charges_of k log = map (\<lambda>(_, _, amount). unat amount) (filter (\<lambda>(key, _, _). key = k) (concat log))"

lemma charges_of_Nil [simp]: "charges_of k [] = []"
  by (simp add: charges_of_def)

lemma charges_of_snoc:
  "charges_of k (log @ [cs]) =
     charges_of k log @ map (\<lambda>(_, _, amount). unat amount) (filter (\<lambda>(key, _, _). key = k) cs)"
  by (simp add: charges_of_def)

lemma filter_one_key:
  assumes "distinct (map fst cs)" and "(k, v) \<in> set cs"
  shows "filter (\<lambda>x. fst x = k) cs = [(k, v)]"
  using assms by (induction cs) (auto simp: filter_empty_conv image_iff rev_image_eqI)

lemma charges_of_batch:
  assumes "distinct (map fst cs)" and "(k, n, amount) \<in> set cs"
  shows "charges_of k (log @ [cs]) = charges_of k log @ [unat amount]"
proof -
  have "filter (\<lambda>(key, _, _). key = k) cs = filter (\<lambda>x. fst x = k) cs"
    by (rule filter_cong) auto
  then show ?thesis by (simp add: charges_of_snoc filter_one_key [OF assms])
qed

lemma charges_of_other:
  assumes "k \<notin> fst ` set cs"
  shows "charges_of k (log @ [cs]) = charges_of k log"
  using assms by (auto simp: charges_of_snoc filter_empty_conv image_iff)

locale slot_ledger =
  fixes taken :: "'s \<Rightarrow> 'k \<Rightarrow> u64 \<Rightarrow> nat option"
    and batch :: "'s \<Rightarrow> 'k charge list \<Rightarrow> 's \<Rightarrow> bool"
  assumes keys_distinct: "batch s cs s' \<Longrightarrow> distinct (map fst cs)"
    and vacant: "batch s cs s' \<Longrightarrow> (k, n, amount) \<in> set cs \<Longrightarrow> taken s k n = None"
    and follows: "batch s cs s' \<Longrightarrow> (k, n, amount) \<in> set cs \<Longrightarrow> n = 0 \<or> taken s k (n - 1) \<noteq> None"
    and writes: "batch s cs s' \<Longrightarrow> (k, n, amount) \<in> set cs \<Longrightarrow>
       taken s' k n = Some ((if n = 0 then 0 else the (taken s k (n - 1))) + unat amount)"
    and keeps: "batch s cs s' \<Longrightarrow> (\<And>amount. (k, n, amount) \<notin> set cs) \<Longrightarrow> taken s' k n = taken s k n"
begin

definition exact :: "'s \<Rightarrow> 'k charge list list \<Rightarrow> bool" where
  "exact s log \<longleftrightarrow>
     (\<forall>k. length (charges_of k log) \<le> 2 ^ 64)
     \<and> (\<forall>k n. taken s k n =
          (if unat n < length (charges_of k log)
           then Some (sum_list (take (Suc (unat n)) (charges_of k log))) else None))"

lemma exactD:
  assumes "exact s log"
  shows "taken s k n =
           (if unat n < length (charges_of k log)
            then Some (sum_list (take (Suc (unat n)) (charges_of k log))) else None)"
  using assms by (simp add: exact_def)

lemma exact_transfer:
  assumes "exact s log" and "\<And>k n. taken s' k n = taken s k n" and "\<And>k. charges_of k log' = charges_of k log"
  shows "exact s' log'"
  using assms by (simp add: exact_def)

lemma charged_slot:
  assumes exact: "exact s log" and step: "batch s cs s'" and charge: "(k, n, amount) \<in> set cs"
  shows "unat n = length (charges_of k log)"
    and "(if n = 0 then 0 else the (taken s k (n - 1))) = sum_list (charges_of k log)"
proof -
  have free: "\<not> unat n < length (charges_of k log)"
    using vacant [OF step charge] exactD [OF exact, of k n] by (auto split: if_splits)
  have pred: "unat (n - 1) < length (charges_of k log)" if "n \<noteq> 0"
    using follows [OF step charge] that exactD [OF exact, of k "n - 1"] by (auto split: if_splits)
  have one: "unat (n - 1) = unat n - 1" if "n \<noteq> 0"
    using that by (simp add: unat_sub word_le_nat_alt unat_eq_0 Suc_le_eq flip: neq0_conv)
  show slot: "unat n = length (charges_of k log)"
  proof (cases "n = 0")
    case False
    then have "0 < unat n" by (simp add: unat_gt_0)
    then show ?thesis using free pred one False by simp
  qed (use free in simp)
  show "(if n = 0 then 0 else the (taken s k (n - 1))) = sum_list (charges_of k log)"
  proof (cases "n = 0")
    case False
    then have "Suc (unat n - 1) = length (charges_of k log)"
      using slot by (metis Suc_pred' unat_gt_0)
    then show ?thesis using False pred [OF False] exactD [OF exact, of k "n - 1"] one [OF False] by simp
  qed (use slot in simp)
qed

lemma exact_batch:
  assumes exact: "exact s log" and step: "batch s cs s'"
  shows "exact s' (log @ [cs])"
  unfolding exact_def
proof (intro conjI allI)
  fix k
  show "length (charges_of k (log @ [cs])) \<le> 2 ^ 64"
  proof (cases "k \<in> fst ` set cs")
    case True
    then obtain m amount where charge: "(k, m, amount) \<in> set cs" by force
    have "unat m < 2 ^ 64" using unsigned_less [of m, where 'a = nat] by simp
    then show ?thesis
      using charged_slot(1) [OF exact step charge]
      by (simp add: charges_of_batch [OF keys_distinct [OF step] charge])
  qed (use exact in \<open>simp add: charges_of_other exact_def\<close>)
next
  fix k n
  show "taken s' k n =
          (if unat n < length (charges_of k (log @ [cs]))
           then Some (sum_list (take (Suc (unat n)) (charges_of k (log @ [cs])))) else None)"
  proof (cases "k \<in> fst ` set cs")
    case True
    then obtain m amount where charge: "(k, m, amount) \<in> set cs" by force
    note slot = charged_slot [OF exact step charge]
    have all: "charges_of k (log @ [cs]) = charges_of k log @ [unat amount]"
      by (rule charges_of_batch [OF keys_distinct [OF step] charge])
    show ?thesis
    proof (cases "n = m")
      case True
      then show ?thesis using writes [OF step charge] slot by (simp add: all)
    next
      case False
      then have other: "(k, n, b) \<notin> set cs" for b
        using charge keys_distinct [OF step] by (metis eq_key_imp_eq_value prod.inject)
      have ne: "unat n \<noteq> length (charges_of k log)" using False slot(1) by (metis unsigned_word_eqI)
      show ?thesis using keeps [OF step other] exactD [OF exact, of k n] ne by (auto simp: all)
    qed
  next
    case False
    then have "(k, n, amount) \<notin> set cs" for amount by force
    from keeps [OF step this] show ?thesis
      using exactD [OF exact, of k n] False by (simp add: charges_of_other)
  qed
qed

lemma total_within:
  assumes exact: "exact s log" and fits: "\<And>n c. taken s k n = Some c \<Longrightarrow> c \<le> limit"
  shows "sum_list (charges_of k log) \<le> limit"
proof (cases "charges_of k log = []")
  case False
  define n :: u64 where "n = word_of_nat (length (charges_of k log) - 1)"
  have "length (charges_of k log) \<le> 2 ^ 64" using exact by (simp add: exact_def)
  then have "length (charges_of k log) - 1 < 2 ^ 64" using False by (cases "charges_of k log") auto
  then have "unat n = length (charges_of k log) - 1"
    unfolding n_def by (simp add: unat_of_nat)
  then have "taken s k n = Some (sum_list (charges_of k log))"
    using exactD [OF exact, of k n] False by simp
  then show ?thesis by (rule fits)
qed simp

end

end
