(* ===== verification/Gateway_Capacity.thy ===== *)
theory Gateway_Capacity
  imports Gateway_Bounds Slot_Ledger "HOL-Library.Product_Lexorder"
begin

text \<open>
  Fixed-window capacity in the gateway's store,
  \<open>product/runtime/auths-gateway/src/store/capacity.rs\<close> and the claim loop of \<open>store.rs\<close>: slots that
  are inserted only at an observed frontier, the candidate a claim computes outside the writer's
  fence, and the batch insert that checks it again under the fence. The store is a map from kind
  and key to a row; a row is the record its canonical JSON decodes to, \<open>RowCorrupt\<close> stands for bytes
  that do not decode, and a hexadecimal counter name is the key it spells. SHA-256 is \<open>sha256\<close>.
\<close>

section \<open>Rows and the store\<close>

datatype record_kind =
    KindAttempt | KindCountSlot | KindSumSlot | KindConnection | KindCommissioningBudget
  | KindEffectConfiguration | KindEffectAllocation

record count_slot_record =
  cs_counter :: bytes
  cs_slot :: u64
  cs_window_seconds :: u64
  cs_window_index :: u64
  cs_window_end :: u64
  cs_namespace :: bytes
  cs_operation_id :: bytes
  cs_claim :: bytes

record sum_slot_record =
  ss_counter :: bytes
  ss_slot :: u64
  ss_amount :: u64
  ss_cumulative :: u64
  ss_window_seconds :: u64
  ss_window_index :: u64
  ss_window_end :: u64
  ss_namespace :: bytes
  ss_operation_id :: bytes
  ss_claim :: bytes

text \<open>Of the attempt record the claim writes, its stage, refusal and reserved counters.\<close>

datatype claim_refusal = WindowExhausted | SumExhausted

type_synonym counter_entry = "nat \<times> bytes \<times> u64"

record attempt_record =
  at_namespace :: bytes
  at_operation_id :: bytes
  at_refusal :: "claim_refusal option"
  at_counters :: "counter_entry list"

datatype stored_row =
  RowAttempt attempt_record | RowCount count_slot_record | RowSum sum_slot_record | RowCorrupt

type_synonym record_key = "record_kind \<times> bytes"
type_synonym attempt_store = "record_key \<Rightarrow> stored_row option"

datatype attempt_error =
  Replay | BindingConflict | UnsafeDirectory | Corrupt | Unavailable | InvalidTransition | Conflict

record record_entry =
  re_kind :: record_kind
  re_key :: bytes
  re_row :: stored_row
  re_expires_at :: "u64 option"

definition entry_key :: "record_entry \<Rightarrow> record_key" where
  "entry_key e = (re_kind e, re_key e)"

definition MAX_GATEWAY_BATCH_ENTRIES :: nat where
  "MAX_GATEWAY_BATCH_ENTRIES = 64"

definition MAX_GATEWAY_FENCE_RECORDS :: nat where
  "MAX_GATEWAY_FENCE_RECORDS = 64"

definition kind_expires :: "record_kind \<Rightarrow> bool" where
  "kind_expires kind \<longleftrightarrow> kind \<in> {KindCountSlot, KindSumSlot}"

text \<open>Every failure of the stores' batch and fence checks reaches the caller as \<open>Corrupt\<close>.\<close>

definition entry_valid :: "record_entry \<Rightarrow> bool" where
  "entry_valid e \<longleftrightarrow>
     kind_expires (re_kind e) = (re_expires_at e \<noteq> None)
     \<and> (case re_expires_at e of None \<Rightarrow> True | Some t \<Rightarrow> t \<le> 9223372036854775807)"

definition validate_gateway_batch :: "record_entry list \<Rightarrow> (unit, attempt_error) result" where
  "validate_gateway_batch entries =
     (if entries = [] \<or> length entries > MAX_GATEWAY_BATCH_ENTRIES then Err Corrupt
      else if \<not> list_all entry_valid entries then Err Corrupt
      else if \<not> distinct (map re_key entries) then Err Corrupt
      else Ok ())"

definition validate_gateway_fence :: "record_key list \<Rightarrow> (unit, attempt_error) result" where
  "validate_gateway_fence keys =
     (if keys = [] \<or> length keys > MAX_GATEWAY_FENCE_RECORDS then Err Corrupt
      else if kind_expires (fst (hd keys)) then Err Corrupt
      else if \<not> distinct (map snd keys) then Err Corrupt
      else Ok ())"

datatype gateway_insert = Inserted | Exists nat

fun first_existing :: "attempt_store \<Rightarrow> nat \<Rightarrow> record_entry list \<Rightarrow> nat option" where
  "first_existing store index [] = None"
| "first_existing store index (e # rest) =
     (if store (entry_key e) \<noteq> None then Some index else first_existing store (Suc index) rest)"

definition insert_rows :: "attempt_store \<Rightarrow> record_entry list \<Rightarrow> attempt_store" where
  "insert_rows store entries = store ++ map_of (map (\<lambda>e. (entry_key e, re_row e)) entries)"

text \<open>
  The fenced batch insert: vacancy first, then the caller's decision over the dependencies as they
  are under the fence, which replaces the first row.
\<close>

definition fenced_insert_all ::
  "attempt_store \<Rightarrow> record_entry list \<Rightarrow> record_key list
   \<Rightarrow> (stored_row option list \<Rightarrow> (stored_row, attempt_error) result)
   \<Rightarrow> (gateway_insert \<times> attempt_store, attempt_error) result"
where
  "fenced_insert_all store entries dependencies decide =
     and_then (validate_gateway_batch entries) (\<lambda>_.
     and_then (validate_gateway_fence (map entry_key entries @ dependencies)) (\<lambda>_.
       case first_existing store 0 entries of
         Some index \<Rightarrow> Ok (Exists index, store)
       | None \<Rightarrow>
           and_then (decide (map store dependencies)) (\<lambda>next_row.
             case entries of
               [] \<Rightarrow> Err Corrupt
             | first # rest \<Rightarrow>
                 Ok (Inserted, insert_rows store (first\<lparr> re_row := next_row \<rparr> # rest)))))"

section \<open>The frontier of a counter\<close>

function frontier_from :: "(u64 \<Rightarrow> bool) \<Rightarrow> u64 \<Rightarrow> u64 \<Rightarrow> u64" where
  "frontier_from occupied low high =
     (if low < high then
        (let middle = low + (high - low) div 2
         in if occupied middle then frontier_from occupied (middle + 1) high
            else frontier_from occupied low middle)
      else low)"
  by pat_completeness auto

lemma middle_bounds:
  assumes "(low :: u64) < high"
  shows "low \<le> low + (high - low) div 2" and "low + (high - low) div 2 < high"
    and "unat (low + (high - low) div 2 + 1) = unat (low + (high - low) div 2) + 1"
proof -
  have lt: "unat low < unat high" and high: "unat high < 2 ^ 64"
    using assms unsigned_less [of high, where 'a = nat] by (simp_all add: word_less_nat_alt)
  have half: "unat ((high - low) div 2) = (unat high - unat low) div 2"
    using assms by (simp add: unat_div unat_sub less_imp_le)
  have "unat low + (unat high - unat low) div 2 < unat high" using lt by linarith
  moreover from this have "unat (low + (high - low) div 2) = unat low + (unat high - unat low) div 2"
    using high by (simp add: unat_word_ariths(1) [of low] half)
  ultimately show "low \<le> low + (high - low) div 2" and less: "low + (high - low) div 2 < high"
    by (simp_all add: word_le_nat_alt word_less_nat_alt)
  have "unat (low + (high - low) div 2) < unat high" using less by (simp add: word_less_nat_alt)
  then have "unat (low + (high - low) div 2) + 1 < 2 ^ 64" using high by linarith
  then show "unat (low + (high - low) div 2 + 1) = unat (low + (high - low) div 2) + 1"
    by (simp add: unat_word_ariths(1) [of "low + (high - low) div 2"])
qed

termination frontier_from
proof (relation "measure (\<lambda>(occupied, low, high). unat high - unat low)")
  fix occupied :: "u64 \<Rightarrow> bool" and low high middle :: u64
  assume lt: "low < high" and middle: "middle = low + (high - low) div 2"
  have le: "low \<le> middle" and less: "middle < high" and next_slot: "unat (middle + 1) = unat middle + 1"
    unfolding middle using middle_bounds [OF lt] by simp_all
  show "((occupied, middle + 1, high), (occupied, low, high)) \<in> measure (\<lambda>(occupied, low, high). unat high - unat low)"
    using le less next_slot by (simp add: word_le_nat_alt word_less_nat_alt)
  show "((occupied, low, middle), (occupied, low, high)) \<in> measure (\<lambda>(occupied, low, high). unat high - unat low)"
    using le less by (simp add: word_le_nat_alt word_less_nat_alt)
qed simp

declare frontier_from.simps [simp del]

definition frontier ::
  "attempt_store \<Rightarrow> record_kind \<Rightarrow> bytes \<Rightarrow> u64 \<Rightarrow> (bytes \<Rightarrow> u64 \<Rightarrow> bytes) \<Rightarrow> u64" where
  "frontier store kind counter bound key_of =
     frontier_from (\<lambda>middle. store (kind, key_of counter middle) \<noteq> None) 0 bound"

definition cumulative ::
  "(bytes \<Rightarrow> bytes) \<Rightarrow> attempt_store \<Rightarrow> bytes \<Rightarrow> u64 \<Rightarrow> (u64, attempt_error) result" where
  "cumulative sha256 store counter slot =
     (case store (KindSumSlot, sum_slot_key sha256 counter slot) of
        Some (RowSum r) \<Rightarrow>
          if ss_counter r \<noteq> counter \<or> ss_slot r \<noteq> slot \<or> ss_amount r > ss_cumulative r
          then Err Corrupt else Ok (ss_cumulative r)
      | _ \<Rightarrow> Err Corrupt)"

section \<open>Candidates\<close>

record capacity_candidate =
  ca_bound :: bound_admission
  ca_counts :: "u64 list"
  ca_sums :: "u64 list"
  ca_totals :: "u64 list"

fun candidate_totals ::
  "(bytes \<Rightarrow> bytes) \<Rightarrow> attempt_store \<Rightarrow> (u64 \<times> sum_counter) list \<Rightarrow> (u64 list, attempt_error) result"
where
  "candidate_totals sha256 store [] = Ok []"
| "candidate_totals sha256 store ((slot, counter) # rest) =
     and_then
       (case checked_sub slot 1 of
          None \<Rightarrow> Ok 0
        | Some previous \<Rightarrow> cumulative sha256 store (sc_key counter) previous)
       (\<lambda>whole. and_then (candidate_totals sha256 store rest) (\<lambda>wholes. Ok (whole # wholes)))"

definition candidate_new ::
  "(bytes \<Rightarrow> bytes) \<Rightarrow> attempt_store \<Rightarrow> bound_admission \<Rightarrow> (capacity_candidate, attempt_error) result"
where
  "candidate_new sha256 store bound =
     (let counts = map (\<lambda>counter. frontier store KindCountSlot (cc_key counter) (cc_capacity counter)
                          (count_slot_key sha256)) (ba_counts bound);
          sums = map (\<lambda>counter. frontier store KindSumSlot (sc_key counter) (sc_slots counter)
                        (sum_slot_key sha256)) (ba_sums bound)
      in and_then (candidate_totals sha256 store (zip sums (ba_sums bound))) (\<lambda>totals.
           Ok \<lparr> ca_bound = bound, ca_counts = counts, ca_sums = sums, ca_totals = totals \<rparr>))"

definition candidate_refusal :: "capacity_candidate \<Rightarrow> claim_refusal option" where
  "candidate_refusal c =
     (let count_capacities = map cc_capacity (ba_counts (ca_bound c));
          sum_capacities = map sc_capacity (ba_sums (ca_bound c));
          sum_slots_left = list_all (\<lambda>(slot, counter). slot < sc_slots counter)
                             (zip (ca_sums c) (ba_sums (ca_bound c)))
      in if \<not> chain_counts_admit (ca_counts c) count_capacities \<or> \<not> sum_slots_left
         then Some WindowExhausted
         else if \<not> chain_sums_admit (ca_totals c) (ba_argument (ca_bound c)) sum_capacities
         then Some SumExhausted
         else None)"

definition count_entry ::
  "(bytes \<Rightarrow> bytes) \<Rightarrow> bound_admission \<Rightarrow> bytes \<Rightarrow> bytes \<Rightarrow> bytes \<Rightarrow> count_counter \<times> u64 \<Rightarrow> record_entry"
where
  "count_entry sha256 bound namespace operation_id claim =
     (\<lambda>(counter, slot).
        \<lparr> re_kind = KindCountSlot, re_key = count_slot_key sha256 (cc_key counter) slot,
          re_row = RowCount \<lparr> cs_counter = cc_key counter, cs_slot = slot,
            cs_window_seconds = ba_window_seconds bound, cs_window_index = ba_window_index bound,
            cs_window_end = ba_window_end bound, cs_namespace = namespace,
            cs_operation_id = operation_id, cs_claim = claim \<rparr>,
          re_expires_at = Some (expires_at bound) \<rparr>)"

definition sum_entry ::
  "(bytes \<Rightarrow> bytes) \<Rightarrow> bound_admission \<Rightarrow> bytes \<Rightarrow> bytes \<Rightarrow> bytes \<Rightarrow> sum_counter \<Rightarrow> u64 \<Rightarrow> u64 \<Rightarrow> record_entry"
where
  "sum_entry sha256 bound namespace operation_id claim counter slot whole =
     \<lparr> re_kind = KindSumSlot, re_key = sum_slot_key sha256 (sc_key counter) slot,
       re_row = RowSum \<lparr> ss_counter = sc_key counter, ss_slot = slot,
         ss_amount = ba_argument bound, ss_cumulative = whole,
         ss_window_seconds = ba_window_seconds bound, ss_window_index = ba_window_index bound,
         ss_window_end = ba_window_end bound, ss_namespace = namespace,
         ss_operation_id = operation_id, ss_claim = claim \<rparr>,
       re_expires_at = Some (expires_at bound) \<rparr>"

fun sum_entries ::
  "(bytes \<Rightarrow> bytes) \<Rightarrow> bound_admission \<Rightarrow> bytes \<Rightarrow> bytes \<Rightarrow> bytes
   \<Rightarrow> (sum_counter \<times> u64 \<times> u64) list \<Rightarrow> (record_entry list, attempt_error) result"
where
  "sum_entries sha256 bound namespace operation_id claim [] = Ok []"
| "sum_entries sha256 bound namespace operation_id claim ((counter, slot, whole) # rest) =
     and_then (ok_or (checked_add whole (ba_argument bound)) Corrupt) (\<lambda>next_whole.
     and_then (sum_entries sha256 bound namespace operation_id claim rest) (\<lambda>entries.
       Ok (sum_entry sha256 bound namespace operation_id claim counter slot next_whole # entries)))"

definition candidate_counters :: "capacity_candidate \<Rightarrow> counter_entry list" where
  "candidate_counters c =
     sort (map (\<lambda>(counter, slot). (0, cc_key counter, slot)) (zip (ba_counts (ca_bound c)) (ca_counts c))
           @ map (\<lambda>(counter, slot). (1, sc_key counter, slot)) (zip (ba_sums (ca_bound c)) (ca_sums c)))"

definition candidate_batch ::
  "(bytes \<Rightarrow> bytes) \<Rightarrow> capacity_candidate \<Rightarrow> bytes \<Rightarrow> bytes \<Rightarrow> bytes
   \<Rightarrow> (counter_entry list \<times> record_entry list, attempt_error) result"
where
  "candidate_batch sha256 c claim namespace operation_id =
     (let bound = ca_bound c;
          counts = map (count_entry sha256 bound namespace operation_id claim)
                     (zip (ba_counts bound) (ca_counts c))
      in and_then (sum_entries sha256 bound namespace operation_id claim
                     (zip (ba_sums bound) (zip (ca_sums c) (ca_totals c)))) (\<lambda>sums.
           Ok (candidate_counters c, counts @ sums)))"

definition candidate_advance ::
  "(bytes \<Rightarrow> bytes) \<Rightarrow> attempt_store \<Rightarrow> capacity_candidate \<Rightarrow> nat \<Rightarrow> (capacity_candidate, attempt_error) result"
where
  "candidate_advance sha256 store c index =
     (if index < length (ca_counts c)
      then Ok (c\<lparr> ca_counts := (ca_counts c)[index := ca_counts c ! index + 1] \<rparr>)
      else
        (let position = index - length (ca_counts c)
         in if position < length (ca_sums c) \<and> position < length (ca_totals c)
               \<and> position < length (ba_sums (ca_bound c))
            then and_then (cumulative sha256 store (sc_key (ba_sums (ca_bound c) ! position))
                             (ca_sums c ! position)) (\<lambda>whole.
                   Ok (c\<lparr> ca_totals := (ca_totals c)[position := whole],
                         ca_sums := (ca_sums c)[position := ca_sums c ! position + 1] \<rparr>))
            else Err Corrupt))"

definition candidate_dependencies :: "(bytes \<Rightarrow> bytes) \<Rightarrow> capacity_candidate \<Rightarrow> record_key list" where
  "candidate_dependencies sha256 c =
     List.map_filter (\<lambda>(counter, slot). map_option
         (\<lambda>previous. (KindSumSlot, sum_slot_key sha256 (sc_key counter) previous)) (checked_sub slot 1))
       (zip (ba_sums (ca_bound c)) (ca_sums c))"

definition predecessor_valid :: "bound_admission \<Rightarrow> sum_counter \<Rightarrow> u64 \<Rightarrow> u64 \<Rightarrow> stored_row option \<Rightarrow> bool" where
  "predecessor_valid bound counter previous whole row =
     (case row of
        Some (RowSum r) \<Rightarrow>
          \<not> (ss_counter r \<noteq> sc_key counter \<or> ss_slot r \<noteq> previous \<or> ss_amount r > ss_cumulative r
             \<or> ss_cumulative r \<noteq> whole
             \<or> ss_window_seconds r \<noteq> ba_window_seconds bound
             \<or> ss_window_index r \<noteq> ba_window_index bound
             \<or> ss_window_end r \<noteq> ba_window_end bound
             \<or> ss_cumulative r > sc_capacity counter)
      | _ \<Rightarrow> False)"

fun predecessors_valid ::
  "bound_admission \<Rightarrow> (sum_counter \<times> u64 \<times> u64) list \<Rightarrow> stored_row option list \<Rightarrow> (unit, attempt_error) result"
where
  "predecessors_valid bound [] snapshots = Ok ()"
| "predecessors_valid bound ((counter, slot, whole) # rest) snapshots =
     (case checked_sub slot 1 of
        None \<Rightarrow> if whole \<noteq> 0 then Err Corrupt else predecessors_valid bound rest snapshots
      | Some previous \<Rightarrow>
          (case snapshots of
             [] \<Rightarrow> Err Corrupt
           | row # others \<Rightarrow>
               if predecessor_valid bound counter previous whole row
               then predecessors_valid bound rest others else Err Corrupt))"

definition validate_predecessors ::
  "(bytes \<Rightarrow> bytes) \<Rightarrow> capacity_candidate \<Rightarrow> stored_row option list \<Rightarrow> (unit, attempt_error) result"
where
  "validate_predecessors sha256 c snapshots =
     (if length snapshots \<noteq> length (candidate_dependencies sha256 c) then Err Corrupt
      else predecessors_valid (ca_bound c)
             (zip (ba_sums (ca_bound c)) (zip (ca_sums c) (ca_totals c))) snapshots)"

section \<open>One round of a claim\<close>

text \<open>
  The claim of \<open>reserve_with_claim\<close> and \<open>store_exhausted\<close>. What the engagement owner adds to the
  batch (its allocation rows and the keys they depend on) and the admission's own stamp of the
  record under the fence are arguments, so a round holds for every one of them.
\<close>

record claim =
  cm_key :: bytes
  cm_namespace :: bytes
  cm_operation_id :: bytes
  cm_candidate :: capacity_candidate

type_synonym stamp = "attempt_record \<Rightarrow> stored_row option list \<Rightarrow> (attempt_record, attempt_error) result"

record fence_context =
  fc_native :: "record_key list"
  fc_stamp :: stamp
  fc_allocations :: "record_entry list"
  fc_allocation_keys :: "record_key list"

definition attempt_entry :: "bytes \<Rightarrow> attempt_record \<Rightarrow> record_entry" where
  "attempt_entry key r = \<lparr> re_kind = KindAttempt, re_key = key, re_row = RowAttempt r, re_expires_at = None \<rparr>"

definition insert_claim ::
  "(bytes \<Rightarrow> bytes) \<Rightarrow> fence_context \<Rightarrow> attempt_store \<Rightarrow> attempt_record \<Rightarrow> record_entry list
   \<Rightarrow> capacity_candidate option \<Rightarrow> (gateway_insert \<times> attempt_store, attempt_error) result"
where
  "insert_claim sha256 fc store r entries candidate =
     (let native_end = length (fc_native fc);
          dependencies = fc_native fc
            @ (case candidate of None \<Rightarrow> [] | Some c \<Rightarrow> candidate_dependencies sha256 c)
      in fenced_insert_all store (entries @ fc_allocations fc) (dependencies @ fc_allocation_keys fc)
           (\<lambda>all.
              let snapshots = take (length dependencies) all
              in and_then (fc_stamp fc r (take native_end snapshots)) (\<lambda>stamped.
                 and_then
                   (case candidate of
                      None \<Rightarrow> Ok ()
                    | Some c \<Rightarrow> validate_predecessors sha256 c (drop native_end snapshots))
                   (\<lambda>_. Ok (RowAttempt stamped)))))"

datatype round_outcome = Claimed | Exhausted claim_refusal | SlotLost nat | AllocationLost

definition store_exhausted ::
  "(bytes \<Rightarrow> bytes) \<Rightarrow> fence_context \<Rightarrow> attempt_store \<Rightarrow> claim \<Rightarrow> claim_refusal
   \<Rightarrow> (round_outcome \<times> attempt_store, attempt_error) result"
where
  "store_exhausted sha256 fc store m code =
     (let r = \<lparr> at_namespace = cm_namespace m, at_operation_id = cm_operation_id m,
                at_refusal = Some code, at_counters = [] \<rparr>
      in and_then
           (insert_claim sha256 (fc\<lparr> fc_allocations := [], fc_allocation_keys := [] \<rparr>) store r
              [attempt_entry (cm_key m) r] None)
           (\<lambda>(inserted, store').
              case inserted of
                Inserted \<Rightarrow> Ok (Exhausted code, store')
              | Exists _ \<Rightarrow> Err Replay))"

definition reserve_round ::
  "(bytes \<Rightarrow> bytes) \<Rightarrow> fence_context \<Rightarrow> attempt_store \<Rightarrow> claim
   \<Rightarrow> (round_outcome \<times> attempt_store, attempt_error) result"
where
  "reserve_round sha256 fc store m =
     (case candidate_refusal (cm_candidate m) of
        Some code \<Rightarrow> store_exhausted sha256 fc store m code
      | None \<Rightarrow>
          and_then (candidate_batch sha256 (cm_candidate m) (cm_key m) (cm_namespace m) (cm_operation_id m))
            (\<lambda>(counters, slots).
               let r = \<lparr> at_namespace = cm_namespace m, at_operation_id = cm_operation_id m,
                         at_refusal = None, at_counters = counters \<rparr>;
                   entries = attempt_entry (cm_key m) r # slots
               in and_then (insert_claim sha256 fc store r entries (Some (cm_candidate m)))
                    (\<lambda>(inserted, store').
                       case inserted of
                         Inserted \<Rightarrow> Ok (Claimed, store')
                       | Exists index \<Rightarrow>
                           if index = 0 then Err Replay
                           else if index < length entries then Ok (SlotLost (index - 1), store')
                           else Ok (AllocationLost, store'))))"

section \<open>Concurrent claims\<close>

text \<open>
  Any number of gateways run \<open>reserve_with_claim\<close> over one store. A claim begins with rows it read
  at some earlier moment (\<open>seen\<close>: rows that are in the store still, since slots are not deleted
  inside their window), each insert is one fenced round, and a lost slot is advanced past by a later
  read. \<open>K\<close> is the set of counter keys in use; the log lists the admissions claimed, in order.
\<close>

datatype claim_progress = Proposing claim | Losing claim nat | Settled

record claims_state =
  st_store :: attempt_store
  st_claims :: "claim_progress list"
  st_log :: "bound_admission list"

definition allocation_context :: "fence_context \<Rightarrow> bool" where
  "allocation_context fc \<longleftrightarrow> (\<forall>e \<in> set (fc_allocations fc). re_kind e = KindEffectAllocation)"

definition bound_in :: "bytes set \<Rightarrow> bound_admission \<Rightarrow> bool" where
  "bound_in K bound \<longleftrightarrow>
     distinct (map cc_key (ba_counts bound)) \<and> distinct (map sc_key (ba_sums bound))
     \<and> cc_key ` set (ba_counts bound) \<subseteq> K \<and> sc_key ` set (ba_sums bound) \<subseteq> K"

inductive claims_step :: "(bytes \<Rightarrow> bytes) \<Rightarrow> bytes set \<Rightarrow> claims_state \<Rightarrow> claims_state \<Rightarrow> bool"
  for sha256 K
where
  begin_claim:
    "bound_in K bound \<Longrightarrow> seen \<subseteq>\<^sub>m st_store s \<Longrightarrow> candidate_new sha256 seen bound = Ok c \<Longrightarrow>
     claims_step sha256 K s
       (s\<lparr> st_claims := st_claims s
            @ [Proposing \<lparr> cm_key = key, cm_namespace = namespace, cm_operation_id = operation_id,
                           cm_candidate = c \<rparr>] \<rparr>)"
| claimed:
    "i < length (st_claims s) \<Longrightarrow> st_claims s ! i = Proposing m \<Longrightarrow> allocation_context fc \<Longrightarrow>
     reserve_round sha256 fc (st_store s) m = Ok (Claimed, store') \<Longrightarrow>
     claims_step sha256 K s
       (s\<lparr> st_store := store', st_claims := (st_claims s)[i := Settled],
           st_log := st_log s @ [ca_bound (cm_candidate m)] \<rparr>)"
| exhausted:
    "i < length (st_claims s) \<Longrightarrow> st_claims s ! i = Proposing m \<Longrightarrow>
     reserve_round sha256 fc (st_store s) m = Ok (Exhausted code, store') \<Longrightarrow>
     claims_step sha256 K s (s\<lparr> st_store := store', st_claims := (st_claims s)[i := Settled] \<rparr>)"
| slot_lost:
    "i < length (st_claims s) \<Longrightarrow> st_claims s ! i = Proposing m \<Longrightarrow>
     reserve_round sha256 fc (st_store s) m = Ok (SlotLost index, store') \<Longrightarrow>
     claims_step sha256 K s (s\<lparr> st_store := store', st_claims := (st_claims s)[i := Losing m index] \<rparr>)"
| allocation_lost:
    "i < length (st_claims s) \<Longrightarrow> st_claims s ! i = Proposing m \<Longrightarrow>
     reserve_round sha256 fc (st_store s) m = Ok (AllocationLost, store') \<Longrightarrow>
     claims_step sha256 K s (s\<lparr> st_store := store' \<rparr>)"
| advanced:
    "i < length (st_claims s) \<Longrightarrow> st_claims s ! i = Losing m index \<Longrightarrow>
     candidate_advance sha256 (st_store s) (cm_candidate m) index = Ok c \<Longrightarrow>
     claims_step sha256 K s (s\<lparr> st_claims := (st_claims s)[i := Proposing (m\<lparr> cm_candidate := c \<rparr>)] \<rparr>)"
| other_records:
    "(\<And>kind key. kind_expires kind \<Longrightarrow> store' (kind, key) = st_store s (kind, key)) \<Longrightarrow>
     claims_step sha256 K s (s\<lparr> st_store := store' \<rparr>)"
| given_up:
    "i < length (st_claims s) \<Longrightarrow>
     claims_step sha256 K s (s\<lparr> st_claims := (st_claims s)[i := Settled] \<rparr>)"

inductive claims_run :: "(bytes \<Rightarrow> bytes) \<Rightarrow> bytes set \<Rightarrow> claims_state \<Rightarrow> bool" for sha256 K where
  run_start: "claims_run sha256 K \<lparr> st_store = Map.empty, st_claims = [], st_log = [] \<rparr>"
| run_step: "claims_run sha256 K s \<Longrightarrow> claims_step sha256 K s s' \<Longrightarrow> claims_run sha256 K s'"

section \<open>What a round does to the store\<close>

lemma first_existing_None: "first_existing store i es = None \<longleftrightarrow> (\<forall>e \<in> set es. store (entry_key e) = None)"
  by (induction store i es rule: first_existing.induct) auto

lemma fenced_insert_allD:
  assumes "fenced_insert_all store entries deps decide = Ok (inserted, store')"
  shows "inserted \<noteq> Inserted \<and> store' = store
         \<or> inserted = Inserted
           \<and> (\<exists>first rest row. entries = first # rest \<and> decide (map store deps) = Ok row
                \<and> distinct (map re_key entries)
                \<and> (\<forall>e \<in> set entries. store (entry_key e) = None)
                \<and> store' = insert_rows store (first\<lparr> re_row := row \<rparr> # rest))"
  using assms
  unfolding fenced_insert_all_def validate_gateway_batch_def validate_gateway_fence_def
  by (cases entries)
     (auto simp: and_then_Inr_iff first_existing_None split: if_splits option.splits)

lemma insert_rows_new:
  assumes "distinct (map re_key entries)" and "e \<in> set entries" and "entry_key e = key"
  shows "insert_rows store entries key = Some (re_row e)"
proof -
  have "distinct (map entry_key entries)"
    using assms(1) by (auto simp: distinct_map entry_key_def inj_on_def)
  then have "map_of (map (\<lambda>e. (entry_key e, re_row e)) entries) key = Some (re_row e)"
    using assms(2,3) by (auto simp: comp_def intro!: map_of_is_SomeI)
  then show ?thesis by (simp add: insert_rows_def)
qed

lemma insert_rows_old:
  assumes "\<And>e. e \<in> set entries \<Longrightarrow> entry_key e \<noteq> key"
  shows "insert_rows store entries key = store key"
proof -
  have "map_of (map (\<lambda>e. (entry_key e, re_row e)) entries) key = None"
    using assms unfolding map_of_eq_None_iff by fastforce
  then show ?thesis by (simp add: insert_rows_def map_add_def)
qed

lemma sum_entries_ok:
  "sum_entries sha256 bound ns op claim xs = Ok es \<Longrightarrow>
   es = map (\<lambda>(counter, slot, whole).
          sum_entry sha256 bound ns op claim counter slot (whole + ba_argument bound)) xs
   \<and> (\<forall>(counter, slot, whole) \<in> set xs. unat (whole + ba_argument bound) = unat whole + unat (ba_argument bound))"
proof (induction sha256 bound ns op claim xs arbitrary: es rule: sum_entries.induct)
  case (2 sha256 bound ns op claim counter slot whole rest)
  from "2.prems" obtain nw es' where nw: "checked_add whole (ba_argument bound) = Some nw"
    and es': "sum_entries sha256 bound ns op claim rest = Ok es'"
    and es: "es = sum_entry sha256 bound ns op claim counter slot nw # es'"
    by (auto simp: and_then_Inr_iff)
  have "nw = whole + ba_argument bound" using nw by (simp add: checked_add_def split: if_splits)
  moreover have "unat nw = unat whole + unat (ba_argument bound)"
    using nw by (simp add: checked_add_Some_iff)
  ultimately show ?case using "2.IH" [OF es'] es by simp
qed simp

lemma predecessors_valid_ok:
  assumes "predecessors_valid bound (zip sums (zip slots wholes))
             (map store (List.map_filter (\<lambda>(counter, slot). map_option
                (\<lambda>previous. (KindSumSlot, sum_slot_key sha256 (sc_key counter) previous))
                (checked_sub slot 1)) (zip sums slots))) = Ok ()"
    and "(counter, slot, whole) \<in> set (zip sums (zip slots wholes))"
    and "length sums = length slots" and "length wholes = length slots"
  shows "slot = 0 \<and> whole = 0
         \<or> slot \<noteq> 0 \<and> (\<exists>r. store (KindSumSlot, sum_slot_key sha256 (sc_key counter) (slot - 1)) = Some (RowSum r)
              \<and> ss_cumulative r = whole)"
  using assms
proof (induction sums arbitrary: slots wholes)
  case (Cons c sums)
  then obtain n slots' w wholes' where eqs: "slots = n # slots'" "wholes = w # wholes'"
    by (cases slots; cases wholes) auto
  show ?case
  proof (cases "n = 0")
    case True
    then have "checked_sub n 1 = None" by (simp add: checked_sub_def)
    then show ?thesis
      using Cons.prems Cons.IH [of slots' wholes'] True
      by (auto simp: eqs split: if_splits)
  next
    case False
    then have "checked_sub n 1 = Some (n - 1)"
      by (simp add: checked_sub_def word_le_nat_alt Suc_le_eq unat_gt_0)
    then show ?thesis
      using Cons.prems Cons.IH [of slots' wholes'] False
      by (auto simp: eqs predecessor_valid_def
               split: if_splits option.splits stored_row.splits)
  qed
qed simp

definition count_charges :: "capacity_candidate \<Rightarrow> bytes charge list" where
  "count_charges c = map (\<lambda>(counter, slot). (cc_key counter, slot, 1)) (zip (ba_counts (ca_bound c)) (ca_counts c))"

definition sum_charges :: "capacity_candidate \<Rightarrow> bytes charge list" where
  "sum_charges c = map (\<lambda>(counter, slot). (sc_key counter, slot, ba_argument (ca_bound c)))
                     (zip (ba_sums (ca_bound c)) (ca_sums c))"

lemma store_exhausted_ok:
  assumes "store_exhausted sha256 fc store m code = Ok (outcome, store')"
  shows "outcome = Exhausted code"
    and "kind_expires kind \<Longrightarrow> store' (kind, key) = store (kind, key)"
proof -
  obtain r ins st where ins: "insert_claim sha256 (fc\<lparr> fc_allocations := [], fc_allocation_keys := [] \<rparr>) store r
              [attempt_entry (cm_key m) r] None = Ok (ins, st)"
    and out: "(case ins of Inserted \<Rightarrow> Ok (Exhausted code, st) | Exists _ \<Rightarrow> Err Replay) = Ok (outcome, store')"
    using assms unfolding store_exhausted_def Let_def and_then_pair_iff by blast
  from out have "ins = Inserted" and st: "st = store'" and outcome: "outcome = Exhausted code"
    by (cases ins; simp)+
  show "outcome = Exhausted code" by fact
  from \<open>ins = Inserted\<close> fenced_insert_allD [OF ins [unfolded insert_claim_def Let_def]] st
  obtain row where "store' = insert_rows store [(attempt_entry (cm_key m) r)\<lparr> re_row := row \<rparr>]"
    by auto
  then show "kind_expires kind \<Longrightarrow> store' (kind, key) = store (kind, key)"
    by (auto simp: attempt_entry_def entry_key_def kind_expires_def intro!: insert_rows_old)
qed

text \<open>
  What a claimed round says of the store, written once for the count and the sum slots: every
  slot row is new, every other slot row is as it was, and the sum predecessors were validated.
\<close>

lemma claimed_round:
  assumes round: "reserve_round sha256 fc store m = Ok (Claimed, store')"
    and allocations: "allocation_context fc"
  defines "c \<equiv> cm_candidate m"
  defines "bound \<equiv> ca_bound c"
  defines "rows \<equiv> map (count_entry sha256 bound (cm_namespace m) (cm_operation_id m) (cm_key m))
                      (zip (ba_counts bound) (ca_counts c))
                   @ map (\<lambda>(counter, slot, whole). sum_entry sha256 bound (cm_namespace m)
                            (cm_operation_id m) (cm_key m) counter slot (whole + ba_argument bound))
                      (zip (ba_sums bound) (zip (ca_sums c) (ca_totals c)))"
  shows "candidate_refusal c = None"
    and "\<And>e. e \<in> set rows \<Longrightarrow> store (entry_key e) = None \<and> store' (entry_key e) = Some (re_row e)"
    and "\<And>kind key. kind_expires kind \<Longrightarrow> (\<And>e. e \<in> set rows \<Longrightarrow> entry_key e \<noteq> (kind, key))
          \<Longrightarrow> store' (kind, key) = store (kind, key)"
    and "validate_predecessors sha256 c (map store (candidate_dependencies sha256 c)) = Ok ()"
    and "\<And>counter slot whole. (counter, slot, whole) \<in> set (zip (ba_sums bound) (zip (ca_sums c) (ca_totals c)))
          \<Longrightarrow> unat (whole + ba_argument bound) = unat whole + unat (ba_argument bound)"
proof -
  have refusal: "candidate_refusal c = None"
    using round unfolding reserve_round_def c_def [symmetric]
    by (auto dest: store_exhausted_ok(1) split: option.splits)
  then show "candidate_refusal c = None" .
  let ?counts = "map (count_entry sha256 bound (cm_namespace m) (cm_operation_id m) (cm_key m))
                   (zip (ba_counts bound) (ca_counts c))"
  obtain sums where sums: "sum_entries sha256 bound (cm_namespace m) (cm_operation_id m) (cm_key m)
                 (zip (ba_sums bound) (zip (ca_sums c) (ca_totals c))) = Ok sums"
    and round_ok: "candidate_batch sha256 c (cm_key m) (cm_namespace m) (cm_operation_id m)
           = Ok (candidate_counters c, ?counts @ sums)"
    using round refusal unfolding reserve_round_def c_def [symmetric] candidate_batch_def bound_def [symmetric]
    by (auto simp: Let_def and_then_Inr_iff)
  obtain r ins st where ins: "insert_claim sha256 fc store r (attempt_entry (cm_key m) r # ?counts @ sums) (Some c)
                                = Ok (ins, st)"
    and out: "(case ins of Inserted \<Rightarrow> Ok (Claimed, st)
               | Exists index \<Rightarrow>
                   if index = 0 then Err Replay
                   else if index < length (attempt_entry (cm_key m) r # ?counts @ sums)
                   then Ok (SlotLost (index - 1), st) else Ok (AllocationLost, st)) = Ok (Claimed, store')"
    using round refusal unfolding reserve_round_def c_def [symmetric] Let_def
    by (simp add: round_ok) (unfold and_then_pair_iff, blast)
  from out have inserted: "insert_claim sha256 fc store r (attempt_entry (cm_key m) r # ?counts @ sums) (Some c)
                             = Ok (Inserted, store')"
    using ins by (cases ins) (auto split: if_splits)
  note rows = sum_entries_ok [OF sums]
  show "\<And>counter slot whole. (counter, slot, whole) \<in> set (zip (ba_sums bound) (zip (ca_sums c) (ca_totals c)))
          \<Longrightarrow> unat (whole + ba_argument bound) = unat whole + unat (ba_argument bound)"
    using rows by blast
  have batch: "attempt_entry (cm_key m) r # ?counts @ sums = attempt_entry (cm_key m) r # rows"
    using rows by (simp add: rows_def)
  let ?first = "attempt_entry (cm_key m) r"
  obtain row where decide: "validate_predecessors sha256 c (map store (candidate_dependencies sha256 c)) = Ok ()"
    and dist: "distinct (map re_key ((?first # rows) @ fc_allocations fc))"
    and free: "\<forall>e \<in> set ((?first # rows) @ fc_allocations fc). store (entry_key e) = None"
    and store': "store' = insert_rows store (?first\<lparr> re_row := row \<rparr> # rows @ fc_allocations fc)"
    using fenced_insert_allD [OF inserted [unfolded insert_claim_def Let_def batch option.case]]
    by (auto simp: and_then_Inr_iff)
  show "validate_predecessors sha256 c (map store (candidate_dependencies sha256 c)) = Ok ()" by fact
  have dist': "distinct (map re_key (?first\<lparr> re_row := row \<rparr> # rows @ fc_allocations fc))" using dist by simp
  show "\<And>e. e \<in> set rows \<Longrightarrow> store (entry_key e) = None \<and> store' (entry_key e) = Some (re_row e)"
    unfolding store' using free by (auto intro!: insert_rows_new [OF dist'])
  show "\<And>kind key. kind_expires kind \<Longrightarrow> (\<And>e. e \<in> set rows \<Longrightarrow> entry_key e \<noteq> (kind, key))
          \<Longrightarrow> store' (kind, key) = store (kind, key)"
    unfolding store' using allocations
    by (intro insert_rows_old) (auto simp: attempt_entry_def entry_key_def kind_expires_def allocation_context_def)
qed

lemma claimed_keeps_slots:
  assumes "reserve_round sha256 fc store m = Ok (Claimed, store')" and "allocation_context fc"
    and "kind_expires kind" and "store (kind, key) \<noteq> None"
  shows "store' (kind, key) \<noteq> None"
  using claimed_round(2,3) [OF assms(1,2)] assms(3,4) by metis

lemma unclaimed_round:
  assumes "reserve_round sha256 fc store m = Ok (outcome, store')" and "outcome \<noteq> Claimed"
    and "kind_expires kind"
  shows "store' (kind, key) = store (kind, key)"
proof (cases "candidate_refusal (cm_candidate m)")
  case None
  obtain entries r ins st where
    ins: "insert_claim sha256 fc store r entries (Some (cm_candidate m)) = Ok (ins, st)"
    and out: "(case ins of Inserted \<Rightarrow> Ok (Claimed, st)
               | Exists index \<Rightarrow>
                   if index = 0 then Err Replay
                   else if index < length entries then Ok (SlotLost (index - 1), st)
                   else Ok (AllocationLost, st)) = Ok (outcome, store')"
    using assms(1) unfolding reserve_round_def Let_def None option.case and_then_pair_iff by blast
  from out assms(2) have "ins \<noteq> Inserted" by (cases ins) auto
  moreover from out have "st = store'" by (cases ins) (auto split: if_splits)
  ultimately show ?thesis using fenced_insert_allD [OF ins [unfolded insert_claim_def Let_def]] by simp
next
  case (Some code)
  with assms(1) have "store_exhausted sha256 fc store m code = Ok (outcome, store')"
    by (simp add: reserve_round_def)
  then show ?thesis by (rule store_exhausted_ok(2)) (rule assms(3))
qed

section \<open>Claims as charges on a slot ledger\<close>

definition collision_free :: "(bytes \<Rightarrow> bytes) \<Rightarrow> bytes set \<Rightarrow> bool" where
  "collision_free sha256 K \<longleftrightarrow>
     inj_on (\<lambda>(k, n). count_slot_key sha256 k n) (K \<times> UNIV)
     \<and> inj_on (\<lambda>(k, n). sum_slot_key sha256 k n) (K \<times> UNIV)"

definition count_taken :: "(bytes \<Rightarrow> bytes) \<Rightarrow> bytes set \<Rightarrow> claims_state \<Rightarrow> bytes \<Rightarrow> u64 \<Rightarrow> nat option" where
  "count_taken sha256 K s k n =
     (if k \<in> K \<and> st_store s (KindCountSlot, count_slot_key sha256 k n) \<noteq> None then Some (unat n + 1) else None)"

definition sum_taken :: "(bytes \<Rightarrow> bytes) \<Rightarrow> bytes set \<Rightarrow> claims_state \<Rightarrow> bytes \<Rightarrow> u64 \<Rightarrow> nat option" where
  "sum_taken sha256 K s k n =
     (if k \<in> K
      then map_option (\<lambda>row. case row of RowSum r \<Rightarrow> unat (ss_cumulative r) | _ \<Rightarrow> 0)
             (st_store s (KindSumSlot, sum_slot_key sha256 k n))
      else None)"

definition candidate_ok :: "(bytes \<Rightarrow> bytes) \<Rightarrow> bytes set \<Rightarrow> attempt_store \<Rightarrow> capacity_candidate \<Rightarrow> bool" where
  "candidate_ok sha256 K store c \<longleftrightarrow>
     bound_in K (ca_bound c)
     \<and> length (ca_counts c) = length (ba_counts (ca_bound c))
     \<and> length (ca_sums c) = length (ba_sums (ca_bound c))
     \<and> length (ca_totals c) = length (ba_sums (ca_bound c))
     \<and> (\<forall>(counter, slot) \<in> set (zip (ba_counts (ca_bound c)) (ca_counts c)).
          slot = 0 \<or> store (KindCountSlot, count_slot_key sha256 (cc_key counter) (slot - 1)) \<noteq> None)"

definition progress_ok :: "(bytes \<Rightarrow> bytes) \<Rightarrow> bytes set \<Rightarrow> attempt_store \<Rightarrow> claim_progress \<Rightarrow> bool" where
  "progress_ok sha256 K store p =
     (case p of
        Settled \<Rightarrow> True
      | Proposing m \<Rightarrow> candidate_ok sha256 K store (cm_candidate m)
      | Losing m index \<Rightarrow>
          candidate_ok sha256 K store (cm_candidate m)
          \<and> (index < length (ca_counts (cm_candidate m)) \<longrightarrow>
               store (KindCountSlot, count_slot_key sha256
                  (cc_key (ba_counts (ca_bound (cm_candidate m)) ! index)) (ca_counts (cm_candidate m) ! index)) \<noteq> None))"

text \<open>A claimed step of the system, as the batch of charges it makes on either ledger.\<close>

definition claimed_batch ::
  "(bytes \<Rightarrow> bytes) \<Rightarrow> bytes set \<Rightarrow> (capacity_candidate \<Rightarrow> bytes charge list)
   \<Rightarrow> claims_state \<Rightarrow> bytes charge list \<Rightarrow> claims_state \<Rightarrow> bool"
where
  "claimed_batch sha256 K charges s cs s' \<longleftrightarrow>
     collision_free sha256 K
     \<and> (\<exists>m fc. candidate_ok sha256 K (st_store s) (cm_candidate m) \<and> allocation_context fc
          \<and> reserve_round sha256 fc (st_store s) m = Ok (Claimed, st_store s')
          \<and> cs = charges (cm_candidate m))"

lemma claimed_batchE:
  assumes "claimed_batch sha256 K charges s cs s'"
  obtains m fc where "collision_free sha256 K" "candidate_ok sha256 K (st_store s) (cm_candidate m)"
    "allocation_context fc" "reserve_round sha256 fc (st_store s) m = Ok (Claimed, st_store s')"
    "cs = charges (cm_candidate m)"
  using assms by (auto simp: claimed_batch_def)

lemma zip_third:
  assumes "(x, y) \<in> set (zip xs ys)" and "length zs = length ys"
  obtains z where "(x, y, z) \<in> set (zip xs (zip ys zs))"
proof -
  from assms(1) obtain i where i: "i < length xs" "i < length ys" "x = xs ! i" "y = ys ! i"
    by (auto simp: set_zip)
  then have "(x, y, zs ! i) \<in> set (zip xs (zip ys zs))"
    using assms(2) by (auto simp: set_zip intro!: exI [of _ i])
  then show ?thesis by (rule that)
qed

lemma map_fst_zip_keys:
  "length ys = length xs \<Longrightarrow> map fst (map (\<lambda>(x, y). (f x, g y)) (zip xs ys)) = map f xs"
  by (induction xs ys rule: list_induct2') auto

lemma candidate_charge_keys:
  assumes "candidate_ok sha256 K store c"
  shows "map fst (count_charges c) = map cc_key (ba_counts (ca_bound c))"
    and "map fst (sum_charges c) = map sc_key (ba_sums (ca_bound c))"
    and "distinct (map fst (count_charges c))" and "distinct (map fst (sum_charges c))"
proof -
  show c: "map fst (count_charges c) = map cc_key (ba_counts (ca_bound c))"
    unfolding count_charges_def
    by (rule map_fst_zip_keys [where g = "\<lambda>slot. (slot, 1)"]) (use assms in \<open>simp add: candidate_ok_def\<close>)
  show s: "map fst (sum_charges c) = map sc_key (ba_sums (ca_bound c))"
    unfolding sum_charges_def
    by (rule map_fst_zip_keys [where g = "\<lambda>slot. (slot, ba_argument (ca_bound c))"])
       (use assms in \<open>simp add: candidate_ok_def\<close>)
  show "distinct (map fst (count_charges c))" and "distinct (map fst (sum_charges c))"
    unfolding c s using assms by (simp_all add: candidate_ok_def bound_in_def)
qed

lemma collision_freeD:
  assumes "collision_free sha256 K" and "k \<in> K" and "k' \<in> K"
  shows "count_slot_key sha256 k n = count_slot_key sha256 k' n' \<Longrightarrow> k = k' \<and> n = n'"
    and "sum_slot_key sha256 k n = sum_slot_key sha256 k' n' \<Longrightarrow> k = k' \<and> n = n'"
  using assms
    inj_onD [of "\<lambda>(k, n). count_slot_key sha256 k n" "K \<times> UNIV" "(k, n)" "(k', n')"]
    inj_onD [of "\<lambda>(k, n). sum_slot_key sha256 k n" "K \<times> UNIV" "(k, n)" "(k', n')"]
  by (auto simp: collision_free_def)

lemma charged_key_in:
  assumes "candidate_ok sha256 K store c"
  shows "(counter, slot) \<in> set (zip (ba_counts (ca_bound c)) slots) \<Longrightarrow> cc_key counter \<in> K"
    and "(scounter, slot) \<in> set (zip (ba_sums (ca_bound c)) slots) \<Longrightarrow> sc_key scounter \<in> K"
  using assms by (auto simp: candidate_ok_def bound_in_def subset_iff dest: set_zip_leftD)

interpretation count_ledger: slot_ledger "count_taken sha256 K" "claimed_batch sha256 K count_charges"
  for sha256 K
proof
  fix s cs s' k n amount
  assume "claimed_batch sha256 K count_charges s cs s'"
  then obtain m fc where free: "collision_free sha256 K"
    and ok: "candidate_ok sha256 K (st_store s) (cm_candidate m)" and fc: "allocation_context fc"
    and round: "reserve_round sha256 fc (st_store s) m = Ok (Claimed, st_store s')"
    and cs: "cs = count_charges (cm_candidate m)"
    by (rule claimed_batchE)
  note row = claimed_round [OF round fc]
  show "distinct (map fst cs)"
    unfolding cs by (rule candidate_charge_keys(3) [OF ok])
  have entry: "k \<in> K \<and> st_store s (KindCountSlot, count_slot_key sha256 k n) = None
      \<and> st_store s' (KindCountSlot, count_slot_key sha256 k n) \<noteq> None \<and> amount = 1
      \<and> (n = 0 \<or> st_store s (KindCountSlot, count_slot_key sha256 k (n - 1)) \<noteq> None)"
    if "(k, n, amount) \<in> set cs"
  proof -
    from that obtain counter where c: "(counter, n) \<in> set (zip (ba_counts (ca_bound (cm_candidate m)))
        (ca_counts (cm_candidate m)))" "k = cc_key counter" "amount = 1"
      by (auto simp: cs count_charges_def)
    then have "k \<in> K" using charged_key_in(1) [OF ok] by metis
    moreover have "n = 0 \<or> st_store s (KindCountSlot, count_slot_key sha256 k (n - 1)) \<noteq> None"
      using ok c by (auto simp: candidate_ok_def)
    moreover have "count_entry sha256 (ca_bound (cm_candidate m)) (cm_namespace m) (cm_operation_id m)
         (cm_key m) (counter, n) \<in> set (map (count_entry sha256 (ca_bound (cm_candidate m)) (cm_namespace m)
           (cm_operation_id m) (cm_key m)) (zip (ba_counts (ca_bound (cm_candidate m))) (ca_counts (cm_candidate m))))"
      using c by simp
    ultimately show ?thesis
      using row(2) [of "count_entry sha256 (ca_bound (cm_candidate m)) (cm_namespace m) (cm_operation_id m)
         (cm_key m) (counter, n)"] c by (simp add: count_entry_def entry_key_def)
  qed
  show "(k, n, amount) \<in> set cs \<Longrightarrow> count_taken sha256 K s k n = None"
    using entry by (simp add: count_taken_def)
  show "(k, n, amount) \<in> set cs \<Longrightarrow> n = 0 \<or> count_taken sha256 K s k (n - 1) \<noteq> None"
    using entry by (auto simp: count_taken_def)
  show "(k, n, amount) \<in> set cs \<Longrightarrow> count_taken sha256 K s' k n =
      Some ((if n = 0 then 0 else the (count_taken sha256 K s k (n - 1))) + unat amount)"
    using entry by (auto simp: count_taken_def unat_minus_one unat_gt_0)
  show "count_taken sha256 K s' k n = count_taken sha256 K s k n" if none: "\<And>amount. (k, n, amount) \<notin> set cs"
  proof (cases "k \<in> K")
    case True
    have "st_store s' (KindCountSlot, count_slot_key sha256 k n) = st_store s (KindCountSlot, count_slot_key sha256 k n)"
    proof (rule row(3))
      show "kind_expires KindCountSlot" by (simp add: kind_expires_def)
    next
      fix e
      assume "e \<in> set (map (count_entry sha256 (ca_bound (cm_candidate m)) (cm_namespace m) (cm_operation_id m)
                           (cm_key m)) (zip (ba_counts (ca_bound (cm_candidate m))) (ca_counts (cm_candidate m)))
                       @ map (\<lambda>(counter, slot, whole). sum_entry sha256 (ca_bound (cm_candidate m)) (cm_namespace m)
                           (cm_operation_id m) (cm_key m) counter slot (whole + ba_argument (ca_bound (cm_candidate m))))
                         (zip (ba_sums (ca_bound (cm_candidate m)))
                           (zip (ca_sums (cm_candidate m)) (ca_totals (cm_candidate m)))))"
      then show "entry_key e \<noteq> (KindCountSlot, count_slot_key sha256 k n)"
      proof (auto simp: entry_key_def sum_entry_def count_entry_def, goal_cases)
        case (1 counter slot)
        then have "cc_key counter \<in> K" using charged_key_in(1) [OF ok] by metis
        from collision_freeD(1) [OF free this True] 1 none show ?case
          by (force simp: cs count_charges_def)
      qed
    qed
    then show ?thesis by (simp add: count_taken_def)
  qed (simp add: count_taken_def)
qed

text \<open>What a claimed round read and wrote at one of its sum counters.\<close>

lemma claimed_sum_slot:
  assumes ok: "candidate_ok sha256 K store c" and fc: "allocation_context fc" and c: "cm_candidate m = c"
    and round: "reserve_round sha256 fc store m = Ok (Claimed, store')"
    and mem: "(counter, n) \<in> set (zip (ba_sums (ca_bound c)) (ca_sums c))"
  obtains whole r where "(counter, n, whole) \<in> set (zip (ba_sums (ca_bound c)) (zip (ca_sums c) (ca_totals c)))"
    and "store (KindSumSlot, sum_slot_key sha256 (sc_key counter) n) = None"
    and "store' (KindSumSlot, sum_slot_key sha256 (sc_key counter) n) = Some (RowSum r)"
    and "unat (ss_cumulative r) = unat whole + unat (ba_argument (ca_bound c))"
    and "n = 0 \<and> whole = 0 \<or> n \<noteq> 0 \<and> (\<exists>p. store (KindSumSlot, sum_slot_key sha256 (sc_key counter) (n - 1)) = Some (RowSum p)
           \<and> ss_cumulative p = whole)"
proof -
  note row = claimed_round [OF round fc, unfolded c]
  have lengths: "length (ba_sums (ca_bound c)) = length (ca_sums c)" "length (ca_totals c) = length (ca_sums c)"
    using ok by (simp_all add: candidate_ok_def)
  obtain whole where whole: "(counter, n, whole) \<in> set (zip (ba_sums (ca_bound c)) (zip (ca_sums c) (ca_totals c)))"
    using mem lengths(2) by (rule zip_third)
  let ?entry = "sum_entry sha256 (ca_bound c) (cm_namespace m) (cm_operation_id m) (cm_key m) counter n
                  (whole + ba_argument (ca_bound c))"
  have "?entry \<in> (\<lambda>(counter, slot, whole). sum_entry sha256 (ca_bound c) (cm_namespace m) (cm_operation_id m) (cm_key m)
             counter slot (whole + ba_argument (ca_bound c)))
          ` set (zip (ba_sums (ca_bound c)) (zip (ca_sums c) (ca_totals c)))"
    using whole by force
  then have new: "store (entry_key ?entry) = None \<and> store' (entry_key ?entry) = Some (re_row ?entry)"
    using row(2) [of ?entry] by simp
  have "predecessors_valid (ca_bound c) (zip (ba_sums (ca_bound c)) (zip (ca_sums c) (ca_totals c)))
          (map store (candidate_dependencies sha256 c)) = Ok ()"
    using row(4) by (simp add: validate_predecessors_def)
  from predecessors_valid_ok [OF this [unfolded candidate_dependencies_def] whole lengths] new row(5) [OF whole]
  show ?thesis by (intro that [OF whole]) (auto simp: entry_key_def sum_entry_def)
qed

interpretation sum_ledger: slot_ledger "sum_taken sha256 K" "claimed_batch sha256 K sum_charges"
  for sha256 K
proof
  fix s cs s' k n amount
  assume "claimed_batch sha256 K sum_charges s cs s'"
  then obtain m fc where free: "collision_free sha256 K"
    and ok: "candidate_ok sha256 K (st_store s) (cm_candidate m)" and fc: "allocation_context fc"
    and round: "reserve_round sha256 fc (st_store s) m = Ok (Claimed, st_store s')"
    and cs: "cs = sum_charges (cm_candidate m)"
    by (rule claimed_batchE)
  define c where "c = cm_candidate m"
  note row = claimed_round [OF round fc, folded c_def]
  show "distinct (map fst cs)" unfolding cs by (rule candidate_charge_keys(4) [OF ok])
  have entry: "k \<in> K \<and> st_store s (KindSumSlot, sum_slot_key sha256 k n) = None
      \<and> (n = 0 \<or> sum_taken sha256 K s k (n - 1) \<noteq> None)
      \<and> sum_taken sha256 K s' k n = Some ((if n = 0 then 0 else the (sum_taken sha256 K s k (n - 1))) + unat amount)"
    if "(k, n, amount) \<in> set cs"
  proof -
    from that obtain counter where mem: "(counter, n) \<in> set (zip (ba_sums (ca_bound c)) (ca_sums c))"
      and k: "k = sc_key counter" and amount: "amount = ba_argument (ca_bound c)"
      by (auto simp: cs sum_charges_def c_def)
    then have "k \<in> K" using charged_key_in(2) [OF ok [folded c_def]] by metis
    from claimed_sum_slot [OF ok [folded c_def] fc c_def [symmetric] round mem]
    obtain whole r where "st_store s (KindSumSlot, sum_slot_key sha256 k n) = None"
      "st_store s' (KindSumSlot, sum_slot_key sha256 k n) = Some (RowSum r)"
      "unat (ss_cumulative r) = unat whole + unat amount"
      "n = 0 \<and> whole = 0 \<or> n \<noteq> 0 \<and> (\<exists>p. st_store s (KindSumSlot, sum_slot_key sha256 k (n - 1)) = Some (RowSum p)
           \<and> ss_cumulative p = whole)"
      unfolding k [symmetric] amount [symmetric] .
    then show ?thesis using \<open>k \<in> K\<close> by (auto simp: sum_taken_def)
  qed
  show "(k, n, amount) \<in> set cs \<Longrightarrow> sum_taken sha256 K s k n = None"
    using entry by (simp add: sum_taken_def)
  show "(k, n, amount) \<in> set cs \<Longrightarrow> n = 0 \<or> sum_taken sha256 K s k (n - 1) \<noteq> None"
    using entry by blast
  show "(k, n, amount) \<in> set cs \<Longrightarrow> sum_taken sha256 K s' k n =
      Some ((if n = 0 then 0 else the (sum_taken sha256 K s k (n - 1))) + unat amount)"
    using entry by blast
  show "sum_taken sha256 K s' k n = sum_taken sha256 K s k n" if none: "\<And>amount. (k, n, amount) \<notin> set cs"
  proof (cases "k \<in> K")
    case True
    have "st_store s' (KindSumSlot, sum_slot_key sha256 k n) = st_store s (KindSumSlot, sum_slot_key sha256 k n)"
    proof (rule row(3), goal_cases)
      case (2 e)
      then show "entry_key e \<noteq> (KindSumSlot, sum_slot_key sha256 k n)"
      proof (auto simp: entry_key_def sum_entry_def count_entry_def, goal_cases)
        case (1 counter slot whole)
        then have mem: "(counter, slot) \<in> set (zip (ba_sums (ca_bound c)) (ca_sums c))"
          by (auto simp: set_zip)
        then have "sc_key counter \<in> K" by (rule charged_key_in(2) [OF ok [folded c_def]])
        from collision_freeD(2) [OF free this True] 1 none mem show ?case
          by (force simp: cs sum_charges_def c_def)
      qed
    qed (simp add: kind_expires_def)
    then show ?thesis by (simp add: sum_taken_def)
  qed (simp add: sum_taken_def)
qed

section \<open>The invariant of concurrent claims\<close>

definition count_marks :: "bound_admission \<Rightarrow> bytes charge list" where
  "count_marks b = map (\<lambda>counter. (cc_key counter, 0, 1)) (ba_counts b)"

definition sum_marks :: "bound_admission \<Rightarrow> bytes charge list" where
  "sum_marks b = map (\<lambda>counter. (sc_key counter, 0, ba_argument b)) (ba_sums b)"

lemma slots_ignored:
  "length ys = length xs \<Longrightarrow>
   map (\<lambda>(_, _, a). unat a) (filter (\<lambda>(key, _, _). key = k) (map (\<lambda>(x, y). (f x, y, v)) (zip xs ys)))
   = map (\<lambda>(_, _, a). unat a) (filter (\<lambda>(key, _, _). key = k) (map (\<lambda>x. (f x, 0 :: u64, v)) xs))"
  by (induction ys xs rule: list_induct2) auto

lemma marks_charges:
  assumes "candidate_ok sha256 K store c"
  shows "charges_of k (log @ [count_marks (ca_bound c)]) = charges_of k (log @ [count_charges c])"
    and "charges_of k (log @ [sum_marks (ca_bound c)]) = charges_of k (log @ [sum_charges c])"
proof -
  show "charges_of k (log @ [count_marks (ca_bound c)]) = charges_of k (log @ [count_charges c])"
    using assms by (simp add: charges_of_snoc count_marks_def count_charges_def candidate_ok_def slots_ignored)
  show "charges_of k (log @ [sum_marks (ca_bound c)]) = charges_of k (log @ [sum_charges c])"
    using assms by (simp add: charges_of_snoc sum_marks_def sum_charges_def candidate_ok_def slots_ignored)
qed

definition count_capacity_within :: "bound_admission list \<Rightarrow> bytes \<Rightarrow> u64 \<Rightarrow> bool" where
  "count_capacity_within log k limit \<longleftrightarrow>
     (\<forall>b \<in> set log. \<forall>counter \<in> set (ba_counts b). cc_key counter = k \<longrightarrow> cc_capacity counter \<le> limit)"

definition sum_capacity_within :: "bound_admission list \<Rightarrow> bytes \<Rightarrow> u64 \<Rightarrow> bool" where
  "sum_capacity_within log k limit \<longleftrightarrow>
     (\<forall>b \<in> set log. \<forall>counter \<in> set (ba_sums b). sc_key counter = k \<longrightarrow> sc_capacity counter \<le> limit)"

definition claims_inv :: "(bytes \<Rightarrow> bytes) \<Rightarrow> bytes set \<Rightarrow> claims_state \<Rightarrow> bool" where
  "claims_inv sha256 K s \<longleftrightarrow>
     (\<forall>p \<in> set (st_claims s). progress_ok sha256 K (st_store s) p)
     \<and> count_ledger.exact sha256 K s (map count_marks (st_log s))
     \<and> sum_ledger.exact sha256 K s (map sum_marks (st_log s))
     \<and> (\<forall>k limit n v. count_capacity_within (st_log s) k limit \<longrightarrow> count_taken sha256 K s k n = Some v \<longrightarrow> v \<le> unat limit)
     \<and> (\<forall>k limit n v. sum_capacity_within (st_log s) k limit \<longrightarrow> sum_taken sha256 K s k n = Some v \<longrightarrow> v \<le> unat limit)"

lemma progress_ok_mono:
  assumes "progress_ok sha256 K store p"
    and "\<And>key. store (KindCountSlot, key) \<noteq> None \<Longrightarrow> store' (KindCountSlot, key) \<noteq> None"
  shows "progress_ok sha256 K store' p"
proof -
  have "candidate_ok sha256 K store c \<Longrightarrow> candidate_ok sha256 K store' c" for c
    using assms(2) unfolding candidate_ok_def by blast
  then show ?thesis using assms unfolding progress_ok_def by (cases p) auto
qed

text \<open>A step that changes no slot and no log keeps the invariant when the claims stay in order.\<close>

lemma claims_inv_quiet:
  assumes "claims_inv sha256 K s" and "st_log s' = st_log s"
    and "\<And>kind key. kind_expires kind \<Longrightarrow> st_store s' (kind, key) = st_store s (kind, key)"
    and "\<And>p. p \<in> set (st_claims s') \<Longrightarrow> p \<in> set (st_claims s) \<or> progress_ok sha256 K (st_store s) p"
  shows "claims_inv sha256 K s'"
proof -
  have c: "count_taken sha256 K s' k n = count_taken sha256 K s k n"
    and d: "sum_taken sha256 K s' k n = sum_taken sha256 K s k n" for k n
    using assms(3) by (simp_all add: count_taken_def sum_taken_def kind_expires_def)
  have "progress_ok sha256 K (st_store s') p" if "p \<in> set (st_claims s')" for p
  proof (rule progress_ok_mono [of sha256 K "st_store s"])
    show "progress_ok sha256 K (st_store s) p"
      using assms(4) [OF that] assms(1) unfolding claims_inv_def by blast
  qed (simp add: assms(3) kind_expires_def)
  then show ?thesis
    using assms(1,2) c d count_ledger.exact_transfer [of sha256 K s] sum_ledger.exact_transfer [of sha256 K s]
    unfolding claims_inv_def by auto
qed

lemma frontier_from_predecessor:
  "low \<le> high \<Longrightarrow> frontier_from occupied low high = low \<or> occupied (frontier_from occupied low high - 1)"
proof (induction occupied low high rule: frontier_from.induct)
  case (1 occupied low high)
  show ?case
  proof (cases "low < high")
    case True
    define middle where "middle = low + (high - low) div 2"
    note bounds = middle_bounds [OF True, folded middle_def]
    have le: "middle + 1 \<le> high" using bounds by (simp add: word_le_nat_alt word_less_nat_alt)
    show ?thesis
      using "1.IH" [OF True middle_def] le bounds(1) True
      unfolding frontier_from.simps [of occupied low high] Let_def middle_def [symmetric]
      by (cases "occupied middle") auto
  qed (simp add: frontier_from.simps)
qed

lemma candidate_totals_length: "candidate_totals sha256 store xs = Ok ys \<Longrightarrow> length ys = length xs"
  by (induction sha256 store xs arbitrary: ys rule: candidate_totals.induct) (auto simp: and_then_Inr_iff)

lemma candidate_new_ok:
  assumes new: "candidate_new sha256 seen bound = Ok c" and bound: "bound_in K bound" and le: "seen \<subseteq>\<^sub>m store"
  shows "candidate_ok sha256 K store c"
proof -
  have c: "ca_bound c = bound"
    "ca_counts c = map (\<lambda>counter. frontier seen KindCountSlot (cc_key counter) (cc_capacity counter)
                          (count_slot_key sha256)) (ba_counts bound)"
    "length (ca_sums c) = length (ba_sums bound)" "length (ca_totals c) = length (ba_sums bound)"
    using new by (auto simp: candidate_new_def Let_def and_then_Inr_iff dest: candidate_totals_length)
  have "slot = 0 \<or> store (KindCountSlot, count_slot_key sha256 (cc_key counter) (slot - 1)) \<noteq> None"
    if "(counter, slot) \<in> set (zip (ba_counts bound) (ca_counts c))" for counter slot
  proof -
    have "slot = frontier seen KindCountSlot (cc_key counter) (cc_capacity counter) (count_slot_key sha256)"
      using that by (auto simp: c zip_map2 set_zip)
    then have "slot = 0 \<or> seen (KindCountSlot, count_slot_key sha256 (cc_key counter) (slot - 1)) \<noteq> None"
      unfolding frontier_def
      using frontier_from_predecessor
        [of 0 "cc_capacity counter" "\<lambda>n. seen (KindCountSlot, count_slot_key sha256 (cc_key counter) n) \<noteq> None"]
      by simp
    then show ?thesis using le by (metis map_le_def domIff)
  qed
  then show ?thesis using bound c by (auto simp: candidate_ok_def)
qed

lemma candidate_advance_ok:
  assumes adv: "candidate_advance sha256 store c index = Ok c'"
    and ok: "progress_ok sha256 K store (Losing m index)" and c: "c = cm_candidate m"
  shows "candidate_ok sha256 K store c'"
proof (cases "index < length (ca_counts c)")
  case True
  then have c': "c' = c\<lparr> ca_counts := (ca_counts c)[index := ca_counts c ! index + 1] \<rparr>"
    using adv by (simp add: candidate_advance_def)
  have "slot = 0 \<or> store (KindCountSlot, count_slot_key sha256 (cc_key counter) (slot - 1)) \<noteq> None"
    if mem: "(counter, slot) \<in> set (zip (ba_counts (ca_bound c)) ((ca_counts c)[index := ca_counts c ! index + 1]))"
    for counter slot
  proof -
    from mem obtain j where j: "j < length (ba_counts (ca_bound c))" "counter = ba_counts (ca_bound c) ! j"
      "slot = (ca_counts c)[index := ca_counts c ! index + 1] ! j" "j < length (ca_counts c)"
      by (auto simp: set_zip)
    show ?thesis
    proof (cases "j = index")
      case False
      then have "(counter, slot) \<in> set (zip (ba_counts (ca_bound c)) (ca_counts c))"
        using j by (auto simp: set_zip)
      then show ?thesis using ok by (auto simp: progress_ok_def candidate_ok_def c)
    qed (use ok j True in \<open>auto simp: progress_ok_def c\<close>)
  qed
  then show ?thesis using ok by (auto simp: c' progress_ok_def candidate_ok_def c)
next
  case False
  then show ?thesis
    using adv ok by (auto simp: candidate_advance_def Let_def and_then_Inr_iff progress_ok_def candidate_ok_def c
                     split: if_splits)
qed

lemma first_existing_Some:
  "first_existing store i es = Some j \<Longrightarrow>
   \<exists>p. j = i + p \<and> p < length es \<and> store (entry_key (es ! p)) \<noteq> None"
proof (induction store i es rule: first_existing.induct)
  case (2 store i e rest)
  show ?case
  proof (cases "store (entry_key e) = None")
    case True
    with 2 obtain p where "j = Suc i + p" "p < length rest" "store (entry_key (rest ! p)) \<noteq> None" by auto
    then show ?thesis by (intro exI [of _ "Suc p"]) simp
  qed (use 2 in auto)
qed simp

lemma fenced_exists:
  assumes "fenced_insert_all store entries deps decide = Ok (Exists i, store')"
  shows "i < length entries" and "store (entry_key (entries ! i)) \<noteq> None"
proof -
  have "first_existing store 0 entries = Some i"
    using assms unfolding fenced_insert_all_def
    by (cases entries) (auto simp: and_then_Inr_iff split: option.splits)
  then show "i < length entries" and "store (entry_key (entries ! i)) \<noteq> None"
    using first_existing_Some by fastforce+
qed

lemma lost_slot_occupied:
  assumes round: "reserve_round sha256 fc store m = Ok (SlotLost index, store')"
    and ok: "candidate_ok sha256 K store (cm_candidate m)"
  shows "progress_ok sha256 K store (Losing m index)"
proof -
  define c where "c = cm_candidate m"
  let ?counts = "map (count_entry sha256 (ca_bound c) (cm_namespace m) (cm_operation_id m) (cm_key m))
                   (zip (ba_counts (ca_bound c)) (ca_counts c))"
  have refusal: "candidate_refusal c = None"
    using round unfolding reserve_round_def c_def [symmetric]
    by (auto dest: store_exhausted_ok(1) split: option.splits)
  obtain counters sums where batch: "candidate_batch sha256 c (cm_key m) (cm_namespace m) (cm_operation_id m)
           = Ok (counters, ?counts @ sums)"
    using round refusal unfolding reserve_round_def c_def [symmetric] candidate_batch_def
    by (auto simp: Let_def and_then_Inr_iff)
  obtain r ins st where ins: "insert_claim sha256 fc store r (attempt_entry (cm_key m) r # ?counts @ sums) (Some c)
                                = Ok (ins, st)"
    and out: "(case ins of Inserted \<Rightarrow> Ok (Claimed, st)
               | Exists index \<Rightarrow>
                   if index = 0 then Err Replay
                   else if index < length (attempt_entry (cm_key m) r # ?counts @ sums)
                   then Ok (SlotLost (index - 1), st) else Ok (AllocationLost, st)) = Ok (SlotLost index, store')"
    using round refusal unfolding reserve_round_def c_def [symmetric] Let_def
    by (simp add: batch) (unfold and_then_pair_iff, blast)
  have "ins = Exists (Suc index)" using out by (cases ins) (auto split: if_splits)
  from fenced_exists(2) [OF ins [unfolded insert_claim_def Let_def this]]
  have taken: "store (entry_key ((?counts @ sums @ fc_allocations fc) ! index)) \<noteq> None" by simp
  have "store (KindCountSlot, count_slot_key sha256 (cc_key (ba_counts (ca_bound c) ! index)) (ca_counts c ! index)) \<noteq> None"
    if "index < length (ca_counts c)"
    using taken that ok by (simp add: nth_append entry_key_def count_entry_def candidate_ok_def c_def)
  then show ?thesis using ok by (simp add: progress_ok_def c_def)
qed

lemma refusal_none:
  assumes "candidate_refusal c = None"
  shows "(counter, slot) \<in> set (zip (ba_counts (ca_bound c)) (ca_counts c)) \<Longrightarrow> slot < cc_capacity counter"
    and "(scounter, slot, whole) \<in> set (zip (ba_sums (ca_bound c)) (zip (ca_sums c) (ca_totals c))) \<Longrightarrow>
         unat whole + unat (ba_argument (ca_bound c)) \<le> unat (sc_capacity scounter)"
proof -
  have "chain_counts_admit (ca_counts c) (map cc_capacity (ba_counts (ca_bound c)))"
    and "chain_sums_admit (ca_totals c) (ba_argument (ca_bound c)) (map sc_capacity (ba_sums (ca_bound c)))"
    using assms by (auto simp: candidate_refusal_def Let_def split: if_splits)
  then show "(counter, slot) \<in> set (zip (ba_counts (ca_bound c)) (ca_counts c)) \<Longrightarrow> slot < cc_capacity counter"
    and "(scounter, slot, whole) \<in> set (zip (ba_sums (ca_bound c)) (zip (ca_sums c) (ca_totals c))) \<Longrightarrow>
         unat whole + unat (ba_argument (ca_bound c)) \<le> unat (sc_capacity scounter)"
    by (auto simp: counts_admit_iff sums_admit_iff list_all2_conv_all_nth set_zip)
qed

lemma claims_inv_claimed:
  assumes inv: "claims_inv sha256 K s" and free: "collision_free sha256 K"
    and i: "i < length (st_claims s)" "st_claims s ! i = Proposing m"
    and fc: "allocation_context fc"
    and round: "reserve_round sha256 fc (st_store s) m = Ok (Claimed, store')"
  defines "s' \<equiv> s\<lparr> st_store := store', st_claims := (st_claims s)[i := Settled],
                   st_log := st_log s @ [ca_bound (cm_candidate m)] \<rparr>"
  shows "claims_inv sha256 K s'"
proof -
  define c where "c = cm_candidate m"
  have ok: "candidate_ok sha256 K (st_store s) c"
  proof -
    have "Proposing m \<in> set (st_claims s)" using i by (metis nth_mem)
    then have "progress_ok sha256 K (st_store s) (Proposing m)" using inv unfolding claims_inv_def by blast
    then show ?thesis by (simp add: progress_ok_def c_def)
  qed
  note row = claimed_round [OF round fc, folded c_def]
  have step: "claimed_batch sha256 K count_charges s (count_charges c) s'"
    "claimed_batch sha256 K sum_charges s (sum_charges c) s'"
    using free fc round ok by (auto simp: claimed_batch_def s'_def c_def)
  show ?thesis
    unfolding claims_inv_def
  proof (intro conjI allI impI ballI)
    fix p
    assume p: "p \<in> set (st_claims s')"
    then have "p = Settled \<or> p \<in> set (st_claims s)"
      unfolding s'_def using set_update_subset_insert by fastforce
    moreover have "\<forall>p \<in> set (st_claims s). progress_ok sha256 K (st_store s) p"
      using inv unfolding claims_inv_def by blast
    moreover have "progress_ok sha256 K (st_store s) Settled" by (simp add: progress_ok_def)
    ultimately have "progress_ok sha256 K (st_store s) p" by blast
    then show "progress_ok sha256 K (st_store s') p"
      by (rule progress_ok_mono) (use claimed_keeps_slots [OF round fc] in \<open>simp add: s'_def kind_expires_def\<close>)
  next
    have log: "st_log s' = st_log s @ [ca_bound c]" by (simp add: s'_def c_def)
    have old: "count_ledger.exact sha256 K s (map count_marks (st_log s))"
      "sum_ledger.exact sha256 K s (map sum_marks (st_log s))"
      using inv unfolding claims_inv_def by blast+
    show "count_ledger.exact sha256 K s' (map count_marks (st_log s'))"
      by (rule count_ledger.exact_transfer [OF count_ledger.exact_batch [OF old(1) step(1)]])
         (simp_all add: log marks_charges(1) [OF ok])
    show "sum_ledger.exact sha256 K s' (map sum_marks (st_log s'))"
      by (rule sum_ledger.exact_transfer [OF sum_ledger.exact_batch [OF old(2) step(2)]])
         (simp_all add: log marks_charges(2) [OF ok])
  next
    fix k limit n v
    assume within: "count_capacity_within (st_log s') k limit" and taken: "count_taken sha256 K s' k n = Some v"
    show "v \<le> unat limit"
    proof (cases "\<exists>a. (k, n, a) \<in> set (count_charges c)")
      case True
      then obtain counter where mem: "(counter, n) \<in> set (zip (ba_counts (ca_bound c)) (ca_counts c))"
        and k: "k = cc_key counter" by (auto simp: count_charges_def)
      have "n < cc_capacity counter" using refusal_none(1) [OF row(1) mem] .
      moreover have "cc_capacity counter \<le> limit"
        using within set_zip_leftD [OF mem] k by (auto simp: count_capacity_within_def s'_def c_def)
      ultimately show ?thesis
        using taken by (auto simp: count_taken_def word_less_nat_alt word_le_nat_alt split: if_splits)
    next
      case False
      then have "count_taken sha256 K s k n = Some v"
        using count_ledger.keeps [OF step(1)] taken by metis
      moreover have "count_capacity_within (st_log s) k limit"
        using within by (auto simp: count_capacity_within_def s'_def)
      ultimately show ?thesis using inv unfolding claims_inv_def by blast
    qed
  next
    fix k limit n v
    assume within: "sum_capacity_within (st_log s') k limit" and taken: "sum_taken sha256 K s' k n = Some v"
    show "v \<le> unat limit"
    proof (cases "\<exists>a. (k, n, a) \<in> set (sum_charges c)")
      case True
      then obtain counter where mem: "(counter, n) \<in> set (zip (ba_sums (ca_bound c)) (ca_sums c))"
        and k: "k = sc_key counter" by (auto simp: sum_charges_def)
      obtain whole r where whole: "(counter, n, whole) \<in> set (zip (ba_sums (ca_bound c)) (zip (ca_sums c) (ca_totals c)))"
        and r: "store' (KindSumSlot, sum_slot_key sha256 (sc_key counter) n) = Some (RowSum r)"
        "unat (ss_cumulative r) = unat whole + unat (ba_argument (ca_bound c))"
        by (rule claimed_sum_slot [OF ok fc c_def [symmetric] round mem])
      have "sc_capacity counter \<le> limit"
        using within set_zip_leftD [OF mem] k by (auto simp: sum_capacity_within_def s'_def c_def)
      then show ?thesis
        using refusal_none(2) [OF row(1) whole] taken r
        by (auto simp: sum_taken_def s'_def k word_le_nat_alt split: if_splits)
    next
      case False
      then have "sum_taken sha256 K s k n = Some v"
        using sum_ledger.keeps [OF step(2)] taken by metis
      moreover have "sum_capacity_within (st_log s) k limit"
        using within by (auto simp: sum_capacity_within_def s'_def)
      ultimately show ?thesis using inv unfolding claims_inv_def by blast
    qed
  qed
qed

lemma claims_inv_step:
  assumes step: "claims_step sha256 K s s'" and inv: "claims_inv sha256 K s" and free: "collision_free sha256 K"
  shows "claims_inv sha256 K s'"
proof -
  have old: "progress_ok sha256 K (st_store s) (st_claims s ! i)" if "i < length (st_claims s)" for i
    using inv nth_mem [OF that] unfolding claims_inv_def by blast
  have update: "p \<in> set ((st_claims s)[i := q]) \<Longrightarrow> p \<in> set (st_claims s) \<or> p = q" for p q i
    using set_update_subset_insert by fastforce
  have settled: "progress_ok sha256 K (st_store s) Settled" by (simp add: progress_ok_def)
  from step show ?thesis
  proof cases
    case (begin_claim bound seen c key namespace operation_id)
    then show ?thesis
      using candidate_new_ok [OF begin_claim(4,2,3)]
      by (intro claims_inv_quiet [OF inv]) (auto simp: progress_ok_def)
  next
    case (claimed i m fc store')
    then show ?thesis using claims_inv_claimed [OF inv free] by simp
  next
    case (exhausted i m fc code store')
    then show ?thesis
      using update settled unclaimed_round [OF exhausted(4)] by (intro claims_inv_quiet [OF inv]) auto
  next
    case (slot_lost i m fc index store')
    then have "progress_ok sha256 K (st_store s) (Losing m index)"
      using old [OF slot_lost(2)] by (intro lost_slot_occupied [OF slot_lost(4)]) (simp add: progress_ok_def)
    then show ?thesis
      using update unclaimed_round [OF slot_lost(4)] slot_lost(1) by (intro claims_inv_quiet [OF inv]) auto
  next
    case (allocation_lost i m fc store')
    then show ?thesis
      using unclaimed_round [OF allocation_lost(4)] by (intro claims_inv_quiet [OF inv]) auto
  next
    case (advanced i m index c)
    then have "candidate_ok sha256 K (st_store s) c"
      using old [OF advanced(2)] by (intro candidate_advance_ok [OF advanced(4)]) simp_all
    then have "progress_ok sha256 K (st_store s) (Proposing (m\<lparr> cm_candidate := c \<rparr>))"
      by (simp add: progress_ok_def)
    then show ?thesis
      using update advanced(1) by (intro claims_inv_quiet [OF inv]) auto
  next
    case (other_records store')
    then show ?thesis by (intro claims_inv_quiet [OF inv]) auto
  next
    case (given_up i)
    then show ?thesis using update settled by (intro claims_inv_quiet [OF inv]) auto
  qed
qed

lemma claims_inv_run:
  assumes "claims_run sha256 K s" and "collision_free sha256 K"
  shows "claims_inv sha256 K s"
  using assms
proof (induction rule: claims_run.induct)
  case run_start
  then show ?case
    by (auto simp: claims_inv_def count_taken_def sum_taken_def count_ledger.exact_def sum_ledger.exact_def)
next
  case (run_step s s')
  then show ?case using claims_inv_step by blast
qed

definition claims_on :: "bytes \<Rightarrow> bound_admission list \<Rightarrow> nat" where
  "claims_on k log = length (filter (\<lambda>b. k \<in> cc_key ` set (ba_counts b)) log)"

definition spent_on :: "bytes \<Rightarrow> bound_admission list \<Rightarrow> nat" where
  "spent_on k log = (\<Sum>b \<leftarrow> filter (\<lambda>b. k \<in> sc_key ` set (ba_sums b)) log. unat (ba_argument b))"

lemma claims_run_log_in: "claims_run sha256 K s \<Longrightarrow> collision_free sha256 K \<Longrightarrow> b \<in> set (st_log s) \<Longrightarrow> bound_in K b"
proof (induction rule: claims_run.induct)
  case (run_step s s')
  from run_step.hyps(2) show ?case
  proof cases
    case (claimed i m fc store')
    have "progress_ok sha256 K (st_store s) (Proposing m)"
      using claims_inv_run [OF run_step.hyps(1) run_step.prems(1)] nth_mem [OF claimed(2)] claimed(3)
      unfolding claims_inv_def by metis
    then have "bound_in K (ca_bound (cm_candidate m))" by (simp add: progress_ok_def candidate_ok_def)
    then show ?thesis using run_step.IH run_step.prems claimed(1) by auto
  qed (use run_step.IH run_step.prems in auto)
qed simp

lemma marked_amount:
  "distinct (map f xs) \<Longrightarrow>
   sum_list (map (\<lambda>(_, _, a). unat a) (filter (\<lambda>(key, _, _). key = k) (map (\<lambda>x. (f x, 0 :: u64, v :: u64)) xs)))
   = (if k \<in> f ` set xs then unat v else 0)"
proof (induction xs)
  case (Cons x xs)
  then show ?case by (auto simp: image_iff)
qed simp

lemma charges_of_marks:
  assumes "\<forall>b \<in> set log. bound_in K b"
  shows "sum_list (charges_of k (map count_marks log)) = claims_on k log"
    and "sum_list (charges_of k (map sum_marks log)) = spent_on k log"
  using assms
proof (induction log rule: rev_induct)
  case (snoc b log)
  {
    case 1
    then show ?case
      using snoc(1) marked_amount [of cc_key "ba_counts b" k 1]
      by (simp add: charges_of_snoc claims_on_def count_marks_def bound_in_def)
  next
    case 2
    then show ?case
      using snoc(2) marked_amount [of sc_key "ba_sums b" k "ba_argument b"]
      by (simp add: charges_of_snoc spent_on_def sum_marks_def bound_in_def)
  }
qed (simp_all add: claims_on_def spent_on_def)

text \<open>C6: However many gateways claim concurrently over one store,
  and however their reads and inserts interleave: when no claimed admission gave the counter more
  than \<open>limit\<close>, the number of claims charged to a count counter in its window is at most \<open>limit\<close>, and
  the amounts charged to a sum counter add up to at most its limit.\<close>

theorem window_capacity_is_never_exceeded:
  assumes "collision_free sha256 K" and "claims_run sha256 K s"
    and "count_capacity_within (st_log s) k limit" and "sum_capacity_within (st_log s) k' limit'"
  shows "claims_on k (st_log s) \<le> unat limit \<and> spent_on k' (st_log s) \<le> unat limit'"
proof -
  note inv = claims_inv_run [OF assms(2,1)]
  note total = charges_of_marks [of "st_log s" K] and bounds = claims_run_log_in [OF assms(2,1)]
  have "sum_list (charges_of k (map count_marks (st_log s))) \<le> unat limit"
    by (rule count_ledger.total_within [of sha256 K s]) (use inv assms(3) in \<open>auto simp: claims_inv_def\<close>)
  moreover have "sum_list (charges_of k' (map sum_marks (st_log s))) \<le> unat limit'"
    by (rule sum_ledger.total_within [of sha256 K s]) (use inv assms(4) in \<open>auto simp: claims_inv_def\<close>)
  ultimately show ?thesis using total bounds by simp
qed

lemma frontier_from_is:
  assumes "low \<le> high" and "\<And>n. occupied n \<longleftrightarrow> unat n < whole" and "unat low \<le> whole"
  shows "unat (frontier_from occupied low high) = min (unat high) whole"
  using assms
proof (induction occupied low high rule: frontier_from.induct)
  case (1 occupied low high)
  show ?case
  proof (cases "low < high")
    case True
    define middle where "middle = low + (high - low) div 2"
    note bounds = middle_bounds [OF True, folded middle_def]
    have le: "middle + 1 \<le> high" using bounds by (simp add: word_le_nat_alt word_less_nat_alt)
    show ?thesis
    proof (cases "occupied middle")
      case True
      then show ?thesis
        using "1.IH"(1) [OF \<open>low < high\<close> middle_def True le "1.prems"(2)] "1.prems"(2) [of middle] bounds(3)
          \<open>low < high\<close>
        by (simp add: frontier_from.simps [of occupied low high] Let_def middle_def [symmetric])
    next
      case False
      then show ?thesis
        using "1.IH"(2) [OF \<open>low < high\<close> middle_def False bounds(1) "1.prems"(2,3)] "1.prems"(2) [of middle] bounds(2)
          \<open>low < high\<close>
        by (simp add: frontier_from.simps [of occupied low high] Let_def middle_def [symmetric] word_less_nat_alt)
    qed
  next
    case False
    then have "low = high" using "1.prems"(1) by simp
    then show ?thesis using "1.prems"(3) by (subst frontier_from.simps) simp
  qed
qed

lemma count_marks_units: "set (charges_of k (map count_marks log)) \<subseteq> {1}"
  by (auto simp: charges_of_def count_marks_def)

lemma sum_list_units: "set xs \<subseteq> {1 :: nat} \<Longrightarrow> sum_list xs = length xs"
  by (induction xs) auto

text \<open>C27: In every state concurrent claims reach, the binary search over
  a count counter's slots finds, below its bound, exactly the number of claims charged to the counter:
  the occupied slots are a prefix, and the frontier is the lowest free slot.\<close>

theorem frontier_counts_the_claims:
  assumes "collision_free sha256 K" and "claims_run sha256 K s" and "k \<in> K"
  shows "unat (frontier (st_store s) KindCountSlot k bound (count_slot_key sha256))
           = min (unat bound) (claims_on k (st_log s))"
proof -
  have exact: "count_ledger.exact sha256 K s (map count_marks (st_log s))"
    using claims_inv_run [OF assms(2,1)] unfolding claims_inv_def by blast
  have "claims_on k (st_log s) = length (charges_of k (map count_marks (st_log s)))"
    using charges_of_marks(1) [of "st_log s" K k] claims_run_log_in [OF assms(2,1)]
      sum_list_units [OF count_marks_units] by simp
  then have "st_store s (KindCountSlot, count_slot_key sha256 k n) \<noteq> None \<longleftrightarrow> unat n < claims_on k (st_log s)" for n
    using count_ledger.exactD [OF exact, of k n] assms(3) by (auto simp: count_taken_def split: if_splits)
  then show ?thesis unfolding frontier_def by (intro frontier_from_is) auto
qed

section \<open>Witnesses\<close>

lemma slot_key_inject:
  assumes "inj sha256" and "slot_key sha256 domain k n = slot_key sha256 domain k' n'"
  shows "k = k' \<and> n = n'"
proof -
  have "domain @ k @ be_bytes n = domain @ k' @ be_bytes n'"
    using assms(2) injD [OF assms(1)] unfolding slot_key_def by blast
  then show ?thesis by simp
qed

lemma collision_free_inj: "inj sha256 \<Longrightarrow> collision_free sha256 K"
  unfolding collision_free_def count_slot_key_def sum_slot_key_def
  by (auto intro!: inj_onI dest: slot_key_inject)

definition sample_bound :: bound_admission where
  "sample_bound = \<lparr> ba_links = [], ba_argument = 7, ba_window_seconds = 60, ba_window_index = 2, ba_window_end = 180,
     ba_counts = [\<lparr> cc_key = [1], cc_capacity = 2 \<rparr>],
     ba_sums = [\<lparr> sc_key = [2], sc_capacity = 10, sc_slots = 2 \<rparr>] \<rparr>"

definition sample_candidate :: capacity_candidate where
  "sample_candidate = \<lparr> ca_bound = sample_bound, ca_counts = [0], ca_sums = [0], ca_totals = [0] \<rparr>"

definition sample_claim :: claim where
  "sample_claim = \<lparr> cm_key = [9], cm_namespace = [3], cm_operation_id = [4], cm_candidate = sample_candidate \<rparr>"

definition sample_fence :: fence_context where
  "sample_fence = \<lparr> fc_native = [], fc_stamp = (\<lambda>r _. Ok r), fc_allocations = [], fc_allocation_keys = [] \<rparr>"

lemma sample_new: "candidate_new (\<lambda>x. x) Map.empty sample_bound = Ok sample_candidate"
  by (simp add: candidate_new_def sample_bound_def sample_candidate_def frontier_def frontier_from.simps
      checked_sub_def Let_def)

lemma sample_round: "\<exists>store'. reserve_round (\<lambda>x. x) sample_fence Map.empty sample_claim = Ok (Claimed, store')"
proof -
  have "case reserve_round (\<lambda>x. x) sample_fence Map.empty sample_claim of Inr (Claimed, _) \<Rightarrow> True | _ \<Rightarrow> False"
    by code_simp
  then show ?thesis by (auto split: sum.splits round_outcome.splits)
qed

lemma sample_run: "\<exists>s. claims_run (\<lambda>x. x) {[1], [2]} s \<and> st_log s = [sample_bound]"
proof -
  let ?K = "{[1], [2]} :: bytes set"
  let ?s = "\<lparr> st_store = Map.empty, st_claims = [Proposing sample_claim], st_log = [] \<rparr>"
  have "claims_step (\<lambda>x. x) ?K \<lparr> st_store = Map.empty, st_claims = [], st_log = [] \<rparr> ?s"
    using claims_step.begin_claim [where K = ?K and s = "\<lparr> st_store = Map.empty, st_claims = [], st_log = [] \<rparr>"
        and key = "[9]" and namespace = "[3]" and operation_id = "[4]", OF _ _ sample_new]
    by (simp add: bound_in_def sample_bound_def sample_claim_def)
  then have run: "claims_run (\<lambda>x. x) ?K ?s" by (rule run_step [OF run_start])
  obtain store' where round: "reserve_round (\<lambda>x. x) sample_fence Map.empty sample_claim = Ok (Claimed, store')"
    using sample_round by blast
  have "claims_step (\<lambda>x. x) ?K ?s
      (?s\<lparr> st_store := store', st_claims := (st_claims ?s)[0 := Settled],
           st_log := st_log ?s @ [ca_bound (cm_candidate sample_claim)] \<rparr>)"
    using round by (intro claims_step.claimed [where fc = sample_fence])
      (simp_all add: allocation_context_def sample_fence_def)
  from run_step [OF run this] show ?thesis
    by (intro exI conjI) (auto simp: sample_claim_def sample_candidate_def)
qed

theorem window_capacity_is_never_exceeded_witness:
  "\<exists>s. claims_run (\<lambda>x. x) {[1], [2]} s \<and> st_log s = [sample_bound]
     \<and> claims_on [1] (st_log s) \<le> unat (2 :: u64) \<and> spent_on [2] (st_log s) \<le> unat (10 :: u64)"
proof -
  obtain s where s: "claims_run (\<lambda>x. x) {[1], [2]} s" "st_log s = [sample_bound]" using sample_run by blast
  have "count_capacity_within (st_log s) [1] 2" "sum_capacity_within (st_log s) [2] 10"
    by (simp_all add: s(2) count_capacity_within_def sum_capacity_within_def sample_bound_def)
  from window_capacity_is_never_exceeded [OF collision_free_inj s(1) this] s show ?thesis by (auto simp: inj_def)
qed

theorem frontier_counts_the_claims_witness:
  "\<exists>s. claims_run (\<lambda>x. x) {[1], [2]} s \<and> st_log s = [sample_bound]
     \<and> unat (frontier (st_store s) KindCountSlot [1] 2 (count_slot_key (\<lambda>x. x))) = 1"
proof -
  obtain s where s: "claims_run (\<lambda>x. x) {[1], [2]} s" "st_log s = [sample_bound]" using sample_run by blast
  have "unat (frontier (st_store s) KindCountSlot [1] 2 (count_slot_key (\<lambda>x. x))) = min (unat (2 :: u64)) (claims_on [1] (st_log s))"
    by (rule frontier_counts_the_claims [OF collision_free_inj s(1)]) (simp_all add: inj_def)
  then have "unat (frontier (st_store s) KindCountSlot [1] 2 (count_slot_key (\<lambda>x. x))) = 1"
    by (simp add: s(2) claims_on_def sample_bound_def)
  then show ?thesis using s by blast
qed

end
