(* ===== verification/Lifecycle_Kernel.thy ===== *)
theory Lifecycle_Kernel
  imports Auths_Prelude
begin

text \<open>
  The pure decision boundary of the execution lifecycle,
  \<open>product/runtime/auths-lifecycle/src/kernel.rs\<close>: the closed transition table with its diagnostic
  order, the capacity checks and the replay classification; \<open>lifecycle_state\<close> and its terminal
  predicate are those of \<open>model.rs\<close>. The lemmas give the table's edges and what an edge needs.
\<close>

datatype lifecycle_state =
    DecisionRecorded | Reserved | ExecutionIntentRecorded | Executing | Committed | Released
  | OutcomeUnknown | ReconciledCommitted | ReconciledReleased

definition is_terminal :: "lifecycle_state \<Rightarrow> bool" where
  "is_terminal state = (case state of
     Committed \<Rightarrow> True | Released \<Rightarrow> True | ReconciledCommitted \<Rightarrow> True | ReconciledReleased \<Rightarrow> True
   | _ \<Rightarrow> False)"

datatype operation_code =
    OpRecordDecision | OpReserve | OpRecordExecutionIntent | OpAuthorizeCredential | OpStartAttempt
  | OpMarkProviderCallEntered | OpCommit | OpRelease | OpMarkOutcomeUnknown | OpReconcileEffect
  | OpReconcileNonEffect | OpReconcileInconclusive

record transition_gates =
  core_authorized :: bool
  policy_eligible :: bool
  configuration_matches :: bool
  not_revoked :: bool
  not_expired :: bool
  capacity_available :: bool
  execution_intent_present :: bool
  credential_authorized :: bool
  attempt_present :: bool
  provider_call_entered :: bool
  cancellation_allowed :: bool
  definite_effect :: bool
  definite_non_effect :: bool
  reconciliation_fresh :: bool
  reconciliation_matches :: bool

datatype kernel_code =
    Applied lifecycle_state | ObservationOnly | CodeTerminal | CodeIllegalTransition
  | CodeNotAuthorized | CodeNotEligible | CodeConfigurationMismatch | CodeRevoked | CodeExpired
  | CodeCapacityExceeded | CodeExecutionIntentMissing | CodeCredentialNotAuthorized
  | CodeAttemptMissing | CodeProviderCallNotEntered | CodeEffectNotProved | CodeNonEffectNotProved
  | CodeReconciliationStale | CodeReconciliationMismatch

definition reconciliation_code :: "transition_gates \<Rightarrow> lifecycle_state \<Rightarrow> kernel_code" where
  "reconciliation_code gates next_state =
     (if \<not> reconciliation_fresh gates then CodeReconciliationStale
      else if \<not> reconciliation_matches gates then CodeReconciliationMismatch
      else Applied next_state)"

fun transition_code :: "lifecycle_state option \<Rightarrow> operation_code \<Rightarrow> transition_gates \<Rightarrow> kernel_code" where
  "transition_code current operation gates =
     (if (case current of Some state \<Rightarrow> is_terminal state | None \<Rightarrow> False) then CodeTerminal
      else case (current, operation) of
        (None, OpRecordDecision) \<Rightarrow>
          if \<not> core_authorized gates then CodeNotAuthorized
          else if \<not> policy_eligible gates then CodeNotEligible
          else if \<not> configuration_matches gates then CodeConfigurationMismatch
          else if \<not> not_revoked gates then CodeRevoked
          else if \<not> not_expired gates then CodeExpired
          else Applied DecisionRecorded
      | (Some DecisionRecorded, OpReserve) \<Rightarrow>
          if \<not> configuration_matches gates then CodeConfigurationMismatch
          else if \<not> not_revoked gates then CodeRevoked
          else if \<not> not_expired gates then CodeExpired
          else if \<not> capacity_available gates then CodeCapacityExceeded
          else Applied Reserved
      | (Some Reserved, OpRecordExecutionIntent) \<Rightarrow>
          if \<not> configuration_matches gates then CodeConfigurationMismatch
          else if \<not> not_revoked gates then CodeRevoked
          else if \<not> not_expired gates then CodeExpired
          else if \<not> execution_intent_present gates then CodeExecutionIntentMissing
          else Applied ExecutionIntentRecorded
      | (Some ExecutionIntentRecorded, OpAuthorizeCredential) \<Rightarrow>
          if \<not> configuration_matches gates then CodeConfigurationMismatch
          else if \<not> not_revoked gates then CodeRevoked
          else if \<not> not_expired gates then CodeExpired
          else if \<not> execution_intent_present gates then CodeExecutionIntentMissing
          else if credential_authorized gates then CodeIllegalTransition
          else Applied ExecutionIntentRecorded
      | (Some ExecutionIntentRecorded, OpStartAttempt) \<Rightarrow>
          if \<not> configuration_matches gates then CodeConfigurationMismatch
          else if \<not> not_revoked gates then CodeRevoked
          else if \<not> not_expired gates then CodeExpired
          else if \<not> execution_intent_present gates then CodeExecutionIntentMissing
          else if \<not> credential_authorized gates then CodeCredentialNotAuthorized
          else Applied Executing
      | (Some Executing, OpMarkProviderCallEntered) \<Rightarrow>
          if provider_call_entered gates then CodeIllegalTransition
          else if attempt_present gates then Applied Executing
          else CodeAttemptMissing
      | (Some Executing, OpCommit) \<Rightarrow>
          if \<not> attempt_present gates then CodeAttemptMissing
          else if \<not> provider_call_entered gates then CodeProviderCallNotEntered
          else if \<not> definite_effect gates then CodeEffectNotProved
          else Applied Committed
      | (Some Reserved, OpRelease) \<Rightarrow>
          if attempt_present gates then CodeIllegalTransition
          else if \<not> cancellation_allowed gates \<and> \<not> definite_non_effect gates then CodeNonEffectNotProved
          else Applied Released
      | (Some ExecutionIntentRecorded, OpRelease) \<Rightarrow>
          if attempt_present gates then CodeIllegalTransition else Applied Released
      | (Some Executing, OpRelease) \<Rightarrow>
          if \<not> attempt_present gates then CodeAttemptMissing
          else if \<not> definite_non_effect gates then CodeNonEffectNotProved
          else Applied Released
      | (Some Executing, OpMarkOutcomeUnknown) \<Rightarrow>
          if attempt_present gates then Applied OutcomeUnknown else CodeAttemptMissing
      | (Some OutcomeUnknown, OpReconcileEffect) \<Rightarrow> reconciliation_code gates ReconciledCommitted
      | (Some OutcomeUnknown, OpReconcileNonEffect) \<Rightarrow> reconciliation_code gates ReconciledReleased
      | (Some OutcomeUnknown, OpReconcileInconclusive) \<Rightarrow>
          if \<not> reconciliation_fresh gates then CodeReconciliationStale
          else if \<not> reconciliation_matches gates then CodeReconciliationMismatch
          else ObservationOnly
      | _ \<Rightarrow> CodeIllegalTransition)"

declare transition_code.simps [simp del]

definition additive_capacity_available :: "u64 \<Rightarrow> u64 \<Rightarrow> u64 \<Rightarrow> u64 \<Rightarrow> bool" where
  "additive_capacity_available ceiling committed active requested =
     (if ceiling = 0 \<or> requested = 0 then False
      else case checked_add committed active of
        None \<Rightarrow> False
      | Some used \<Rightarrow> (case checked_add used requested of None \<Rightarrow> False | Some next_use \<Rightarrow> next_use \<le> ceiling))"

definition exclusive_capacity_available :: "bool \<Rightarrow> bool \<Rightarrow> bool" where
  "exclusive_capacity_available has_live_owner owner_is_exact_replay \<longleftrightarrow>
     \<not> has_live_owner \<or> owner_is_exact_replay"

datatype replay_result = ReplayAbsent | ReplayExact | ReplayConflict

definition replay_code :: "bool \<Rightarrow> bool \<Rightarrow> replay_result" where
  "replay_code record_exists commitments_equal =
     (if \<not> record_exists then ReplayAbsent
      else if commitments_equal then ReplayExact else ReplayConflict)"

section \<open>The table read as edges\<close>

lemma transition_code_terminal:
  "is_terminal state \<Longrightarrow> transition_code (Some state) operation gates = CodeTerminal"
  by (simp add: transition_code.simps)

text \<open>Every edge the table applies, with the gates it needs.\<close>

lemma transition_code_Applied:
  "transition_code current operation gates = Applied to \<longleftrightarrow>
     (current = None \<and> operation = OpRecordDecision \<and> to = DecisionRecorded
        \<and> core_authorized gates \<and> policy_eligible gates \<and> configuration_matches gates
        \<and> not_revoked gates \<and> not_expired gates)
     \<or> (current = Some DecisionRecorded \<and> operation = OpReserve \<and> to = Reserved
        \<and> configuration_matches gates \<and> not_revoked gates \<and> not_expired gates \<and> capacity_available gates)
     \<or> (current = Some Reserved \<and> operation = OpRecordExecutionIntent \<and> to = ExecutionIntentRecorded
        \<and> configuration_matches gates \<and> not_revoked gates \<and> not_expired gates \<and> execution_intent_present gates)
     \<or> (current = Some ExecutionIntentRecorded \<and> operation = OpAuthorizeCredential \<and> to = ExecutionIntentRecorded
        \<and> configuration_matches gates \<and> not_revoked gates \<and> not_expired gates \<and> execution_intent_present gates
        \<and> \<not> credential_authorized gates)
     \<or> (current = Some ExecutionIntentRecorded \<and> operation = OpStartAttempt \<and> to = Executing
        \<and> configuration_matches gates \<and> not_revoked gates \<and> not_expired gates \<and> execution_intent_present gates
        \<and> credential_authorized gates)
     \<or> (current = Some Executing \<and> operation = OpMarkProviderCallEntered \<and> to = Executing
        \<and> attempt_present gates \<and> \<not> provider_call_entered gates)
     \<or> (current = Some Executing \<and> operation = OpCommit \<and> to = Committed
        \<and> attempt_present gates \<and> provider_call_entered gates \<and> definite_effect gates)
     \<or> (current = Some Reserved \<and> operation = OpRelease \<and> to = Released
        \<and> \<not> attempt_present gates \<and> (cancellation_allowed gates \<or> definite_non_effect gates))
     \<or> (current = Some ExecutionIntentRecorded \<and> operation = OpRelease \<and> to = Released
        \<and> \<not> attempt_present gates)
     \<or> (current = Some Executing \<and> operation = OpRelease \<and> to = Released
        \<and> attempt_present gates \<and> definite_non_effect gates)
     \<or> (current = Some Executing \<and> operation = OpMarkOutcomeUnknown \<and> to = OutcomeUnknown \<and> attempt_present gates)
     \<or> (current = Some OutcomeUnknown \<and> operation = OpReconcileEffect \<and> to = ReconciledCommitted
        \<and> reconciliation_fresh gates \<and> reconciliation_matches gates)
     \<or> (current = Some OutcomeUnknown \<and> operation = OpReconcileNonEffect \<and> to = ReconciledReleased
        \<and> reconciliation_fresh gates \<and> reconciliation_matches gates)"
proof (cases current)
  case None
  then show ?thesis by (cases operation) (auto simp: transition_code.simps)
next
  case (Some state)
  then show ?thesis
    by (cases state; cases operation)
       (simp_all add: transition_code.simps is_terminal_def reconciliation_code_def eq_commute [of _ to])
qed

lemma transition_code_ObservationOnly:
  "transition_code current operation gates = ObservationOnly \<longleftrightarrow>
     current = Some OutcomeUnknown \<and> operation = OpReconcileInconclusive
     \<and> reconciliation_fresh gates \<and> reconciliation_matches gates"
proof (cases current)
  case None
  then show ?thesis by (cases operation) (auto simp: transition_code.simps)
next
  case (Some state)
  then show ?thesis
    by (cases state; cases operation) (auto simp: transition_code.simps is_terminal_def reconciliation_code_def)
qed

lemma additive_capacity_iff:
  "additive_capacity_available ceiling committed active requested \<longleftrightarrow>
     0 < requested \<and> unat committed + unat active + unat requested \<le> unat ceiling"
proof (cases "ceiling = 0 \<or> requested = 0")
  case True
  then show ?thesis
    by (auto simp: additive_capacity_available_def word_gt_0 unat_eq_zero)
next
  case False
  have bound: "unat ceiling < 2 ^ 64" using unsigned_less [of ceiling, where 'a = nat] by simp
  show ?thesis
  proof (cases "checked_add committed active")
    case None
    then have "2 ^ 64 \<le> unat committed + unat active" by (simp add: checked_add_None_iff)
    with bound None False show ?thesis by (simp add: additive_capacity_available_def)
  next
    case (Some used)
    then have used: "unat used = unat committed + unat active" by (simp add: checked_add_Some_iff)
    show ?thesis
    proof (cases "checked_add used requested")
      case None
      then have "2 ^ 64 \<le> unat used + unat requested" by (simp add: checked_add_None_iff)
      with bound None Some False used show ?thesis by (simp add: additive_capacity_available_def)
    next
      case (Some next_use)
      then have "unat next_use = unat used + unat requested" by (simp add: checked_add_Some_iff)
      with Some \<open>checked_add committed active = Some used\<close> False used show ?thesis
        by (simp add: additive_capacity_available_def word_le_nat_alt word_gt_0)
    qed
  qed
qed

end
