(* ===== verification/Policy_Commitments.thy ===== *)
theory Policy_Commitments
  imports Policy_Kernel "HOL-Library.List_Lexorder"
begin

text \<open>
  The carriers a pure policy evaluation commits to,
  \<open>product/policy/auths-bounded-policy/src/commitment.rs\<close> and \<open>eligibility.rs\<close>: policy and
  configuration commitments, the configuration gate over them, reservation intents, obligations and
  the bounded outputs of an eligible result. Identifiers and digests are their bytes.
\<close>

section \<open>Commitments\<close>

record policy_commitment =
  pc_policy_type :: bytes
  pc_policy_version :: u16
  pc_canonicalization_id :: bytes
  pc_policy_digest :: bytes
  pc_evaluator_semantic_id :: bytes

datatype commitment_error = ZeroVersion

definition policy_commitment_new ::
  "bytes \<Rightarrow> u16 \<Rightarrow> bytes \<Rightarrow> bytes \<Rightarrow> bytes \<Rightarrow> (policy_commitment, commitment_error) result" where
  "policy_commitment_new policy_type policy_version canonicalization_id policy_digest evaluator_semantic_id =
     (if policy_version = 0 then Err ZeroVersion
      else Ok \<lparr> pc_policy_type = policy_type, pc_policy_version = policy_version,
                pc_canonicalization_id = canonicalization_id, pc_policy_digest = policy_digest,
                pc_evaluator_semantic_id = evaluator_semantic_id \<rparr>)"

record configuration_commitment =
  gc_semantic_id :: bytes
  gc_canonicalization_id :: bytes
  gc_configuration_digest :: bytes
  gc_implementation_id :: "bytes option"

record evaluation_commitments =
  ec_profile_id :: bytes
  ec_exact_action_digest :: bytes
  ec_policy_commitment :: policy_commitment
  ec_evidence_schema_id :: bytes
  ec_evidence_digest :: bytes
  ec_evidence_source_id :: bytes
  ec_evidence_observed_at :: u64
  ec_state_snapshot_schema_id :: bytes
  ec_state_snapshot_digest :: bytes
  ec_verifier_time :: u64
  ec_required_configuration :: configuration_commitment
  ec_executed_configuration :: configuration_commitment

datatype configuration_match =
    Match | SemanticMismatch | CanonicalizationMismatch | DigestMismatch | ImplementationMismatch

fun match_of_code :: "configuration_match_code \<Rightarrow> configuration_match" where
  "match_of_code CodeMatch = Match"
| "match_of_code CodeSemanticMismatch = SemanticMismatch"
| "match_of_code CodeCanonicalizationMismatch = CanonicalizationMismatch"
| "match_of_code CodeDigestMismatch = DigestMismatch"
| "match_of_code CodeImplementationMismatch = ImplementationMismatch"

definition configuration_match ::
  "configuration_commitment \<Rightarrow> configuration_commitment \<Rightarrow> configuration_match" where
  "configuration_match required executed =
     match_of_code (configuration_match_code
       (gc_semantic_id required = gc_semantic_id executed)
       (gc_canonicalization_id required = gc_canonicalization_id executed)
       (gc_configuration_digest required = gc_configuration_digest executed)
       (case gc_implementation_id required of
          None \<Rightarrow> True
        | Some required_id \<Rightarrow> gc_implementation_id executed = Some required_id))"

lemma configuration_match_iff:
  "configuration_match required executed = Match \<longleftrightarrow>
     gc_semantic_id required = gc_semantic_id executed
     \<and> gc_canonicalization_id required = gc_canonicalization_id executed
     \<and> gc_configuration_digest required = gc_configuration_digest executed
     \<and> (gc_implementation_id required = None \<or> gc_implementation_id required = gc_implementation_id executed)"
  by (auto simp: configuration_match_def configuration_match_code_def split: option.splits)

section \<open>Outputs\<close>

definition MAX_OBLIGATIONS :: nat where "MAX_OBLIGATIONS = 32"

definition MAX_OUTPUT_BYTES :: u32 where "MAX_OUTPUT_BYTES = 64 * 1024"

definition MAX_OUTPUT_INTENTS :: nat where "MAX_OUTPUT_INTENTS = 32"

datatype output_error =
    ZeroReservationAmount | EmptyCanonicalPayload | CanonicalPayloadTooLarge
  | TooManyReservationIntents | TooManyObligations | IntentOrdering | ObligationOrdering
  | CombinedBytesExceeded

definition validate_canonical_length :: "u32 \<Rightarrow> (unit, output_error) result" where
  "validate_canonical_length n =
     (if n = 0 then Err EmptyCanonicalPayload
      else if n > MAX_OUTPUT_BYTES then Err CanonicalPayloadTooLarge
      else Ok ())"

datatype reservation_kind = KindAdditive bytes u64 | KindExclusive

definition reservation_kind_additive :: "bytes \<Rightarrow> u64 \<Rightarrow> (reservation_kind, output_error) result" where
  "reservation_kind_additive unit_id amount =
     (if amount = 0 then Err ZeroReservationAmount else Ok (KindAdditive unit_id amount))"

record reservation_intent =
  ri_schema_id :: bytes
  ri_intent_id :: bytes
  ri_scope_digest :: bytes
  ri_kind :: reservation_kind
  ri_window_digest :: "bytes option"
  ri_action_digest :: bytes
  ri_policy_digest :: bytes
  ri_evidence_digest :: bytes
  ri_canonical_digest :: bytes
  ri_canonical_bytes :: u32

definition reservation_intent_new ::
  "bytes \<Rightarrow> bytes \<Rightarrow> bytes \<Rightarrow> reservation_kind \<Rightarrow> bytes option \<Rightarrow> bytes \<Rightarrow> bytes \<Rightarrow> bytes \<Rightarrow> bytes \<Rightarrow> u32
   \<Rightarrow> (reservation_intent, output_error) result"
where
  "reservation_intent_new schema_id intent_id scope_digest kind window_digest action_digest
     policy_digest evidence_digest canonical_digest canonical_bytes =
     and_then (validate_canonical_length canonical_bytes) (\<lambda>_.
       Ok \<lparr> ri_schema_id = schema_id, ri_intent_id = intent_id, ri_scope_digest = scope_digest,
            ri_kind = kind, ri_window_digest = window_digest, ri_action_digest = action_digest,
            ri_policy_digest = policy_digest, ri_evidence_digest = evidence_digest,
            ri_canonical_digest = canonical_digest, ri_canonical_bytes = canonical_bytes \<rparr>)"

datatype obligation_class = PreExecution | CommandConstruction | PostExecutionObservation

record obligation_commitment =
  oc_schema_id :: bytes
  oc_obligation_id :: bytes
  oc_class :: obligation_class
  oc_payload_digest :: bytes
  oc_canonical_bytes :: u32

definition obligation_new ::
  "bytes \<Rightarrow> bytes \<Rightarrow> obligation_class \<Rightarrow> bytes \<Rightarrow> u32 \<Rightarrow> (obligation_commitment, output_error) result" where
  "obligation_new schema_id obligation_id class payload_digest canonical_bytes =
     and_then (validate_canonical_length canonical_bytes) (\<lambda>_.
       Ok \<lparr> oc_schema_id = schema_id, oc_obligation_id = obligation_id, oc_class = class,
            oc_payload_digest = payload_digest, oc_canonical_bytes = canonical_bytes \<rparr>)"

record bounded_outputs =
  bo_reservation_intents :: "reservation_intent list"
  bo_obligations :: "obligation_commitment list"
  bo_reservation_intents_commitment :: bytes
  bo_obligations_commitment :: bytes
  bo_canonical_bytes :: u32

definition strictly_ordered_intents :: "reservation_intent list \<Rightarrow> bool" where
  "strictly_ordered_intents vs = successively (\<lambda>a b. ri_intent_id a < ri_intent_id b) vs"

definition strictly_ordered_obligations :: "obligation_commitment list \<Rightarrow> bool" where
  "strictly_ordered_obligations vs = successively (\<lambda>a b. oc_obligation_id a < oc_obligation_id b) vs"

fun try_sum :: "u32 \<Rightarrow> u32 list \<Rightarrow> u32 option" where
  "try_sum acc [] = Some acc"
| "try_sum acc (n # ns) = (case checked_add acc n of None \<Rightarrow> None | Some s \<Rightarrow> try_sum s ns)"

text \<open>The validation counters of the result are functions of it and left out.\<close>

definition bounded_outputs_new ::
  "reservation_intent list \<Rightarrow> obligation_commitment list \<Rightarrow> bytes \<Rightarrow> bytes
   \<Rightarrow> (bounded_outputs, output_error) result"
where
  "bounded_outputs_new intents obligations intents_commitment obligations_commitment =
     (if length intents > MAX_OUTPUT_INTENTS then Err TooManyReservationIntents
      else if length obligations > MAX_OBLIGATIONS then Err TooManyObligations
      else if \<not> strictly_ordered_intents intents then Err IntentOrdering
      else if \<not> strictly_ordered_obligations obligations then Err ObligationOrdering
      else
        and_then (ok_or (try_sum 0 (map ri_canonical_bytes intents @ map oc_canonical_bytes obligations))
                    CombinedBytesExceeded)
          (\<lambda>canonical_bytes.
             if canonical_bytes > MAX_OUTPUT_BYTES then Err CombinedBytesExceeded
             else Ok \<lparr> bo_reservation_intents = intents, bo_obligations = obligations,
                       bo_reservation_intents_commitment = intents_commitment,
                       bo_obligations_commitment = obligations_commitment,
                       bo_canonical_bytes = canonical_bytes \<rparr>))"

end
