(* ===== verification/Lifecycle_Model.thy ===== *)
theory Lifecycle_Model
  imports Lifecycle_Kernel Policy_Commitments "HOL-Library.Product_Lexorder" "HOL-Library.Option_ord"
begin

text \<open>
  The data of the execution lifecycle, \<open>product/runtime/auths-lifecycle/src/model.rs\<close> and
  \<open>identifier.rs\<close>: reservation requests and the set derived from an evaluation's outputs, capacity
  snapshots, execution intents, attempts, observations, events, receipts, the durable record and the
  commands. Identifiers and digests are their bytes; SHA-256 is the argument \<open>sha256\<close>.
\<close>

section \<open>Identifiers\<close>

definition MAX_OPERATION_ID_BYTES :: nat where "MAX_OPERATION_ID_BYTES = 64"
definition MAX_WORKFLOW_ID_BYTES :: nat where "MAX_WORKFLOW_ID_BYTES = 256"
definition MAX_RESERVATION_INTENTS :: nat where "MAX_RESERVATION_INTENTS = 32"
definition MAX_PROVIDER_ATTEMPTS :: nat where "MAX_PROVIDER_ATTEMPTS = 16"
definition MAX_RECONCILIATION_OBSERVATIONS :: nat where "MAX_RECONCILIATION_OBSERVATIONS = 32"
definition MAX_LIFECYCLE_EVENTS :: nat where "MAX_LIFECYCLE_EVENTS = 128"

datatype identifier_error = IdEmpty | IdTooLong | IdInvalidByte

definition semantic_byte :: "u8 \<Rightarrow> bool" where
  "semantic_byte b \<longleftrightarrow>
     (48 \<le> b \<and> b \<le> 57) \<or> (65 \<le> b \<and> b \<le> 90) \<or> (97 \<le> b \<and> b \<le> 122)
     \<or> b \<in> set [46, 47, 58, 95, 45]"

definition validate_semantic :: "bytes \<Rightarrow> nat \<Rightarrow> (unit, identifier_error) result" where
  "validate_semantic v maximum =
     (if v = [] then Err IdEmpty
      else if length v > maximum then Err IdTooLong
      else if \<not> list_all semantic_byte v then Err IdInvalidByte
      else Ok ())"

definition reservation_id_parse :: "bytes \<Rightarrow> (bytes, identifier_error) result" where
  "reservation_id_parse v = and_then (validate_semantic v MAX_OPERATION_ID_BYTES) (\<lambda>_. Ok v)"

definition workflow_id_parse :: "bytes \<Rightarrow> (bytes, identifier_error) result" where
  "workflow_id_parse v =
     (if v = [] then Err IdEmpty
      else if length v > MAX_WORKFLOW_ID_BYTES then Err IdTooLong
      else Ok v)"

definition hex_alphabet :: bytes where
  "hex_alphabet = ascii ''0123456789abcdef''"

definition hex :: "bytes \<Rightarrow> bytes" where
  "hex bs = concat (map (\<lambda>b. [hex_alphabet ! unat (drop_bit 4 b), hex_alphabet ! unat (and b 15)]) bs)"

section \<open>Reservations\<close>

datatype provider_retry_class = ExactIdempotent | Conditional | ObserveBeforeRetry | NonRetryable

datatype reservation_mode = Additive bytes u64 | Exclusive

record reservation_request =
  rr_reservation_id :: bytes
  rr_algebra_id :: bytes
  rr_intent_id :: bytes
  rr_scope_digest :: bytes
  rr_window_digest :: "bytes option"
  rr_mode :: reservation_mode
  rr_intent_digest :: bytes

definition optional_digest :: "bytes option \<Rightarrow> bytes" where
  "optional_digest v = (case v of None \<Rightarrow> [0] | Some d \<Rightarrow> 1 # d)"

definition sized :: "bytes \<Rightarrow> bytes" where
  "sized v = be_bytes (word_of_nat (length v) :: u64) @ v"

definition reservation_derive ::
  "(bytes \<Rightarrow> bytes) \<Rightarrow> bytes \<Rightarrow> bytes \<Rightarrow> bytes \<Rightarrow> bytes \<Rightarrow> bytes \<Rightarrow> bytes \<Rightarrow> reservation_intent
   \<Rightarrow> (reservation_request, identifier_error) result"
where
  "reservation_derive sha256 workflow domain profile evaluator audience algebra_id intent =
     (let mode = (case ri_kind intent of
                    KindAdditive unit_id amount \<Rightarrow> Additive unit_id amount
                  | KindExclusive \<Rightarrow> Exclusive);
          preimage =
            ascii ''AUTHS-RESERVATION-KEY'' @ [0, 1]
            @ concat (map sized [workflow, domain, profile, evaluator, audience, algebra_id, ri_intent_id intent])
            @ concat [ri_scope_digest intent, ri_action_digest intent, ri_policy_digest intent,
                      ri_evidence_digest intent, ri_canonical_digest intent]
            @ optional_digest (ri_window_digest intent)
            @ (case mode of
                 Additive unit_id amount \<Rightarrow> 0 # unit_id @ be_bytes amount
               | Exclusive \<Rightarrow> [1])
      in and_then (reservation_id_parse (hex (sha256 preimage))) (\<lambda>reservation_id.
           Ok \<lparr> rr_reservation_id = reservation_id, rr_algebra_id = algebra_id,
                rr_intent_id = ri_intent_id intent, rr_scope_digest = ri_scope_digest intent,
                rr_window_digest = ri_window_digest intent, rr_mode = mode,
                rr_intent_digest = ri_canonical_digest intent \<rparr>))"

record reservation_set =
  rs_entries :: "reservation_request list"
  rs_commitment :: bytes

datatype reservation_set_error = SetTooMany | SetDuplicate | SetInvalidIdentity

fun derive_all ::
  "(reservation_intent \<Rightarrow> (reservation_request, identifier_error) result) \<Rightarrow> reservation_intent list
   \<Rightarrow> (reservation_request list, reservation_set_error) result"
where
  "derive_all derive [] = Ok []"
| "derive_all derive (intent # intents) =
     (case derive intent of
        Inl _ \<Rightarrow> Err SetInvalidIdentity
      | Inr entry \<Rightarrow> and_then (derive_all derive intents) (\<lambda>entries. Ok (entry # entries)))"

definition reservation_set_derive ::
  "(bytes \<Rightarrow> bytes) \<Rightarrow> bytes \<Rightarrow> bytes \<Rightarrow> bytes \<Rightarrow> bytes \<Rightarrow> bytes \<Rightarrow> bytes \<Rightarrow> bounded_outputs
   \<Rightarrow> (reservation_set, reservation_set_error) result"
where
  "reservation_set_derive sha256 workflow domain profile evaluator audience algebra_id outputs =
     (if length (bo_reservation_intents outputs) > MAX_RESERVATION_INTENTS then Err SetTooMany
      else
        and_then (derive_all (reservation_derive sha256 workflow domain profile evaluator audience algebra_id)
                    (bo_reservation_intents outputs))
          (\<lambda>derived.
             let entries = sort_key rr_reservation_id derived
             in if \<not> successively (\<lambda>a b. rr_reservation_id a < rr_reservation_id b) entries then Err SetDuplicate
                else Ok \<lparr> rs_entries = entries,
                          rs_commitment = sha256 (ascii ''AUTHS-RESERVATION-SET'' @ [0, 1]
                            @ concat (map (\<lambda>e. rr_reservation_id e @ rr_intent_digest e) entries)) \<rparr>))"

record reservation_entry =
  en_request :: reservation_request
  en_committed :: bool
  en_released :: bool

definition entry_reserved :: "reservation_request \<Rightarrow> reservation_entry" where
  "entry_reserved request = \<lparr> en_request = request, en_committed = False, en_released = False \<rparr>"

definition mark_committed :: "reservation_entry \<Rightarrow> reservation_entry" where
  "mark_committed e = e\<lparr> en_committed := True \<rparr>"

definition mark_released :: "reservation_entry \<Rightarrow> reservation_entry" where
  "mark_released e = e\<lparr> en_released := True \<rparr>"

section \<open>Capacity snapshots\<close>

datatype capacity_entry =
    CapacityAdditive bytes "bytes option" bytes u64 u64 u64
  | CapacityExclusive bytes "bytes option" "bytes option"

datatype capacity_snapshot_error = SnapshotTooMany | InvalidCapacity | SnapshotDuplicate

fun capacity_key :: "capacity_entry \<Rightarrow> nat \<times> bytes \<times> bytes option \<times> bytes" where
  "capacity_key (CapacityAdditive scope window unit_id _ _ _) = (0, scope, window, unit_id)"
| "capacity_key (CapacityExclusive scope window _) = (1, scope, window, [])"

definition capacity_key_equal :: "capacity_entry \<Rightarrow> capacity_entry \<Rightarrow> bool" where
  "capacity_key_equal left right =
     (case (left, right) of
        (CapacityAdditive ls lw lu _ _ _, CapacityAdditive rs rw ru _ _ _) \<Rightarrow> ls = rs \<and> lw = rw \<and> lu = ru
      | (CapacityExclusive ls lw _, CapacityExclusive rs rw _) \<Rightarrow> ls = rs \<and> lw = rw
      | _ \<Rightarrow> False)"

fun capacity_valid :: "capacity_entry \<Rightarrow> bool" where
  "capacity_valid (CapacityAdditive _ _ _ ceiling committed active) =
     (\<not> (ceiling = 0 \<or> (case checked_add committed active of None \<Rightarrow> True | Some used \<Rightarrow> used > ceiling)))"
| "capacity_valid (CapacityExclusive _ _ _) = True"

text \<open>A \<open>CapacitySnapshotV1\<close> is its entries; \<open>capacity_key_cmp\<close> orders them by \<open>capacity_key\<close>.\<close>

definition capacity_snapshot_new ::
  "capacity_entry list \<Rightarrow> (capacity_entry list, capacity_snapshot_error) result" where
  "capacity_snapshot_new entries =
     (if length entries > MAX_RESERVATION_INTENTS then Err SnapshotTooMany
      else if \<not> list_all capacity_valid entries then Err InvalidCapacity
      else
        (let sorted_entries = sort_key capacity_key entries
         in if \<not> successively (\<lambda>a b. \<not> capacity_key_equal a b) sorted_entries then Err SnapshotDuplicate
            else Ok sorted_entries))"

section \<open>Execution\<close>

datatype cancellation_disposition = BeforeAttemptAllowed | EvidenceRequired

datatype effect_conclusion = Effect | NonEffect | Unknown | Inconclusive

record revocation_snapshot =
  rv_revoked :: bool
  rv_snapshot_digest :: bytes

record execution_intent =
  xi_verified_command_digest :: bytes
  xi_provider_request_digest :: bytes
  xi_provider_condition_digest :: bytes
  xi_provider_contract_id :: bytes
  xi_retry_class :: provider_retry_class
  xi_intent_digest :: bytes

definition retry_class_code :: "provider_retry_class \<Rightarrow> u8" where
  "retry_class_code v = (case v of
     ExactIdempotent \<Rightarrow> 0 | Conditional \<Rightarrow> 1 | ObserveBeforeRetry \<Rightarrow> 2 | NonRetryable \<Rightarrow> 3)"

definition execution_intent_new ::
  "(bytes \<Rightarrow> bytes) \<Rightarrow> bytes \<Rightarrow> bytes \<Rightarrow> bytes \<Rightarrow> bytes \<Rightarrow> provider_retry_class \<Rightarrow> execution_intent" where
  "execution_intent_new sha256 command_digest request_digest condition_digest contract_id retry_class =
     \<lparr> xi_verified_command_digest = command_digest, xi_provider_request_digest = request_digest,
       xi_provider_condition_digest = condition_digest, xi_provider_contract_id = contract_id,
       xi_retry_class = retry_class,
       xi_intent_digest = sha256 (ascii ''AUTHS-EXECUTION-INTENT'' @ [0, 1] @ command_digest
         @ request_digest @ condition_digest @ contract_id @ [retry_class_code retry_class]) \<rparr>"

definition attempt_ordinal_new :: "u8 \<Rightarrow> u8 option" where
  "attempt_ordinal_new v = (if v = 0 \<or> unat v > MAX_PROVIDER_ATTEMPTS then None else Some v)"

record provider_attempt =
  pa_ordinal :: u8
  pa_started_at :: u64
  pa_provider_request_digest :: bytes
  pa_provider_condition_digest :: bytes
  pa_provider_contract_id :: bytes
  pa_call_entered :: bool

record reconciliation_observation =
  ro_reconciliation_id :: bytes
  ro_source_id :: bytes
  ro_observed_at :: u64
  ro_fresh_until :: u64
  ro_observation_digest :: bytes
  ro_conclusion :: effect_conclusion
  ro_provider_request_digest :: bytes

datatype lifecycle_event_kind =
    DecisionPersisted | ReservationPersisted | ExecutionIntentPersisted | CredentialAuthorized
  | AttemptPersisted | ProviderCallEntered | ProviderResultPersisted | OutcomeUnknownPersisted
  | ReconciliationObserved | ReconciliationPersisted

record lifecycle_event =
  le_kind :: lifecycle_event_kind
  le_revision :: u64
  le_verifier_time :: u64
  le_trigger_digest :: bytes

record lifecycle_receipt =
  lr_revision :: u64
  lr_previous :: "bytes option"
  lr_from :: "lifecycle_state option"
  lr_to :: lifecycle_state
  lr_trigger_digest :: bytes
  lr_verifier_time :: u64
  lr_required_configuration :: configuration_commitment
  lr_executed_configuration :: configuration_commitment
  lr_implementation_id :: bytes
  lr_domain_receipt_digest :: "bytes option"
  lr_receipt_digest :: bytes

section \<open>Records and commands\<close>

record decision_input =
  di_core_authorized :: bool
  di_core_authorization_digest :: bytes
  di_workflow_id :: bytes
  di_lifecycle_id :: bytes
  di_execution_id :: bytes
  di_recovery_reference_digest :: bytes
  di_domain_id :: bytes
  di_executor_audience :: bytes
  di_reservation_algebra_id :: bytes
  di_commitments :: evaluation_commitments
  di_outputs :: bounded_outputs
  di_reservations :: reservation_set
  di_decision_receipt_digest :: bytes
  di_domain_decision_receipt_digest :: bytes
  di_implementation_id :: bytes
  di_implementation_build_digest :: bytes
  di_expires_at :: u64
  di_cancellation :: cancellation_disposition

record lifecycle_record =
  lc_input :: decision_input
  lc_state :: lifecycle_state
  lc_revision :: u64
  lc_created_at :: u64
  lc_updated_at :: u64
  lc_reservation_entries :: "reservation_entry list"
  lc_execution_intent :: "execution_intent option"
  lc_credential_authorized :: bool
  lc_attempts :: "provider_attempt list"
  lc_observations :: "reconciliation_observation list"
  lc_terminal_result :: "bytes option"
  lc_events :: "lifecycle_event list"
  lc_receipts :: "lifecycle_receipt list"

record transition_context =
  tc_verifier_time :: u64
  tc_executed_configuration :: configuration_commitment
  tc_revocation :: revocation_snapshot
  tc_capacity :: "capacity_entry list"

datatype transition_command =
    RecordDecision decision_input
  | Reserve
  | RecordExecutionIntent execution_intent
  | AuthorizeCredential
  | StartAttempt
  | MarkProviderCallEntered
  | Commit bytes bytes
  | Release bytes bytes effect_conclusion
  | MarkOutcomeUnknown bytes
  | Reconcile reconciliation_observation bytes

definition can_append_event :: "lifecycle_record \<Rightarrow> bool" where
  "can_append_event r \<longleftrightarrow> length (lc_events r) < MAX_LIFECYCLE_EVENTS"

definition can_append_attempt :: "lifecycle_record \<Rightarrow> bool" where
  "can_append_attempt r \<longleftrightarrow> length (lc_attempts r) < MAX_PROVIDER_ATTEMPTS"

definition can_append_observation :: "lifecycle_record \<Rightarrow> bool" where
  "can_append_observation r \<longleftrightarrow> length (lc_observations r) < MAX_RECONCILIATION_OBSERVATIONS"

end
