(* ===== verification/Lifecycle_Transition.thy ===== *)
theory Lifecycle_Transition
  imports Lifecycle_Model
begin

text \<open>
  The lifecycle transition, \<open>product/runtime/auths-lifecycle/src/transition.rs\<close>: the rich validation
  around the kernel table, the payload each command writes, the appended event and hash-linked
  receipt, and the integrity check the codec runs on every stored record. The lemmas show what an
  applied transition does to a record and which records stay valid.
\<close>

section \<open>Results and failures\<close>

record lifecycle_work =
  lw_reservation_intents :: u8
  lw_capacity_entries :: u8
  lw_events :: u8
  lw_attempts :: u8
  lw_observations :: u8
  lw_transition_predicates :: u8

definition default_work :: lifecycle_work where
  "default_work = \<lparr> lw_reservation_intents = 0, lw_capacity_entries = 0, lw_events = 0,
     lw_attempts = 0, lw_observations = 0, lw_transition_predicates = 0 \<rparr>"

datatype transition_disposition = DispositionApplied | DispositionExactReplay

record transition_result =
  tr_record :: lifecycle_record
  tr_disposition :: transition_disposition
  tr_work :: lifecycle_work

datatype lifecycle_failure =
    FailConflict | FailIllegalTransition | FailNotAuthorized | FailNotEligible
  | FailConfigurationMismatch | FailRevoked | FailExpired | FailCapacityExceeded
  | FailExecutionIntentMissing | FailCredentialNotAuthorized | FailAttemptMissing
  | FailProviderCallNotEntered | FailEffectNotProved | FailNonEffectNotProved
  | FailReconciliationStale | FailReconciliationMismatch | FailTerminal | FailLimitExceeded
  | FailRevisionOverflow

type_synonym transition_error = "lifecycle_failure \<times> lifecycle_work"

definition bounded_count :: "nat \<Rightarrow> u8" where
  "bounded_count n = (if n < 256 then word_of_nat n else 255)"

definition inspected_work :: "lifecycle_record option \<Rightarrow> transition_context \<Rightarrow> lifecycle_work" where
  "inspected_work current context =
     (let count = (\<lambda>f. case current of None \<Rightarrow> 0 | Some r \<Rightarrow> bounded_count (f r))
      in \<lparr> lw_reservation_intents = count (\<lambda>r. length (rs_entries (di_reservations (lc_input r)))),
           lw_capacity_entries = bounded_count (length (tc_capacity context)),
           lw_events = count (\<lambda>r. length (lc_events r)),
           lw_attempts = count (\<lambda>r. length (lc_attempts r)),
           lw_observations = count (\<lambda>r. length (lc_observations r)),
           lw_transition_predicates = 0 \<rparr>)"

fun map_kernel_failure :: "kernel_code \<Rightarrow> lifecycle_failure" where
  "map_kernel_failure CodeTerminal = FailTerminal"
| "map_kernel_failure CodeIllegalTransition = FailIllegalTransition"
| "map_kernel_failure ObservationOnly = FailIllegalTransition"
| "map_kernel_failure (Applied _) = FailIllegalTransition"
| "map_kernel_failure CodeNotAuthorized = FailNotAuthorized"
| "map_kernel_failure CodeNotEligible = FailNotEligible"
| "map_kernel_failure CodeConfigurationMismatch = FailConfigurationMismatch"
| "map_kernel_failure CodeRevoked = FailRevoked"
| "map_kernel_failure CodeExpired = FailExpired"
| "map_kernel_failure CodeCapacityExceeded = FailCapacityExceeded"
| "map_kernel_failure CodeExecutionIntentMissing = FailExecutionIntentMissing"
| "map_kernel_failure CodeCredentialNotAuthorized = FailCredentialNotAuthorized"
| "map_kernel_failure CodeAttemptMissing = FailAttemptMissing"
| "map_kernel_failure CodeProviderCallNotEntered = FailProviderCallNotEntered"
| "map_kernel_failure CodeEffectNotProved = FailEffectNotProved"
| "map_kernel_failure CodeNonEffectNotProved = FailNonEffectNotProved"
| "map_kernel_failure CodeReconciliationStale = FailReconciliationStale"
| "map_kernel_failure CodeReconciliationMismatch = FailReconciliationMismatch"

section \<open>Gates\<close>

definition decision_bindings_complete :: "decision_input \<Rightarrow> bool" where
  "decision_bindings_complete input =
     (let outputs = bo_reservation_intents (di_outputs input);
          requests = rs_entries (di_reservations input)
      in di_recovery_reference_digest input \<noteq> replicate 32 0
         \<and> length outputs = length requests
         \<and> list_all (\<lambda>request. list_ex (\<lambda>intent.
               ri_intent_id intent = rr_intent_id request
               \<and> ri_canonical_digest intent = rr_intent_digest request
               \<and> ri_scope_digest intent = rr_scope_digest request
               \<and> ri_window_digest intent = rr_window_digest request) outputs) requests)"

definition input_configuration_matches :: "decision_input \<Rightarrow> transition_context \<Rightarrow> bool" where
  "input_configuration_matches input context \<longleftrightarrow>
     ec_executed_configuration (di_commitments input) = tc_executed_configuration context
     \<and> configuration_match (ec_required_configuration (di_commitments input))
         (tc_executed_configuration context) = Match"

definition request_fits :: "reservation_request \<Rightarrow> capacity_entry \<Rightarrow> bool" where
  "request_fits request entry =
     (case (rr_mode request, entry) of
        (Additive unit_id amount, CapacityAdditive scope window capacity_unit ceiling committed active) \<Rightarrow>
          rr_scope_digest request = scope \<and> rr_window_digest request = window \<and> unit_id = capacity_unit
          \<and> additive_capacity_available ceiling committed active amount
      | (Exclusive, CapacityExclusive scope window live_owner) \<Rightarrow>
          rr_scope_digest request = scope \<and> rr_window_digest request = window
          \<and> exclusive_capacity_available (live_owner \<noteq> None)
              (live_owner = Some (rr_reservation_id request))
      | _ \<Rightarrow> False)"

definition record_capacity_available :: "lifecycle_record \<Rightarrow> transition_context \<Rightarrow> bool" where
  "record_capacity_available r context =
     list_all (\<lambda>request. list_ex (request_fits request) (tc_capacity context))
       (rs_entries (di_reservations (lc_input r)))"

definition operation_for :: "transition_command \<Rightarrow> operation_code" where
  "operation_for command = (case command of
     RecordDecision _ \<Rightarrow> OpRecordDecision
   | Reserve \<Rightarrow> OpReserve
   | RecordExecutionIntent _ \<Rightarrow> OpRecordExecutionIntent
   | AuthorizeCredential \<Rightarrow> OpAuthorizeCredential
   | StartAttempt \<Rightarrow> OpStartAttempt
   | MarkProviderCallEntered \<Rightarrow> OpMarkProviderCallEntered
   | Commit _ _ \<Rightarrow> OpCommit
   | Release _ _ _ \<Rightarrow> OpRelease
   | MarkOutcomeUnknown _ \<Rightarrow> OpMarkOutcomeUnknown
   | Reconcile observation _ \<Rightarrow>
       (case ro_conclusion observation of
          Effect \<Rightarrow> OpReconcileEffect
        | NonEffect \<Rightarrow> OpReconcileNonEffect
        | Unknown \<Rightarrow> OpReconcileInconclusive
        | Inconclusive \<Rightarrow> OpReconcileInconclusive))"

definition command_conclusion :: "transition_command \<Rightarrow> effect_conclusion option" where
  "command_conclusion command = (case command of
     Commit _ _ \<Rightarrow> Some Effect
   | Release _ _ conclusion \<Rightarrow> Some conclusion
   | MarkOutcomeUnknown _ \<Rightarrow> Some Unknown
   | Reconcile observation _ \<Rightarrow> Some (ro_conclusion observation)
   | _ \<Rightarrow> None)"

definition gates_for :: "lifecycle_record \<Rightarrow> transition_command \<Rightarrow> transition_context \<Rightarrow> transition_gates" where
  "gates_for r command context =
     (let conclusion = command_conclusion command;
          observation = (case command of Reconcile observation _ \<Rightarrow> Some observation | _ \<Rightarrow> None)
      in \<lparr> core_authorized = di_core_authorized (lc_input r),
           policy_eligible = True,
           configuration_matches = input_configuration_matches (lc_input r) context,
           not_revoked = (\<not> rv_revoked (tc_revocation context)),
           not_expired = (tc_verifier_time context \<le> di_expires_at (lc_input r)),
           capacity_available = record_capacity_available r context,
           execution_intent_present = (lc_execution_intent r \<noteq> None
             \<or> (case command of RecordExecutionIntent _ \<Rightarrow> True | _ \<Rightarrow> False)),
           credential_authorized = lc_credential_authorized r,
           attempt_present = (lc_attempts r \<noteq> [] \<or> command = StartAttempt),
           provider_call_entered = (lc_attempts r \<noteq> [] \<and> pa_call_entered (last (lc_attempts r))),
           cancellation_allowed = (di_cancellation (lc_input r) = BeforeAttemptAllowed),
           definite_effect = (conclusion = Some Effect),
           definite_non_effect = (conclusion = Some NonEffect),
           reconciliation_fresh = (case observation of None \<Rightarrow> False
             | Some v \<Rightarrow> ro_observed_at v \<le> tc_verifier_time context
                          \<and> tc_verifier_time context \<le> ro_fresh_until v),
           reconciliation_matches = (case observation of None \<Rightarrow> False
             | Some v \<Rightarrow> (case lc_execution_intent r of None \<Rightarrow> False
                 | Some intent \<Rightarrow> ro_provider_request_digest v = xi_provider_request_digest intent)) \<rparr>)"

section \<open>Receipts and events\<close>

definition state_code :: "lifecycle_state \<Rightarrow> u8" where
  "state_code state = (case state of
     DecisionRecorded \<Rightarrow> 0 | Reserved \<Rightarrow> 1 | ExecutionIntentRecorded \<Rightarrow> 2 | Executing \<Rightarrow> 3
   | Committed \<Rightarrow> 4 | Released \<Rightarrow> 5 | OutcomeUnknown \<Rightarrow> 6 | ReconciledCommitted \<Rightarrow> 7
   | ReconciledReleased \<Rightarrow> 8)"

definition configuration_bytes :: "configuration_commitment \<Rightarrow> bytes" where
  "configuration_bytes v =
     gc_semantic_id v @ gc_canonicalization_id v @ gc_configuration_digest v
     @ optional_digest (gc_implementation_id v)"

definition compute_receipt_digest ::
  "(bytes \<Rightarrow> bytes) \<Rightarrow> lifecycle_record \<Rightarrow> u64 \<Rightarrow> bytes option \<Rightarrow> lifecycle_state option \<Rightarrow> lifecycle_state
   \<Rightarrow> bytes \<Rightarrow> bytes option \<Rightarrow> u64 \<Rightarrow> configuration_commitment \<Rightarrow> configuration_commitment \<Rightarrow> bytes"
where
  "compute_receipt_digest sha256 r revision previous from to trigger domain_receipt verifier_time required executed =
     sha256 (ascii ''AUTHS-LIFECYCLE-RECEIPT'' @ [0, 2]
       @ di_lifecycle_id (lc_input r) @ di_execution_id (lc_input r)
       @ di_recovery_reference_digest (lc_input r)
       @ be_bytes revision
       @ [case from of None \<Rightarrow> 255 | Some state \<Rightarrow> state_code state, state_code to]
       @ trigger @ be_bytes verifier_time
       @ configuration_bytes required @ configuration_bytes executed
       @ di_implementation_id (lc_input r)
       @ optional_digest previous @ optional_digest domain_receipt)"

definition make_receipt ::
  "(bytes \<Rightarrow> bytes) \<Rightarrow> lifecycle_record \<Rightarrow> u64 \<Rightarrow> lifecycle_state option \<Rightarrow> lifecycle_state \<Rightarrow> bytes
   \<Rightarrow> bytes option \<Rightarrow> u64 \<Rightarrow> lifecycle_receipt"
where
  "make_receipt sha256 r revision from to trigger domain_receipt verifier_time =
     (let previous = (if lc_receipts r = [] then None else Some (lr_receipt_digest (last (lc_receipts r))));
          required = ec_required_configuration (di_commitments (lc_input r));
          executed = ec_executed_configuration (di_commitments (lc_input r))
      in \<lparr> lr_revision = revision, lr_previous = previous, lr_from = from, lr_to = to,
           lr_trigger_digest = trigger, lr_verifier_time = verifier_time,
           lr_required_configuration = required, lr_executed_configuration = executed,
           lr_implementation_id = di_implementation_id (lc_input r),
           lr_domain_receipt_digest = domain_receipt,
           lr_receipt_digest = compute_receipt_digest sha256 r revision previous from to trigger
             domain_receipt verifier_time required executed \<rparr>)"

definition event_kind_for :: "lifecycle_state option \<Rightarrow> lifecycle_state \<Rightarrow> lifecycle_event_kind" where
  "event_kind_for from to =
     (case (from, to) of
        (None, DecisionRecorded) \<Rightarrow> DecisionPersisted
      | (_, Reserved) \<Rightarrow> ReservationPersisted
      | (Some Reserved, ExecutionIntentRecorded) \<Rightarrow> ExecutionIntentPersisted
      | (Some ExecutionIntentRecorded, ExecutionIntentRecorded) \<Rightarrow> CredentialAuthorized
      | (Some ExecutionIntentRecorded, Executing) \<Rightarrow> AttemptPersisted
      | (Some Executing, Executing) \<Rightarrow> ProviderCallEntered
      | (_, Committed) \<Rightarrow> ProviderResultPersisted
      | (_, Released) \<Rightarrow> ProviderResultPersisted
      | (_, OutcomeUnknown) \<Rightarrow> OutcomeUnknownPersisted
      | (_, ReconciledCommitted) \<Rightarrow> ReconciliationPersisted
      | (_, ReconciledReleased) \<Rightarrow> ReconciliationPersisted
      | _ \<Rightarrow> ReconciliationObserved)"

definition append_transition ::
  "(bytes \<Rightarrow> bytes) \<Rightarrow> lifecycle_record \<Rightarrow> lifecycle_state option \<Rightarrow> lifecycle_state \<Rightarrow> bytes
   \<Rightarrow> bytes option \<Rightarrow> transition_context \<Rightarrow> (lifecycle_record, transition_error) result"
where
  "append_transition sha256 r from to trigger domain_receipt context =
     and_then (ok_or (checked_add (lc_revision r) 1) (FailRevisionOverflow, default_work)) (\<lambda>revision.
       Ok (r\<lparr> lc_revision := revision, lc_updated_at := tc_verifier_time context,
              lc_events := lc_events r @ [\<lparr> le_kind = event_kind_for from to, le_revision = revision,
                 le_verifier_time = tc_verifier_time context, le_trigger_digest = trigger \<rparr>],
              lc_receipts := lc_receipts r
                @ [make_receipt sha256 r revision from to trigger domain_receipt (tc_verifier_time context)] \<rparr>))"

definition trigger_digest :: "transition_command \<Rightarrow> lifecycle_record \<Rightarrow> bytes" where
  "trigger_digest command r = (case command of
     RecordDecision input \<Rightarrow> di_decision_receipt_digest input
   | Reserve \<Rightarrow> rs_commitment (di_reservations (lc_input r))
   | RecordExecutionIntent intent \<Rightarrow> xi_intent_digest intent
   | AuthorizeCredential \<Rightarrow>
       (case lc_execution_intent r of None \<Rightarrow> replicate 32 0 | Some intent \<Rightarrow> xi_intent_digest intent)
   | StartAttempt \<Rightarrow>
       (case lc_execution_intent r of None \<Rightarrow> replicate 32 0 | Some intent \<Rightarrow> xi_provider_request_digest intent)
   | MarkProviderCallEntered \<Rightarrow>
       (case lc_execution_intent r of None \<Rightarrow> replicate 32 0 | Some intent \<Rightarrow> xi_provider_request_digest intent)
   | Commit result_digest _ \<Rightarrow> result_digest
   | Release result_digest _ _ \<Rightarrow> result_digest
   | MarkOutcomeUnknown receipt_digest \<Rightarrow> receipt_digest
   | Reconcile observation _ \<Rightarrow> ro_observation_digest observation)"

definition domain_receipt_of :: "transition_command \<Rightarrow> bytes option" where
  "domain_receipt_of command = (case command of
     Commit _ receipt \<Rightarrow> Some receipt
   | Release _ receipt _ \<Rightarrow> Some receipt
   | MarkOutcomeUnknown receipt \<Rightarrow> Some receipt
   | Reconcile _ receipt \<Rightarrow> Some receipt
   | _ \<Rightarrow> None)"

section \<open>Transitions\<close>

definition next_ordinal :: "nat \<Rightarrow> u8 option" where
  "next_ordinal attempts = (if attempts + 1 < 256 then attempt_ordinal_new (word_of_nat (attempts + 1)) else None)"

definition apply_payload ::
  "lifecycle_record \<Rightarrow> transition_command \<Rightarrow> lifecycle_state \<Rightarrow> u64 \<Rightarrow> (lifecycle_record, transition_error) result"
where
  "apply_payload r command next_state now =
     and_then
       (case command of
          Reserve \<Rightarrow>
            Ok (r\<lparr> lc_reservation_entries := map entry_reserved (rs_entries (di_reservations (lc_input r))) \<rparr>)
        | RecordExecutionIntent intent \<Rightarrow> Ok (r\<lparr> lc_execution_intent := Some intent \<rparr>)
        | AuthorizeCredential \<Rightarrow> Ok (r\<lparr> lc_credential_authorized := True \<rparr>)
        | StartAttempt \<Rightarrow>
            (case lc_execution_intent r of
               None \<Rightarrow> Err (FailExecutionIntentMissing, default_work)
             | Some intent \<Rightarrow>
                 and_then (ok_or (next_ordinal (length (lc_attempts r))) (FailLimitExceeded, default_work)) (\<lambda>ordinal.
                   Ok (r\<lparr> lc_attempts := lc_attempts r @ [\<lparr> pa_ordinal = ordinal, pa_started_at = now,
                            pa_provider_request_digest = xi_provider_request_digest intent,
                            pa_provider_condition_digest = xi_provider_condition_digest intent,
                            pa_provider_contract_id = xi_provider_contract_id intent,
                            pa_call_entered = False \<rparr>],
                          lc_credential_authorized := False \<rparr>)))
        | MarkProviderCallEntered \<Rightarrow>
            if lc_attempts r = [] then Err (FailAttemptMissing, default_work)
            else Ok (r\<lparr> lc_attempts := butlast (lc_attempts r)
                          @ [(last (lc_attempts r))\<lparr> pa_call_entered := True \<rparr>] \<rparr>)
        | Commit result_digest _ \<Rightarrow>
            Ok (r\<lparr> lc_reservation_entries := map mark_committed (lc_reservation_entries r),
                   lc_terminal_result := Some result_digest \<rparr>)
        | Release result_digest _ _ \<Rightarrow>
            Ok (r\<lparr> lc_reservation_entries := map mark_released (lc_reservation_entries r),
                   lc_terminal_result := Some result_digest \<rparr>)
        | MarkOutcomeUnknown _ \<Rightarrow> Ok r
        | RecordDecision _ \<Rightarrow> Ok r
        | Reconcile observation _ \<Rightarrow>
            Ok (r\<lparr> lc_observations := lc_observations r @ [observation],
                   lc_reservation_entries :=
                     (case ro_conclusion observation of
                        Effect \<Rightarrow> map mark_committed (lc_reservation_entries r)
                      | NonEffect \<Rightarrow> map mark_released (lc_reservation_entries r)
                      | _ \<Rightarrow> lc_reservation_entries r) \<rparr>))
       (\<lambda>applied. Ok (applied\<lparr> lc_state := next_state \<rparr>))"

definition record_decision ::
  "(bytes \<Rightarrow> bytes) \<Rightarrow> lifecycle_record option \<Rightarrow> decision_input \<Rightarrow> transition_context \<Rightarrow> lifecycle_work
   \<Rightarrow> (transition_result, transition_error) result"
where
  "record_decision sha256 current input context work =
     (case current of
        Some existing \<Rightarrow>
          if \<not> input_configuration_matches input context then Err (FailConfigurationMismatch, work)
          else (case replay_code True (lc_input existing = input) of
                  ReplayExact \<Rightarrow> Ok \<lparr> tr_record = existing, tr_disposition = DispositionExactReplay, tr_work = work \<rparr>
                | _ \<Rightarrow> Err (FailConflict, work))
      | None \<Rightarrow>
          if \<not> decision_bindings_complete input then Err (FailNotEligible, work)
          else
            (let gates = \<lparr> core_authorized = di_core_authorized input, policy_eligible = True,
                   configuration_matches = input_configuration_matches input context,
                   not_revoked = (\<not> rv_revoked (tc_revocation context)),
                   not_expired = (tc_verifier_time context \<le> di_expires_at input),
                   capacity_available = True, execution_intent_present = False,
                   credential_authorized = False, attempt_present = False,
                   provider_call_entered = False, cancellation_allowed = False,
                   definite_effect = False, definite_non_effect = False,
                   reconciliation_fresh = False, reconciliation_matches = False \<rparr>;
                 work' = work\<lparr> lw_transition_predicates := 5 \<rparr>;
                 code = transition_code None OpRecordDecision gates;
                 now = tc_verifier_time context;
                 r = \<lparr> lc_input = input, lc_state = DecisionRecorded, lc_revision = 0,
                       lc_created_at = now, lc_updated_at = now, lc_reservation_entries = [],
                       lc_execution_intent = None, lc_credential_authorized = False,
                       lc_attempts = [], lc_observations = [], lc_terminal_result = None,
                       lc_events = [], lc_receipts = [] \<rparr>
             in if code \<noteq> Applied DecisionRecorded then Err (map_kernel_failure code, work')
                else and_then
                  (append_transition sha256 r None DecisionRecorded (di_decision_receipt_digest input)
                     (Some (di_domain_decision_receipt_digest input)) context)
                  (\<lambda>appended.
                     Ok \<lparr> tr_record = appended, tr_disposition = DispositionApplied, tr_work = work' \<rparr>)))"

definition transition_existing ::
  "(bytes \<Rightarrow> bytes) \<Rightarrow> lifecycle_record \<Rightarrow> transition_command \<Rightarrow> transition_context \<Rightarrow> lifecycle_work
   \<Rightarrow> lifecycle_state \<Rightarrow> (transition_result, transition_error) result"
where
  "transition_existing sha256 existing command context work next_state =
     and_then (apply_payload existing command next_state (tc_verifier_time context)) (\<lambda>applied.
     and_then (append_transition sha256 applied (Some (lc_state existing)) next_state
                 (trigger_digest command existing) (domain_receipt_of command) context)
       (\<lambda>appended.
          Ok \<lparr> tr_record = appended, tr_disposition = DispositionApplied, tr_work = work \<rparr>))"

definition apply_transition ::
  "(bytes \<Rightarrow> bytes) \<Rightarrow> lifecycle_record option \<Rightarrow> transition_command \<Rightarrow> transition_context
   \<Rightarrow> (transition_result, transition_error) result"
where
  "apply_transition sha256 current command context =
     (let work = inspected_work current context
      in case command of
           RecordDecision input \<Rightarrow> record_decision sha256 current input context work
         | _ \<Rightarrow>
             (case current of
                None \<Rightarrow> Err (FailIllegalTransition, work)
              | Some existing \<Rightarrow>
                  if \<not> can_append_event existing then Err (FailLimitExceeded, work)
                  else if command = StartAttempt \<and> \<not> can_append_attempt existing then Err (FailLimitExceeded, work)
                  else if (case command of Reconcile _ _ \<Rightarrow> True | _ \<Rightarrow> False) \<and> \<not> can_append_observation existing
                  then Err (FailLimitExceeded, work)
                  else
                    (let work' = work\<lparr> lw_transition_predicates := 15 \<rparr>
                     in case transition_code (Some (lc_state existing)) (operation_for command)
                               (gates_for existing command context) of
                          Applied next_state \<Rightarrow> transition_existing sha256 existing command context work' next_state
                        | ObservationOnly \<Rightarrow>
                            transition_existing sha256 existing command context work' (lc_state existing)
                        | other \<Rightarrow> Err (map_kernel_failure other, work'))))"

section \<open>Integrity\<close>

definition reservations_are_live :: "lifecycle_record \<Rightarrow> bool" where
  "reservations_are_live r = list_all (\<lambda>e. \<not> en_committed e \<and> \<not> en_released e) (lc_reservation_entries r)"

definition record_shape_is_valid :: "lifecycle_record \<Rightarrow> bool" where
  "record_shape_is_valid r =
     (let planned = length (rs_entries (di_reservations (lc_input r)));
          reserved = length (lc_reservation_entries r);
          intent_present = (lc_execution_intent r \<noteq> None);
          attempts_present = (lc_attempts r \<noteq> [])
      in case lc_state r of
           DecisionRecorded \<Rightarrow> reserved = 0 \<and> \<not> intent_present \<and> \<not> lc_credential_authorized r \<and> \<not> attempts_present
         | Reserved \<Rightarrow> reserved = planned \<and> \<not> intent_present \<and> \<not> lc_credential_authorized r
             \<and> \<not> attempts_present \<and> reservations_are_live r
         | ExecutionIntentRecorded \<Rightarrow> reserved = planned \<and> intent_present \<and> \<not> attempts_present
             \<and> reservations_are_live r
         | Executing \<Rightarrow> reserved = planned \<and> intent_present \<and> attempts_present
             \<and> \<not> lc_credential_authorized r \<and> reservations_are_live r
         | OutcomeUnknown \<Rightarrow> reserved = planned \<and> intent_present \<and> attempts_present
             \<and> \<not> lc_credential_authorized r \<and> reservations_are_live r
         | Committed \<Rightarrow> reserved = planned \<and> intent_present \<and> attempts_present
             \<and> list_all (\<lambda>e. en_committed e \<and> \<not> en_released e) (lc_reservation_entries r)
         | ReconciledCommitted \<Rightarrow> reserved = planned \<and> intent_present \<and> attempts_present
             \<and> list_all (\<lambda>e. en_committed e \<and> \<not> en_released e) (lc_reservation_entries r)
         | Released \<Rightarrow> reserved = planned
             \<and> list_all (\<lambda>e. en_released e \<and> \<not> en_committed e) (lc_reservation_entries r)
         | ReconciledReleased \<Rightarrow> reserved = planned
             \<and> list_all (\<lambda>e. en_released e \<and> \<not> en_committed e) (lc_reservation_entries r))"

definition valid_trace_event :: "lifecycle_state option \<Rightarrow> lifecycle_state \<Rightarrow> lifecycle_event_kind \<Rightarrow> bool" where
  "valid_trace_event from to kind =
     (case (from, to, kind) of
        (None, DecisionRecorded, DecisionPersisted) \<Rightarrow> True
      | (Some DecisionRecorded, Reserved, ReservationPersisted) \<Rightarrow> True
      | (Some Reserved, ExecutionIntentRecorded, ExecutionIntentPersisted) \<Rightarrow> True
      | (Some ExecutionIntentRecorded, ExecutionIntentRecorded, CredentialAuthorized) \<Rightarrow> True
      | (Some ExecutionIntentRecorded, Executing, AttemptPersisted) \<Rightarrow> True
      | (Some Executing, Executing, ProviderCallEntered) \<Rightarrow> True
      | (Some Executing, Committed, ProviderResultPersisted) \<Rightarrow> True
      | (Some Executing, Released, ProviderResultPersisted) \<Rightarrow> True
      | (Some Reserved, Released, ProviderResultPersisted) \<Rightarrow> True
      | (Some ExecutionIntentRecorded, Released, ProviderResultPersisted) \<Rightarrow> True
      | (Some Executing, OutcomeUnknown, OutcomeUnknownPersisted) \<Rightarrow> True
      | (Some OutcomeUnknown, OutcomeUnknown, ReconciliationObserved) \<Rightarrow> True
      | (Some OutcomeUnknown, ReconciledCommitted, ReconciliationPersisted) \<Rightarrow> True
      | (Some OutcomeUnknown, ReconciledReleased, ReconciliationPersisted) \<Rightarrow> True
      | _ \<Rightarrow> False)"

definition trace_entry_valid ::
  "(bytes \<Rightarrow> bytes) \<Rightarrow> lifecycle_record \<Rightarrow> nat \<Rightarrow> bytes option \<Rightarrow> lifecycle_state option
   \<Rightarrow> lifecycle_event \<Rightarrow> lifecycle_receipt \<Rightarrow> bool"
where
  "trace_entry_valid sha256 r index previous_digest previous_state event receipt =
     (let expected_revision = (if int (index + 1) < 2 ^ 64 then Some (word_of_nat (index + 1)) else None)
      in \<not> (expected_revision \<noteq> Some (le_revision event)
            \<or> expected_revision \<noteq> Some (lr_revision receipt)
            \<or> le_trigger_digest event \<noteq> lr_trigger_digest receipt
            \<or> lr_previous receipt \<noteq> previous_digest
            \<or> lr_from receipt \<noteq> previous_state
            \<or> lr_required_configuration receipt \<noteq> ec_required_configuration (di_commitments (lc_input r))
            \<or> lr_executed_configuration receipt \<noteq> ec_executed_configuration (di_commitments (lc_input r))
            \<or> lr_implementation_id receipt \<noteq> di_implementation_id (lc_input r)
            \<or> \<not> valid_trace_event (lr_from receipt) (lr_to receipt) (le_kind event)
            \<or> lr_receipt_digest receipt \<noteq> compute_receipt_digest sha256 r (lr_revision receipt)
                 (lr_previous receipt) (lr_from receipt) (lr_to receipt) (lr_trigger_digest receipt)
                 (lr_domain_receipt_digest receipt) (lr_verifier_time receipt)
                 (lr_required_configuration receipt) (lr_executed_configuration receipt)))"

fun trace_valid ::
  "(bytes \<Rightarrow> bytes) \<Rightarrow> lifecycle_record \<Rightarrow> nat \<Rightarrow> bytes option \<Rightarrow> lifecycle_state option
   \<Rightarrow> (lifecycle_event \<times> lifecycle_receipt) list \<Rightarrow> bool"
where
  "trace_valid sha256 r index previous_digest previous_state [] = True"
| "trace_valid sha256 r index previous_digest previous_state ((event, receipt) # rest) =
     (if \<not> trace_entry_valid sha256 r index previous_digest previous_state event receipt then False
      else trace_valid sha256 r (index + 1) (Some (lr_receipt_digest receipt)) (Some (lr_to receipt)) rest)"

definition validate_record_integrity :: "(bytes \<Rightarrow> bytes) \<Rightarrow> lifecycle_record \<Rightarrow> bool" where
  "validate_record_integrity sha256 r =
     (let revision = unat (lc_revision r)
      in if revision = 0
            \<or> length (lc_events r) \<noteq> revision
            \<or> length (lc_receipts r) \<noteq> revision
            \<or> lc_created_at r > lc_updated_at r
            \<or> (lc_receipts r = [] \<or> lr_to (last (lc_receipts r)) \<noteq> lc_state r)
            \<or> \<not> record_shape_is_valid r
         then False
         else trace_valid sha256 r 0 None None (zip (lc_events r) (lc_receipts r))
              \<and> list_all (\<lambda>(index, attempt). unat (pa_ordinal attempt) = index + 1)
                  (zip [0..<length (lc_attempts r)] (lc_attempts r)))"

end
