(* ===== verification/Lifecycle_Invariants.thy ===== *)
theory Lifecycle_Invariants
  imports Lifecycle_Transition
begin

text \<open>
  What the lifecycle transition does to a record: the edges of the table read as commands, the
  integrity check that every stored record passes and which transitions keep it, the language of event
  traces of reachable records, and the authority an execution step needs. A sample lifecycle is
  evaluated for the witnesses.
\<close>

section \<open>What an applied transition does\<close>

definition inconclusive :: "transition_command \<Rightarrow> bool" where
  "inconclusive command \<longleftrightarrow> operation_for command = OpReconcileInconclusive"

lemma operation_for_simps [simp]:
  "operation_for (RecordDecision i) = OpRecordDecision" "operation_for Reserve = OpReserve"
  "operation_for (RecordExecutionIntent x) = OpRecordExecutionIntent"
  "operation_for AuthorizeCredential = OpAuthorizeCredential" "operation_for StartAttempt = OpStartAttempt"
  "operation_for MarkProviderCallEntered = OpMarkProviderCallEntered"
  "operation_for (Commit a b) = OpCommit" "operation_for (Release a b c) = OpRelease"
  "operation_for (MarkOutcomeUnknown a) = OpMarkOutcomeUnknown"
  by (simp_all add: operation_for_def)

lemma operation_for_Reconcile:
  "operation_for command = OpReconcileEffect \<longleftrightarrow> (\<exists>v d. command = Reconcile v d \<and> ro_conclusion v = Effect)"
  "operation_for command = OpReconcileNonEffect \<longleftrightarrow> (\<exists>v d. command = Reconcile v d \<and> ro_conclusion v = NonEffect)"
  "operation_for command = OpReconcileInconclusive \<longleftrightarrow>
     (\<exists>v d. command = Reconcile v d \<and> (ro_conclusion v = Unknown \<or> ro_conclusion v = Inconclusive))"
  by (auto simp: operation_for_def split: transition_command.splits effect_conclusion.splits)

lemma operation_for_inverse:
  "operation_for command = OpRecordDecision \<longleftrightarrow> (\<exists>i. command = RecordDecision i)"
  "operation_for command = OpReserve \<longleftrightarrow> command = Reserve"
  "operation_for command = OpRecordExecutionIntent \<longleftrightarrow> (\<exists>x. command = RecordExecutionIntent x)"
  "operation_for command = OpAuthorizeCredential \<longleftrightarrow> command = AuthorizeCredential"
  "operation_for command = OpStartAttempt \<longleftrightarrow> command = StartAttempt"
  "operation_for command = OpMarkProviderCallEntered \<longleftrightarrow> command = MarkProviderCallEntered"
  "operation_for command = OpCommit \<longleftrightarrow> (\<exists>a b. command = Commit a b)"
  "operation_for command = OpRelease \<longleftrightarrow> (\<exists>a b c. command = Release a b c)"
  "operation_for command = OpMarkOutcomeUnknown \<longleftrightarrow> (\<exists>a. command = MarkOutcomeUnknown a)"
  by (auto simp: operation_for_def split: transition_command.splits effect_conclusion.splits)

text \<open>One applied step of an existing record, its edge in the table and its two writes.\<close>

lemma apply_transition_step:
  assumes "apply_transition sha256 (Some r) command context = Ok res" and "\<forall>i. command \<noteq> RecordDecision i"
  obtains to applied where
    "transition_code (Some (lc_state r)) (operation_for command) (gates_for r command context) = Applied to
     \<or> transition_code (Some (lc_state r)) (operation_for command) (gates_for r command context) = ObservationOnly
       \<and> to = lc_state r"
    and "apply_payload r command to (tc_verifier_time context) = Ok applied"
    and "append_transition sha256 applied (Some (lc_state r)) to (trigger_digest command r)
           (domain_receipt_of command) context = Ok (tr_record res)"
    and "tr_disposition res = DispositionApplied"
proof -
  have branch: "(case code of Applied n \<Rightarrow> f n | ObservationOnly \<Rightarrow> f s | other \<Rightarrow> Err (g other)) = Ok res
     \<Longrightarrow> \<exists>to. (code = Applied to \<or> code = ObservationOnly \<and> to = s) \<and> f to = Ok res" for code f s g
    by (cases code) auto
  let ?code = "transition_code (Some (lc_state r)) (operation_for command) (gates_for r command context)"
  let ?work = "(inspected_work (Some r) context)\<lparr> lw_transition_predicates := 15 \<rparr>"
  have "(case ?code of
           Applied n \<Rightarrow> transition_existing sha256 r command context ?work n
         | ObservationOnly \<Rightarrow> transition_existing sha256 r command context ?work (lc_state r)
         | other \<Rightarrow> Err (map_kernel_failure other, ?work)) = Ok res"
    using assms by (cases command) (auto simp: apply_transition_def Let_def split: if_splits)
  from branch [OF this] obtain to where
    "?code = Applied to \<or> ?code = ObservationOnly \<and> to = lc_state r"
    and "transition_existing sha256 r command context ?work to = Ok res" by blast
  then show ?thesis
    by (auto simp: transition_existing_def and_then_Inr_iff intro!: that)
qed


lemma append_transition_ok:
  assumes "append_transition sha256 r from to trigger receipt context = Ok r'"
  shows "lc_input r' = lc_input r \<and> lc_state r' = lc_state r \<and> lc_created_at r' = lc_created_at r
    \<and> lc_updated_at r' = tc_verifier_time context \<and> unat (lc_revision r') = unat (lc_revision r) + 1
    \<and> lc_reservation_entries r' = lc_reservation_entries r \<and> lc_execution_intent r' = lc_execution_intent r
    \<and> lc_credential_authorized r' = lc_credential_authorized r \<and> lc_attempts r' = lc_attempts r
    \<and> lc_observations r' = lc_observations r \<and> lc_terminal_result r' = lc_terminal_result r
    \<and> lc_events r' = lc_events r @ [\<lparr> le_kind = event_kind_for from to, le_revision = lc_revision r',
         le_verifier_time = tc_verifier_time context, le_trigger_digest = trigger \<rparr>]
    \<and> lc_receipts r' = lc_receipts r
        @ [make_receipt sha256 r (lc_revision r') from to trigger receipt (tc_verifier_time context)]"
  using assms by (auto simp: append_transition_def and_then_Inr_iff checked_add_Some_iff)

lemma append_transition_shape:
  assumes "append_transition sha256 r from to trigger receipt context = Ok r'"
  shows "record_shape_is_valid r' \<longleftrightarrow> record_shape_is_valid r"
  using append_transition_ok [OF assms]
  by (cases "lc_state r") (simp_all add: record_shape_is_valid_def reservations_are_live_def Let_def)

lemma apply_payload_keeps:
  assumes "apply_payload r command to now = Ok r'"
  shows "lc_input r' = lc_input r \<and> lc_state r' = to \<and> lc_revision r' = lc_revision r
    \<and> lc_created_at r' = lc_created_at r \<and> lc_events r' = lc_events r \<and> lc_receipts r' = lc_receipts r"
  using assms
  by (cases command) (auto simp: apply_payload_def and_then_Inr_iff split: option.splits if_splits)

text \<open>The edges of the table as commands.\<close>

definition edge :: "lifecycle_record \<Rightarrow> transition_command \<Rightarrow> transition_context \<Rightarrow> lifecycle_state \<Rightarrow> bool" where
  "edge r command context to \<longleftrightarrow>
     transition_code (Some (lc_state r)) (operation_for command) (gates_for r command context) = Applied to
     \<or> transition_code (Some (lc_state r)) (operation_for command) (gates_for r command context) = ObservationOnly
       \<and> to = lc_state r"

lemma gates_for_sel:
  "configuration_matches (gates_for r command context) = input_configuration_matches (lc_input r) context"
  "not_revoked (gates_for r command context) = (\<not> rv_revoked (tc_revocation context))"
  "not_expired (gates_for r command context) = (tc_verifier_time context \<le> di_expires_at (lc_input r))"
  "capacity_available (gates_for r command context) = record_capacity_available r context"
  "credential_authorized (gates_for r command context) = lc_credential_authorized r"
  "attempt_present (gates_for r command context) = (lc_attempts r \<noteq> [] \<or> command = StartAttempt)"
  "provider_call_entered (gates_for r command context) =
     (lc_attempts r \<noteq> [] \<and> pa_call_entered (last (lc_attempts r)))"
  "cancellation_allowed (gates_for r command context) = (di_cancellation (lc_input r) = BeforeAttemptAllowed)"
  "definite_effect (gates_for r command context) = (command_conclusion command = Some Effect)"
  "definite_non_effect (gates_for r command context) = (command_conclusion command = Some NonEffect)"
  by (simp_all add: gates_for_def Let_def)

lemma edge_cases:
  assumes "edge r command context to"
  obtains
    (reserve) "lc_state r = DecisionRecorded" "command = Reserve" "to = Reserved" "record_capacity_available r context"
  | (intent) x where "lc_state r = Reserved" "command = RecordExecutionIntent x" "to = ExecutionIntentRecorded"
  | (credential) "lc_state r = ExecutionIntentRecorded" "command = AuthorizeCredential"
      "to = ExecutionIntentRecorded" "\<not> lc_credential_authorized r"
  | (start) "lc_state r = ExecutionIntentRecorded" "command = StartAttempt" "to = Executing"
      "lc_credential_authorized r"
  | (entered) "lc_state r = Executing" "command = MarkProviderCallEntered" "to = Executing"
      "\<not> (lc_attempts r \<noteq> [] \<and> pa_call_entered (last (lc_attempts r)))"
  | (commit) d e where "lc_state r = Executing" "command = Commit d e" "to = Committed"
      "lc_attempts r \<noteq> []" "pa_call_entered (last (lc_attempts r))"
  | (release_reserved) d e v where "lc_state r = Reserved" "command = Release d e v" "to = Released"
      "lc_attempts r = []" "di_cancellation (lc_input r) = BeforeAttemptAllowed \<or> v = NonEffect"
  | (release_intent) d e v where "lc_state r = ExecutionIntentRecorded" "command = Release d e v" "to = Released"
      "lc_attempts r = []"
  | (release_executing) d e where "lc_state r = Executing" "command = Release d e NonEffect" "to = Released"
  | (unknown) d where "lc_state r = Executing" "command = MarkOutcomeUnknown d" "to = OutcomeUnknown"
  | (effect) v d where "lc_state r = OutcomeUnknown" "command = Reconcile v d" "ro_conclusion v = Effect"
      "to = ReconciledCommitted"
  | (non_effect) v d where "lc_state r = OutcomeUnknown" "command = Reconcile v d" "ro_conclusion v = NonEffect"
      "to = ReconciledReleased"
  | (observed) v d where "lc_state r = OutcomeUnknown" "command = Reconcile v d"
      "ro_conclusion v = Unknown \<or> ro_conclusion v = Inconclusive" "to = OutcomeUnknown"
  using assms unfolding edge_def transition_code_Applied transition_code_ObservationOnly
  by (elim disjE conjE)
     (auto simp: operation_for_inverse operation_for_Reconcile gates_for_sel command_conclusion_def)

lemma next_ordinal_Some: "next_ordinal n = Some k \<Longrightarrow> unat k = n + 1"
  by (auto simp: next_ordinal_def attempt_ordinal_new_def unat_of_nat simp del: of_nat_add of_nat_Suc split: if_splits)

lemmas mark_defs = mark_committed_def mark_released_def entry_reserved_def

lemma payload_shape:
  assumes shape: "record_shape_is_valid r" and edge: "edge r command context to"
    and payload: "apply_payload r command to now = Ok r'"
  shows "record_shape_is_valid r'"
  using edge
proof (cases rule: edge_cases)
  case start
  then show ?thesis
    using shape payload
    by (auto simp: apply_payload_def and_then_Inr_iff record_shape_is_valid_def reservations_are_live_def Let_def
        split: option.splits)
qed (use shape payload in
    \<open>auto simp: apply_payload_def record_shape_is_valid_def reservations_are_live_def Let_def mark_defs
        list.pred_map comp_def list_all_iff\<close>)

lemma numbered_iff:
  "list_all (\<lambda>(i, a). unat (pa_ordinal a) = i + 1) (zip [0..<length xs] xs) \<longleftrightarrow>
     map (\<lambda>a. unat (pa_ordinal a)) xs = map Suc [0..<length xs]"
  by (induction xs rule: rev_induct) auto

lemma attempts_numbered:
  assumes edge: "edge r command context to" and payload: "apply_payload r command to now = Ok r'"
    and numbered: "map (\<lambda>a. unat (pa_ordinal a)) (lc_attempts r) = map Suc [0..<length (lc_attempts r)]"
  shows "map (\<lambda>a. unat (pa_ordinal a)) (lc_attempts r') = map Suc [0..<length (lc_attempts r')]"
  using edge
proof (cases rule: edge_cases)
  case start
  then show ?thesis
    using payload numbered
    by (auto simp: apply_payload_def and_then_Inr_iff split: option.splits dest: next_ordinal_Some)
next
  case entered
  then have r': "lc_attempts r' = butlast (lc_attempts r) @ [(last (lc_attempts r))\<lparr> pa_call_entered := True \<rparr>]"
    and ne: "lc_attempts r \<noteq> []"
    using payload by (auto simp: apply_payload_def and_then_Inr_iff split: if_splits)
  have "map (\<lambda>a. unat (pa_ordinal a)) (lc_attempts r')
      = map (\<lambda>a. unat (pa_ordinal a)) (butlast (lc_attempts r) @ [last (lc_attempts r)])" by (simp add: r')
  then have "map (\<lambda>a. unat (pa_ordinal a)) (lc_attempts r') = map (\<lambda>a. unat (pa_ordinal a)) (lc_attempts r)"
    unfolding append_butlast_last_id [OF ne] .
  then show ?thesis using numbered ne by (simp add: r')
qed (use payload numbered in \<open>auto simp: apply_payload_def and_then_Inr_iff\<close>)

lemma valid_edge_event:
  assumes "edge r command context to"
  shows "valid_trace_event (Some (lc_state r)) to (event_kind_for (Some (lc_state r)) to) \<longleftrightarrow> \<not> inconclusive command"
  using assms
  by (cases rule: edge_cases) (auto simp: valid_trace_event_def event_kind_for_def inconclusive_def operation_for_Reconcile)

section \<open>The trace of a record\<close>

lemma trace_valid_Cons [simp]:
  "trace_valid sha256 r i d st ((event, receipt) # rest) \<longleftrightarrow>
     trace_entry_valid sha256 r i d st event receipt
     \<and> trace_valid sha256 r (Suc i) (Some (lr_receipt_digest receipt)) (Some (lr_to receipt)) rest"
  by simp

declare trace_valid.simps(2) [simp del]

lemma compute_receipt_digest_input:
  "lc_input r = lc_input r' \<Longrightarrow> compute_receipt_digest sha256 r = compute_receipt_digest sha256 r'"
  by (intro ext) (simp add: compute_receipt_digest_def)

lemma trace_valid_input:
  "lc_input r = lc_input r' \<Longrightarrow> trace_valid sha256 r i d st xs = trace_valid sha256 r' i d st xs"
proof (induction xs arbitrary: i d st)
  case (Cons x xs)
  then show ?case
    by (cases x) (simp add: trace_entry_valid_def compute_receipt_digest_input [OF Cons.prems])
qed simp

lemma trace_valid_snoc:
  "trace_valid sha256 r i d st (xs @ [(event, receipt)]) \<longleftrightarrow>
     trace_valid sha256 r i d st xs
     \<and> trace_entry_valid sha256 r (i + length xs)
         (if xs = [] then d else Some (lr_receipt_digest (snd (last xs))))
         (if xs = [] then st else Some (lr_to (snd (last xs)))) event receipt"
  by (induction xs arbitrary: i d st) auto

lemma new_entry_valid:
  assumes "unat revision = index + 1"
  shows "trace_entry_valid sha256 r index
           (if lc_receipts r = [] then None else Some (lr_receipt_digest (last (lc_receipts r)))) from
           \<lparr> le_kind = kind, le_revision = revision, le_verifier_time = now, le_trigger_digest = trigger \<rparr>
           (make_receipt sha256 r revision from to trigger receipt now)
         \<longleftrightarrow> valid_trace_event from to kind"
proof -
  have "unat revision < 2 ^ 64" using unsigned_less [of revision, where 'a = nat] by simp
  then have "int (index + 1) < 2 ^ 64" using assms by simp
  moreover have "word_of_nat (index + 1) = revision" unfolding assms [symmetric] by simp
  ultimately show ?thesis
    by (simp add: trace_entry_valid_def make_receipt_def Let_def del: of_nat_add of_nat_Suc)
qed

lemma lr_to_make_receipt: "lr_to (make_receipt sha256 r revision from to trigger receipt now) = to"
  by (simp add: make_receipt_def Let_def)

lemma integrity_iff:
  "validate_record_integrity sha256 r \<longleftrightarrow>
     lc_receipts r \<noteq> [] \<and> length (lc_events r) = unat (lc_revision r)
     \<and> length (lc_receipts r) = unat (lc_revision r)
     \<and> lc_created_at r \<le> lc_updated_at r \<and> lr_to (last (lc_receipts r)) = lc_state r
     \<and> record_shape_is_valid r
     \<and> trace_valid sha256 r 0 None None (zip (lc_events r) (lc_receipts r))
     \<and> map (\<lambda>a. unat (pa_ordinal a)) (lc_attempts r) = map Suc [0..<length (lc_attempts r)]"
  unfolding validate_record_integrity_def Let_def numbered_iff by (auto simp: not_less)

text \<open>C16: An applied transition keeps a valid record valid for the
  integrity check that every encode and decode runs, except in two cases: the trusted time went back
  before the record's creation, or the command records an inconclusive reconciliation, whose event
  kind the check refuses.\<close>

theorem integrity_is_kept_exactly_when:
  assumes valid: "validate_record_integrity sha256 r"
    and applied: "apply_transition sha256 (Some r) command context = Ok res"
    and command: "\<forall>input. command \<noteq> RecordDecision input"
  shows "validate_record_integrity sha256 (tr_record res) \<longleftrightarrow>
           lc_created_at r \<le> tc_verifier_time context \<and> \<not> inconclusive command"
proof -
  obtain to p where edge: "edge r command context to"
    and payload: "apply_payload r command to (tc_verifier_time context) = Ok p"
    and append: "append_transition sha256 p (Some (lc_state r)) to (trigger_digest command r)
           (domain_receipt_of command) context = Ok (tr_record res)"
    using apply_transition_step [OF applied command] unfolding edge_def by metis
  note kept = apply_payload_keeps [OF payload] and new = append_transition_ok [OF append]
  note old = valid [unfolded integrity_iff]
  let ?r = "tr_record res"
  have shape: "record_shape_is_valid ?r"
    using payload_shape [OF _ edge payload] old append_transition_shape [OF append] by simp
  have numbered: "map (\<lambda>a. unat (pa_ordinal a)) (lc_attempts ?r) = map Suc [0..<length (lc_attempts ?r)]"
    using attempts_numbered [OF edge payload] old new by simp
  have len: "length (lc_events p) = unat (lc_revision p)" "length (lc_receipts p) = unat (lc_revision p)"
    "lc_receipts p \<noteq> []" using old kept by simp_all
  let ?event = "\<lparr> le_kind = event_kind_for (Some (lc_state r)) to, le_revision = lc_revision ?r,
       le_verifier_time = tc_verifier_time context, le_trigger_digest = trigger_digest command r \<rparr>"
  let ?receipt = "make_receipt sha256 p (lc_revision ?r) (Some (lc_state r)) to (trigger_digest command r)
       (domain_receipt_of command) (tc_verifier_time context)"
  let ?trace = "zip (lc_events p) (lc_receipts p)"
  have trace: "?trace \<noteq> []" "snd (last ?trace) = last (lc_receipts p)" "length ?trace = unat (lc_revision p)"
  proof -
    have "lc_events p \<noteq> []" using len by (metis length_0_conv)
    then show "?trace \<noteq> []" and "snd (last ?trace) = last (lc_receipts p)" and "length ?trace = unat (lc_revision p)"
      using len by (auto simp: last_zip)
  qed
  have "trace_valid sha256 ?r 0 None None (zip (lc_events ?r) (lc_receipts ?r)) \<longleftrightarrow>
        trace_valid sha256 p 0 None None (?trace @ [(?event, ?receipt)])"
    using new len by (simp add: trace_valid_input [of p ?r])
  also have "\<dots> \<longleftrightarrow> trace_entry_valid sha256 p (unat (lc_revision p)) (Some (lr_receipt_digest (last (lc_receipts p))))
       (Some (lc_state r)) ?event ?receipt"
    using old kept trace by (simp add: trace_valid_snoc trace_valid_input [of p r])
  also have "\<dots> \<longleftrightarrow> \<not> inconclusive command"
    using new_entry_valid [of "lc_revision ?r" "unat (lc_revision p)" sha256 p] new len(3) valid_edge_event [OF edge]
    by simp
  finally have "trace_valid sha256 ?r 0 None None (zip (lc_events ?r) (lc_receipts ?r)) \<longleftrightarrow> \<not> inconclusive command" .
  moreover note lr_to_make_receipt
  ultimately show ?thesis
    using new len kept shape numbered by (auto simp: integrity_iff)
qed

section \<open>Reachable records\<close>

inductive lifecycle_reachable :: "(bytes \<Rightarrow> bytes) \<Rightarrow> lifecycle_record \<Rightarrow> bool" for sha256 where
  decided: "apply_transition sha256 None (RecordDecision input) context = Ok res
     \<Longrightarrow> lifecycle_reachable sha256 (tr_record res)"
| advanced: "lifecycle_reachable sha256 r \<Longrightarrow> apply_transition sha256 (Some r) command context = Ok res
     \<Longrightarrow> lifecycle_reachable sha256 (tr_record res)"

definition record_kinds :: "lifecycle_record \<Rightarrow> lifecycle_event_kind list" where
  "record_kinds r = map le_kind (lc_events r)"

definition to_intent :: "lifecycle_event_kind list" where
  "to_intent = [DecisionPersisted, ReservationPersisted, ExecutionIntentPersisted]"

definition to_attempt :: "lifecycle_event_kind list" where
  "to_attempt = to_intent @ [CredentialAuthorized, AttemptPersisted]"

definition attempt_trace :: "bool \<Rightarrow> lifecycle_event_kind list" where
  "attempt_trace entered = to_attempt @ (if entered then [ProviderCallEntered] else [])"

text \<open>The whole language of event traces, by the state they end in.\<close>

definition lifecycle_trace :: "lifecycle_state \<Rightarrow> lifecycle_event_kind list \<Rightarrow> bool" where
  "lifecycle_trace state kinds \<longleftrightarrow> (case state of
     DecisionRecorded \<Rightarrow> kinds = [DecisionPersisted]
   | Reserved \<Rightarrow> kinds = [DecisionPersisted, ReservationPersisted]
   | ExecutionIntentRecorded \<Rightarrow> kinds = to_intent \<or> kinds = to_intent @ [CredentialAuthorized]
   | Executing \<Rightarrow> (\<exists>entered. kinds = attempt_trace entered)
   | Committed \<Rightarrow> kinds = attempt_trace True @ [ProviderResultPersisted]
   | Released \<Rightarrow> (\<exists>before. kinds = before @ [ProviderResultPersisted]
       \<and> (before \<in> {[DecisionPersisted, ReservationPersisted], to_intent, to_intent @ [CredentialAuthorized]}
          \<or> (\<exists>entered. before = attempt_trace entered)))
   | OutcomeUnknown \<Rightarrow> (\<exists>entered n. n \<le> MAX_RECONCILIATION_OBSERVATIONS
       \<and> kinds = attempt_trace entered @ OutcomeUnknownPersisted # replicate n OutcomeUnknownPersisted)
   | ReconciledCommitted \<Rightarrow> (\<exists>entered n. n < MAX_RECONCILIATION_OBSERVATIONS
       \<and> kinds = attempt_trace entered @ OutcomeUnknownPersisted # replicate n OutcomeUnknownPersisted
           @ [ReconciliationPersisted])
   | ReconciledReleased \<Rightarrow> (\<exists>entered n. n < MAX_RECONCILIATION_OBSERVATIONS
       \<and> kinds = attempt_trace entered @ OutcomeUnknownPersisted # replicate n OutcomeUnknownPersisted
           @ [ReconciliationPersisted]))"

definition reachable_inv :: "lifecycle_record \<Rightarrow> bool" where
  "reachable_inv r \<longleftrightarrow> record_shape_is_valid r \<and> (case lc_state r of
     DecisionRecorded \<Rightarrow> record_kinds r = [DecisionPersisted] \<and> lc_attempts r = [] \<and> lc_observations r = []
   | Reserved \<Rightarrow> record_kinds r = [DecisionPersisted, ReservationPersisted] \<and> lc_attempts r = [] \<and> lc_observations r = []
   | ExecutionIntentRecorded \<Rightarrow>
       record_kinds r = to_intent @ (if lc_credential_authorized r then [CredentialAuthorized] else [])
       \<and> lc_attempts r = [] \<and> lc_observations r = []
   | Executing \<Rightarrow> length (lc_attempts r) = 1 \<and> lc_observations r = []
       \<and> record_kinds r = attempt_trace (pa_call_entered (last (lc_attempts r)))
   | OutcomeUnknown \<Rightarrow> length (lc_attempts r) = 1
       \<and> length (lc_observations r) \<le> MAX_RECONCILIATION_OBSERVATIONS
       \<and> (\<exists>entered. record_kinds r = attempt_trace entered
            @ OutcomeUnknownPersisted # replicate (length (lc_observations r)) OutcomeUnknownPersisted)
   | state \<Rightarrow> length (lc_attempts r) \<le> 1 \<and> lifecycle_trace state (record_kinds r))"

lemma reachable_inv_trace: "reachable_inv r \<Longrightarrow> lifecycle_trace (lc_state r) (record_kinds r) \<and> length (lc_attempts r) \<le> 1"
  by (cases "lc_state r") (auto simp: reachable_inv_def lifecycle_trace_def)

lemma lifecycle_trace_Released:
  "lifecycle_trace Released ([DecisionPersisted, ReservationPersisted] @ [ProviderResultPersisted])"
  "lifecycle_trace Released ((to_intent @ (if authorized then [CredentialAuthorized] else [])) @ [ProviderResultPersisted])"
  "lifecycle_trace Released (attempt_trace entered @ [ProviderResultPersisted])"
  by (auto simp: lifecycle_trace_def)

lemma reconcile_room:
  assumes "apply_transition sha256 (Some r) (Reconcile v d) context = Ok res"
  shows "length (lc_observations r) < MAX_RECONCILIATION_OBSERVATIONS"
  using assms by (auto simp: apply_transition_def Let_def can_append_observation_def split: if_splits)

lemma exact_replay:
  assumes "apply_transition sha256 (Some r) (RecordDecision input) context = Ok res"
  shows "tr_record res = r \<and> tr_disposition res = DispositionExactReplay \<and> lc_input r = input"
  using assms by (auto simp: apply_transition_def record_decision_def replay_code_def Let_def split: if_splits)

lemma reachable_inv_step:
  assumes inv: "reachable_inv r" and applied: "apply_transition sha256 (Some r) command context = Ok res"
  shows "reachable_inv (tr_record res)"
proof (cases "\<exists>input. command = RecordDecision input")
  case True
  then show ?thesis using exact_replay applied inv by metis
next
  case False
  then obtain to p where edge: "edge r command context to"
    and payload: "apply_payload r command to (tc_verifier_time context) = Ok p"
    and append: "append_transition sha256 p (Some (lc_state r)) to (trigger_digest command r)
           (domain_receipt_of command) context = Ok (tr_record res)"
    using apply_transition_step [OF applied] unfolding edge_def by metis
  note kept = apply_payload_keeps [OF payload] and new = append_transition_ok [OF append]
  have shape: "record_shape_is_valid (tr_record res)"
    using payload_shape [OF _ edge payload] inv append_transition_shape [OF append] by (simp add: reachable_inv_def)
  have kinds: "record_kinds (tr_record res) = record_kinds r @ [event_kind_for (Some (lc_state r)) to]"
    using kept new by (simp add: record_kinds_def)
  note same = new kept kinds shape
  show ?thesis
    using edge
  proof (cases rule: edge_cases)
    case start
    then show ?thesis
      using inv payload same
      by (auto simp: reachable_inv_def apply_payload_def and_then_Inr_iff event_kind_for_def attempt_trace_def to_attempt_def
          split: option.splits)
  next
    case entered
    then obtain a where a: "lc_attempts r = [a]" "\<not> pa_call_entered a"
      using inv by (auto simp: reachable_inv_def length_Suc_conv)
    then have "lc_attempts p = [a\<lparr> pa_call_entered := True \<rparr>]" "lc_observations p = lc_observations r"
      using payload entered by (auto simp: apply_payload_def)
    then show ?thesis
      using inv same entered a by (auto simp: reachable_inv_def event_kind_for_def attempt_trace_def)
  next
    case (effect v d)
    then show ?thesis
      using inv payload same reconcile_room [OF applied [unfolded effect(2)]]
      by (auto simp: reachable_inv_def apply_payload_def event_kind_for_def lifecycle_trace_def)
  next
    case (non_effect v d)
    then show ?thesis
      using inv payload same reconcile_room [OF applied [unfolded non_effect(2)]]
      by (auto simp: reachable_inv_def apply_payload_def event_kind_for_def lifecycle_trace_def)
  next
    case (observed v d)
    then show ?thesis
      using inv payload same reconcile_room [OF applied [unfolded observed(2)]]
      by (auto simp: reachable_inv_def apply_payload_def event_kind_for_def replicate_append_same)
  next
    case (commit d e)
    then show ?thesis
      using inv payload same
      by (simp add: reachable_inv_def apply_payload_def event_kind_for_def lifecycle_trace_def) auto
  next
    case (release_reserved d e v)
    then show ?thesis
      using inv payload same lifecycle_trace_Released(1)
      by (simp add: reachable_inv_def apply_payload_def event_kind_for_def) auto
  next
    case (release_intent d e v)
    then show ?thesis
      using inv payload same lifecycle_trace_Released(2) [of "lc_credential_authorized r"]
      by (simp add: reachable_inv_def apply_payload_def event_kind_for_def) auto
  next
    case (release_executing d e)
    then show ?thesis
      using inv payload same lifecycle_trace_Released(3) [of "pa_call_entered (last (lc_attempts r))"]
      by (simp add: reachable_inv_def apply_payload_def event_kind_for_def) auto
  next
    case (intent x)
    then have "\<not> lc_credential_authorized r"
      using inv by (simp add: reachable_inv_def record_shape_is_valid_def Let_def)
    with intent show ?thesis
      using inv payload same by (simp add: reachable_inv_def apply_payload_def event_kind_for_def to_intent_def) auto
  next
    case credential
    then show ?thesis
      using inv payload same by (simp add: reachable_inv_def apply_payload_def event_kind_for_def) auto
  next
    case (unknown d)
    then show ?thesis
      using inv payload same by (simp add: reachable_inv_def apply_payload_def event_kind_for_def) auto
  next
    case reserve
    then show ?thesis
      using inv payload same by (simp add: reachable_inv_def apply_payload_def event_kind_for_def) auto
  qed
qed

lemma decided_record:
  assumes "apply_transition sha256 None (RecordDecision input) context = Ok res"
  shows "reachable_inv (tr_record res) \<and> lc_input (tr_record res) = input
    \<and> lc_state (tr_record res) = DecisionRecorded \<and> lc_reservation_entries (tr_record res) = []
    \<and> validate_record_integrity sha256 (tr_record res)
    \<and> di_core_authorized input \<and> decision_bindings_complete input
    \<and> input_configuration_matches input context \<and> \<not> rv_revoked (tc_revocation context)
    \<and> tc_verifier_time context \<le> di_expires_at input"
proof -
  let ?r = "\<lparr> lc_input = input, lc_state = DecisionRecorded, lc_revision = 0,
       lc_created_at = tc_verifier_time context, lc_updated_at = tc_verifier_time context,
       lc_reservation_entries = [], lc_execution_intent = None, lc_credential_authorized = False,
       lc_attempts = [], lc_observations = [], lc_terminal_result = None, lc_events = [], lc_receipts = [] \<rparr>"
  have append: "append_transition sha256 ?r None DecisionRecorded (di_decision_receipt_digest input)
       (Some (di_domain_decision_receipt_digest input)) context = Ok (tr_record res)"
    and gates: "di_core_authorized input \<and> decision_bindings_complete input
      \<and> input_configuration_matches input context \<and> \<not> rv_revoked (tc_revocation context)
      \<and> tc_verifier_time context \<le> di_expires_at input"
    using assms
    by (auto simp: apply_transition_def record_decision_def Let_def and_then_Inr_iff transition_code_Applied
        split: if_splits)
  note new = append_transition_ok [OF append]
  have shape: "record_shape_is_valid (tr_record res)"
    using append_transition_shape [OF append] by (simp add: record_shape_is_valid_def)
  have "trace_entry_valid sha256 ?r 0 None None
      \<lparr> le_kind = DecisionPersisted, le_revision = lc_revision (tr_record res),
        le_verifier_time = tc_verifier_time context, le_trigger_digest = di_decision_receipt_digest input \<rparr>
      (make_receipt sha256 ?r (lc_revision (tr_record res)) None DecisionRecorded (di_decision_receipt_digest input)
         (Some (di_domain_decision_receipt_digest input)) (tc_verifier_time context))"
    using new_entry_valid [of "lc_revision (tr_record res)" 0 sha256 ?r] new by (simp add: valid_trace_event_def)
  then have "trace_valid sha256 ?r 0 None None (zip (lc_events (tr_record res)) (lc_receipts (tr_record res)))"
    using new by (simp add: event_kind_for_def)
  moreover have "lc_input (tr_record res) = lc_input ?r" using new by simp
  ultimately have "trace_valid sha256 (tr_record res) 0 None None (zip (lc_events (tr_record res)) (lc_receipts (tr_record res)))"
    using trace_valid_input by blast
  then have "validate_record_integrity sha256 (tr_record res)"
    using new shape by (simp add: integrity_iff lr_to_make_receipt)
  then show ?thesis
    using new shape gates by (simp add: reachable_inv_def record_kinds_def event_kind_for_def)
qed

text \<open>C7: Every record the transition can produce, from any sequence of
  commands and contexts, has an event trace of one closed language: decision, reservation, intent,
  credential, one attempt and at most one call entry come in this order and once each, a commit has
  all of them, an unknown outcome is left only by reconciliation, and a record never makes a second
  provider attempt.\<close>

theorem lifecycles_follow_one_order:
  assumes "lifecycle_reachable sha256 r"
  shows "lifecycle_trace (lc_state r) (record_kinds r) \<and> length (lc_attempts r) \<le> 1"
proof -
  have "reachable_inv r"
    using assms by (induction rule: lifecycle_reachable.induct) (auto dest: decided_record reachable_inv_step)
  then show ?thesis by (rule reachable_inv_trace)
qed



text \<open>C17: A reservation, an execution intent, a credential
  authorization or a provider attempt is recorded only under the configuration the decision required
  and executed, by unrevoked authority, at or before its expiry; the attempt also consumes a credential
  authorization, and a commit follows a recorded call entry.\<close>

theorem pre_execution_needs_current_authority:
  assumes applied: "apply_transition sha256 (Some r) command context = Ok res"
    and command: "operation_for command \<in> {OpReserve, OpRecordExecutionIntent, OpAuthorizeCredential, OpStartAttempt}"
  shows "input_configuration_matches (lc_input r) context \<and> \<not> rv_revoked (tc_revocation context)
     \<and> tc_verifier_time context \<le> di_expires_at (lc_input r)
     \<and> (command = Reserve \<longrightarrow> record_capacity_available r context)
     \<and> (command = StartAttempt \<longrightarrow> lc_credential_authorized r \<and> \<not> lc_credential_authorized (tr_record res))"
proof -
  have "\<forall>input. command \<noteq> RecordDecision input" using command by auto
  then obtain to p where edge: "edge r command context to"
    and payload: "apply_payload r command to (tc_verifier_time context) = Ok p"
    and append: "append_transition sha256 p (Some (lc_state r)) to (trigger_digest command r)
           (domain_receipt_of command) context = Ok (tr_record res)"
    using apply_transition_step [OF applied] unfolding edge_def by metis
  have "input_configuration_matches (lc_input r) context \<and> \<not> rv_revoked (tc_revocation context)
     \<and> tc_verifier_time context \<le> di_expires_at (lc_input r)
     \<and> (command = Reserve \<longrightarrow> record_capacity_available r context)
     \<and> (command = StartAttempt \<longrightarrow> lc_credential_authorized r)"
    using edge command unfolding edge_def transition_code_Applied transition_code_ObservationOnly
    by (auto simp: gates_for_sel)
  moreover have "command = StartAttempt \<longrightarrow> \<not> lc_credential_authorized (tr_record res)"
    using payload append_transition_ok [OF append]
    by (auto simp: apply_payload_def and_then_Inr_iff split: option.splits)
  ultimately show ?thesis by blast
qed


section \<open>A sample lifecycle\<close>

definition sample_digest :: "bytes \<Rightarrow> bytes" where
  "sample_digest preimage = [if preimage = [] then 3 else last preimage]"

definition sample_configuration :: configuration_commitment where
  "sample_configuration = \<lparr> gc_semantic_id = [1], gc_canonicalization_id = [2],
     gc_configuration_digest = [3], gc_implementation_id = None \<rparr>"

definition sample_commitments :: evaluation_commitments where
  "sample_commitments = \<lparr> ec_profile_id = [1], ec_exact_action_digest = [4],
     ec_policy_commitment = \<lparr> pc_policy_type = [5], pc_policy_version = 1, pc_canonicalization_id = [2],
        pc_policy_digest = [6], pc_evaluator_semantic_id = [7] \<rparr>,
     ec_evidence_schema_id = [8], ec_evidence_digest = [9], ec_evidence_source_id = [10],
     ec_evidence_observed_at = 100, ec_state_snapshot_schema_id = [11],
     ec_state_snapshot_digest = [12], ec_verifier_time = 100,
     ec_required_configuration = sample_configuration, ec_executed_configuration = sample_configuration \<rparr>"

definition sample_intent :: "u8 \<Rightarrow> u64 \<Rightarrow> reservation_intent" where
  "sample_intent tag amount = \<lparr> ri_schema_id = [1], ri_intent_id = [tag], ri_scope_digest = [13],
     ri_kind = KindAdditive [85] amount, ri_window_digest = None, ri_action_digest = [4],
     ri_policy_digest = [6], ri_evidence_digest = [9],
     ri_canonical_digest = [tag], ri_canonical_bytes = 64 \<rparr>"

definition sample_request :: "u8 \<Rightarrow> u64 \<Rightarrow> reservation_request" where
  "sample_request tag amount = \<lparr> rr_reservation_id = [tag], rr_algebra_id = [14], rr_intent_id = [tag],
     rr_scope_digest = [13], rr_window_digest = None, rr_mode = Additive [85] amount,
     rr_intent_digest = [tag] \<rparr>"

definition sample_input :: "(u8 \<times> u64) list \<Rightarrow> decision_input" where
  "sample_input amounts = \<lparr> di_core_authorized = True, di_core_authorization_digest = [15],
     di_workflow_id = [1], di_lifecycle_id = [2], di_execution_id = [3],
     di_recovery_reference_digest = [16], di_domain_id = [4], di_executor_audience = [5],
     di_reservation_algebra_id = [14], di_commitments = sample_commitments,
     di_outputs = \<lparr> bo_reservation_intents = map (\<lambda>(tag, amount). sample_intent tag amount) amounts,
       bo_obligations = [], bo_reservation_intents_commitment = [17],
       bo_obligations_commitment = [18], bo_canonical_bytes = 64 \<rparr>,
     di_reservations = \<lparr> rs_entries = map (\<lambda>(tag, amount). sample_request tag amount) amounts,
       rs_commitment = [19] \<rparr>,
     di_decision_receipt_digest = [20], di_domain_decision_receipt_digest = [21],
     di_implementation_id = [22], di_implementation_build_digest = [23],
     di_expires_at = 500, di_cancellation = BeforeAttemptAllowed \<rparr>"

definition sample_context :: "u64 \<Rightarrow> transition_context" where
  "sample_context now = \<lparr> tc_verifier_time = now, tc_executed_configuration = sample_configuration,
     tc_revocation = \<lparr> rv_revoked = False, rv_snapshot_digest = [24] \<rparr>,
     tc_capacity = [CapacityAdditive [13] None [85] 10 2 1] \<rparr>"

definition sample_step :: "lifecycle_record option \<Rightarrow> transition_command \<Rightarrow> lifecycle_record option" where
  "sample_step r command = (case apply_transition sample_digest r command (sample_context 200) of
     Inl _ \<Rightarrow> None | Inr res \<Rightarrow> Some (tr_record res))"

definition sample_commands :: "transition_command list" where
  "sample_commands =
     [RecordDecision (sample_input [(7, 4)]), Reserve,
      RecordExecutionIntent (execution_intent_new sample_digest [1] [2] [3] [4] ExactIdempotent),
      AuthorizeCredential, StartAttempt, MarkProviderCallEntered, MarkOutcomeUnknown [25]]"

definition sample_observation :: "effect_conclusion \<Rightarrow> reconciliation_observation" where
  "sample_observation conclusion = \<lparr> ro_reconciliation_id = [1], ro_source_id = [2], ro_observed_at = 190,
     ro_fresh_until = 210, ro_observation_digest = [26], ro_conclusion = conclusion,
     ro_provider_request_digest = [2] \<rparr>"


definition sample_record :: "nat \<Rightarrow> lifecycle_record" where
  "sample_record n = the (foldl sample_step None (take n sample_commands))"


lemma sample_step_Some:
  "sample_step r command = Some r' \<longleftrightarrow>
     (\<exists>res. apply_transition sample_digest r command (sample_context 200) = Ok res \<and> r' = tr_record res)"
  by (auto simp: sample_step_def split: sum.splits)

lemma sample_runs: "foldl sample_step None commands = Some r \<Longrightarrow> lifecycle_reachable sample_digest r"
proof (induction commands arbitrary: r rule: rev_induct)
  case (snoc command commands)
  show ?case
  proof (cases "foldl sample_step None commands")
    case None
    then obtain res where res: "apply_transition sample_digest None command (sample_context 200) = Ok res" "r = tr_record res"
      using snoc.prems by (auto simp: sample_step_Some)
    then obtain input where "command = RecordDecision input"
      by (cases command) (auto simp: apply_transition_def Let_def)
    then show ?thesis using res lifecycle_reachable.decided by blast
  next
    case (Some before)
    then have "lifecycle_reachable sample_digest before" by (rule snoc.IH)
    then show ?thesis
      using snoc.prems Some by (auto simp: sample_step_Some intro: lifecycle_reachable.advanced)
  qed
qed simp

lemma sample_all: "foldl sample_step None sample_commands \<noteq> None"
  by code_simp

theorem lifecycles_follow_one_order_witness:
  "lifecycle_reachable sample_digest (sample_record 7) \<and>
   lifecycle_trace (lc_state (sample_record 7)) (record_kinds (sample_record 7))"
proof -
  have "lifecycle_reachable sample_digest (sample_record 7)"
    using sample_all sample_runs [of sample_commands] by (auto simp: sample_record_def sample_commands_def)
  with lifecycles_follow_one_order [OF this] show ?thesis by blast
qed

theorem integrity_is_kept_exactly_when_witness:
  "\<exists>res. apply_transition sample_digest (Some (sample_record 7))
             (Reconcile (sample_observation Inconclusive) [27]) (sample_context 200) = Ok res
     \<and> validate_record_integrity sample_digest (sample_record 7)
     \<and> \<not> validate_record_integrity sample_digest (tr_record res)"
proof -
  let ?reconcile = "Reconcile (sample_observation Inconclusive) [27]"
  have "sample_step (Some (sample_record 7)) ?reconcile \<noteq> None" by code_simp
  then obtain res where "apply_transition sample_digest (Some (sample_record 7)) ?reconcile (sample_context 200) = Ok res"
    by (auto simp: sample_step_Some)
  moreover have "validate_record_integrity sample_digest (sample_record 7)" by code_simp
  moreover have "inconclusive ?reconcile" by code_simp
  ultimately show ?thesis using integrity_is_kept_exactly_when by blast
qed


theorem pre_execution_needs_current_authority_witness:
  "\<exists>res. apply_transition sample_digest (Some (sample_record 4)) StartAttempt (sample_context 200) = Ok res
     \<and> lc_credential_authorized (sample_record 4) \<and> \<not> lc_credential_authorized (tr_record res)"
proof -
  have "sample_step (Some (sample_record 4)) StartAttempt \<noteq> None" by code_simp
  then obtain res where "apply_transition sample_digest (Some (sample_record 4)) StartAttempt (sample_context 200) = Ok res"
    by (auto simp: sample_step_Some)
  then show ?thesis using pre_execution_needs_current_authority by fastforce
qed

end
