(* ===== verification/Lifecycle_Sealed.thy ===== *)
theory Lifecycle_Sealed
  imports Lifecycle_Invariants
begin

text \<open>
  The store port of the lifecycle and the sealed tokens derived from its acknowledgements,
  \<open>product/runtime/auths-lifecycle/src/sealed.rs\<close> (the transaction record is that of \<open>model.rs\<close>).
  The locale \<open>lifecycle_store\<close> is the contract of the \<open>LifecycleStore\<close> trait; its lemmas show what
  every store that keeps it promises to the runtime.
\<close>

section \<open>The store port\<close>

datatype store_error =
    Unavailable | PoolExhausted | Timeout | SchemaMismatch | Conflict | Rejected lifecycle_failure
  | Corrupt | LimitExceeded | InvalidAcknowledgement

record store_transaction =
  st_workflow_id :: bytes
  st_expected_revision :: "u64 option"
  st_command :: transition_command
  st_context :: transition_context

record stored_transition =
  sd_record :: lifecycle_record
  sd_disposition :: transition_disposition

record durable_transition =
  dt_record :: lifecycle_record
  dt_disposition :: transition_disposition

type_synonym 's transact = "'s \<Rightarrow> store_transaction \<Rightarrow> (stored_transition, store_error) result \<times> 's"

definition validate_acknowledgement :: "store_transaction \<Rightarrow> stored_transition \<Rightarrow> (unit, store_error) result" where
  "validate_acknowledgement transaction stored =
     (if st_workflow_id transaction \<noteq> di_workflow_id (lc_input (sd_record stored)) then Err InvalidAcknowledgement
      else if (case st_command transaction of
                 RecordDecision input \<Rightarrow> di_workflow_id input \<noteq> st_workflow_id transaction
               | _ \<Rightarrow> False)
      then Err InvalidAcknowledgement
      else and_then
        (case sd_disposition stored of
           DispositionApplied \<Rightarrow>
             and_then (ok_or (checked_add (case st_expected_revision transaction of None \<Rightarrow> 0 | Some n \<Rightarrow> n) 1)
                         InvalidAcknowledgement)
               (\<lambda>expected. if lc_revision (sd_record stored) \<noteq> expected then Err InvalidAcknowledgement else Ok ())
         | DispositionExactReplay \<Rightarrow>
             (case st_command transaction of RecordDecision _ \<Rightarrow> Ok () | _ \<Rightarrow> Err InvalidAcknowledgement))
        (\<lambda>_.
           if lc_events (sd_record stored) = [] then Err InvalidAcknowledgement
           else if le_revision (last (lc_events (sd_record stored))) \<noteq> lc_revision (sd_record stored)
                   \<or> (if lc_receipts (sd_record stored) = [] then None
                      else Some (lr_revision (last (lc_receipts (sd_record stored)))))
                     \<noteq> Some (lc_revision (sd_record stored))
           then Err InvalidAcknowledgement
           else Ok ()))"

definition execute_store_transaction ::
  "'s transact \<Rightarrow> 's \<Rightarrow> store_transaction \<Rightarrow> (durable_transition, store_error) result \<times> 's" where
  "execute_store_transaction transact store transaction =
     (case transact store transaction of
        (Inl e, store') \<Rightarrow> (Err e, store')
      | (Inr stored, store') \<Rightarrow>
          (and_then (validate_acknowledgement transaction stored) (\<lambda>_.
             Ok \<lparr> dt_record = sd_record stored, dt_disposition = sd_disposition stored \<rparr>), store'))"

section \<open>Sealed tokens\<close>

datatype credential_error = StageNotAuthorized | CredentialUnavailable

record execution_authorization =
  xa_workflow_id :: bytes
  xa_lifecycle_id :: bytes
  xa_execution_id :: bytes
  xa_revision :: u64
  xa_execution_intent_digest :: bytes
  xa_provider_contract_id :: bytes
  xa_provider_request_digest :: bytes

definition execution_authorization_from_durable ::
  "durable_transition \<Rightarrow> (execution_authorization, credential_error) result" where
  "execution_authorization_from_durable durable =
     (let r = dt_record durable
      in and_then (ok_or (lc_execution_intent r) StageNotAuthorized) (\<lambda>intent.
           if lc_events r = [] then Err StageNotAuthorized
           else if dt_disposition durable \<noteq> DispositionApplied
                \<or> lc_state r \<noteq> ExecutionIntentRecorded
                \<or> \<not> lc_credential_authorized r
                \<or> le_kind (last (lc_events r)) \<noteq> CredentialAuthorized
                \<or> le_revision (last (lc_events r)) \<noteq> lc_revision r
           then Err StageNotAuthorized
           else Ok \<lparr> xa_workflow_id = di_workflow_id (lc_input r), xa_lifecycle_id = di_lifecycle_id (lc_input r),
                     xa_execution_id = di_execution_id (lc_input r), xa_revision = lc_revision r,
                     xa_execution_intent_digest = xi_intent_digest intent,
                     xa_provider_contract_id = xi_provider_contract_id intent,
                     xa_provider_request_digest = xi_provider_request_digest intent \<rparr>))"

record provider_call_authorization =
  ca_workflow_id :: bytes
  ca_execution_id :: bytes
  ca_revision :: u64
  ca_provider_request_digest :: bytes

definition provider_call_authorization_from_durable ::
  "durable_transition \<Rightarrow> (provider_call_authorization, credential_error) result" where
  "provider_call_authorization_from_durable durable =
     (let r = dt_record durable
      in if lc_events r = [] then Err StageNotAuthorized
         else if lc_attempts r = [] then Err StageNotAuthorized
         else if dt_disposition durable \<noteq> DispositionApplied
              \<or> lc_state r \<noteq> Executing
              \<or> \<not> pa_call_entered (last (lc_attempts r))
              \<or> le_kind (last (lc_events r)) \<noteq> ProviderCallEntered
              \<or> le_revision (last (lc_events r)) \<noteq> lc_revision r
         then Err StageNotAuthorized
         else Ok \<lparr> ca_workflow_id = di_workflow_id (lc_input r), ca_execution_id = di_execution_id (lc_input r),
                   ca_revision = lc_revision r,
                   ca_provider_request_digest = pa_provider_request_digest (last (lc_attempts r)) \<rparr>)"

section \<open>Runs of a store\<close>

text \<open>The outcomes of transactions executed one after another.\<close>

fun run_store ::
  "'s transact \<Rightarrow> 's \<Rightarrow> store_transaction list
   \<Rightarrow> (store_transaction \<times> (durable_transition, store_error) result) list \<times> 's"
where
  "run_store transact store [] = ([], store)"
| "run_store transact store (transaction # transactions) =
     (case execute_store_transaction transact store transaction of
        (outcome, store') \<Rightarrow>
          (case run_store transact store' transactions of
             (outcomes, final) \<Rightarrow> ((transaction, outcome) # outcomes, final)))"

text \<open>How often a run grants a provider call, or credentials, for one workflow.\<close>

definition grants_call :: "bytes \<Rightarrow> store_transaction \<times> (durable_transition, store_error) result \<Rightarrow> bool" where
  "grants_call workflow outcome \<longleftrightarrow> (case snd outcome of Inl _ \<Rightarrow> False
     | Inr durable \<Rightarrow> (case provider_call_authorization_from_durable durable of Inl _ \<Rightarrow> False
         | Inr token \<Rightarrow> ca_workflow_id token = workflow))"

definition grants_credential :: "bytes \<Rightarrow> store_transaction \<times> (durable_transition, store_error) result \<Rightarrow> bool" where
  "grants_credential workflow outcome \<longleftrightarrow> (case snd outcome of Inl _ \<Rightarrow> False
     | Inr durable \<Rightarrow> (case execution_authorization_from_durable durable of Inl _ \<Rightarrow> False
         | Inr token \<Rightarrow> xa_workflow_id token = workflow))"

section \<open>What a record's trace allows\<close>

definition kind_count :: "lifecycle_event_kind \<Rightarrow> lifecycle_record option \<Rightarrow> nat" where
  "kind_count kind r = (case r of None \<Rightarrow> 0 | Some r \<Rightarrow> count_list (record_kinds r) kind)"

lemma count_list_replicate: "count_list (replicate n x) y = (if x = y then n else 0)"
  by (induction n) auto

lemma kind_count_once:
  assumes "reachable_inv r" and "kind = ProviderCallEntered \<or> kind = CredentialAuthorized"
  shows "count_list (record_kinds r) kind \<le> 1"
proof -
  have "lifecycle_trace (lc_state r) (record_kinds r)" using reachable_inv_trace [OF assms(1)] by blast
  with assms(2) show ?thesis
    by (cases "lc_state r")
       (auto simp: lifecycle_trace_def attempt_trace_def to_attempt_def to_intent_def count_list_replicate split: if_splits)
qed

text \<open>An applied transition appends one event and leaves the workflow alone.\<close>

lemma applied_kinds:
  assumes "apply_transition sha256 current command context = Ok res" and "tr_disposition res = DispositionApplied"
  shows "\<exists>kind. lc_events (tr_record res) \<noteq> [] \<and> le_kind (last (lc_events (tr_record res))) = kind
     \<and> record_kinds (tr_record res) = (case current of None \<Rightarrow> [] | Some r \<Rightarrow> record_kinds r) @ [kind]"
proof (cases current)
  case None
  then obtain input where "command = RecordDecision input"
    using assms(1) by (cases command) (auto simp: apply_transition_def Let_def)
  then have "reachable_inv (tr_record res) \<and> lc_state (tr_record res) = DecisionRecorded"
    using assms(1) None decided_record by blast
  then have kinds: "record_kinds (tr_record res) = [DecisionPersisted]" by (auto simp: reachable_inv_def)
  then have "lc_events (tr_record res) \<noteq> []" by (auto simp: record_kinds_def)
  moreover from this have "le_kind (last (lc_events (tr_record res))) = DecisionPersisted"
    using kinds by (metis last_map last_ConsL record_kinds_def)
  ultimately show ?thesis using kinds None by simp
next
  case (Some r)
  have "\<forall>input. command \<noteq> RecordDecision input" using exact_replay assms Some by fastforce
  then obtain to p where payload: "apply_payload r command to (tc_verifier_time context) = Ok p"
    and append: "append_transition sha256 p (Some (lc_state r)) to (trigger_digest command r)
           (domain_receipt_of command) context = Ok (tr_record res)"
    using apply_transition_step [OF assms(1) [unfolded Some]] by metis
  show ?thesis
    using apply_payload_keeps [OF payload] append_transition_ok [OF append] Some by (simp add: record_kinds_def)
qed


lemma grants_need_kind:
  assumes "grants_call workflow (transaction, Ok durable)"
  shows "dt_disposition durable = DispositionApplied \<and> di_workflow_id (lc_input (dt_record durable)) = workflow
     \<and> le_kind (last (lc_events (dt_record durable))) = ProviderCallEntered"
  using assms
  by (auto simp: grants_call_def provider_call_authorization_from_durable_def Let_def split: sum.splits if_splits)

lemma credentials_need_kind:
  assumes "grants_credential workflow (transaction, Ok durable)"
  shows "dt_disposition durable = DispositionApplied \<and> di_workflow_id (lc_input (dt_record durable)) = workflow
     \<and> le_kind (last (lc_events (dt_record durable))) = CredentialAuthorized"
  using assms
  by (auto simp: grants_credential_def execution_authorization_from_durable_def Let_def and_then_Inr_iff
      split: sum.splits if_splits)

lemma execute_Ok:
  assumes "execute_store_transaction transact store transaction = (Ok durable, store')"
  obtains stored where "transact store transaction = (Ok stored, store')"
    "dt_record durable = sd_record stored" "dt_disposition durable = sd_disposition stored"
    "st_workflow_id transaction = di_workflow_id (lc_input (sd_record stored))"
  using assms
  by (auto simp: execute_store_transaction_def validate_acknowledgement_def and_then_Inr_iff
      split: prod.splits sum.splits if_splits)

lemma execute_store: "snd (execute_store_transaction transact store transaction) = snd (transact store transaction)"
  by (simp add: execute_store_transaction_def split: prod.splits sum.splits)

section \<open>The contract of a store\<close>

text \<open>
  An acknowledged application is one transition of the record the store holds, under the expected
  revision and a capacity snapshot of the store's own; an acknowledged replay and an error change nothing.
\<close>

locale lifecycle_store =
  fixes transact :: "'s transact"
    and lookup :: "'s \<Rightarrow> bytes \<Rightarrow> lifecycle_record option"
    and good :: "'s \<Rightarrow> bool"
    and sha256 :: "bytes \<Rightarrow> bytes"
  assumes good_transact: "good s \<Longrightarrow> transact s t = (outcome, s') \<Longrightarrow> good s'"
    and refused: "good s \<Longrightarrow> transact s t = (Err e, s') \<Longrightarrow> lookup s' = lookup s"
    and replayed: "good s \<Longrightarrow> transact s t = (Ok stored, s') \<Longrightarrow> sd_disposition stored = DispositionExactReplay
      \<Longrightarrow> lookup s' = lookup s \<and> lookup s (st_workflow_id t) = Some (sd_record stored)
          \<and> st_command t = RecordDecision (lc_input (sd_record stored))"
    and applied: "good s \<Longrightarrow> transact s t = (Ok stored, s') \<Longrightarrow> sd_disposition stored = DispositionApplied
      \<Longrightarrow> lookup s' = (lookup s)(st_workflow_id t \<mapsto> sd_record stored)
          \<and> st_expected_revision t = map_option lc_revision (lookup s (st_workflow_id t))
          \<and> (\<exists>capacity result.
               apply_transition sha256 (lookup s (st_workflow_id t)) (st_command t)
                 ((st_context t)\<lparr> tc_capacity := capacity \<rparr>) = Ok result
               \<and> tr_disposition result = DispositionApplied \<and> tr_record result = sd_record stored)"
begin

definition reachable_store :: "'s \<Rightarrow> bool" where
  "reachable_store s \<longleftrightarrow> good s \<and> (\<forall>w r. lookup s w = Some r \<longrightarrow> reachable_inv r)"

lemma transact_step:
  assumes reachable: "reachable_store s" and run: "transact s t = (outcome, s')"
  shows "reachable_store s'"
    and "\<And>w kind. kind_count kind (lookup s w) \<le> kind_count kind (lookup s' w)"
    and "\<And>stored kind. outcome = Ok stored \<Longrightarrow> sd_disposition stored = DispositionApplied
       \<Longrightarrow> le_kind (last (lc_events (sd_record stored))) = kind
       \<Longrightarrow> kind_count kind (lookup s (st_workflow_id t)) < kind_count kind (lookup s' (st_workflow_id t))"
proof -
  have good: "good s" and inv: "\<And>w r. lookup s w = Some r \<Longrightarrow> reachable_inv r"
    using reachable by (auto simp: reachable_store_def)
  have good': "good s'" using good_transact [OF good run] .
  have all: "reachable_store s' \<and> (\<forall>w kind. kind_count kind (lookup s w) \<le> kind_count kind (lookup s' w))
     \<and> (\<forall>stored. outcome = Ok stored \<longrightarrow> sd_disposition stored = DispositionApplied
       \<longrightarrow> kind_count (le_kind (last (lc_events (sd_record stored)))) (lookup s (st_workflow_id t))
         < kind_count (le_kind (last (lc_events (sd_record stored)))) (lookup s' (st_workflow_id t)))"
  proof (cases outcome)
    case (Inl e)
    then show ?thesis using refused [OF good] run good' inv by (auto simp: reachable_store_def)
  next
    case (Inr stored)
    show ?thesis
    proof (cases "sd_disposition stored")
      case DispositionExactReplay
      then show ?thesis using replayed [OF good] run Inr good' inv by (auto simp: reachable_store_def)
    next
      case DispositionApplied
      then obtain capacity result where upd: "lookup s' = (lookup s)(st_workflow_id t \<mapsto> sd_record stored)"
        and step: "apply_transition sha256 (lookup s (st_workflow_id t)) (st_command t)
          ((st_context t)\<lparr> tc_capacity := capacity \<rparr>) = Ok result"
        and result: "tr_disposition result = DispositionApplied" "tr_record result = sd_record stored"
        using applied [OF good] run Inr by blast
      have "reachable_inv (sd_record stored)"
      proof (cases "lookup s (st_workflow_id t)")
        case None
        then obtain input where "st_command t = RecordDecision input"
          using step by (cases "st_command t") (auto simp: apply_transition_def Let_def)
        then show ?thesis using decided_record step None result by metis
      next
        case (Some r)
        then show ?thesis using reachable_inv_step [OF inv [OF Some]] step result by metis
      qed
      moreover have "record_kinds (sd_record stored)
          = (case lookup s (st_workflow_id t) of None \<Rightarrow> [] | Some r \<Rightarrow> record_kinds r)
            @ [le_kind (last (lc_events (sd_record stored)))]"
        using applied_kinds [OF step result(1)] result(2) by auto
      ultimately show ?thesis
        using Inr good' inv upd by (auto simp: reachable_store_def kind_count_def split: option.splits)
    qed
  qed
  show "reachable_store s'"
    and "\<And>w kind. kind_count kind (lookup s w) \<le> kind_count kind (lookup s' w)"
    and "\<And>stored kind. outcome = Ok stored \<Longrightarrow> sd_disposition stored = DispositionApplied
       \<Longrightarrow> le_kind (last (lc_events (sd_record stored))) = kind
       \<Longrightarrow> kind_count kind (lookup s (st_workflow_id t)) < kind_count kind (lookup s' (st_workflow_id t))"
    using all by blast+
qed

text \<open>A token that only an applied event of one kind grants is granted no more often than the kind occurs.\<close>

lemma grants_bounded:
  assumes needs: "\<And>t durable. grants (t, Ok durable) \<Longrightarrow> dt_disposition durable = DispositionApplied
      \<and> di_workflow_id (lc_input (dt_record durable)) = w \<and> le_kind (last (lc_events (dt_record durable))) = kind"
    and never: "\<And>t e. \<not> grants (t, Err e)"
    and "reachable_store s" and "run_store transact s ts = (outcomes, s')"
  shows "reachable_store s' \<and> length (filter grants outcomes) + kind_count kind (lookup s w) \<le> kind_count kind (lookup s' w)"
  using assms(3,4)
proof (induction ts arbitrary: s outcomes)
  case (Cons t ts)
  obtain outcome s1 where execute: "execute_store_transaction transact s t = (outcome, s1)" by fastforce
  obtain outcomes1 where rest: "run_store transact s1 ts = (outcomes1, s')" and out: "outcomes = (t, outcome) # outcomes1"
    using Cons.prems(2) execute by (auto simp: Let_def split: prod.splits)
  obtain raw where raw: "transact s t = (raw, s1)"
    using execute_store [of transact s t] execute by (metis eq_snd_iff)
  note step = transact_step [OF Cons.prems(1) raw]
  have "(if grants (t, outcome) then 1 else 0) + kind_count kind (lookup s w) \<le> kind_count kind (lookup s1 w)"
  proof (cases "grants (t, outcome)")
    case True
    then obtain durable where durable: "outcome = Ok durable" using never by (cases outcome) auto
    then obtain stored where "transact s t = (Ok stored, s1)" "dt_record durable = sd_record stored"
      "dt_disposition durable = sd_disposition stored" "st_workflow_id t = di_workflow_id (lc_input (sd_record stored))"
      using execute by (metis execute_Ok)
    then show ?thesis using step(3) [of stored kind] needs True durable raw by fastforce
  qed (use step(2) in simp)
  then show ?case using Cons.IH [OF step(1) rest] out by auto
qed simp

theorem tokens_are_granted_once:
  assumes "reachable_store s" and "run_store transact s ts = (outcomes, s')"
  shows "length (filter (grants_call w) outcomes) \<le> 1 \<and> length (filter (grants_credential w) outcomes) \<le> 1"
proof -
  have "kind_count kind (lookup s' w) \<le> 1"
    if "reachable_store s'" "kind = ProviderCallEntered \<or> kind = CredentialAuthorized" for kind
    using that kind_count_once by (auto simp: reachable_store_def kind_count_def split: option.splits)
  moreover have "reachable_store s' \<and> length (filter (grants_call w) outcomes)
      + kind_count ProviderCallEntered (lookup s w) \<le> kind_count ProviderCallEntered (lookup s' w)"
    using assms grants_need_kind by (intro grants_bounded) (auto simp: grants_call_def)
  moreover have "length (filter (grants_credential w) outcomes)
      + kind_count CredentialAuthorized (lookup s w) \<le> kind_count CredentialAuthorized (lookup s' w)"
    using assms credentials_need_kind grants_bounded [of "grants_credential w" w] by (auto simp: grants_credential_def)
  ultimately show ?thesis by fastforce
qed

end

end
