(* ===== verification/Btree_Map.thy ===== *)
theory Btree_Map
  imports Main
begin

text \<open>
  Rust's \<open>BTreeMap\<close> as the list of its entries in key order, which is the order its iterator gives
  them: lookup, insertion with replacement, and how an insertion changes a sum over the entries.
\<close>

type_synonym ('k, 'v) btree_map = "('k \<times> 'v) list"

definition btree_wf :: "('k::linorder, 'v) btree_map \<Rightarrow> bool" where
  "btree_wf m \<longleftrightarrow> sorted_wrt (<) (map fst m)"

definition btree_get :: "('k::linorder, 'v) btree_map \<Rightarrow> 'k \<Rightarrow> 'v option" where
  "btree_get m k = map_of m k"

fun btree_insert :: "'k::linorder \<Rightarrow> 'v \<Rightarrow> ('k, 'v) btree_map \<Rightarrow> ('k, 'v) btree_map" where
  "btree_insert k v [] = [(k, v)]"
| "btree_insert k v ((k', v') # m) =
     (if k < k' then (k, v) # (k', v') # m
      else if k = k' then (k, v) # m
      else (k', v') # btree_insert k v m)"

text \<open>The entries of every other key, which is what a loop that skips one key visits.\<close>

definition btree_others :: "'k::linorder \<Rightarrow> ('k, 'v) btree_map \<Rightarrow> ('k, 'v) btree_map" where
  "btree_others k m = filter (\<lambda>(k', _). k' \<noteq> k) m"

lemma btree_wf_simps [simp]:
  "btree_wf []" "btree_wf ((k, v) # m) \<longleftrightarrow> (\<forall>k' \<in> fst ` set m. k < k') \<and> btree_wf m"
  by (simp_all add: btree_wf_def)

lemma btree_get_simps [simp]:
  "btree_get [] k = None" "btree_get ((k', v) # m) k = (if k = k' then Some v else btree_get m k)"
  by (simp_all add: btree_get_def)

lemma keys_btree_insert [simp]: "fst ` set (btree_insert k v m) = insert k (fst ` set m)"
  by (induction k v m rule: btree_insert.induct) auto

lemma btree_wf_insert: "btree_wf m \<Longrightarrow> btree_wf (btree_insert k v m)"
  by (induction k v m rule: btree_insert.induct) (force simp: not_less)+

lemma btree_get_insert:
  "btree_wf m \<Longrightarrow> btree_get (btree_insert k v m) k' = (if k' = k then Some v else btree_get m k')"
  by (induction k v m rule: btree_insert.induct) auto

lemma btree_get_in_set: "btree_wf m \<Longrightarrow> btree_get m k = Some v \<longleftrightarrow> (k, v) \<in> set m"
  by (induction m) force+

lemma btree_get_None: "btree_get m k = None \<longleftrightarrow> k \<notin> fst ` set m"
  by (simp add: btree_get_def map_of_eq_None_iff)

lemma btree_others_absent: "btree_get m k = None \<Longrightarrow> btree_others k m = m"
  unfolding btree_get_None btree_others_def by (rule filter_True) force

lemma btree_others_insert: "btree_wf m \<Longrightarrow> btree_others k (btree_insert k v m) = btree_others k m"
  by (induction k v m rule: btree_insert.induct) (auto simp: btree_others_def)

lemma set_btree_others: "set (btree_others k m) = {(k', v). (k', v) \<in> set m \<and> k' \<noteq> k}"
  by (auto simp: btree_others_def)

lemma set_btree_insert: "btree_wf m \<Longrightarrow> set (btree_insert k v m) = insert (k, v) (set (btree_others k m))"
  by (induction k v m rule: btree_insert.induct) (auto simp: btree_others_def)

text \<open>A sum over the entries is one entry's part and the part of the others.\<close>

lemma sum_btree_get:
  fixes f :: "'v \<Rightarrow> nat"
  assumes "btree_wf m" and "btree_get m k = Some v"
  shows "(\<Sum>(_, v') \<leftarrow> m. f v') = f v + (\<Sum>(_, v') \<leftarrow> btree_others k m. f v')"
  using assms
proof (induction m)
  case (Cons kv m)
  obtain k' v' where kv: "kv = (k', v')" by (cases kv)
  show ?case
  proof (cases "k = k'")
    case True
    then have "btree_get m k = None" using Cons.prems kv by (force simp: btree_get_None)
    then have "btree_others k m = m" by (rule btree_others_absent)
    then show ?thesis using Cons.prems kv True by (simp add: btree_others_def)
  next
    case False
    then show ?thesis using Cons kv by (simp add: btree_others_def)
  qed
qed simp

lemma sum_btree_insert:
  fixes f :: "'v \<Rightarrow> nat"
  assumes "btree_wf m"
  shows "(\<Sum>(_, v') \<leftarrow> btree_insert k v m. f v') = f v + (\<Sum>(_, v') \<leftarrow> btree_others k m. f v')"
proof -
  have "btree_get (btree_insert k v m) k = Some v" using assms by (simp add: btree_get_insert)
  from sum_btree_get [OF btree_wf_insert [OF assms] this] show ?thesis
    by (simp add: btree_others_insert [OF assms])
qed

text \<open>Inserting the entries of a map one after another in key order appends them.\<close>

lemma btree_insert_last: "\<forall>k' \<in> fst ` set m. k' < k \<Longrightarrow> btree_insert k v m = m @ [(k, v)]"
  by (induction k v m rule: btree_insert.induct) auto

end
