(* ===== verification/Lifecycle_Store.thy ===== *)
theory Lifecycle_Store
  imports Lifecycle_Sealed Btree_Map
begin

text \<open>
  The reference lifecycle store, \<open>product/stores/auths-stores/src/lifecycle.rs\<close>: capacity rules, the
  snapshot each transaction derives from the records under the store's lock, and the transaction that
  every adapter runs. The lemmas show what the snapshot counts and that no rule is overcommitted.
\<close>

section \<open>Rules and records\<close>

datatype capacity_rule =
    RuleAdditive bytes "bytes option" bytes u64
  | RuleExclusive bytes "bytes option" bool

text \<open>A \<open>LifecycleDatabase\<close> is its \<open>BTreeMap\<close> of records.\<close>

type_synonym lifecycle_database = "(bytes, lifecycle_record) btree_map"

definition is_capacity_holding :: "lifecycle_state \<Rightarrow> bool" where
  "is_capacity_holding state = (case state of
     Reserved \<Rightarrow> True | ExecutionIntentRecorded \<Rightarrow> True | Executing \<Rightarrow> True | OutcomeUnknown \<Rightarrow> True
   | _ \<Rightarrow> False)"

section \<open>The capacity snapshot\<close>

text \<open>The inner loop of an additive rule: the sums so far and one record's reservations.\<close>

fun additive_reservations ::
  "bytes \<Rightarrow> bytes option \<Rightarrow> bytes \<Rightarrow> lifecycle_state \<Rightarrow> u64 \<times> u64 \<Rightarrow> reservation_entry list
   \<Rightarrow> (u64 \<times> u64, store_error) result"
where
  "additive_reservations scope window unit_id state acc [] = Ok acc"
| "additive_reservations scope window unit_id state (committed, active) (e # es) =
     (case (rr_scope_digest (en_request e) = scope \<and> rr_window_digest (en_request e) = window,
            rr_mode (en_request e)) of
        (True, Additive request_unit amount) \<Rightarrow>
          if request_unit \<noteq> unit_id then additive_reservations scope window unit_id state (committed, active) es
          else if en_committed e then
            and_then (ok_or (checked_add committed amount) Corrupt) (\<lambda>committed'.
              additive_reservations scope window unit_id state (committed', active) es)
          else if \<not> en_released e \<and> is_capacity_holding state then
            and_then (ok_or (checked_add active amount) Corrupt) (\<lambda>active'.
              additive_reservations scope window unit_id state (committed, active') es)
          else additive_reservations scope window unit_id state (committed, active) es
      | _ \<Rightarrow> additive_reservations scope window unit_id state (committed, active) es)"

fun additive_records ::
  "bytes \<Rightarrow> bytes option \<Rightarrow> bytes \<Rightarrow> bytes \<Rightarrow> u64 \<times> u64 \<Rightarrow> lifecycle_database
   \<Rightarrow> (u64 \<times> u64, store_error) result"
where
  "additive_records scope window unit_id current acc [] = Ok acc"
| "additive_records scope window unit_id current acc ((workflow, r) # rest) =
     (if workflow = current then additive_records scope window unit_id current acc rest
      else and_then (additive_reservations scope window unit_id (lc_state r) acc (lc_reservation_entries r))
             (\<lambda>acc'. additive_records scope window unit_id current acc' rest))"

fun exclusive_reservations ::
  "bytes \<Rightarrow> bytes option \<Rightarrow> bool \<Rightarrow> lifecycle_state \<Rightarrow> bytes option \<Rightarrow> reservation_entry list
   \<Rightarrow> (bytes option, store_error) result"
where
  "exclusive_reservations scope window retain state owner [] = Ok owner"
| "exclusive_reservations scope window retain state owner (e # es) =
     (if rr_scope_digest (en_request e) = scope
         \<and> rr_window_digest (en_request e) = window
         \<and> rr_mode (en_request e) = Exclusive
         \<and> \<not> en_released e
         \<and> (is_capacity_holding state \<or> (retain \<and> en_committed e))
      then if owner \<noteq> None then Err Corrupt
           else exclusive_reservations scope window retain state (Some (rr_reservation_id (en_request e))) es
      else exclusive_reservations scope window retain state owner es)"

fun exclusive_records ::
  "bytes \<Rightarrow> bytes option \<Rightarrow> bool \<Rightarrow> bytes \<Rightarrow> bytes option \<Rightarrow> lifecycle_database
   \<Rightarrow> (bytes option, store_error) result"
where
  "exclusive_records scope window retain current owner [] = Ok owner"
| "exclusive_records scope window retain current owner ((workflow, r) # rest) =
     (if workflow = current then exclusive_records scope window retain current owner rest
      else and_then (exclusive_reservations scope window retain (lc_state r) owner (lc_reservation_entries r))
             (\<lambda>owner'. exclusive_records scope window retain current owner' rest))"

definition rule_entry ::
  "lifecycle_database \<Rightarrow> bytes \<Rightarrow> capacity_rule \<Rightarrow> (capacity_entry, store_error) result" where
  "rule_entry database current rule =
     (case rule of
        RuleAdditive scope window unit_id ceiling \<Rightarrow>
          and_then (additive_records scope window unit_id current (0, 0) database)
            (\<lambda>(committed, active). Ok (CapacityAdditive scope window unit_id ceiling committed active))
      | RuleExclusive scope window retain \<Rightarrow>
          and_then (exclusive_records scope window retain current None database)
            (\<lambda>owner. Ok (CapacityExclusive scope window owner)))"

fun rule_entries ::
  "lifecycle_database \<Rightarrow> bytes \<Rightarrow> capacity_rule list \<Rightarrow> (capacity_entry list, store_error) result" where
  "rule_entries database current [] = Ok []"
| "rule_entries database current (rule # rules) =
     and_then (rule_entry database current rule) (\<lambda>entry.
       and_then (rule_entries database current rules) (\<lambda>entries. Ok (entry # entries)))"

definition capacity_snapshot ::
  "lifecycle_database \<Rightarrow> capacity_rule list \<Rightarrow> bytes \<Rightarrow> (capacity_entry list, store_error) result" where
  "capacity_snapshot database rules current =
     and_then (rule_entries database current rules) (\<lambda>entries.
       case capacity_snapshot_new entries of
         Inl _ \<Rightarrow> Err Corrupt
       | Inr snapshot \<Rightarrow> Ok snapshot)"

section \<open>Transactions\<close>

text \<open>
  The transaction on the database it is given: \<open>persist\<close> is the store's durability step, and the
  database is replaced only after it succeeded.
\<close>

definition transact_record ::
  "(bytes \<Rightarrow> bytes) \<Rightarrow> (lifecycle_database \<Rightarrow> (unit, store_error) result) \<Rightarrow> capacity_rule list \<Rightarrow> nat
   \<Rightarrow> lifecycle_database \<Rightarrow> store_transaction \<Rightarrow> lifecycle_record option
   \<Rightarrow> (stored_transition, store_error) result \<times> lifecycle_database"
where
  "transact_record sha256 persist rules maximum_records database transaction current =
     (if map_option lc_revision current \<noteq> st_expected_revision transaction then (Err Conflict, database)
      else if current = None \<and> length database \<ge> maximum_records then (Err LimitExceeded, database)
      else
        (case capacity_snapshot database rules (st_workflow_id transaction) of
           Inl e \<Rightarrow> (Err e, database)
         | Inr capacity \<Rightarrow>
             (case apply_transition sha256 current (st_command transaction)
                     ((st_context transaction)\<lparr> tc_capacity := capacity \<rparr>) of
                Inl (failure, _) \<Rightarrow> (Err (Rejected failure), database)
              | Inr result \<Rightarrow>
                  let stored = \<lparr> sd_record = tr_record result, sd_disposition = tr_disposition result \<rparr>
                  in if tr_disposition result = DispositionApplied then
                       (let next_database = btree_insert (st_workflow_id transaction) (tr_record result) database
                        in case persist next_database of
                             Inl e \<Rightarrow> (Err e, database)
                           | Inr _ \<Rightarrow> (Ok stored, next_database))
                     else (Ok stored, database))))"

definition transact_database ::
  "(bytes \<Rightarrow> bytes) \<Rightarrow> (lifecycle_database \<Rightarrow> (unit, store_error) result) \<Rightarrow> capacity_rule list \<Rightarrow> nat
   \<Rightarrow> lifecycle_database \<Rightarrow> store_transaction
   \<Rightarrow> (stored_transition, store_error) result \<times> lifecycle_database"
where
  "transact_database sha256 persist rules maximum_records database transaction =
     transact_record sha256 persist rules maximum_records database transaction
       (btree_get database (st_workflow_id transaction))"

definition in_memory_transact ::
  "(bytes \<Rightarrow> bytes) \<Rightarrow> capacity_rule list \<Rightarrow> nat \<Rightarrow> lifecycle_database \<Rightarrow> store_transaction
   \<Rightarrow> (stored_transition, store_error) result \<times> lifecycle_database" where
  "in_memory_transact sha256 = transact_database sha256 (\<lambda>_. Ok ())"

datatype store_configuration_error =
    InvalidRecordLimit | ZeroCeiling | DuplicateRule | InvalidPersistentState | Io | DatabaseUnavailable
  | DatabaseSchemaMismatch | InvalidConnectionString | InvalidTlsConfiguration | InvalidPoolConfiguration
  | MissingEnvironment

definition rule_key :: "capacity_rule \<Rightarrow> nat \<times> bytes \<times> bytes option \<times> bytes option" where
  "rule_key rule = (case rule of
     RuleAdditive scope window unit_id _ \<Rightarrow> (0, scope, window, Some unit_id)
   | RuleExclusive scope window _ \<Rightarrow> (1, scope, window, None))"

fun validate_rules ::
  "(nat \<times> bytes \<times> bytes option \<times> bytes option) set \<Rightarrow> capacity_rule list
   \<Rightarrow> (unit, store_configuration_error) result"
where
  "validate_rules keys [] = Ok ()"
| "validate_rules keys (rule # rules) =
     (if (case rule of RuleAdditive _ _ _ ceiling \<Rightarrow> ceiling = 0 | _ \<Rightarrow> False) then Err ZeroCeiling
      else if rule_key rule \<in> keys then Err DuplicateRule
      else validate_rules (insert (rule_key rule) keys) rules)"

definition validate_configuration :: "capacity_rule list \<Rightarrow> nat \<Rightarrow> (unit, store_configuration_error) result" where
  "validate_configuration rules maximum_records =
     (if maximum_records = 0 \<or> maximum_records > 1000000 then Err InvalidRecordLimit
      else validate_rules {} rules)"

section \<open>What a rule counts\<close>

definition rule_claims :: "capacity_rule \<Rightarrow> reservation_request \<Rightarrow> bool" where
  "rule_claims rule request = (case (rule, rr_mode request) of
     (RuleAdditive scope window unit_id _, Additive request_unit _) \<Rightarrow>
       rr_scope_digest request = scope \<and> rr_window_digest request = window \<and> request_unit = unit_id
   | (RuleExclusive scope window _, Exclusive) \<Rightarrow>
       rr_scope_digest request = scope \<and> rr_window_digest request = window
   | _ \<Rightarrow> False)"

definition rule_weight :: "capacity_rule \<Rightarrow> reservation_request \<Rightarrow> nat" where
  "rule_weight rule request =
     (if rule_claims rule request then (case rr_mode request of Additive _ amount \<Rightarrow> unat amount | Exclusive \<Rightarrow> 1)
      else 0)"

definition rule_limit :: "capacity_rule \<Rightarrow> nat" where
  "rule_limit rule = (case rule of RuleAdditive _ _ _ ceiling \<Rightarrow> unat ceiling | RuleExclusive _ _ _ \<Rightarrow> 1)"

definition rule_retains :: "capacity_rule \<Rightarrow> bool" where
  "rule_retains rule = (case rule of RuleAdditive _ _ _ _ \<Rightarrow> True | RuleExclusive _ _ retain \<Rightarrow> retain)"

text \<open>
  The capacity a record holds of a rule: everything it reserved from its reservation until it is
  released, and after a commit for as long as the rule retains it.
\<close>

definition record_use :: "capacity_rule \<Rightarrow> lifecycle_record \<Rightarrow> nat" where
  "record_use rule r =
     (if is_capacity_holding (lc_state r)
         \<or> rule_retains rule \<and> (lc_state r = Committed \<or> lc_state r = ReconciledCommitted)
      then \<Sum>e \<leftarrow> lc_reservation_entries r. rule_weight rule (en_request e) else 0)"

definition database_use :: "capacity_rule \<Rightarrow> lifecycle_database \<Rightarrow> nat" where
  "database_use rule database = (\<Sum>(_, r) \<leftarrow> database. record_use rule r)"


section \<open>The loops compute the sums\<close>

definition committed_part :: "capacity_rule \<Rightarrow> reservation_entry \<Rightarrow> nat" where
  "committed_part rule e = (if en_committed e then rule_weight rule (en_request e) else 0)"

definition active_part :: "capacity_rule \<Rightarrow> lifecycle_state \<Rightarrow> reservation_entry \<Rightarrow> nat" where
  "active_part rule state e =
     (if \<not> en_committed e \<and> \<not> en_released e \<and> is_capacity_holding state
      then rule_weight rule (en_request e) else 0)"

lemma checked_add_bind:
  fixes c c' x :: "'a::len word"
  shows "(\<exists>c1. checked_add c x = Some c1 \<and> unat c' = unat c1 + n) \<longleftrightarrow> unat c' = unat c + unat x + n"
proof
  assume eq: "unat c' = unat c + unat x + n"
  then have "unat c + unat x < 2 ^ LENGTH('a)" using unsigned_less [of c', where 'a = nat] by simp
  then obtain c1 where "checked_add c x = Some c1" by (cases "checked_add c x") (auto simp: checked_add_None_iff)
  with eq show "\<exists>c1. checked_add c x = Some c1 \<and> unat c' = unat c1 + n" by (auto simp: checked_add_Some_iff)
qed (auto simp: checked_add_Some_iff)

definition request_amount :: "reservation_request \<Rightarrow> u64" where
  "request_amount request = (case rr_mode request of Additive _ amount \<Rightarrow> amount | Exclusive \<Rightarrow> 0)"

lemma additive_reservations_Cons:
  assumes rule: "rule = RuleAdditive scope window unit_id ceiling"
  shows "additive_reservations scope window unit_id state (c, a) (e # es) =
     (if rule_claims rule (en_request e) \<and> en_committed e then
        and_then (ok_or (checked_add c (request_amount (en_request e))) Corrupt)
          (\<lambda>c'. additive_reservations scope window unit_id state (c', a) es)
      else if rule_claims rule (en_request e) \<and> \<not> en_released e \<and> is_capacity_holding state then
        and_then (ok_or (checked_add a (request_amount (en_request e))) Corrupt)
          (\<lambda>a'. additive_reservations scope window unit_id state (c, a') es)
      else additive_reservations scope window unit_id state (c, a) es)"
  by (auto simp: rule rule_claims_def request_amount_def split: reservation_mode.splits bool.splits)

lemma additive_weight:
  assumes "rule = RuleAdditive scope window unit_id ceiling"
  shows "rule_weight rule request = (if rule_claims rule request then unat (request_amount request) else 0)"
  by (auto simp: rule_weight_def rule_claims_def request_amount_def assms split: reservation_mode.splits)

lemma additive_reservations_Ok:
  assumes rule: "rule = RuleAdditive scope window unit_id ceiling"
  shows "additive_reservations scope window unit_id state (c, a) es = Ok (c', a') \<longleftrightarrow>
     unat c' = unat c + (\<Sum>e \<leftarrow> es. committed_part rule e)
     \<and> unat a' = unat a + (\<Sum>e \<leftarrow> es. active_part rule state e)"
proof (induction es arbitrary: c a)
  case Nil
  then show ?case by (auto simp: word_unat_eq_iff)
next
  case (Cons e es)
  have pull: "(\<exists>x. p x \<and> q x \<and> s) \<longleftrightarrow> (\<exists>x. p x \<and> q x) \<and> s"
             "(\<exists>x. p x \<and> s \<and> q x) \<longleftrightarrow> s \<and> (\<exists>x. p x \<and> q x)" for p q :: "u64 \<Rightarrow> bool" and s by auto
  show ?case
    unfolding additive_reservations_Cons [OF rule]
    by (simp add: Cons.IH committed_part_def active_part_def additive_weight [OF rule] and_then_Inr_iff pull
        checked_add_bind add.assoc del: additive_reservations.simps)
qed

lemma additive_reservations_error:
  "additive_reservations scope window unit_id state acc es = Err e \<Longrightarrow> e = Corrupt"
proof (induction es arbitrary: acc)
  case (Cons entry es)
  obtain c a where "acc = (c, a)" by (cases acc)
  with Cons show ?case
    by (auto simp: additive_reservations_Cons [where ceiling = 0, OF refl] and_then_Inl_iff simp del: additive_reservations.simps
        split: if_splits)
qed simp

lemma exclusive_reservations_error:
  "exclusive_reservations scope window retain state owner es = Err e \<Longrightarrow> e = Corrupt"
  by (induction es arbitrary: owner) (auto split: if_splits)

lemma additive_records_error: "additive_records scope window unit_id current acc database = Err e \<Longrightarrow> e = Corrupt"
  by (induction scope window unit_id current acc database rule: additive_records.induct)
     (auto simp: and_then_Inl_iff split: if_splits dest: additive_reservations_error)

lemma exclusive_records_error: "exclusive_records scope window retain current owner database = Err e \<Longrightarrow> e = Corrupt"
  by (induction scope window retain current owner database rule: exclusive_records.induct)
     (auto simp: and_then_Inl_iff split: if_splits dest: exclusive_reservations_error)

text \<open>A sound record: its shape is valid and its reservations are those of its decision.\<close>

definition sound_record :: "lifecycle_record \<Rightarrow> bool" where
  "sound_record r \<longleftrightarrow> record_shape_is_valid r
     \<and> (lc_state r \<noteq> DecisionRecorded
        \<longrightarrow> map en_request (lc_reservation_entries r) = rs_entries (di_reservations (lc_input r)))"

lemma sum_list_zero: "\<forall>x \<in> set xs. f x = 0 \<Longrightarrow> (\<Sum>x \<leftarrow> xs. f x) = (0 :: nat)"
  by (induction xs) auto

lemma length_filter_sum: "length (filter p xs) = (\<Sum>x \<leftarrow> xs. if p x then 1 else 0)"
  by (induction xs) auto

lemma record_use_parts:
  assumes "record_shape_is_valid r" and rule: "rule = RuleAdditive scope window unit_id ceiling"
  shows "(\<Sum>e \<leftarrow> lc_reservation_entries r. committed_part rule e)
       + (\<Sum>e \<leftarrow> lc_reservation_entries r. active_part rule (lc_state r) e) = record_use rule r"
  unfolding sum_list_addf [symmetric]
  using assms
  by (cases "lc_state r")
     (auto simp: record_use_def record_shape_is_valid_def reservations_are_live_def Let_def list_all_iff
        committed_part_def active_part_def is_capacity_holding_def rule_retains_def
        intro!: arg_cong [of _ _ sum_list] map_cong sum_list_zero)


lemma unat_between:
  "(\<exists>x :: 'a::len word. unat x = n \<and> unat y = unat x + m) \<longleftrightarrow> unat (y :: 'a word) = n + m"
  by (metis le_add1 le_unat_uoi)

lemma unat_between2:
  "(\<exists>(x :: 'a::len word) (z :: 'a word). unat x = n \<and> unat z = k \<and> unat y = unat x + m \<and> unat w = unat z + l)
     \<longleftrightarrow> unat (y :: 'a word) = n + m \<and> unat (w :: 'a word) = k + l"
  using unat_between [of n y m] unat_between [of k w l] by blast

lemma additive_records_Ok:
  assumes rule: "rule = RuleAdditive scope window unit_id ceiling"
  shows "additive_records scope window unit_id current (c, a) database = Ok (c', a') \<longleftrightarrow>
     unat c' = unat c + (\<Sum>(_, r) \<leftarrow> btree_others current database.
        \<Sum>e \<leftarrow> lc_reservation_entries r. committed_part rule e)
     \<and> unat a' = unat a + (\<Sum>(_, r) \<leftarrow> btree_others current database.
        \<Sum>e \<leftarrow> lc_reservation_entries r. active_part rule (lc_state r) e)"
proof (induction database arbitrary: c a)
  case Nil
  then show ?case by (auto simp: btree_others_def word_unat_eq_iff)
next
  case (Cons wr database)
  obtain w r where wr: "wr = (w, r)" by (cases wr)
  let ?c = "\<Sum>e \<leftarrow> lc_reservation_entries r. committed_part rule e"
  let ?a = "\<Sum>e \<leftarrow> lc_reservation_entries r. active_part rule (lc_state r) e"
  show ?case
  proof (cases "w = current")
    case True
    then show ?thesis using Cons.IH wr by (simp add: btree_others_def)
  next
    case False
    have "additive_records scope window unit_id current (c, a) (wr # database) = Ok (c', a') \<longleftrightarrow>
        (\<exists>c1 a1. unat c1 = unat c + ?c \<and> unat a1 = unat a + ?a
           \<and> additive_records scope window unit_id current (c1, a1) database = Ok (c', a'))"
      using False by (auto simp: wr and_then_Inr_iff additive_reservations_Ok [OF rule])
    also have "\<dots> \<longleftrightarrow> unat c' = unat c + ?c + (\<Sum>(_, r) \<leftarrow> btree_others current database.
          \<Sum>e \<leftarrow> lc_reservation_entries r. committed_part rule e)
        \<and> unat a' = unat a + ?a + (\<Sum>(_, r) \<leftarrow> btree_others current database.
          \<Sum>e \<leftarrow> lc_reservation_entries r. active_part rule (lc_state r) e)"
      unfolding Cons.IH by (rule unat_between2)
    finally show ?thesis using False wr by (simp add: btree_others_def add.assoc)
  qed
qed

definition exclusive_live :: "capacity_rule \<Rightarrow> lifecycle_state \<Rightarrow> reservation_entry \<Rightarrow> bool" where
  "exclusive_live rule state e \<longleftrightarrow> rule_claims rule (en_request e) \<and> \<not> en_released e
     \<and> (is_capacity_holding state \<or> rule_retains rule \<and> en_committed e)"

definition owners :: "capacity_rule \<Rightarrow> lifecycle_record \<Rightarrow> bytes list" where
  "owners rule r = map (\<lambda>e. rr_reservation_id (en_request e))
     (filter (exclusive_live rule (lc_state r)) (lc_reservation_entries r))"

definition single_owner :: "bytes list \<Rightarrow> (bytes option, store_error) result" where
  "single_owner ids = (case ids of [] \<Rightarrow> Ok None | [x] \<Rightarrow> Ok (Some x) | _ \<Rightarrow> Err Corrupt)"

definition owner_list :: "bytes option \<Rightarrow> bytes list" where
  "owner_list owner = (case owner of None \<Rightarrow> [] | Some x \<Rightarrow> [x])"

lemma single_owner_Ok: "single_owner ids = Ok owner \<longleftrightarrow> ids = owner_list owner"
  by (cases owner) (auto simp: single_owner_def owner_list_def split: list.splits)


lemma exclusive_reservations_eq:
  assumes rule: "rule = RuleExclusive scope window retain"
  shows "exclusive_reservations scope window retain state owner es =
     single_owner (owner_list owner @ map (\<lambda>e. rr_reservation_id (en_request e)) (filter (exclusive_live rule state) es))"
proof (induction es arbitrary: owner)
  case Nil
  show ?case by (cases owner) (simp_all add: single_owner_def owner_list_def)
next
  case (Cons e es)
  have live: "exclusive_live rule state e \<longleftrightarrow> rr_scope_digest (en_request e) = scope
      \<and> rr_window_digest (en_request e) = window \<and> rr_mode (en_request e) = Exclusive \<and> \<not> en_released e
      \<and> (is_capacity_holding state \<or> retain \<and> en_committed e)"
    by (auto simp: exclusive_live_def rule rule_claims_def rule_retains_def split: reservation_mode.splits)
  show ?case
    by (cases owner) (auto simp: live [symmetric] Cons.IH single_owner_def owner_list_def)
qed

lemma exclusive_records_eq:
  assumes rule: "rule = RuleExclusive scope window retain"
  shows "exclusive_records scope window retain current owner database =
     single_owner (owner_list owner @ concat (map (\<lambda>(_, r). owners rule r) (btree_others current database)))"
proof (induction database arbitrary: owner)
  case Nil
  show ?case by (cases owner) (simp_all add: single_owner_def owner_list_def btree_others_def)
next
  case (Cons wr database)
  have split: "and_then (single_owner xs) (\<lambda>o'. single_owner (owner_list o' @ ys)) = single_owner (xs @ ys)" for xs ys
    by (cases xs; cases "tl xs") (auto simp: single_owner_def owner_list_def split: list.splits)
  obtain w r where "wr = (w, r)" by (cases wr)
  then show ?case
    by (simp add: Cons.IH exclusive_reservations_eq [OF rule] split btree_others_def owners_def)
qed

lemma length_owners:
  assumes "record_shape_is_valid r" and rule: "rule = RuleExclusive scope window retain"
  shows "length (owners rule r) = record_use rule r"
proof -
  have weight: "rule_weight rule request = (if rule_claims rule request then 1 else 0)" for request
    by (auto simp: rule_weight_def rule_claims_def rule split: reservation_mode.splits)
  have "length (owners rule r) = (\<Sum>e \<leftarrow> lc_reservation_entries r. if exclusive_live rule (lc_state r) e then 1 else 0)"
    unfolding owners_def length_map by (rule length_filter_sum)
  also have "\<dots> = record_use rule r"
    using assms(1)
    by (cases "lc_state r")
       (auto simp: record_use_def record_shape_is_valid_def reservations_are_live_def Let_def list_all_iff
          exclusive_live_def is_capacity_holding_def weight intro!: arg_cong [of _ _ sum_list] map_cong sum_list_zero)
  finally show ?thesis .
qed


section \<open>What a snapshot says\<close>

text \<open>The reservation identities the records of a database hold.\<close>

definition reservation_ids :: "lifecycle_database \<Rightarrow> bytes set" where
  "reservation_ids database =
     (\<Union>(_, r) \<in> set database. rr_reservation_id ` set (rs_entries (di_reservations (lc_input r))))"

definition describes :: "capacity_rule \<Rightarrow> lifecycle_database \<Rightarrow> capacity_entry \<Rightarrow> bool" where
  "describes rule others entry = (case (rule, entry) of
     (RuleAdditive scope window unit_id ceiling, CapacityAdditive scope' window' unit_id' ceiling' committed active) \<Rightarrow>
       scope' = scope \<and> window' = window \<and> unit_id' = unit_id \<and> ceiling' = ceiling
       \<and> unat committed + unat active = database_use rule others
   | (RuleExclusive scope window _, CapacityExclusive scope' window' owner) \<Rightarrow>
       scope' = scope \<and> window' = window
       \<and> (case owner of None \<Rightarrow> database_use rule others = 0
          | Some x \<Rightarrow> database_use rule others = 1 \<and> x \<in> reservation_ids others)
   | _ \<Rightarrow> False)"

definition sound_records :: "lifecycle_database \<Rightarrow> bool" where
  "sound_records database \<longleftrightarrow> (\<forall>(_, r) \<in> set database. sound_record r)"

lemma sound_records_others: "sound_records database \<Longrightarrow> sound_records (btree_others k database)"
  by (auto simp: sound_records_def set_btree_others)

lemma owners_ids:
  assumes "sound_records database"
  shows "set (concat (map (\<lambda>(_, r). owners rule r) database)) \<subseteq> reservation_ids database"
proof -
  have "set (owners rule r) \<subseteq> rr_reservation_id ` set (rs_entries (di_reservations (lc_input r)))" if "sound_record r" for r
  proof (cases "lc_state r = DecisionRecorded")
    case True
    then show ?thesis using that by (auto simp: sound_record_def record_shape_is_valid_def Let_def owners_def)
  next
    case False
    then have "set (rs_entries (di_reservations (lc_input r))) = en_request ` set (lc_reservation_entries r)"
      using that by (metis list.set_map sound_record_def)
    then show ?thesis by (auto simp: owners_def)
  qed
  then show ?thesis using assms by (fastforce simp: reservation_ids_def sound_records_def)
qed

lemma length_concat_owners:
  assumes "sound_records database" and "rule = RuleExclusive scope window retain"
  shows "length (concat (map (\<lambda>(_, r). owners rule r) database)) = database_use rule database"
  using assms
  by (induction database) (auto simp: database_use_def sound_records_def sound_record_def length_owners)

lemma database_use_parts:
  assumes "sound_records database" and "rule = RuleAdditive scope window unit_id ceiling"
  shows "(\<Sum>(_, r) \<leftarrow> database. \<Sum>e \<leftarrow> lc_reservation_entries r. committed_part rule e)
     + (\<Sum>(_, r) \<leftarrow> database. \<Sum>e \<leftarrow> lc_reservation_entries r. active_part rule (lc_state r) e)
     = database_use rule database"
  using assms
proof (induction database)
  case (Cons wr database)
  obtain w r where "wr = (w, r)" by (cases wr)
  with Cons show ?case
    using record_use_parts [of r, OF _ assms(2)]
    by (simp add: database_use_def sound_records_def sound_record_def)
qed (simp add: database_use_def)

lemma rule_entry_describes:
  assumes sound: "sound_records database" and entry: "rule_entry database current rule = Ok entry"
  shows "describes rule (btree_others current database) entry"
proof (cases rule)
  case (RuleAdditive scope window unit_id ceiling)
  then obtain c a where e: "entry = CapacityAdditive scope window unit_id ceiling c a"
    and run: "additive_records scope window unit_id current (0, 0) database = Ok (c, a)"
    using entry by (auto simp: rule_entry_def and_then_pair_iff)
  show ?thesis
    using run [unfolded additive_records_Ok [OF RuleAdditive]]
      database_use_parts [OF sound_records_others [OF sound] RuleAdditive, of current]
    by (simp add: describes_def e RuleAdditive)
next
  case (RuleExclusive scope window retain)
  let ?ids = "concat (map (\<lambda>(_, r). owners rule r) (btree_others current database))"
  obtain owner where e: "entry = CapacityExclusive scope window owner" and run: "?ids = owner_list owner"
    using entry exclusive_records_eq [OF RuleExclusive, of current None database]
    by (auto simp: rule_entry_def and_then_Inr_iff RuleExclusive owner_list_def [of None] single_owner_Ok)
  have len: "length ?ids = database_use rule (btree_others current database)"
    using length_concat_owners [OF sound_records_others [OF sound] RuleExclusive] .
  have "set ?ids \<subseteq> reservation_ids (btree_others current database)"
    using owners_ids [OF sound_records_others [OF sound]] .
  with len show ?thesis
    unfolding run by (cases owner) (auto simp: describes_def e RuleExclusive owner_list_def)
qed


lemma rule_entries_Ok:
  "rule_entries database current rules = Ok entries \<longleftrightarrow>
     list_all2 (\<lambda>rule entry. rule_entry database current rule = Ok entry) rules entries"
  by (induction rules arbitrary: entries) (auto simp: and_then_Inr_iff list_all2_Cons1)

lemma rule_entry_error: "rule_entry database current rule = Err e \<Longrightarrow> e = Corrupt"
  by (cases rule)
     (auto simp: rule_entry_def and_then_Inl_iff split: prod.splits dest: additive_records_error exclusive_records_error)

lemma capacity_key_equal_iff: "capacity_key_equal a b \<longleftrightarrow> capacity_key a = capacity_key b"
  by (cases a; cases b) (simp_all add: capacity_key_equal_def)

lemma successively_distinct_sorted:
  "sorted xs \<Longrightarrow> successively (\<lambda>a b. a \<noteq> b) xs \<Longrightarrow> distinct (xs :: 'a::linorder list)"
  by (induction xs rule: induct_list012) (auto simp: order.order_iff_strict)

lemma capacity_snapshot_new_Ok:
  assumes "capacity_snapshot_new entries = Ok snapshot"
  shows "set snapshot = set entries" and "inj_on capacity_key (set snapshot)" and "list_all capacity_valid entries"
proof -
  have snapshot: "snapshot = sort_key capacity_key entries"
    and succ: "successively (\<lambda>a b. capacity_key a \<noteq> capacity_key b) snapshot"
    and valid: "list_all capacity_valid entries"
    using assms by (auto simp: capacity_snapshot_new_def Let_def capacity_key_equal_iff split: if_splits)
  then have "distinct (map capacity_key snapshot)"
    using successively_distinct_sorted [of "map capacity_key snapshot"] by (simp add: successively_map)
  then show "inj_on capacity_key (set snapshot)" by (simp add: distinct_map)
  show "set snapshot = set entries" by (simp add: snapshot)
  show "list_all capacity_valid entries" by (rule valid)
qed


lemma map_err_Ok [simp]: "(case x of Inl _ \<Rightarrow> Err e | Inr y \<Rightarrow> Ok y) = Ok z \<longleftrightarrow> x = Ok z"
  by (cases x) auto

text \<open>A snapshot describes every rule and has one entry per key.\<close>

lemma capacity_snapshot_Ok:
  assumes sound: "sound_records database" and snapshot: "capacity_snapshot database rules current = Ok snapshot"
    and rule: "rule \<in> set rules"
  obtains entry where "entry \<in> set snapshot" "describes rule (btree_others current database) entry"
    "\<forall>e \<in> set snapshot. capacity_key e = capacity_key entry \<longrightarrow> e = entry"
proof -
  obtain entries where entries: "list_all2 (\<lambda>rule entry. rule_entry database current rule = Ok entry) rules entries"
    and new: "capacity_snapshot_new entries = Ok snapshot"
    using snapshot by (auto simp: capacity_snapshot_def and_then_Inr_iff rule_entries_Ok)
  obtain i where "i < length rules" "rules ! i = rule" using rule by (auto simp: in_set_conv_nth)
  then have "entries ! i \<in> set entries" "rule_entry database current rule = Ok (entries ! i)"
    using entries by (auto simp: list_all2_conv_all_nth)
  then show ?thesis
    using that [of "entries ! i"] capacity_snapshot_new_Ok [OF new] rule_entry_describes [OF sound] by (auto dest: inj_onD)
qed

lemma fitting_key:
  assumes "request_fits request e" and "rule_claims rule request" and "describes rule others entry"
  shows "capacity_key e = capacity_key entry"
  using assms
  by (cases rule; cases e; cases entry)
     (auto simp: request_fits_def rule_claims_def describes_def split: reservation_mode.splits)

lemma fits_within:
  assumes "request_fits request entry" and "rule_claims rule request" and "describes rule others entry"
    and "rr_reservation_id request \<notin> reservation_ids others"
  shows "rule_weight rule request + database_use rule others \<le> rule_limit rule"
  using assms
  by (cases rule; cases entry)
     (auto simp: request_fits_def rule_claims_def rule_weight_def rule_limit_def describes_def additive_capacity_iff
        exclusive_capacity_available_def split: reservation_mode.splits option.splits)

lemma sum_of_at_most_one:
  fixes f :: "'a \<Rightarrow> nat"
  assumes "length (filter p xs) \<le> 1" and "\<forall>x \<in> set xs. \<not> p x \<longrightarrow> f x = 0"
  shows "(\<Sum>x \<leftarrow> xs. f x) = 0 \<or> (\<exists>x \<in> set xs. p x \<and> (\<Sum>x \<leftarrow> xs. f x) = f x)"
  using assms
proof (induction xs)
  case (Cons x xs)
  show ?case
  proof (cases "p x")
    case True
    then have "\<forall>y \<in> set xs. \<not> p y" using Cons.prems by (auto simp: filter_empty_conv)
    then have "(\<Sum>x \<leftarrow> xs. f x) = 0" using Cons.prems by (intro sum_list_zero) auto
    then show ?thesis using True by auto
  next
    case False
    then show ?thesis using Cons by auto
  qed
qed simp

definition separate_requests :: "capacity_rule list \<Rightarrow> reservation_request list \<Rightarrow> bool" where
  "separate_requests rules requests \<longleftrightarrow> list_all (\<lambda>rule. length (filter (rule_claims rule) requests) \<le> 1) rules"

lemma requests_within:
  assumes sound: "sound_records database" and snapshot: "capacity_snapshot database rules current = Ok snapshot"
    and available: "record_capacity_available r (context\<lparr> tc_capacity := snapshot \<rparr>)"
    and rule: "rule \<in> set rules"
    and separate: "separate_requests rules (rs_entries (di_reservations (lc_input r)))"
    and ids: "\<forall>request \<in> set (rs_entries (di_reservations (lc_input r))).
                rr_reservation_id request \<notin> reservation_ids (btree_others current database)"
    and others: "database_use rule (btree_others current database) \<le> rule_limit rule"
  shows "(\<Sum>request \<leftarrow> rs_entries (di_reservations (lc_input r)). rule_weight rule request)
       + database_use rule (btree_others current database) \<le> rule_limit rule"
proof -
  let ?requests = "rs_entries (di_reservations (lc_input r))"
  have one: "length (filter (rule_claims rule) ?requests) \<le> 1"
    using separate rule by (simp add: separate_requests_def list_all_iff)
  have "\<forall>request \<in> set ?requests. \<not> rule_claims rule request \<longrightarrow> rule_weight rule request = 0"
    by (simp add: rule_weight_def)
  from sum_of_at_most_one [OF one this] show ?thesis
  proof
    assume "(\<Sum>x \<leftarrow> ?requests. rule_weight rule x) = 0"
    then show ?thesis using others by linarith
  next
    assume "\<exists>x \<in> set ?requests. rule_claims rule x \<and> (\<Sum>x \<leftarrow> ?requests. rule_weight rule x) = rule_weight rule x"
    then obtain request where request: "request \<in> set ?requests" "rule_claims rule request"
      "(\<Sum>x \<leftarrow> ?requests. rule_weight rule x) = rule_weight rule request" by blast
    obtain e where e: "e \<in> set snapshot" "request_fits request e"
      using available request(1) by (auto simp: record_capacity_available_def list_all_iff list_ex_iff)
    obtain entry where entry: "describes rule (btree_others current database) entry"
      "\<forall>e \<in> set snapshot. capacity_key e = capacity_key entry \<longrightarrow> e = entry"
      using capacity_snapshot_Ok [OF sound snapshot rule] by blast
    then have "e = entry" using e fitting_key [OF e(2) request(2) entry(1)] by blast
    then show ?thesis using fits_within [OF e(2) request(2)] entry(1) request ids by simp
  qed
qed


section \<open>Transactions keep the capacity\<close>

lemma sound_step:
  assumes sound: "sound_record r" and edge: "edge r command context to"
    and payload: "apply_payload r command to now = Ok p"
    and append: "append_transition sha256 p (Some (lc_state r)) to trigger receipt context = Ok r'"
  shows "sound_record r'"
proof -
  have shape: "record_shape_is_valid r'"
    using payload_shape [OF _ edge payload] sound append_transition_shape [OF append] by (simp add: sound_record_def)
  have "map en_request (lc_reservation_entries p) = rs_entries (di_reservations (lc_input r))"
    using edge
  proof (cases rule: edge_cases)
    case reserve
    then show ?thesis using payload by (auto simp: apply_payload_def entry_reserved_def comp_def)
  next
    case start
    then show ?thesis
      using payload sound by (auto simp: apply_payload_def sound_record_def and_then_Inr_iff split: option.splits)
  next
    case entered
    then show ?thesis
      using payload sound by (auto simp: apply_payload_def sound_record_def and_then_Inr_iff split: if_splits)
  qed (use payload sound in \<open>auto simp: apply_payload_def sound_record_def comp_def mark_defs\<close>)
  then show ?thesis
    using shape append_transition_ok [OF append] apply_payload_keeps [OF payload] by (simp add: sound_record_def)
qed

text \<open>Only a reservation takes capacity; every other edge keeps or returns it.\<close>

lemma record_use_step:
  assumes sound: "sound_record r" and edge: "edge r command context to" and command: "command \<noteq> Reserve"
    and sound': "sound_record r'" and same: "lc_input r' = lc_input r" "lc_state r' = to"
  shows "record_use rule r' \<le> record_use rule r"
proof -
  have use: "record_use rule r = (if is_capacity_holding (lc_state r)
         \<or> rule_retains rule \<and> (lc_state r = Committed \<or> lc_state r = ReconciledCommitted)
      then \<Sum>q \<leftarrow> rs_entries (di_reservations (lc_input r)). rule_weight rule q else 0)" if "sound_record r" for r
  proof (cases "lc_state r = DecisionRecorded")
    case True
    then show ?thesis by (simp add: record_use_def is_capacity_holding_def)
  next
    case False
    then have "rs_entries (di_reservations (lc_input r)) = map en_request (lc_reservation_entries r)"
      using that by (simp add: sound_record_def)
    then have "map (rule_weight rule) (rs_entries (di_reservations (lc_input r)))
        = map (\<lambda>e. rule_weight rule (en_request e)) (lc_reservation_entries r)" by simp
    then show ?thesis by (simp only: record_use_def)
  qed
  show ?thesis
    using edge command
    by (cases rule: edge_cases) (auto simp: use [OF sound] use [OF sound'] same is_capacity_holding_def)
qed


text \<open>A transaction leaves the database alone or replaces one record by an applied transition of it.\<close>

lemma transact_cases:
  assumes "transact_database sha256 persist rules maximum_records database transaction = (res, database')"
  obtains (refused) e where "database' = database" "res = Err e"
  | (replayed) snapshot result where
      "apply_transition sha256 (btree_get database (st_workflow_id transaction)) (st_command transaction)
         ((st_context transaction)\<lparr> tc_capacity := snapshot \<rparr>) = Ok result"
      "tr_disposition result = DispositionExactReplay" "database' = database"
      "res = Ok \<lparr> sd_record = tr_record result, sd_disposition = DispositionExactReplay \<rparr>"
  | (applied) snapshot result where
      "capacity_snapshot database rules (st_workflow_id transaction) = Ok snapshot"
      "apply_transition sha256 (btree_get database (st_workflow_id transaction)) (st_command transaction)
         ((st_context transaction)\<lparr> tc_capacity := snapshot \<rparr>) = Ok result"
      "tr_disposition result = DispositionApplied"
      "database' = btree_insert (st_workflow_id transaction) (tr_record result) database"
      "res = Ok \<lparr> sd_record = tr_record result, sd_disposition = DispositionApplied \<rparr>"
      "persist database' = Ok ()"
      "map_option lc_revision (btree_get database (st_workflow_id transaction)) = st_expected_revision transaction"
      "btree_get database (st_workflow_id transaction) = None \<longrightarrow> length database < maximum_records"
proof -
  let ?current = "btree_get database (st_workflow_id transaction)"
  show ?thesis
  proof (cases "map_option lc_revision ?current = st_expected_revision transaction
      \<and> (?current = None \<longrightarrow> length database < maximum_records)")
    case False
    then show ?thesis using assms refused by (auto simp: transact_database_def transact_record_def Let_def split: if_splits)
  next
    case guards: True
    show ?thesis
    proof (cases "capacity_snapshot database rules (st_workflow_id transaction)")
      case (Inl e)
      then show ?thesis using assms refused guards by (auto simp: transact_database_def transact_record_def Let_def)
    next
      case snapshot: (Inr snapshot)
      let ?apply = "apply_transition sha256 ?current (st_command transaction)
        ((st_context transaction)\<lparr> tc_capacity := snapshot \<rparr>)"
      show ?thesis
      proof (cases ?apply)
        case (Inl e)
        then show ?thesis
          using assms refused guards snapshot by (cases e) (auto simp: transact_database_def transact_record_def Let_def)
      next
        case (Inr result)
        show ?thesis
        proof (cases "tr_disposition result")
          case DispositionApplied
          then show ?thesis
            using assms refused applied [OF snapshot Inr] guards snapshot Inr
            by (auto simp: transact_database_def transact_record_def Let_def split: sum.splits)
        next
          case DispositionExactReplay
          then show ?thesis
            using assms replayed [OF Inr] guards snapshot Inr by (auto simp: transact_database_def transact_record_def Let_def)
        qed
      qed
    qed
  qed
qed

lemma decided_disposition:
  "apply_transition sha256 None command context = Ok result \<Longrightarrow> tr_disposition result = DispositionApplied"
  by (cases command) (auto simp: apply_transition_def record_decision_def Let_def and_then_Inr_iff split: if_splits)

lemma replayed_transaction:
  assumes "transact_database sha256 persist rules maximum_records database transaction = (Ok stored, database')"
    and "sd_disposition stored = DispositionExactReplay"
  shows "database' = database \<and> btree_get database (st_workflow_id transaction) = Some (sd_record stored)
     \<and> st_command transaction = RecordDecision (lc_input (sd_record stored))"
proof -
  obtain snapshot result where run: "apply_transition sha256 (btree_get database (st_workflow_id transaction))
         (st_command transaction) ((st_context transaction)\<lparr> tc_capacity := snapshot \<rparr>) = Ok result"
    and result: "tr_disposition result = DispositionExactReplay" "sd_record stored = tr_record result" "database' = database"
    using assms(1) by (cases rule: transact_cases) (use assms(2) in auto)
  obtain r where r: "btree_get database (st_workflow_id transaction) = Some r"
    using run result(1) decided_disposition by (cases "btree_get database (st_workflow_id transaction)") fastforce+
  obtain input where "st_command transaction = RecordDecision input"
    using apply_transition_step [OF run [unfolded r]] result(1) by fastforce
  then show ?thesis using exact_replay run r result by metis
qed

lemma apply_transition_None:
  assumes "apply_transition sha256 None command context = Ok res"
  obtains input where "command = RecordDecision input"
  using assms by (cases command) (auto simp: apply_transition_def Let_def)

definition request_ids :: "decision_input \<Rightarrow> bytes set" where
  "request_ids input = rr_reservation_id ` set (rs_entries (di_reservations input))"

definition store_inv :: "capacity_rule list \<Rightarrow> lifecycle_database \<Rightarrow> bool" where
  "store_inv rules database \<longleftrightarrow> btree_wf database \<and> sound_records database
     \<and> (\<forall>(w, r) \<in> set database. separate_requests rules (rs_entries (di_reservations (lc_input r)))
           \<and> request_ids (lc_input r) \<inter> reservation_ids (btree_others w database) = {})
     \<and> (\<forall>rule \<in> set rules. database_use rule database \<le> rule_limit rule)"

text \<open>
  What the store relies on in a decision: its reservation identities are its own (they are digests
  over the workflow), and no two of its requests claim one rule.
\<close>

definition admissible :: "capacity_rule list \<Rightarrow> lifecycle_database \<Rightarrow> store_transaction \<Rightarrow> bool" where
  "admissible rules database transaction \<longleftrightarrow> (case st_command transaction of
     RecordDecision input \<Rightarrow> separate_requests rules (rs_entries (di_reservations input))
       \<and> request_ids input \<inter> reservation_ids (btree_others (st_workflow_id transaction) database) = {}
   | _ \<Rightarrow> True)"

lemma database_use_insert:
  "btree_wf database \<Longrightarrow> database_use rule (btree_insert w r database)
     = record_use rule r + database_use rule (btree_others w database)"
  by (simp add: database_use_def sum_btree_insert)

lemma database_use_get:
  "btree_wf database \<Longrightarrow> btree_get database w = Some r \<Longrightarrow>
     database_use rule database = record_use rule r + database_use rule (btree_others w database)"
  by (simp add: database_use_def sum_btree_get)


lemma reservation_ids_alt: "reservation_ids database = (\<Union>(_, r) \<in> set database. request_ids (lc_input r))"
  by (simp add: reservation_ids_def request_ids_def)

lemma store_inv_insert:
  assumes inv: "store_inv rules database" and sound: "sound_record r"
    and separate: "separate_requests rules (rs_entries (di_reservations (lc_input r)))"
    and ids: "request_ids (lc_input r) \<inter> reservation_ids (btree_others w database) = {}"
    and use: "\<forall>rule \<in> set rules. record_use rule r + database_use rule (btree_others w database) \<le> rule_limit rule"
  shows "store_inv rules (btree_insert w r database)"
proof -
  have wf: "btree_wf database" using inv by (simp add: store_inv_def)
  have others: "set (btree_others w' (btree_insert w r database)) \<subseteq> insert (w, r) (set (btree_others w' database))" for w'
    using wf by (auto simp: set_btree_others set_btree_insert)
  have "request_ids (lc_input r') \<inter> reservation_ids (btree_others w' (btree_insert w r database)) = {}"
    if "(w', r') \<in> set (btree_insert w r database)" for w' r'
  proof (cases "w' = w")
    case True
    then have "r' = r" using that wf by (auto simp: set_btree_insert set_btree_others)
    then show ?thesis using True ids wf by (simp add: btree_others_insert)
  next
    case False
    then have "(w', r') \<in> set database" using that wf by (auto simp: set_btree_insert set_btree_others)
    then have "request_ids (lc_input r') \<inter> reservation_ids (btree_others w' database) = {}"
      and "(w', r') \<in> set (btree_others w database)"
      using inv False by (auto simp: store_inv_def set_btree_others)
    then show ?thesis using ids others [of w'] by (fastforce simp: reservation_ids_alt)
  qed
  then show ?thesis
    using inv wf sound separate use
    by (auto simp: store_inv_def btree_wf_insert database_use_insert sound_records_def set_btree_insert set_btree_others)
qed


lemma existing_step:
  assumes applied: "apply_transition sha256 (Some r) command context = Ok result"
    and disposition: "tr_disposition result = DispositionApplied" and sound: "sound_record r"
  shows "sound_record (tr_record result)" and "lc_input (tr_record result) = lc_input r"
    and "command \<noteq> Reserve \<Longrightarrow> record_use rule (tr_record result) \<le> record_use rule r"
    and "command = Reserve \<Longrightarrow> record_capacity_available r context
       \<and> record_use rule (tr_record result) = (\<Sum>q \<leftarrow> rs_entries (di_reservations (lc_input r)). rule_weight rule q)"
proof -
  have "\<forall>input. command \<noteq> RecordDecision input" using exact_replay applied disposition by fastforce
  then obtain to p where edge: "edge r command context to"
    and payload: "apply_payload r command to (tc_verifier_time context) = Ok p"
    and append: "append_transition sha256 p (Some (lc_state r)) to (trigger_digest command r)
           (domain_receipt_of command) context = Ok (tr_record result)"
    using apply_transition_step [OF applied] unfolding edge_def by metis
  note kept = apply_payload_keeps [OF payload] and new = append_transition_ok [OF append]
  show sound': "sound_record (tr_record result)" using sound_step [OF sound edge payload append] .
  show input: "lc_input (tr_record result) = lc_input r" using kept new by simp
  show "command \<noteq> Reserve \<Longrightarrow> record_use rule (tr_record result) \<le> record_use rule r"
    using record_use_step [OF sound edge _ sound' input] kept new by simp
  assume "command = Reserve"
  with edge have "lc_state (tr_record result) = Reserved" "record_capacity_available r context"
    using kept new by (cases rule: edge_cases; simp)+
  moreover from this have "rs_entries (di_reservations (lc_input r)) = map en_request (lc_reservation_entries (tr_record result))"
    using sound' input by (simp add: sound_record_def)
  ultimately show "record_capacity_available r context
       \<and> record_use rule (tr_record result) = (\<Sum>q \<leftarrow> rs_entries (di_reservations (lc_input r)). rule_weight rule q)"
    by (simp add: record_use_def is_capacity_holding_def comp_def)
qed

lemma store_inv_step:
  assumes inv: "store_inv rules database" and admissible: "admissible rules database transaction"
    and run: "transact_database sha256 persist rules maximum_records database transaction = (res, database')"
  shows "store_inv rules database'"
  using run
proof (cases rule: transact_cases)
  case (refused e)
  then show ?thesis using inv by simp
next
  case (replayed snapshot result)
  then show ?thesis using inv by simp
next
  case (applied snapshot result)
  let ?w = "st_workflow_id transaction"
  have wf: "btree_wf database" and sound: "sound_records database" using inv by (auto simp: store_inv_def)
  show ?thesis
  proof (cases "btree_get database ?w")
    case None
    then obtain input where command: "st_command transaction = RecordDecision input"
      using applied(2) apply_transition_None by metis
    note decided = decided_record [OF applied(2) [unfolded None command]]
    have "sound_record (tr_record result)" and use: "record_use rule (tr_record result) = 0" for rule
      using decided by (auto simp: sound_record_def reachable_inv_def record_use_def is_capacity_holding_def)
    then show ?thesis
      unfolding applied(4)
      using inv decided admissible command btree_others_absent [OF None]
      by (intro store_inv_insert) (auto simp: admissible_def store_inv_def)
  next
    case (Some r)
    note step = existing_step [OF applied(2) [unfolded Some] applied(3)]
    have mem: "(?w, r) \<in> set database" using Some wf by (simp add: btree_get_in_set)
    then have r: "sound_record r" "separate_requests rules (rs_entries (di_reservations (lc_input r)))"
      "request_ids (lc_input r) \<inter> reservation_ids (btree_others ?w database) = {}"
      using inv by (auto simp: store_inv_def sound_records_def)
    have within: "record_use rule (tr_record result) + database_use rule (btree_others ?w database) \<le> rule_limit rule"
      if rule: "rule \<in> set rules" for rule
    proof -
      have total: "record_use rule r + database_use rule (btree_others ?w database) \<le> rule_limit rule"
        using inv rule database_use_get [OF wf Some] by (simp add: store_inv_def)
      show ?thesis
      proof (cases "st_command transaction = Reserve")
        case True
        then show ?thesis
          using requests_within [OF sound applied(1) _ rule r(2)] step(4) [OF r(1) True] r(3) total
          by (force simp: request_ids_def)
      next
        case False
        then show ?thesis using step(3) [OF r(1) False, of rule] total by linarith
      qed
    qed
    show ?thesis
      unfolding applied(4)
      using within inv r step(1,2) [OF r(1)] by (intro store_inv_insert) auto
  qed
qed

text \<open>The databases a store reaches through transactions.\<close>

inductive store_reachable :: "(bytes \<Rightarrow> bytes) \<Rightarrow> capacity_rule list \<Rightarrow> nat \<Rightarrow> lifecycle_database \<Rightarrow> bool"
  for sha256 rules maximum_records where
  empty: "store_reachable sha256 rules maximum_records []"
| transacted: "store_reachable sha256 rules maximum_records database \<Longrightarrow> admissible rules database transaction
    \<Longrightarrow> transact_database sha256 persist rules maximum_records database transaction = (res, database')
    \<Longrightarrow> store_reachable sha256 rules maximum_records database'"

lemma reachable_store_inv: "store_reachable sha256 rules maximum_records database \<Longrightarrow> store_inv rules database"
proof (induction rule: store_reachable.induct)
  case empty
  show ?case by (simp add: store_inv_def sound_records_def database_use_def)
next
  case (transacted database transaction persist res database')
  then show ?case using store_inv_step by blast
qed

lemma validate_rules_Ok:
  "validate_rules keys rules = Ok () \<longleftrightarrow>
     distinct (map rule_key rules) \<and> set (map rule_key rules) \<inter> keys = {}
     \<and> (\<forall>rule \<in> set rules. 0 < rule_limit rule)"
  by (induction rules arbitrary: keys) (auto simp: rule_limit_def word_gt_0 unat_gt_0 split: capacity_rule.splits)









lemma oversized_snapshot:
  "length rules > MAX_RESERVATION_INTENTS \<Longrightarrow> capacity_snapshot database rules workflow = Err Corrupt"
proof -
  assume "length rules > MAX_RESERVATION_INTENTS"
  then have big: "length entries > MAX_RESERVATION_INTENTS" if "rule_entries database workflow rules = Ok entries" for entries
    using that unfolding rule_entries_Ok by (simp add: list_all2_lengthD [symmetric])
  have corrupt: "e = Corrupt" if "rule_entries database workflow rules = Err e" for e
    using that by (induction rules) (auto simp: and_then_Inl_iff dest: rule_entry_error)
  show ?thesis
    using big corrupt
    by (cases "rule_entries database workflow rules") (auto simp: capacity_snapshot_def capacity_snapshot_new_def)
qed

section \<open>The store keeps the contract of the port\<close>

interpretation database_store:
  lifecycle_store "transact_database sha256 persist rules maximum_records" btree_get btree_wf sha256
  for sha256 persist rules maximum_records
proof
  fix s t outcome s'
  assume wf: "btree_wf s" and run: "transact_database sha256 persist rules maximum_records s t = (outcome, s')"
  show "btree_wf s'"
    using run by (cases rule: transact_cases) (auto simp: wf btree_wf_insert)
next
  fix s t e s'
  assume wf: "btree_wf s" and run: "transact_database sha256 persist rules maximum_records s t = (Err e, s')"
  show "btree_get s' = btree_get s" using run by (cases rule: transact_cases) auto
next
  fix s t stored s'
  assume wf: "btree_wf s" and run: "transact_database sha256 persist rules maximum_records s t = (Ok stored, s')"
  { assume replay: "sd_disposition stored = DispositionExactReplay"
    show "btree_get s' = btree_get s \<and> btree_get s (st_workflow_id t) = Some (sd_record stored)
        \<and> st_command t = RecordDecision (lc_input (sd_record stored))"
      using replayed_transaction [OF run replay] by simp }
  { assume applied: "sd_disposition stored = DispositionApplied"
    show "btree_get s' = (btree_get s)(st_workflow_id t \<mapsto> sd_record stored)
        \<and> st_expected_revision t = map_option lc_revision (btree_get s (st_workflow_id t))
        \<and> (\<exists>capacity result. apply_transition sha256 (btree_get s (st_workflow_id t)) (st_command t)
               ((st_context t)\<lparr> tc_capacity := capacity \<rparr>) = Ok result
             \<and> tr_disposition result = DispositionApplied \<and> tr_record result = sd_record stored)"
      using run
    proof (cases rule: transact_cases)
      case (refused e)
      then show ?thesis by simp
    next
      case (replayed snapshot result)
      then show ?thesis using applied by simp
    next
      case (applied snapshot result)
      then show ?thesis using wf by (auto simp: btree_get_insert fun_eq_iff intro!: exI [of _ snapshot] exI [of _ result])
    qed }
qed

section \<open>Properties\<close>

text \<open>C9: In every database the store reaches, no capacity rule
  is overcommitted: over all records the reservations that are live, and those committed where the rule
  retains them, stay within the ceiling of an additive rule and within one owner of an exclusive one.
  The decisions must claim a rule at most once each and use reservation identities of their own.\<close>

theorem lifecycle_capacity_is_never_overcommitted:
  assumes "store_reachable sha256 rules maximum_records database" and "rule \<in> set rules"
  shows "database_use rule database \<le> rule_limit rule"
  using reachable_store_inv [OF assms(1)] assms(2) by (simp add: store_inv_def)


text \<open>C31: With more than 32 rules, which the configuration
  check accepts, the store applies no transaction at all.\<close>

theorem oversized_rule_sets_refuse_every_transaction:
  assumes "length rules > MAX_RESERVATION_INTENTS"
  shows "\<exists>e. transact_database sha256 persist rules maximum_records database transaction = (Err e, database)"
  using oversized_snapshot [OF assms] by (auto simp: transact_database_def transact_record_def Let_def)

text \<open>C10: Over any run of transactions on an initially empty store,
  whatever its durability step does, a workflow is granted at most one credential authorization and at
  most one provider-call authorization.\<close>

theorem tokens_are_granted_once_per_workflow:
  assumes "run_store (transact_database sha256 persist rules maximum_records) [] transactions = (outcomes, database)"
  shows "length (filter (grants_call workflow) outcomes) \<le> 1
     \<and> length (filter (grants_credential workflow) outcomes) \<le> 1"
proof (rule database_store.tokens_are_granted_once [OF _ assms])
  show "database_store.reachable_store []" by (simp add: database_store.reachable_store_def)
qed


section \<open>A sample store\<close>

definition sample_rules :: "capacity_rule list" where
  "sample_rules = [RuleAdditive [13] None [85] 10]"

definition sample_transaction :: "bytes \<Rightarrow> u64 option \<Rightarrow> transition_command \<Rightarrow> store_transaction" where
  "sample_transaction workflow revision command = \<lparr> st_workflow_id = workflow, st_expected_revision = revision,
     st_command = command, st_context = sample_context 200 \<rparr>"

definition sample_database :: "(u8 \<times> u64) list \<Rightarrow> lifecycle_database" where
  "sample_database amounts =
     snd (in_memory_transact sample_digest sample_rules 5
       (snd (in_memory_transact sample_digest sample_rules 5 []
          (sample_transaction [1] None (RecordDecision (sample_input amounts)))))
       (sample_transaction [1] (Some 1) Reserve))"

lemma sample_reachable: "store_reachable sample_digest sample_rules 5 (sample_database [(7, 4)])"
proof -
  let ?decide = "sample_transaction [1] None (RecordDecision (sample_input [(7, 4)]))"
  have "admissible sample_rules [] ?decide"
    by (simp add: admissible_def sample_transaction_def separate_requests_def sample_rules_def sample_input_def
        reservation_ids_def btree_others_def)
  then have "store_reachable sample_digest sample_rules 5 (snd (in_memory_transact sample_digest sample_rules 5 [] ?decide))"
    unfolding in_memory_transact_def by (metis store_reachable.intros surjective_pairing)
  moreover have "admissible sample_rules database (sample_transaction [1] (Some 1) Reserve)" for database
    by (simp add: admissible_def sample_transaction_def)
  ultimately show ?thesis
    unfolding sample_database_def in_memory_transact_def by (metis store_reachable.transacted surjective_pairing)
qed

theorem lifecycle_capacity_is_never_overcommitted_witness:
  "store_reachable sample_digest sample_rules 5 (sample_database [(7, 4)])
   \<and> database_use (RuleAdditive [13] None [85] 10) (sample_database [(7, 4)]) = 4
   \<and> database_use (RuleAdditive [13] None [85] 10) (sample_database [(7, 4)])
     \<le> rule_limit (RuleAdditive [13] None [85] 10)"
proof -
  have "database_use (RuleAdditive [13] None [85] 10) (sample_database [(7, 4)]) = 4" by code_simp
  then show ?thesis
    using sample_reachable lifecycle_capacity_is_never_overcommitted [OF sample_reachable, of "RuleAdditive [13] None [85] 10"]
    by (simp add: sample_rules_def)
qed


definition many_rules :: "capacity_rule list" where
  "many_rules = map (\<lambda>n. RuleExclusive (replicate n 0) None False) [0..<33]"

theorem oversized_rule_sets_refuse_every_transaction_witness:
  "validate_configuration many_rules 5 = Ok ()
   \<and> (\<exists>e. in_memory_transact sample_digest many_rules 5 []
        (sample_transaction [1] None (RecordDecision (sample_input []))) = (Err e, []))"
proof -
  have "inj_on (\<lambda>n. rule_key (RuleExclusive (replicate n 0) None False)) {0..<33}"
    by (auto simp: inj_on_def rule_key_def)
  then have "distinct (map rule_key many_rules)" by (simp add: many_rules_def distinct_map comp_def)
  moreover have "\<forall>rule \<in> set many_rules. 0 < rule_limit rule" by (auto simp: many_rules_def rule_limit_def)
  ultimately have "validate_configuration many_rules 5 = Ok ()"
    by (simp add: validate_configuration_def validate_rules_Ok)
  moreover have "length many_rules > MAX_RESERVATION_INTENTS" by (simp add: many_rules_def MAX_RESERVATION_INTENTS_def)
  ultimately show ?thesis
    unfolding in_memory_transact_def using oversized_rule_sets_refuse_every_transaction by blast
qed


definition sample_run :: "store_transaction list" where
  "sample_run = map (\<lambda>(n, command). sample_transaction [1] (if n = 0 then None else Some (word_of_nat n)) command)
     (zip [0..<6] (take 6 sample_commands))"

theorem tokens_are_granted_once_per_workflow_witness:
  "let outcomes = fst (run_store (in_memory_transact sample_digest sample_rules 5) [] sample_run)
   in length (filter (grants_call [1]) outcomes) = 1 \<and> length (filter (grants_credential [1]) outcomes) \<le> 1"
proof -
  let ?run = "run_store (in_memory_transact sample_digest sample_rules 5) [] sample_run"
  have "length (filter (grants_call [1]) (fst ?run)) \<le> 1 \<and> length (filter (grants_credential [1]) (fst ?run)) \<le> 1"
    unfolding in_memory_transact_def
    by (rule tokens_are_granted_once_per_workflow [OF prod.collapse [symmetric]])
  moreover have "length (filter (grants_call [1]) (fst ?run)) \<noteq> 0" by code_simp
  ultimately show ?thesis unfolding Let_def by linarith
qed

end
