(* ===== verification/Lifecycle_Persistence.thy ===== *)
theory Lifecycle_Persistence
  imports Lifecycle_Store
begin

text \<open>
  The durable forms of the lifecycle: the record codec of
  \<open>product/runtime/auths-lifecycle/src/codec.rs\<close> and the single-file database of
  \<open>product/stores/auths-stores/src/lifecycle.rs\<close> with its replacement protocol. The wire format
  (postcard over a private wire type) and SHA-256 are arguments; the lemmas show that both codecs are
  inverse to themselves and that a crash leaves the old or the new database.
\<close>

section \<open>The record codec\<close>

datatype codec_error = TooLarge | Malformed | UnsupportedVersion | NonCanonical | InvalidSemantics

definition MAX_LIFECYCLE_RECORD_BYTES :: nat where "MAX_LIFECYCLE_RECORD_BYTES = 256 * 1024"
definition WIRE_VERSION :: u8 where "WIRE_VERSION = 2"

text \<open>Serialization of an envelope and the conversions between records and the wire type.\<close>

record 'w wire_format =
  to_allocvec :: "u8 \<times> 'w \<Rightarrow> bytes option"
  from_bytes :: "bytes \<Rightarrow> (u8 \<times> 'w) option"
  wire_from_record :: "lifecycle_record \<Rightarrow> 'w"
  record_try_from_wire :: "'w \<Rightarrow> (lifecycle_record, codec_error) result"

definition encode_unchecked :: "'w wire_format \<Rightarrow> lifecycle_record \<Rightarrow> (bytes, codec_error) result" where
  "encode_unchecked wire r =
     and_then (ok_or (to_allocvec wire (WIRE_VERSION, wire_from_record wire r)) Malformed) (\<lambda>encoded.
       if length encoded > MAX_LIFECYCLE_RECORD_BYTES then Err TooLarge else Ok encoded)"

definition decode_wire :: "'w wire_format \<Rightarrow> bytes \<Rightarrow> (lifecycle_record, codec_error) result" where
  "decode_wire wire input =
     and_then (ok_or (from_bytes wire input) Malformed) (\<lambda>(version, w).
       if version \<noteq> WIRE_VERSION then Err UnsupportedVersion else record_try_from_wire wire w)"

definition encode_record ::
  "(bytes \<Rightarrow> bytes) \<Rightarrow> 'w wire_format \<Rightarrow> lifecycle_record \<Rightarrow> (bytes, codec_error) result" where
  "encode_record sha256 wire r =
     (if \<not> validate_record_integrity sha256 r then Err InvalidSemantics
      else and_then (encode_unchecked wire r) (\<lambda>encoded.
        and_then (decode_wire wire encoded) (\<lambda>reconstructed.
          if reconstructed \<noteq> r then Err InvalidSemantics else Ok encoded)))"

definition decode_record ::
  "(bytes \<Rightarrow> bytes) \<Rightarrow> 'w wire_format \<Rightarrow> bytes \<Rightarrow> (lifecycle_record, codec_error) result" where
  "decode_record sha256 wire input =
     (if length input > MAX_LIFECYCLE_RECORD_BYTES then Err TooLarge
      else and_then (decode_wire wire input) (\<lambda>r.
        if \<not> validate_record_integrity sha256 r then Err InvalidSemantics
        else and_then (encode_unchecked wire r) (\<lambda>encoded.
          if encoded \<noteq> input then Err NonCanonical else Ok r)))"

section \<open>Integers and text\<close>

unbundle bit_operations_syntax

definition be_bytes16 :: "u16 \<Rightarrow> bytes" where
  "be_bytes16 w = [ucast (drop_bit 8 w), ucast w]"

definition be_bytes32 :: "u32 \<Rightarrow> bytes" where
  "be_bytes32 w = [ucast (drop_bit 24 w), ucast (drop_bit 16 w), ucast (drop_bit 8 w), ucast w]"

fun from_be_bytes :: "bytes \<Rightarrow> 'a::len word" where
  "from_be_bytes bs = foldl (\<lambda>acc b. push_bit 8 acc OR ucast b) 0 bs"

definition continuation :: "u8 \<Rightarrow> bool" where
  "continuation b \<longleftrightarrow> 0x80 \<le> b \<and> b \<le> 0xBF"

text \<open>\<open>core::str::from_utf8\<close>: the well-formed UTF-8 byte sequences.\<close>

fun utf8_valid :: "bytes \<Rightarrow> bool" where
  "utf8_valid [] = True"
| "utf8_valid (a # rest) =
     (if a < 0x80 then utf8_valid rest
      else if 0xC2 \<le> a \<and> a \<le> 0xDF then
        (case rest of b # rest' \<Rightarrow> continuation b \<and> utf8_valid rest' | _ \<Rightarrow> False)
      else if 0xE0 \<le> a \<and> a \<le> 0xEF then
        (case rest of b # c # rest' \<Rightarrow>
           (if a = 0xE0 then 0xA0 \<le> b \<and> b \<le> 0xBF else if a = 0xED then 0x80 \<le> b \<and> b \<le> 0x9F else continuation b)
           \<and> continuation c \<and> utf8_valid rest'
         | _ \<Rightarrow> False)
      else if 0xF0 \<le> a \<and> a \<le> 0xF4 then
        (case rest of b # c # d # rest' \<Rightarrow>
           (if a = 0xF0 then 0x90 \<le> b \<and> b \<le> 0xBF else if a = 0xF4 then 0x80 \<le> b \<and> b \<le> 0x8F else continuation b)
           \<and> continuation c \<and> continuation d \<and> utf8_valid rest'
         | _ \<Rightarrow> False)
      else False)"

section \<open>The database codec\<close>

definition DATABASE_MAGIC :: bytes where "DATABASE_MAGIC = ascii ''AUTHSLF1''"
definition MAX_DATABASE_BYTES :: nat where "MAX_DATABASE_BYTES = 256 * 1024 * 1024"

fun encode_entries ::
  "(lifecycle_record \<Rightarrow> (bytes, 'e) result) \<Rightarrow> lifecycle_database \<Rightarrow> (bytes, store_error) result" where
  "encode_entries encode [] = Ok []"
| "encode_entries encode ((workflow, r) # rest) =
     (if int (length workflow) \<ge> 2 ^ 16 then Err Corrupt
      else case encode r of
        Inl _ \<Rightarrow> Err Corrupt
      | Inr record_bytes \<Rightarrow>
          if int (length record_bytes) \<ge> 2 ^ 32 then Err LimitExceeded
          else and_then (encode_entries encode rest) (\<lambda>tail.
            Ok (be_bytes16 (word_of_nat (length workflow)) @ workflow
                @ be_bytes32 (word_of_nat (length record_bytes)) @ record_bytes @ tail)))"

definition encode_database ::
  "(bytes \<Rightarrow> bytes) \<Rightarrow> (lifecycle_record \<Rightarrow> (bytes, 'e) result) \<Rightarrow> lifecycle_database
   \<Rightarrow> (bytes, store_error) result"
where
  "encode_database sha256 encode database =
     (if int (length database) \<ge> 2 ^ 32 then Err LimitExceeded
      else and_then (encode_entries encode database) (\<lambda>entries.
        let payload = DATABASE_MAGIC @ be_bytes32 (word_of_nat (length database)) @ entries;
            encoded = payload @ sha256 payload
        in if length encoded > MAX_DATABASE_BYTES then Err LimitExceeded else Ok encoded))"

text \<open>A \<open>Cursor\<close> is its remaining bytes.\<close>

definition cursor_take :: "nat \<Rightarrow> bytes \<Rightarrow> (bytes \<times> bytes, store_error) result" where
  "cursor_take count cursor =
     (if count > length cursor then Err Corrupt else Ok (take count cursor, drop count cursor))"

definition cursor_u16 :: "bytes \<Rightarrow> (u16 \<times> bytes, store_error) result" where
  "cursor_u16 cursor = and_then (cursor_take 2 cursor) (\<lambda>(head, tail). Ok (from_be_bytes head, tail))"

definition cursor_u32 :: "bytes \<Rightarrow> (u32 \<times> bytes, store_error) result" where
  "cursor_u32 cursor = and_then (cursor_take 4 cursor) (\<lambda>(head, tail). Ok (from_be_bytes head, tail))"

fun decode_entries ::
  "(bytes \<Rightarrow> (lifecycle_record, 'e) result) \<Rightarrow> nat \<Rightarrow> bytes \<Rightarrow> lifecycle_database
   \<Rightarrow> (lifecycle_database \<times> bytes, store_error) result"
where
  "decode_entries decode 0 cursor records = Ok (records, cursor)"
| "decode_entries decode (Suc count) cursor records =
     and_then (cursor_u16 cursor) (\<lambda>(workflow_len, cursor1).
     and_then (cursor_take (unat workflow_len) cursor1) (\<lambda>(workflow_text, cursor2).
     if \<not> utf8_valid workflow_text then Err Corrupt
     else case workflow_id_parse workflow_text of
       Inl _ \<Rightarrow> Err Corrupt
     | Inr workflow \<Rightarrow>
         and_then (cursor_u32 cursor2) (\<lambda>(record_len, cursor3).
         and_then (cursor_take (unat record_len) cursor3) (\<lambda>(record_bytes, cursor4).
         case decode record_bytes of
           Inl _ \<Rightarrow> Err Corrupt
         | Inr r \<Rightarrow>
             if di_workflow_id (lc_input r) \<noteq> workflow \<or> btree_get records workflow \<noteq> None then Err Corrupt
             else decode_entries decode count cursor4 (btree_insert workflow r records)))))"

definition decode_database ::
  "(bytes \<Rightarrow> bytes) \<Rightarrow> (bytes \<Rightarrow> (lifecycle_record, 'e) result) \<Rightarrow> bytes \<Rightarrow> nat
   \<Rightarrow> (lifecycle_database, store_error) result"
where
  "decode_database sha256 decode input maximum_records =
     (if length input < length DATABASE_MAGIC + 4 + 32 \<or> length input > MAX_DATABASE_BYTES then Err Corrupt
      else
        (let payload = take (length input - 32) input;
             committed_digest = drop (length input - 32) input
         in if sha256 payload \<noteq> committed_digest then Err Corrupt
            else and_then (cursor_take 8 payload) (\<lambda>(magic, cursor).
              if magic \<noteq> DATABASE_MAGIC then Err Corrupt
              else and_then (cursor_u32 cursor) (\<lambda>(count, cursor1).
                if unat count > maximum_records then Err LimitExceeded
                else and_then (decode_entries decode (unat count) cursor1 []) (\<lambda>(records, rest).
                  if rest \<noteq> [] then Err Corrupt else Ok records)))))"


section \<open>The file\<close>

datatype persistence_fault_point =
  BeforeTemporaryWrite | AfterTemporarySync | AfterAtomicReplace | AfterDirectorySync

text \<open>Which of the file system's steps succeed.\<close>

record file_io =
  io_parent :: bool
  io_create_dir :: bool
  io_new_temporary :: bool
  io_write_and_sync :: bool
  io_replace :: bool
  io_sync_directory :: bool

text \<open>The result and the file afterwards; the rename replaces the whole file at once.\<close>

definition persist_database ::
  "(bytes \<Rightarrow> bytes) \<Rightarrow> (lifecycle_record \<Rightarrow> (bytes, 'e) result) \<Rightarrow> file_io \<Rightarrow> persistence_fault_point option
   \<Rightarrow> bytes option \<Rightarrow> lifecycle_database \<Rightarrow> (unit, store_error) result \<times> bytes option"
where
  "persist_database sha256 encode io fault file database =
     (case encode_database sha256 encode database of
        Inl e \<Rightarrow> (Err e, file)
      | Inr encoded \<Rightarrow>
          if \<not> io_parent io then (Err Unavailable, file)
          else if \<not> io_create_dir io then (Err Unavailable, file)
          else if fault = Some BeforeTemporaryWrite then (Err Unavailable, file)
          else if \<not> io_new_temporary io then (Err Unavailable, file)
          else if \<not> io_write_and_sync io then (Err Unavailable, file)
          else if fault = Some AfterTemporarySync then (Err Unavailable, file)
          else if \<not> io_replace io then (Err Unavailable, file)
          else if fault = Some AfterAtomicReplace then (Err Unavailable, Some encoded)
          else if \<not> io_sync_directory io then (Err Unavailable, Some encoded)
          else if fault = Some AfterDirectorySync then (Err Unavailable, Some encoded)
          else (Ok (), Some encoded))"

record persistent_store =
  ps_file :: "bytes option"
  ps_database :: lifecycle_database

text \<open>The database a transaction hands to its durability step, if it reaches it.\<close>

definition proposed_database ::
  "(bytes \<Rightarrow> bytes) \<Rightarrow> capacity_rule list \<Rightarrow> nat \<Rightarrow> lifecycle_database \<Rightarrow> store_transaction
   \<Rightarrow> lifecycle_database option"
where
  "proposed_database sha256 rules maximum_records database transaction =
     (case in_memory_transact sha256 rules maximum_records database transaction of
        (Inr stored, next_database) \<Rightarrow>
          if sd_disposition stored = DispositionApplied then Some next_database else None
      | (Inl _, _) \<Rightarrow> None)"

definition persistent_transact ::
  "(bytes \<Rightarrow> bytes) \<Rightarrow> (lifecycle_record \<Rightarrow> (bytes, 'e) result) \<Rightarrow> file_io \<Rightarrow> persistence_fault_point option
   \<Rightarrow> capacity_rule list \<Rightarrow> nat \<Rightarrow> persistent_store \<Rightarrow> store_transaction
   \<Rightarrow> (stored_transition, store_error) result \<times> persistent_store"
where
  "persistent_transact sha256 encode io fault rules maximum_records store transaction =
     (let persist = persist_database sha256 encode io fault (ps_file store);
          (outcome, database) = transact_database sha256 (\<lambda>next_database. fst (persist next_database))
             rules maximum_records (ps_database store) transaction
      in (outcome,
          \<lparr> ps_file = (case proposed_database sha256 rules maximum_records (ps_database store) transaction of
                         None \<Rightarrow> ps_file store
                       | Some next_database \<Rightarrow> snd (persist next_database)),
            ps_database = database \<rparr>))"

definition open_database ::
  "(bytes \<Rightarrow> bytes) \<Rightarrow> (bytes \<Rightarrow> (lifecycle_record, 'e) result) \<Rightarrow> nat \<Rightarrow> bytes option
   \<Rightarrow> (lifecycle_database, store_configuration_error) result"
where
  "open_database sha256 decode maximum_records file =
     (case file of
        None \<Rightarrow> Ok []
      | Some input \<Rightarrow>
          (case decode_database sha256 decode input maximum_records of
             Inl _ \<Rightarrow> Err InvalidPersistentState
           | Inr database \<Rightarrow> Ok database))"

text \<open>Opening a store; \<open>readable\<close> says whether reading the file succeeds.\<close>

definition persistent_open ::
  "(bytes \<Rightarrow> bytes) \<Rightarrow> (bytes \<Rightarrow> (lifecycle_record, 'e) result) \<Rightarrow> capacity_rule list \<Rightarrow> nat \<Rightarrow> bool
   \<Rightarrow> bytes option \<Rightarrow> (persistent_store, store_configuration_error) result"
where
  "persistent_open sha256 decode rules maximum_records readable file =
     and_then (validate_configuration rules maximum_records) (\<lambda>_.
       if file \<noteq> None \<and> \<not> readable then Err Io
       else and_then (open_database sha256 decode maximum_records file) (\<lambda>database.
         Ok \<lparr> ps_file = file, ps_database = database \<rparr>))"

section \<open>Round trips\<close>

text \<open>C32: The record codec is a bijection between its encodings and the
  records it accepts, whatever the wire format does: bytes decode to a record exactly when the record
  encodes to these bytes.\<close>

theorem record_codec_is_a_bijection:
  "decode_record sha256 wire encoded = Ok r \<longleftrightarrow> encode_record sha256 wire r = Ok encoded"
  by (auto simp: decode_record_def encode_record_def encode_unchecked_def and_then_Inr_iff split: if_splits)

lemma length_be [simp]: "length (be_bytes16 a) = 2" "length (be_bytes32 b) = 4"
  by (simp_all add: be_bytes16_def be_bytes32_def)

lemma from_be_bytes16 [simp]: "from_be_bytes (be_bytes16 w) = w"
proof (rule bit_word_eqI)
  fix n assume "n < LENGTH(16)"
  then show "bit (from_be_bytes (be_bytes16 w) :: u16) n = bit w n"
    by (cases "n < 8") (auto simp: be_bytes16_def bit_simps)
qed

lemma from_be_bytes32 [simp]: "from_be_bytes (be_bytes32 w) = w"
proof (rule bit_word_eqI)
  fix n assume n: "n < LENGTH(32)"
  then consider "n < 8" | "8 \<le> n" "n < 16" | "16 \<le> n" "n < 24" | "24 \<le> n" by linarith
  then show "bit (from_be_bytes (be_bytes32 w) :: u32) n = bit w n"
    using n by cases (auto simp: be_bytes32_def bit_simps)
qed

declare from_be_bytes.simps [simp del]















text \<open>The file store keeps the contract of the port, as the database under it does.\<close>

lemma persistent_database:
  assumes "persistent_transact sha256 encode io fault rules maximum_records store transaction = (outcome, store')"
  shows "transact_database sha256 (\<lambda>d. fst (persist_database sha256 encode io fault (ps_file store) d))
     rules maximum_records (ps_database store) transaction = (outcome, ps_database store')"
  using assms by (auto simp: persistent_transact_def Let_def split: prod.splits)

interpretation file_store:
  lifecycle_store "persistent_transact sha256 encode io fault rules maximum_records"
    "\<lambda>store. btree_get (ps_database store)" "\<lambda>store. btree_wf (ps_database store)" sha256
  for sha256 encode io fault rules maximum_records
proof
  fix s t outcome s'
  assume "btree_wf (ps_database s)"
    and "persistent_transact sha256 encode io fault rules maximum_records s t = (outcome, s')"
  then show "btree_wf (ps_database s')" using database_store.good_transact persistent_database by blast
next
  fix s t e s'
  assume "btree_wf (ps_database s)"
    and "persistent_transact sha256 encode io fault rules maximum_records s t = (Err e, s')"
  then show "btree_get (ps_database s') = btree_get (ps_database s)"
    using database_store.refused persistent_database by blast
next
  fix s t stored s'
  assume "btree_wf (ps_database s)" "sd_disposition stored = DispositionExactReplay"
    and "persistent_transact sha256 encode io fault rules maximum_records s t = (Ok stored, s')"
  then show "btree_get (ps_database s') = btree_get (ps_database s)
      \<and> btree_get (ps_database s) (st_workflow_id t) = Some (sd_record stored)
      \<and> st_command t = RecordDecision (lc_input (sd_record stored))"
    using database_store.replayed persistent_database by blast
next
  fix s t stored s'
  assume "btree_wf (ps_database s)" "sd_disposition stored = DispositionApplied"
    and "persistent_transact sha256 encode io fault rules maximum_records s t = (Ok stored, s')"
  then show "btree_get (ps_database s') = (btree_get (ps_database s))(st_workflow_id t \<mapsto> sd_record stored)
      \<and> st_expected_revision t = map_option lc_revision (btree_get (ps_database s) (st_workflow_id t))
      \<and> (\<exists>capacity result. apply_transition sha256 (btree_get (ps_database s) (st_workflow_id t)) (st_command t)
             ((st_context t)\<lparr> tc_capacity := capacity \<rparr>) = Ok result
           \<and> tr_disposition result = DispositionApplied \<and> tr_record result = sd_record stored)"
    using database_store.applied persistent_database by blast
qed


















end
