(* ===== verification/Spec2Isabelle.thy ===== *)
theory Spec2Isabelle
  imports Verifier_Trace Registry_Laws Gateway_Order Gateway_Recovery Gateway_Construct Gateway_Capacity
    Lifecycle_Persistence
begin

text \<open>
  Verification of the auths-proof sources.

  The program decides whether a delegated agent may perform an external action, performs it through a
  gateway at most once, and keeps a durable record of what happened. Its decision logic is in small
  pure crates (the kernels), the state in stores behind ports; the development follows this division.

  \<^bold>\<open>Shared.\<close> \<open>Auths_Prelude\<close> has the machine integers, Rust's \<open>Result\<close>, checked and saturating
  arithmetic, byte strings, and the locales \<open>forward_steps\<close> and \<open>kept_history\<close> for components that
  only move forward or keep their history. \<open>Btree_Map\<close> is Rust's \<open>BTreeMap\<close> as the list of its
  entries in key order.

  \<^bold>\<open>Algebra kernel\<close> (\<open>core/crates/auths-algebra-kernel\<close>): \<open>Algebra_Kernel\<close>, the three-valued
  conjunction, threshold counting and root linkage.

  \<^bold>\<open>Core model and authority\<close> (\<open>core/crates/auths-model\<close>, \<open>auths-authority\<close>, \<open>auths-composition\<close>).
  \<open>Authority_Model\<close> has grants, anchors and actions with the attenuation relations, \<open>Authority\<close> the
  accumulation of a grant chain: no delegation expands what its parent allows, and an authorized action
  is within every grant. \<open>Composition\<close> has authorization plans, their construction and evaluation: the
  outcome of a plan is the order statistic of its members. \<open>Observation_Model\<close> and \<open>Approval_Model\<close>
  have the requirements on observations and approvals and when one requirement narrows another.

  \<^bold>\<open>Registries\<close> (\<open>auths-ports\<close>, \<open>auths-registries\<close>): \<open>Registries\<close> has the port traits as records of
  functions, every built-in handler and the lookups, \<open>Registry_Laws\<close> the laws of the handlers;
  \<open>Assurance\<close> the assurance policies (\<open>auths-assurance\<close>).

  \<^bold>\<open>Verifier\<close> (\<open>core/crates/auths-verifier\<close>). \<open>Verifier_Model\<close> has the bundle, the context, the failures
  and the stages, functions of a state that carry the work meter; \<open>Verifier_Resolve\<close> decoding and the
  resolution of every reference, \<open>Verifier_Control\<close> the control of every signed statement,
  \<open>Verifier_Stages\<close> the checks of a branch, \<open>Verifier_Observation\<close> and \<open>Verifier_Approval\<close> the
  observations and approvals, \<open>Verifier_Branch\<close> one branch of the plan, \<open>Verifier\<close> the plan, the
  composition floors, the sealed action and \<open>verify\<close>, \<open>Verifier_Portable\<close> the portable result and
  the byte-oriented entry, and \<open>Verifier_Trace\<close> the recorded facts and the causal explanation.
  Each check is followed by what its success means; the whole gives that an authorized action has a plan satisfied by branches that are signed, attenuated, in force, assured,
  observed and approved, that one work limit bounds a verification, that the result sealed from
  bytes is the decision of \<open>verify\<close>, and that an explanation is the ancestry of the decision.
  \<open>Verifier_Samples\<close> has one proof on which all of it is evaluated.

  \<^bold>\<open>Gateway kernel\<close> (\<open>product/runtime/auths-gateway-kernel\<close>). \<open>Gateway_Order\<close> models the step machine
  that orders the checks of one submission (\<open>order.rs\<close>) and the loop that drives it
  (\<open>auths-gateway/src/submit.rs\<close>); its bound is the number of steps the machine can take, and the
  loop is shown to reach its stop within it. \<open>Gateway_Transition\<close> has the rule that every write of an
  attempt record must pass (\<open>transition.rs\<close>), \<open>Gateway_Recovery\<close> the recovery capabilities and outcomes
  read from a record, \<open>Gateway_Ratio\<close> the relative ceiling, \<open>Gateway_Construct\<close> the construction of the
  one provider request from a recipe's slots (\<open>construct.rs\<close>). The lemmas show the order of checks,
  at-most-once entry, that evidence is never rewritten, and that a request has exactly the declared parts.

  \<^bold>\<open>Bounded policy\<close> (\<open>product/policy/auths-bounded-policy\<close>): \<open>Policy_Kernel\<close> (ceilings, windows,
  counters, tightening, exact percentages), \<open>Policy_Commitments\<close> (commitments and bounded outputs).
  \<open>Gateway_Bounds\<close> evaluates the policies of a whole delegation chain (\<open>auths-gateway/src/bounds.rs\<close>):
  every link must admit the action and every link's counters are charged.

  \<^bold>\<open>Gateway store\<close> (\<open>auths-gateway/src/store.rs\<close>, \<open>store/capacity.rs\<close>): \<open>Gateway_Capacity\<close>, the
  counters of a window as slot rows in a fenced store, the binary search for a counter's frontier and
  one round of a claim. \<open>Slot_Ledger\<close> is the locale of such a ledger, interpreted for counts and for
  sums; its lemmas give the capacity of a window under every interleaving of concurrent claims.

  \<^bold>\<open>Lifecycle\<close> (\<open>product/runtime/auths-lifecycle\<close>). \<open>Lifecycle_Kernel\<close> is the closed transition table
  (\<open>kernel.rs\<close>), \<open>Lifecycle_Model\<close> the data (\<open>model.rs\<close>, \<open>identifier.rs\<close>), \<open>Lifecycle_Transition\<close>
  the transition with its receipts and the integrity check (\<open>transition.rs\<close>), \<open>Lifecycle_Invariants\<close>
  the language of event traces of reachable records and which transitions keep a record valid,
  \<open>Lifecycle_Sealed\<close> the store port and the sealed tokens (\<open>sealed.rs\<close>). The locale
  \<open>lifecycle_store\<close> is the port's contract; it is interpreted by the reference store and by the file store.

  \<^bold>\<open>Lifecycle stores\<close> (\<open>product/stores/auths-stores/src/lifecycle.rs\<close>). \<open>Lifecycle_Store\<close> has the
  capacity snapshot and the transaction every adapter runs, with the theorem that no rule is
  overcommitted; \<open>Lifecycle_Persistence\<close> the record codec (\<open>codec.rs\<close>), the single-file database and
  its replacement under every failing step. The locale \<open>record_codec\<close> carries the database round trip
  and is interpreted by the record codec.

  \<^bold>\<open>Parameters.\<close> SHA-256 is an argument \<open>sha256\<close> of the definitions that hash; where a property needs it,
  the length of its output is a hypothesis. The wire format of a record (postcard over a private type)
  is an argument for which nothing is assumed. File system steps are success flags.

  The canonical codec is the argument \<open>codec\<close>, a record of its decoders, digests, identifiers and signing
  preimages, and \<open>wire_codec\<close> for the inputs and results of the byte-oriented entry; nothing is assumed of
  either. Principal methods and signature suites are values of the registries.

  \<^bold>\<open>Bounds.\<close> Loops over data are structural recursions. The submission loop and the frontier search have
  the bounds the code gives them, and their properties say that the bound suffices. The walk of a grant
  chain has no bound in the code; it is a partial function, shown to return on every resolved proof, so the
  failure that a branch would give for a walk that does not return is never taken. Integers have their
  width; counts compared with large limits are compared as integers.

  \<^bold>\<open>Not modelled.\<close> The CBOR codec itself and authoring; identity and signature adapters; the gateway's HTTP engine and
  recipe files; the Postgres adapters; the runtime's network clients; provider integrations; the exchange
  transport; bindings, tools and test support. These are I/O, cryptography by third-party crates,
  or glue around what is modelled.
\<close>

end
